(* ===== verification/Cicada_Prelude.thy ===== *)
theory Cicada_Prelude
  imports Main "HOL-Library.Sublist"
begin

text \<open>
  Shared vocabulary of the development: Go's error returns as \<open>option\<close> and sum
  values, the early-return idiom of the validators, loops that remember the keys they
  have seen, 64-bit integers, and the generic lemmas the component theories use.

  An error is the sentinel value that \<^verbatim>\<open>errors.Is\<close> finds first in the wrapped
  chain; the text that \<^verbatim>\<open>fmt.Errorf\<close> adds around it is not part of the model.
\<close>

section \<open>Collections of rewrite rules\<close>

named_theorems err_simps \<open>how the early-return combinators succeed\<close>
named_theorems go_defs \<open>definitions unfolded when a model function is evaluated\<close>

section \<open>Early return\<close>

text \<open>
  \<open>None\<close> is Go's \<open>nil\<close> error. \<open>orErr a b\<close> is the statement
  \<^verbatim>\<open>if err := a; err != nil { return err }; return b\<close>.
\<close>

definition orErr :: "'e option \<Rightarrow> 'e option \<Rightarrow> 'e option" where
  "orErr a b = (case a of None \<Rightarrow> b | Some e \<Rightarrow> Some e)"

definition failIf :: "bool \<Rightarrow> 'e \<Rightarrow> 'e option" where
  "failIf c e = (if c then Some e else None)"

lemma orErr_None [simp, err_simps]: "orErr a b = None \<longleftrightarrow> a = None \<and> b = None"
  by (cases a) (simp_all add: orErr_def)

lemma orErr_simps [simp]: "orErr None b = b" "orErr (Some e) b = Some e"
  by (simp_all add: orErr_def)

lemma orErr_Some: "orErr a b = Some e \<longleftrightarrow> a = Some e \<or> a = None \<and> b = Some e"
  by (cases a) simp_all

lemma failIf_None [simp, err_simps]: "failIf c e = None \<longleftrightarrow> \<not> c"
  by (simp add: failIf_def)

lemma failIf_Some [simp]: "failIf c e = Some e' \<longleftrightarrow> c \<and> e' = e"
  by (auto simp: failIf_def)

text \<open>An early return from a function that also returns an updated value.\<close>

lemma early_None [simp, err_simps]:
  "snd (case c of None \<Rightarrow> r | Some e \<Rightarrow> (x e, Some (y e))) = None \<longleftrightarrow> c = None \<and> snd r = None"
  by (cases c) simp_all

lemma early_pair [simp, err_simps]:
  "(case c of None \<Rightarrow> r | Some e \<Rightarrow> (x e, Some (y e))) = (a, None) \<longleftrightarrow> c = None \<and> r = (a, None)"
  by (cases c) simp_all

lemma early_Inr [simp, err_simps]:
  "(case c of None \<Rightarrow> r | Some e \<Rightarrow> (x e, Inl (y e))) = (a, Inr b) \<longleftrightarrow> c = None \<and> r = (a, Inr b)"
  by (cases c) simp_all

text \<open>A loop that returns the first error its body produces.\<close>

primrec firstErr :: "('a \<Rightarrow> 'e option) \<Rightarrow> 'a list \<Rightarrow> 'e option" where
  "firstErr f [] = None"
| "firstErr f (x # xs) = orErr (f x) (firstErr f xs)"

lemma firstErr_None [simp, err_simps]: "firstErr f xs = None \<longleftrightarrow> (\<forall>x\<in>set xs. f x = None)"
  by (induction xs) auto

lemma firstErr_Some: "firstErr f xs = Some e \<Longrightarrow> \<exists>x\<in>set xs. f x = Some e"
  by (induction xs) (auto simp: orErr_Some)

text \<open>A computation that returns \<^verbatim>\<open>(value, error)\<close> is a sum; \<open>bindE\<close> is its early return.\<close>

definition bindE :: "'e + 'a \<Rightarrow> ('a \<Rightarrow> 'e + 'b) \<Rightarrow> 'e + 'b" where
  "bindE m f = (case m of Inl e \<Rightarrow> Inl e | Inr x \<Rightarrow> f x)"

definition guardE :: "'e option \<Rightarrow> 'e + 'b \<Rightarrow> 'e + 'b" where
  "guardE c r = (case c of None \<Rightarrow> r | Some e \<Rightarrow> Inl e)"

lemma bindE_simps [simp]: "bindE (Inl e) f = Inl e" "bindE (Inr x) f = f x"
  by (simp_all add: bindE_def)

lemma bindE_Inr [simp, err_simps]: "bindE m f = Inr y \<longleftrightarrow> (\<exists>x. m = Inr x \<and> f x = Inr y)"
  by (cases m) simp_all

lemma bindE_Inl: "bindE m f = Inl e \<longleftrightarrow> m = Inl e \<or> (\<exists>x. m = Inr x \<and> f x = Inl e)"
  by (cases m) auto

lemma guardE_simps [simp]: "guardE None r = r" "guardE (Some e) r = Inl e"
  by (simp_all add: guardE_def)

lemma guardE_Inr [simp, err_simps]: "guardE c r = Inr y \<longleftrightarrow> c = None \<and> r = Inr y"
  by (cases c) simp_all

lemma guardE_Inl: "guardE c r = Inl e \<longleftrightarrow> c = Some e \<or> c = None \<and> r = Inl e"
  by (cases c) auto

text \<open>The error of a result whose value is dropped.\<close>

definition errOf :: "'e + 'a \<Rightarrow> 'e option" where
  "errOf r = (case r of Inl e \<Rightarrow> Some e | Inr _ \<Rightarrow> None)"

lemma errOf_simps [simp]: "errOf (Inl e) = Some e" "errOf (Inr x) = None"
  by (simp_all add: errOf_def)

lemma errOf_None [simp, err_simps]: "errOf r = None \<longleftrightarrow> (\<exists>x. r = Inr x)"
  by (cases r) simp_all

primrec mapE :: "('a \<Rightarrow> 'e + 'b) \<Rightarrow> 'a list \<Rightarrow> 'e + 'b list" where
  "mapE f [] = Inr []"
| "mapE f (x # xs) = bindE (f x) (\<lambda>y. bindE (mapE f xs) (\<lambda>ys. Inr (y # ys)))"

lemma mapE_Inr: "mapE f xs = Inr ys \<longleftrightarrow> list_all2 (\<lambda>x y. f x = Inr y) xs ys"
  by (induction xs arbitrary: ys) (auto simp: list_all2_Cons1)

lemma mapE_Inl: "mapE f xs = Inl e \<Longrightarrow> \<exists>x\<in>set xs. f x = Inl e"
  by (induction xs) (auto simp: bindE_Inl)

lemma mapE_length: "mapE f xs = Inr ys \<Longrightarrow> length ys = length xs"
  by (auto simp: mapE_Inr dest: list_all2_lengthD)

text \<open>A loop with an accumulator and early return.\<close>

fun foldE :: "('b \<Rightarrow> 'a \<Rightarrow> 'e + 'a) \<Rightarrow> 'b list \<Rightarrow> 'a \<Rightarrow> 'e + 'a" where
  "foldE f [] x = Inr x"
| "foldE f (c # cs) x = bindE (f c x) (foldE f cs)"

lemma foldE_append [simp]: "foldE f (xs @ ys) x = bindE (foldE f xs x) (foldE f ys)"
proof (induction xs arbitrary: x)
  case (Cons c cs)
  show ?case by (cases "f c x") (simp_all add: Cons.IH)
qed simp

lemma foldE_cong:
  "(\<And>c y. c \<in> set cs \<Longrightarrow> f c y = g c y) \<Longrightarrow> foldE f cs x = foldE g cs x"
proof (induction cs arbitrary: x)
  case (Cons c cs)
  then show ?case by (cases "f c x") (simp_all)
qed simp

lemma foldE_collect:
  assumes "\<And>x acc. x \<in> set xs \<Longrightarrow> f (nd x) (g acc) = Inr (g (acc @ [x]))"
  shows "foldE f (map nd xs) (g acc) = Inr (g (acc @ xs))"
  using assms
proof (induction xs arbitrary: acc)
  case (Cons x xs)
  then show ?case using Cons.IH [of "acc @ [x]"] by simp
qed simp

lemma foldE_invariant:
  assumes "foldE f cs x = Inr y" "P x" "\<And>c x y. c \<in> set cs \<Longrightarrow> P x \<Longrightarrow> f c x = Inr y \<Longrightarrow> P y"
  shows "P y"
  using assms by (induction cs arbitrary: x) auto

lemma foldE_Inl: "foldE f cs x = Inl e \<Longrightarrow> \<exists>c\<in>set cs. \<exists>y. f c y = Inl e"
  by (induction cs arbitrary: x) (auto simp: bindE_Inl)

lemma foldE_agree:
  assumes "P x" "\<And>c x. c \<in> set cs \<Longrightarrow> P x \<Longrightarrow> f c x = g c x"
    "\<And>c x y. c \<in> set cs \<Longrightarrow> P x \<Longrightarrow> f c x = Inr y \<Longrightarrow> P y"
  shows "foldE f cs x = foldE g cs x"
  using assms
proof (induction cs arbitrary: x)
  case (Cons c cs)
  then show ?case by (cases "f c x") (simp_all, metis)
qed simp

lemma foldE_mono:
  "(\<And>c x y. f c x = Inr y \<Longrightarrow> g c x = Inr y) \<Longrightarrow> foldE f cs x = Inr y \<Longrightarrow> foldE g cs x = Inr y"
  by (induction cs arbitrary: x) auto

section \<open>Loops with a set of seen keys\<close>

text \<open>
  Most validators run \<^verbatim>\<open>for _, x := range xs\<close> with a map of the keys seen so far:
  the body may look the key up and fails on a duplicate, and the key is recorded before
  the next round. \<open>runSeen\<close> is that loop.
\<close>

primrec runSeen ::
  "('k set \<Rightarrow> 'a \<Rightarrow> 'e option) \<Rightarrow> ('a \<Rightarrow> 'k) \<Rightarrow> 'k set \<Rightarrow> 'a list \<Rightarrow> 'e option" where
  "runSeen body key seen [] = None"
| "runSeen body key seen (x # xs) =
     orErr (body seen x) (runSeen body key (insert (key x) seen) xs)"

lemma runSeen_Some: "runSeen body key seen xs = Some e \<Longrightarrow> \<exists>s x. body s x = Some e"
  by (induction xs arbitrary: seen) (auto simp: orErr_Some)

text \<open>
  The contract of such a loop body: it accepts an element when the element alone is
  acceptable and its key is new.
\<close>

locale dedup_loop =
  fixes body :: "'k set \<Rightarrow> 'a \<Rightarrow> 'e option"
    and key :: "'a \<Rightarrow> 'k"
    and ok :: "'a \<Rightarrow> bool"
  assumes body_accepts: "body seen x = None \<longleftrightarrow> ok x \<and> key x \<notin> seen"
begin

lemma run_from:
  "runSeen body key seen xs = None \<longleftrightarrow>
     (\<forall>x\<in>set xs. ok x) \<and> distinct (map key xs) \<and> key ` set xs \<inter> seen = {}"
  by (induction xs arbitrary: seen) (auto simp: body_accepts)

lemma run_accepts:
  "runSeen body key {} xs = None \<longleftrightarrow> (\<forall>x\<in>set xs. ok x) \<and> distinct (map key xs)"
  by (simp add: run_from)

end

text \<open>
  A loop that appends the elements whose key it has not seen yet. The library's
  \<open>remdups\<close> keeps the last occurrence, the loop keeps the first.
\<close>

primrec dedupBy :: "('a \<Rightarrow> 'k) \<Rightarrow> 'k set \<Rightarrow> 'a list \<Rightarrow> 'a list" where
  "dedupBy key seen [] = []"
| "dedupBy key seen (x # xs) =
     (if key x \<in> seen then dedupBy key seen xs
      else x # dedupBy key (insert (key x) seen) xs)"

lemma set_dedupBy: "key ` set (dedupBy key seen xs) = key ` set xs - seen"
  by (induction xs arbitrary: seen) auto

lemma set_dedupBy_id [simp]: "set (dedupBy id seen xs) = set xs - seen"
  using set_dedupBy [of id seen xs] by simp

lemma distinct_dedupBy [simp]: "distinct (map key (dedupBy key seen xs))"
proof (induction xs arbitrary: seen)
  case (Cons x xs)
  then show ?case using set_dedupBy [of key "insert (key x) seen" xs] by auto
qed simp

lemma distinct_dedupBy_id [simp]: "distinct (dedupBy id seen xs)"
  using distinct_dedupBy [of id seen xs] by simp

lemma subseq_dedupBy: "subseq (dedupBy key seen xs) xs"
  by (induction xs arbitrary: seen) (auto intro: subseq_Cons')

lemma dedupBy_snoc:
  "dedupBy key seen (xs @ [x]) =
     dedupBy key seen xs @ (if key x \<in> seen \<union> key ` set xs then [] else [x])"
  by (induction xs arbitrary: seen) auto

lemma dedupBy_remdups: "dedupBy id {} xs = rev (remdups (rev xs))"
  by (induction xs rule: rev_induct) (auto simp: dedupBy_snoc)

lemma dedupBy_filter: "dedupBy key seen xs = dedupBy key {} (filter (\<lambda>x. key x \<notin> seen) xs)"
proof -
  have "dedupBy key (A \<union> B) xs = dedupBy key A (filter (\<lambda>x. key x \<notin> B) xs)" for A B
    by (induction xs arbitrary: A) (auto simp flip: Un_insert_left)
  from this [of "{}" seen] show ?thesis by simp
qed

section \<open>64-bit integers\<close>

text \<open>
  Go's \<^verbatim>\<open>int\<close>, \<^verbatim>\<open>int64\<close> and \<^verbatim>\<open>time.Duration\<close> are 64-bit two's complement on the
  platforms cicada builds for. They are \<open>int\<close> values here, and every operation that
  may leave the range goes through \<open>wrap64\<close>.
\<close>

definition wrap64 :: "int \<Rightarrow> int" where
  "wrap64 x = (x + 2 ^ 63) mod 2 ^ 64 - 2 ^ 63"

definition MaxInt :: int where
  "MaxInt = 2 ^ 63 - 1"

definition in64 :: "int \<Rightarrow> bool" where
  "in64 x \<longleftrightarrow> - (2 ^ 63) \<le> x \<and> x \<le> MaxInt"

lemma wrap64_id [simp]: "in64 x \<Longrightarrow> wrap64 x = x"
  by (simp add: wrap64_def in64_def MaxInt_def)

lemma in64_wrap64 [simp]: "in64 (wrap64 x)"
proof -
  have "0 \<le> (x + 2 ^ 63) mod 2 ^ 64" "(x + 2 ^ 63) mod 2 ^ 64 < 2 ^ 64"
    by simp_all
  then show ?thesis
    by (simp add: in64_def MaxInt_def wrap64_def)
qed

section \<open>Lists\<close>

text \<open>\<open>before xs a b\<close>: some occurrence of \<open>a\<close> precedes every element \<open>b\<close> of a duplicate-free list.\<close>

definition before :: "'a list \<Rightarrow> 'a \<Rightarrow> 'a \<Rightarrow> bool" where
  "before xs a b \<longleftrightarrow> (\<exists>us vs ws. xs = us @ a # vs @ b # ws)"

lemma before_index:
  assumes "before xs a b"
  obtains i j where "i < j" "j < length xs" "xs ! i = a" "xs ! j = b"
proof -
  from assms obtain us vs ws where xs: "xs = us @ a # vs @ b # ws"
    by (auto simp: before_def)
  show ?thesis
    by (rule that [of "length us" "length us + Suc (length vs)"]) (simp_all add: xs nth_append)
qed

lemma beforeI_append: "a \<in> set us \<Longrightarrow> xs = us @ b # vs \<Longrightarrow> before xs a b"
  unfolding before_def by (metis append.assoc append_Cons split_list)

lemma distinct_map_filter [intro]: "distinct (map f xs) \<Longrightarrow> distinct (map f (filter P xs))"
  by (induction xs) auto

lemma map_of_Some_distinct:
  "distinct (map fst xs) \<Longrightarrow> map_of xs k = Some v \<longleftrightarrow> (k, v) \<in> set xs"
  by (rule map_of_eq_Some_iff)

lemma option_eqI: "(\<And>x. a = Some x \<longleftrightarrow> b = Some x) \<Longrightarrow> a = b"
  by (cases a; cases b) auto

section \<open>Relations\<close>

text \<open>Renaming the nodes of a relation injectively keeps it acyclic.\<close>

lemma trancl_map_prod:
  assumes "inj_on f (Field r)" "(a, b) \<in> (map_prod f f ` r)\<^sup>+"
  shows "\<exists>x y. a = f x \<and> b = f y \<and> (x, y) \<in> r\<^sup>+"
  using assms(2)
proof (induction rule: trancl_induct)
  case (base b)
  then show ?case by auto
next
  case (step b c)
  then obtain x y y' z where "a = f x" "b = f y" "(x, y) \<in> r\<^sup>+"
    and z: "b = f y'" "c = f z" "(y', z) \<in> r" by auto
  moreover from this have "y \<in> Field r" "y' \<in> Field r"
    by (auto simp: Field_def dest: tranclD2)
  with assms(1) \<open>b = f y\<close> z(1) have "y = y'" by (auto dest: inj_onD)
  ultimately show ?case by (auto intro: trancl_into_trancl)
qed

lemma acyclic_map_prod:
  assumes "inj_on f (Field r)"
  shows "acyclic (map_prod f f ` r) \<longleftrightarrow> acyclic r"
proof
  assume ac: "acyclic (map_prod f f ` r)"
  have "(f x, f y) \<in> (map_prod f f ` r)\<^sup>+" if "(x, y) \<in> r\<^sup>+" for x y
    using that by (induction rule: trancl_induct) (auto intro: trancl_into_trancl rev_image_eqI)
  with ac show "acyclic r" by (auto simp: acyclic_def)
next
  assume ac: "acyclic r"
  show "acyclic (map_prod f f ` r)"
    unfolding acyclic_def
  proof (intro allI notI)
    fix a
    assume "(a, a) \<in> (map_prod f f ` r)\<^sup>+"
    from trancl_map_prod [OF assms this]
    obtain x y where xy: "a = f x" "a = f y" "(x, y) \<in> r\<^sup>+" by blast
    then have "x \<in> Field r" "y \<in> Field r" by (auto simp: Field_def dest: tranclD tranclD2)
    with assms xy have "x = y" by (auto dest: inj_onD)
    with xy(3) ac show False by (simp add: acyclic_def)
  qed
qed

end
