(* ===== verification/Go_Strings.thy ===== *)
theory Go_Strings
  imports Cicada_Prelude "HOL-Library.Char_ord" "HOL-Library.List_Lexorder"
begin

text \<open>
  The functions of Go's \<^verbatim>\<open>strings\<close> package that the sources call, on byte strings.
  A Go string is a sequence of bytes, as \<open>string = char list\<close> is, so \<open>length\<close>,
  indexing and comparison agree with Go's; a rune outside ASCII is the bytes of its
  UTF-8 encoding. \<^verbatim>\<open>strings.HasPrefix s p\<close> is \<open>prefix p s\<close> and
  \<^verbatim>\<open>strings.HasSuffix s p\<close> is \<open>suffix p s\<close>.
\<close>

section \<open>Trimming\<close>

text \<open>\<open>trimWith ws s\<close> removes leading members of \<open>ws\<close> until none is a prefix.\<close>

function trimWith :: "string list \<Rightarrow> string \<Rightarrow> string" where
  "trimWith ws s =
     (case find (\<lambda>w. w \<noteq> [] \<and> prefix w s) ws of
        None \<Rightarrow> s
      | Some w \<Rightarrow> trimWith ws (drop (length w) s))"
  by pat_completeness auto
termination
  by (relation "measure (\<lambda>(ws, s). length s)") (auto simp: find_Some_iff prefix_def)

declare trimWith.simps [simp del]

text \<open>
  The encodings of the code points \<^verbatim>\<open>unicode.IsSpace\<close> accepts: the ASCII spaces,
  U+0085, U+00A0, U+1680, U+2000 to U+200A, U+2028, U+2029, U+202F, U+205F and U+3000.
\<close>

definition spaceSeqs :: "string list" where
  "spaceSeqs =
     [[CHR '' ''], [CHR 0x0A], [CHR 0x09], [CHR 0x0D], [CHR 0x0B], [CHR 0x0C],
      [CHR 0xC2, CHR 0x85], [CHR 0xC2, CHR 0xA0], [CHR 0xE1, CHR 0x9A, CHR 0x80],
      [CHR 0xE2, CHR 0x80, CHR 0x80], [CHR 0xE2, CHR 0x80, CHR 0x81],
      [CHR 0xE2, CHR 0x80, CHR 0x82], [CHR 0xE2, CHR 0x80, CHR 0x83],
      [CHR 0xE2, CHR 0x80, CHR 0x84], [CHR 0xE2, CHR 0x80, CHR 0x85],
      [CHR 0xE2, CHR 0x80, CHR 0x86], [CHR 0xE2, CHR 0x80, CHR 0x87],
      [CHR 0xE2, CHR 0x80, CHR 0x88], [CHR 0xE2, CHR 0x80, CHR 0x89],
      [CHR 0xE2, CHR 0x80, CHR 0x8A], [CHR 0xE2, CHR 0x80, CHR 0xA8],
      [CHR 0xE2, CHR 0x80, CHR 0xA9], [CHR 0xE2, CHR 0x80, CHR 0xAF],
      [CHR 0xE2, CHR 0x81, CHR 0x9F], [CHR 0xE3, CHR 0x80, CHR 0x80]]"

definition TrimSpace :: "string \<Rightarrow> string" where
  "TrimSpace s = rev (trimWith (map rev spaceSeqs) (rev (trimWith spaceSeqs s)))"

text \<open>\<^verbatim>\<open>strings.TrimRight\<close> with a cutset of ASCII characters.\<close>

definition TrimRight :: "string \<Rightarrow> string \<Rightarrow> string" where
  "TrimRight s cutset = rev (dropWhile (\<lambda>c. c \<in> set cutset) (rev s))"

lemma trimWith_Nil [simp]: "trimWith ws [] = []"
  by (subst trimWith.simps) (simp split: option.split, auto simp: find_Some_iff)

lemma trimWith_suffix: "suffix (trimWith ws s) s"
proof (induction ws s rule: trimWith.induct)
  case (1 ws s)
  show ?case
  proof (cases "find (\<lambda>w. w \<noteq> [] \<and> prefix w s) ws")
    case None
    then show ?thesis by (subst trimWith.simps) simp
  next
    case (Some w)
    then have "trimWith ws s = trimWith ws (drop (length w) s)"
      by (subst trimWith.simps) simp
    with "1.IH" [OF Some] show ?thesis
      by (simp add: suffix_drop suffix_order.trans)
  qed
qed

lemma trimWith_stop:
  "w \<in> set ws \<Longrightarrow> w \<noteq> [] \<Longrightarrow> \<not> prefix w (trimWith ws s)"
proof (induction ws s rule: trimWith.induct)
  case (1 ws s)
  show ?case
  proof (cases "find (\<lambda>w. w \<noteq> [] \<and> prefix w s) ws")
    case None
    then have "trimWith ws s = s" by (subst trimWith.simps) simp
    with None "1.prems" show ?thesis by (auto simp: find_None_iff)
  next
    case (Some v)
    then have "trimWith ws s = trimWith ws (drop (length v) s)"
      by (subst trimWith.simps) simp
    with "1.IH" [OF Some] "1.prems" show ?thesis by simp
  qed
qed

lemma TrimRight_Nil [simp]: "TrimRight s cutset = [] \<longleftrightarrow> set s \<subseteq> set cutset"
  by (auto simp: TrimRight_def dropWhile_eq_Nil_conv)

lemma TrimSpace_Nil [simp]: "TrimSpace [] = []"
  by (simp add: TrimSpace_def)

section \<open>Splitting, cutting and joining\<close>

text \<open>\<^verbatim>\<open>strings.Split\<close> on a one-byte separator, \<^verbatim>\<open>strings.Cut\<close> and \<^verbatim>\<open>strings.Join\<close>.\<close>

fun splitOn :: "char \<Rightarrow> string \<Rightarrow> string list" where
  "splitOn c [] = [[]]"
| "splitOn c (x # xs) =
     (if x = c then [] # splitOn c xs
      else (case splitOn c xs of [] \<Rightarrow> [[x]] | y # ys \<Rightarrow> (x # y) # ys))"

definition cutAt :: "char \<Rightarrow> string \<Rightarrow> (string \<times> string) option" where
  "cutAt c s = (case dropWhile (\<lambda>x. x \<noteq> c) s of
                  [] \<Rightarrow> None
                | _ # r \<Rightarrow> Some (takeWhile (\<lambda>x. x \<noteq> c) s, r))"

fun joinWith :: "string \<Rightarrow> string list \<Rightarrow> string" where
  "joinWith sep [] = []"
| "joinWith sep [x] = x"
| "joinWith sep (x # y # ys) = x @ sep @ joinWith sep (y # ys)"

lemma splitOn_nonempty [simp]: "splitOn c s \<noteq> []"
  by (induction s) (auto split: list.splits)

lemma splitOn_no_sep [simp]: "c \<notin> set s \<Longrightarrow> splitOn c s = [s]"
  by (induction s) auto

lemma splitOn_append [simp]:
  "c \<notin> set x \<Longrightarrow> splitOn c (x @ c # s) = x # splitOn c s"
  by (induction x) auto

lemma splitOn_joinWith:
  "xs \<noteq> [] \<Longrightarrow> \<forall>x\<in>set xs. c \<notin> set x \<Longrightarrow> splitOn c (joinWith [c] xs) = xs"
proof (induction xs rule: induct_list012)
  case (3 x y zs)
  then show ?case by simp
qed simp_all

lemma splitOn_parts: "x \<in> set (splitOn c s) \<Longrightarrow> c \<notin> set x"
  by (induction s arbitrary: x) (auto split: if_splits list.splits)

lemma joinWith_splitOn: "joinWith [c] (splitOn c s) = s"
proof (induction s)
  case (Cons x xs)
  show ?case
  proof (cases "splitOn c xs")
    case (Cons y ys)
    with Cons.IH show ?thesis by (cases ys) auto
  qed simp
qed simp

lemma cutAt_append [simp]: "c \<notin> set k \<Longrightarrow> cutAt c (k @ c # v) = Some (k, v)"
proof -
  assume c: "c \<notin> set k"
  then have "takeWhile (\<lambda>x. x \<noteq> c) (k @ c # v) = k"
    by (subst takeWhile_append2) auto
  moreover from c have "dropWhile (\<lambda>x. x \<noteq> c) (k @ c # v) = c # v"
    by (subst dropWhile_append2) auto
  ultimately show ?thesis by (simp add: cutAt_def)
qed

lemma cutAt_None [simp]: "cutAt c s = None \<longleftrightarrow> c \<notin> set s"
proof -
  have "dropWhile (\<lambda>x. x \<noteq> c) s = [] \<longleftrightarrow> c \<notin> set s"
    by (auto simp: dropWhile_eq_Nil_conv)
  then show ?thesis
    by (cases "dropWhile (\<lambda>x. x \<noteq> c) s") (auto simp: cutAt_def simp del: dropWhile_eq_Nil_conv)
qed

lemma cutAt_Some: "cutAt c s = Some (k, v) \<longleftrightarrow> s = k @ c # v \<and> c \<notin> set k"
proof
  assume "cutAt c s = Some (k, v)"
  then obtain y where d: "dropWhile (\<lambda>x. x \<noteq> c) s = y # v" and k: "k = takeWhile (\<lambda>x. x \<noteq> c) s"
    by (auto simp: cutAt_def split: list.splits)
  from d have "y = c" using hd_dropWhile [of "\<lambda>x. x \<noteq> c" s] by auto
  with d k have "s = k @ c # v" by (metis takeWhile_dropWhile_id)
  moreover have "c \<notin> set k" using k by (auto dest: set_takeWhileD)
  ultimately show "s = k @ c # v \<and> c \<notin> set k" by simp
qed auto

section \<open>Replacing\<close>

text \<open>
  \<^verbatim>\<open>strings.NewReplacer(pairs...).Replace(s)\<close>: one pass from left to right; at each
  position the first pair (in argument order) whose old string matches there is replaced
  and the scan goes on after the match. Every old string in the sources is non-empty.
\<close>

fun matchAt :: "(string \<times> string) list \<Rightarrow> string \<Rightarrow> (string \<times> string) option" where
  "matchAt [] s = None"
| "matchAt ((old, new) # pairs) s =
     (if old \<noteq> [] \<and> prefix old s then Some (old, new) else matchAt pairs s)"

lemma matchAt_None: "matchAt pairs s = None \<longleftrightarrow> (\<forall>(old, new)\<in>set pairs. old = [] \<or> \<not> prefix old s)"
  by (induction pairs s rule: matchAt.induct) auto

lemma matchAt_Some: "matchAt pairs s = Some (old, new) \<Longrightarrow> (old, new) \<in> set pairs \<and> old \<noteq> [] \<and> prefix old s"
  by (induction pairs s rule: matchAt.induct) (auto split: if_splits)

function replacer :: "(string \<times> string) list \<Rightarrow> string \<Rightarrow> string" where
  "replacer pairs [] = []"
| "replacer pairs (c # s) =
     (case matchAt pairs (c # s) of
        None \<Rightarrow> c # replacer pairs s
      | Some (old, new) \<Rightarrow> new @ replacer pairs (drop (length old) (c # s)))"
  by pat_completeness auto
termination
  by (relation "measure (\<lambda>(pairs, s). length s)") (auto dest: matchAt_Some)

declare replacer.simps(2) [simp del]

definition ReplaceAll :: "string \<Rightarrow> string \<Rightarrow> string \<Rightarrow> string" where
  "ReplaceAll s old new = replacer [(old, new)] s"

lemma replacer_none:
  "matchAt pairs (c # s) = None \<Longrightarrow> replacer pairs (c # s) = c # replacer pairs s"
  by (simp only: replacer.simps(2) option.case)

lemma replacer_hit:
  assumes "matchAt pairs (old @ t) = Some (old, new)"
  shows "replacer pairs (old @ t) = new @ replacer pairs t"
proof -
  from matchAt_Some [OF assms] obtain c r where "old = c # r" by (cases old) auto
  with assms show ?thesis by (simp add: replacer.simps(2))
qed

lemma replacer_Nil_pairs [simp]: "replacer [] s = s"
  by (induction s) (simp_all add: replacer.simps(2))

lemma replacer_cong:
  assumes "\<And>t. matchAt ps t = matchAt qs t"
  shows "replacer ps s = replacer qs s"
proof -
  have "ps' = ps \<longrightarrow> replacer ps' s = replacer qs s" for ps'
    by (induction ps' s rule: replacer.induct)
      (auto simp: replacer.simps(2) assms split: option.split)
  then show ?thesis by simp
qed

text \<open>A string in which no old string occurs is left alone.\<close>

lemma replacer_absent:
  "\<forall>(old, new)\<in>set pairs. old \<noteq> [] \<longrightarrow> \<not> sublist old s \<Longrightarrow> replacer pairs s = s"
proof (induction s)
  case (Cons c s)
  have "matchAt pairs (c # s) = None"
    using Cons.prems by (auto simp: matchAt_None sublist_Cons_right)
  moreover have "replacer pairs s = s"
    using Cons.prems by (intro Cons.IH) (auto simp: sublist_Cons_right)
  ultimately show ?case by (simp add: replacer_none)
qed simp

text \<open>Every character of the result comes from the string or from a replacement.\<close>

lemma set_replacer: "set (replacer pairs s) \<subseteq> set s \<union> (\<Union>(old, new)\<in>set pairs. set new)"
proof (induction pairs s rule: replacer.induct)
  case (2 pairs c s)
  show ?case
  proof (cases "matchAt pairs (c # s)")
    case None
    with 2(1) show ?thesis by (auto simp: replacer_none)
  next
    case (Some on)
    obtain old new where on: "on = (old, new)" by (cases on)
    with matchAt_Some [of pairs "c # s"] Some have "(old, new) \<in> set pairs" by blast
    moreover have "set (drop (length old) (c # s)) \<subseteq> set (c # s)" by (rule set_drop_subset)
    ultimately show ?thesis
      using 2(2) [OF Some on [symmetric]] Some on by (fastforce simp: replacer.simps(2))
  qed
qed simp

section \<open>Case and numbers\<close>

text \<open>
  \<^verbatim>\<open>strings.ToLower\<close> as far as a comparison with ASCII words can tell: besides the ASCII
  letters only U+212A and U+0130 are lowered to ASCII characters.
\<close>

definition lowerByte :: "char \<Rightarrow> char" where
  "lowerByte c = (if CHR ''A'' \<le> c \<and> c \<le> CHR ''Z'' then char_of (of_char c + 32 :: nat) else c)"

definition ToLower :: "string \<Rightarrow> string" where
  "ToLower s =
     map lowerByte (replacer [([CHR 0xE2, CHR 0x84, CHR 0xAA], ''k''), ([CHR 0xC4, CHR 0xB0], ''i'')] s)"

text \<open>\<^verbatim>\<open>strconv.Itoa\<close>.\<close>

function natDigits :: "nat \<Rightarrow> string" where
  "natDigits n = (if n < 10 then [char_of (48 + n)] else natDigits (n div 10) @ [char_of (48 + n mod 10)])"
  by pat_completeness auto
termination
  by (relation "measure id") auto

declare natDigits.simps [simp del]

definition Itoa :: "int \<Rightarrow> string" where
  "Itoa i = (if i < 0 then CHR ''-'' # natDigits (nat (- i)) else natDigits (nat i))"

end
