(* ===== verification/Go_Maps.thy ===== *)
theory Go_Maps
  imports Go_Strings "HOL-Library.AList"
begin

text \<open>
  Go maps whose entries the code enumerates. A map is an association list with distinct
  keys; the order of the list stands for the iteration order, which Go leaves open, so
  results that depend on it are stated for every order. A map used only for lookup of
  keys (\<^verbatim>\<open>map[string]struct{}\<close>) is a set.
\<close>

type_synonym ('k, 'v) gomap = "('k \<times> 'v) list"

abbreviation gokeys :: "('k, 'v) gomap \<Rightarrow> 'k list" where
  "gokeys m \<equiv> map fst m"

definition wfmap :: "('k, 'v) gomap \<Rightarrow> bool" where
  "wfmap m \<longleftrightarrow> distinct (gokeys m)"

text \<open>\<^verbatim>\<open>m[k] = v\<close> and \<^verbatim>\<open>maps.Copy(dst, src)\<close>.\<close>

abbreviation mput :: "'k \<Rightarrow> 'v \<Rightarrow> ('k, 'v) gomap \<Rightarrow> ('k, 'v) gomap" where
  "mput \<equiv> AList.update"

definition mapsCopy :: "('k, 'v) gomap \<Rightarrow> ('k, 'v) gomap \<Rightarrow> ('k, 'v) gomap" where
  "mapsCopy dst src = fold (\<lambda>(k, v). mput k v) src dst"

text \<open>\<^verbatim>\<open>m[k]\<close> without the \<^verbatim>\<open>ok\<close> result: the zero value of strings when absent.\<close>

definition mgetStr :: "('k, string) gomap \<Rightarrow> 'k \<Rightarrow> string" where
  "mgetStr m k = (case map_of m k of None \<Rightarrow> [] | Some v \<Rightarrow> v)"

text \<open>\<^verbatim>\<open>m[k]\<close> of a slice-valued map: nil when absent.\<close>

definition mgetList :: "('k, 'v list) gomap \<Rightarrow> 'k \<Rightarrow> 'v list" where
  "mgetList m k = (case map_of m k of None \<Rightarrow> [] | Some xs \<Rightarrow> xs)"

text \<open>\<^verbatim>\<open>slices.Sorted(maps.Keys(m))\<close>.\<close>

definition sortedKeys :: "(string, 'v) gomap \<Rightarrow> string list" where
  "sortedKeys m = sort (gokeys m)"

lemma wfmap_Nil [simp]: "wfmap []"
  by (simp add: wfmap_def)

lemma wfmap_mput [simp]: "wfmap m \<Longrightarrow> wfmap (mput k v m)"
  by (simp add: wfmap_def distinct_update)

lemma map_of_mput [simp]: "map_of (mput k v m) = (map_of m)(k \<mapsto> v)"
  by (simp add: update_conv')

lemma mgetList_mput [simp]: "mgetList (mput k xs m) k' = (if k' = k then xs else mgetList m k')"
  by (simp add: mgetList_def)

lemma set_gokeys_mput [simp]: "fst ` set (mput k v m) = insert k (fst ` set m)"
  using dom_update [of k v m] by simp

lemma mapsCopy_simps [simp]:
  "mapsCopy dst [] = dst"
  "mapsCopy dst ((k, v) # src) = mapsCopy (mput k v dst) src"
  by (simp_all add: mapsCopy_def)

lemma wfmap_mapsCopy [simp]: "wfmap dst \<Longrightarrow> wfmap (mapsCopy dst src)"
  by (induction src arbitrary: dst) auto

lemma keys_mapsCopy: "set (gokeys (mapsCopy dst src)) = set (gokeys dst) \<union> set (gokeys src)"
proof (induction src arbitrary: dst)
  case (Cons p src)
  obtain k v where p: "p = (k, v)" by (cases p)
  show ?case using Cons.IH [of "mput k v dst"] unfolding p by simp
qed simp

lemma map_of_mapsCopy: "wfmap src \<Longrightarrow> map_of (mapsCopy dst src) = map_of dst ++ map_of src"
proof (induction src arbitrary: dst)
  case (Cons p src)
  obtain k v where p: "p = (k, v)" by (cases p)
  with Cons.prems have k: "map_of src k = None" and wf: "wfmap src"
    by (auto simp: wfmap_def map_of_eq_None_iff)
  show ?case
    using k by (simp add: p Cons.IH [OF wf] fun_eq_iff map_add_def split: option.split)
qed simp

lemma mapsCopy_Nil: "wfmap src \<Longrightarrow> mapsCopy [] src = src"
proof -
  have "mapsCopy dst src = dst @ src" if "distinct (gokeys (dst @ src))" for dst
    using that
  proof (induction src arbitrary: dst)
    case (Cons p src)
    obtain k v where p: "p = (k, v)" by (cases p)
    have "k \<notin> set (gokeys dst)" using Cons.prems p by auto
    then have "mput k v dst = dst @ [(k, v)]"
      by (induction dst) auto
    with Cons.IH [of "dst @ [(k, v)]"] Cons.prems p show ?case by simp
  qed simp
  then show "wfmap src \<Longrightarrow> mapsCopy [] src = src" by (simp add: wfmap_def)
qed

lemma distinct_sortedKeys [simp]: "wfmap m \<Longrightarrow> distinct (sortedKeys m)"
  by (simp add: sortedKeys_def wfmap_def)

lemma set_sortedKeys [simp]: "set (sortedKeys m) = set (gokeys m)"
  by (simp add: sortedKeys_def)

lemma sortedKeys_unique:
  assumes "wfmap m" "wfmap m'" "set (gokeys m) = set (gokeys m')"
  shows "sortedKeys m = sortedKeys m'"
  using assms unfolding sortedKeys_def wfmap_def
  by (metis distinct_sort set_sort sorted_distinct_set_unique sorted_sort)

lemma map_of_eq_perm:
  assumes "wfmap m" "wfmap m'" "map_of m = map_of m'"
  shows "sortedKeys m = sortedKeys m'"
  using assms by (intro sortedKeys_unique) (simp_all flip: dom_map_of_conv_image_fst)

end
