(* ===== verification/Go_Regexp.thy ===== *)
theory Go_Regexp
  imports Go_Strings
begin

text \<open>
  The anchored regular expressions of the sources (\<^verbatim>\<open>_validName\<close>, \<^verbatim>\<open>_validDimName\<close>,
  \<^verbatim>\<open>_posixIdentifier\<close>) over byte classes, with their language and an executable
  matcher by derivatives. Without flags, \<^verbatim>\<open>^\<close> and \<^verbatim>\<open>$\<close> match only at the two ends of
  the text, so matching is membership of the whole string.
\<close>

datatype re =
    Never
  | Eps
  | Cls "char \<Rightarrow> bool"
  | Then re re
  | Or re re
  | Rep re

definition Plus :: "re \<Rightarrow> re" where
  "Plus r = Then r (Rep r)"

definition Opt :: "re \<Rightarrow> re" where
  "Opt r = Or r Eps"

definition Lit :: "char \<Rightarrow> re" where
  "Lit c = Cls (\<lambda>x. x = c)"

primrec lang :: "re \<Rightarrow> string set" where
  "lang Never = {}"
| "lang Eps = {[]}"
| "lang (Cls p) = {[c] | c. p c}"
| "lang (Then r s) = {u @ v | u v. u \<in> lang r \<and> v \<in> lang s}"
| "lang (Or r s) = lang r \<union> lang s"
| "lang (Rep r) = {concat ws | ws. set ws \<subseteq> lang r}"

primrec nullable :: "re \<Rightarrow> bool" where
  "nullable Never = False"
| "nullable Eps = True"
| "nullable (Cls p) = False"
| "nullable (Then r s) = (nullable r \<and> nullable s)"
| "nullable (Or r s) = (nullable r \<or> nullable s)"
| "nullable (Rep r) = True"

fun mkThen :: "re \<Rightarrow> re \<Rightarrow> re" where
  "mkThen Never s = Never"
| "mkThen Eps s = s"
| "mkThen r s = Then r s"

fun mkOr :: "re \<Rightarrow> re \<Rightarrow> re" where
  "mkOr Never s = s"
| "mkOr r Never = r"
| "mkOr r s = Or r s"

primrec after :: "char \<Rightarrow> re \<Rightarrow> re" where
  "after c Never = Never"
| "after c Eps = Never"
| "after c (Cls p) = (if p c then Eps else Never)"
| "after c (Then r s) =
     (if nullable r then mkOr (mkThen (after c r) s) (after c s) else mkThen (after c r) s)"
| "after c (Or r s) = mkOr (after c r) (after c s)"
| "after c (Rep r) = mkThen (after c r) (Rep r)"

primrec matches :: "re \<Rightarrow> string \<Rightarrow> bool" where
  "matches r [] = nullable r"
| "matches r (c # s) = matches (after c r) s"

section \<open>The matcher decides the language\<close>

lemma nullable_lang: "nullable r \<longleftrightarrow> [] \<in> lang r"
  by (induction r) (auto intro: exI [of _ "[]"])

lemma lang_mkThen [simp]: "lang (mkThen r s) = lang (Then r s)"
  by (cases r) auto

lemma lang_mkOr [simp]: "lang (mkOr r s) = lang r \<union> lang s"
  by (cases "(r, s)" rule: mkOr.cases) auto

lemma Cons_in_Rep:
  "c # s \<in> lang (Rep r) \<longleftrightarrow> (\<exists>u v. s = u @ v \<and> c # u \<in> lang r \<and> v \<in> lang (Rep r))"
proof
  assume "c # s \<in> lang (Rep r)"
  then obtain ws where ws: "c # s = concat ws" "set ws \<subseteq> lang r" by auto
  then show "\<exists>u v. s = u @ v \<and> c # u \<in> lang r \<and> v \<in> lang (Rep r)"
  proof (induction ws)
    case (Cons w ws)
    show ?case
    proof (cases w)
      case Nil
      with Cons show ?thesis by simp
    next
      case (Cons d u)
      with Cons.prems have "s = u @ concat ws" "c # u \<in> lang r" "concat ws \<in> lang (Rep r)"
        by auto
      then show ?thesis by blast
    qed
  qed simp
next
  assume "\<exists>u v. s = u @ v \<and> c # u \<in> lang r \<and> v \<in> lang (Rep r)"
  then obtain u ws where "s = u @ concat ws" "c # u \<in> lang r" "set ws \<subseteq> lang r" by auto
  then show "c # s \<in> lang (Rep r)"
    by (auto intro!: exI [of _ "(c # u) # ws"])
qed

lemma lang_after: "s \<in> lang (after c r) \<longleftrightarrow> c # s \<in> lang r"
proof (induction r arbitrary: s)
  case (Then r1 r2)
  then show ?case
    by (auto simp: nullable_lang Cons_eq_append_conv)
next
  case (Rep r)
  then show ?case by (auto simp: Cons_in_Rep simp del: lang.simps(6))
qed auto

theorem matches_lang: "matches r s \<longleftrightarrow> s \<in> lang r"
  by (induction s arbitrary: r) (simp_all add: nullable_lang lang_after)

section \<open>Classes and repetition\<close>

lemma lang_Lit [simp]: "lang (Lit c) = {[c]}"
  by (auto simp: Lit_def)

lemma lang_Opt [simp]: "lang (Opt r) = insert [] (lang r)"
  by (auto simp: Opt_def)

lemma lang_Rep_Cls [simp]: "lang (Rep (Cls p)) = {s. \<forall>c\<in>set s. p c}"
proof -
  have "concat ws \<in> {s. \<forall>c\<in>set s. p c}" if "set ws \<subseteq> lang (Cls p)" for ws
    using that by (induction ws) auto
  moreover have "\<exists>ws. s = concat ws \<and> set ws \<subseteq> lang (Cls p)" if "\<forall>c\<in>set s. p c" for s
    using that by (intro exI [of _ "map (\<lambda>c. [c]) s"]) auto
  ultimately show ?thesis by auto
qed

lemma lang_Plus_Cls [simp]: "lang (Plus (Cls p)) = {s. s \<noteq> [] \<and> (\<forall>c\<in>set s. p c)}"
proof -
  have "lang (Plus (Cls p)) = {c # s | c s. p c \<and> (\<forall>x\<in>set s. p x)}"
    unfolding Plus_def lang.simps(4) lang_Rep_Cls by (force intro: exI [of _ "[_]"])
  then show ?thesis by (auto simp: neq_Nil_conv)
qed

text \<open>The characters that can occur in a word of the language.\<close>

primrec alphabet :: "re \<Rightarrow> char \<Rightarrow> bool" where
  "alphabet Never c = False"
| "alphabet Eps c = False"
| "alphabet (Cls p) c = p c"
| "alphabet (Then r s) c = (alphabet r c \<or> alphabet s c)"
| "alphabet (Or r s) c = (alphabet r c \<or> alphabet s c)"
| "alphabet (Rep r) c = alphabet r c"

lemma lang_alphabet: "s \<in> lang r \<Longrightarrow> c \<in> set s \<Longrightarrow> alphabet r c"
  by (induction r arbitrary: s) (auto, blast+)

lemma alphabet_simps [simp]:
  "alphabet (Plus r) c = alphabet r c" "alphabet (Opt r) c = alphabet r c" "alphabet (Lit d) c = (c = d)"
  by (simp_all add: Plus_def Opt_def Lit_def)

end
