(* ===== verification/Pipeline_Model.thy ===== *)
theory Pipeline_Model
  imports Go_Maps Go_Regexp
begin

text \<open>
  \<^verbatim>\<open>pkg/pipeline/pipelinemodel\<close>: the data types of a pipeline and the sentinel errors,
  one datatype per error group of \<^verbatim>\<open>errors.go\<close>. Fields keep the source's names with a
  letter for the struct they belong to. A slice is a list; where the code tells a nil
  slice, map or pointer from an empty one (\<^verbatim>\<open>Shell\<close>, \<^verbatim>\<open>MatrixValues\<close>, every pointer) it
  is an \<open>option\<close>. The type variable \<open>'ast\<close> is the parse tree type of the CEL library,
  which \<^verbatim>\<open>conditional.When\<close> caches.
\<close>

section \<open>Sentinel errors\<close>

datatype valErr =
    ErrEmptyPipeline | ErrEmptyJobName | ErrDuplicateJob | ErrEmptyStepName
  | ErrDuplicateStep | ErrInvalidName | ErrMissingImage | ErrMissingRun
  | ErrEmptyRunCommand | ErrEmptyJob | ErrSelfDependency | ErrUnknownDep
  | ErrCycleDetected | ErrEmptyMatrix | ErrEmptyDimension | ErrInvalidDimName
  | ErrDuplicateDim | ErrMatrixTooLarge | ErrInvalidCondition | ErrDeferredStepWhen

datatype modErr =
    ErrCircularInclude | ErrIncludeDepth | ErrMissingParam | ErrUnknownParam
  | ErrDuplicateParam | ErrDuplicateAlias | ErrAliasCollision | ErrInvalidConflict
  | ErrPipelineNoParams

datatype cfgErr =
    ErrInvalidRetryAttempts | ErrInvalidBackoff | ErrNegativeDelay | ErrNegativeTimeout
  | ErrEmptyShell

datatype fieldErr =
    ErrEmptyEnvKey | ErrEmptyExportPath | ErrDuplicateExport | ErrArtifactNoDep
  | ErrDuplicateEnvKey | ErrDuplicateArtifact | ErrRelativeExport | ErrRelativeArtifact
  | ErrRelativeArtifactSource | ErrEmptyArtifactFrom | ErrEmptyArtifactSource
  | ErrEmptyArtifactTarget | ErrRootExport | ErrRootArtifact | ErrEmptyExportLocal
  | ErrEmptyPublishImage

datatype secErr =
    ErrEmptySecretName | ErrDuplicateSecret | ErrDuplicateSecretRef
  | ErrInvalidSecretSource | ErrMissingSecretPath | ErrMissingSecretCmd
  | ErrUnknownSecret | ErrSecretRefNoTarget | ErrSecretRefBothTarget
  | ErrRelativeSecretMount | ErrSecretOverride | ErrSecretResolution
  | ErrSecretVarWithNonHostEnv | ErrInvalidSecretEnvName | ErrSecretPathWithNonFile
  | ErrSecretCmdWithNonCmd | ErrDuplicateSecretEnvName | ErrDuplicateSecretMount
  | ErrInvalidSecretHostEnvName

datatype filtErr =
    ErrUnknownStartAt | ErrUnknownStopAfter | ErrUnknownStartAtStep
  | ErrUnknownStopAfterStep | ErrEmptyStepWindow | ErrEmptyFilterResult | ErrOrphanedStep

datatype condErr = ErrJobCondition | ErrStepCondition

text \<open>
  An error value of the pipeline packages. \<open>GoPanic\<close> is a run-time panic (an index out
  of range or a nil dereference), which is not an error return; that it does not occur is
  proved where it could.
\<close>

datatype err =
    Val valErr | Modl modErr | Cfg cfgErr | Field fieldErr | Sec secErr
  | Filt filtErr | Cond condErr | GoPanic

section \<open>Data types\<close>

record Retry =
  rAttempts :: int
  rDelay :: int
  rBackoff :: string

definition BackoffNone :: string where "BackoffNone = ''none''"
definition BackoffLinear :: string where "BackoffLinear = ''linear''"
definition BackoffExponential :: string where "BackoffExponential = ''exponential''"

lemmas backoff_defs [go_defs] = BackoffNone_def BackoffLinear_def BackoffExponential_def

datatype ConflictStrategy = ConflictError | ConflictSkip

record ParamDef =
  pdName :: string
  pdDefault :: string
  pdRequired :: bool

record Dimension =
  dName :: string
  dValues :: "string list"

record Matrix =
  mDimensions :: "Dimension list"

record EnvVar =
  eKey :: string
  eValue :: string

record Export =
  xPath :: string
  xLocal :: string

record Artifact =
  aFrom :: string
  aSource :: string
  aTarget :: string

record Mount =
  mSource :: string
  mTarget :: string
  mReadOnly :: bool

record Cache =
  cID :: string
  cTarget :: string

record Publish =
  pubImage :: string
  pubPush :: bool
  pubInsecure :: bool

record Defaults =
  dfImage :: string
  dfWorkdir :: string
  dfMounts :: "Mount list"
  dfEnv :: "EnvVar list"
  dfShell :: "string list"

record SecretDecl =
  sdName :: string
  sdSource :: string
  sdVar :: string
  sdPath :: string
  sdCmd :: string

definition SecretSourceHostEnv :: string where "SecretSourceHostEnv = ''hostEnv''"
definition SecretSourceFile :: string where "SecretSourceFile = ''file''"
definition SecretSourceCmd :: string where "SecretSourceCmd = ''cmd''"

lemmas secret_source_defs [go_defs] =
  SecretSourceHostEnv_def SecretSourceFile_def SecretSourceCmd_def

record SecretRef =
  srName :: string
  srEnv :: string
  srMount :: string

text \<open>\<^verbatim>\<open>conditional.When\<close>; \<open>wParsed\<close> is the cached parse tree, \<open>None\<close> for nil.\<close>

record 'ast When =
  wExpression :: string
  wDeferred :: bool
  wParsed :: "'ast option"

record 'ast Step =
  sName :: string
  sRun :: "string list"
  sEnv :: "EnvVar list"
  sWorkdir :: string
  sMounts :: "Mount list"
  sCaches :: "Cache list"
  sSecrets :: "SecretRef list"
  sExports :: "Export list"
  sArtifacts :: "Artifact list"
  sWhen :: "'ast When option"
  sNoCache :: bool
  sTimeout :: int
  sShell :: "string list option"
  sRetry :: "Retry option"
  sAllowFailure :: bool

record 'ast Job =
  jName :: string
  jImage :: string
  jWorkdir :: string
  jPlatform :: string
  jDependsOn :: "string list"
  jMounts :: "Mount list"
  jCaches :: "Cache list"
  jEnv :: "EnvVar list"
  jExports :: "Export list"
  jArtifacts :: "Artifact list"
  jSecrets :: "SecretRef list"
  jSteps :: "'ast Step list"
  jWhen :: "'ast When option"
  jMatrix :: "Matrix option"
  jMatrixValues :: "(string, string) gomap option"
  jNoCache :: bool
  jPublish :: "Publish option"
  jTimeout :: int
  jRetry :: "Retry option"
  jShell :: "string list option"

record 'ast Pipeline =
  pName :: string
  pJobs :: "'ast Job list"
  pEnv :: "EnvVar list"
  pSecrets :: "SecretDecl list"
  pMatrix :: "Matrix option"
  pDefaults :: "Defaults option"
  pTopoOrder :: "nat list option"

record 'ast Fragment =
  fName :: string
  fParams :: "ParamDef list"
  fJobs :: "'ast Job list"

record FilterOpts =
  foStartAt :: string
  foStopAfter :: string

record 'ast ConditionResult =
  crPipeline :: "'ast Pipeline"
  crSkipped :: "string list"
  crSkippedSteps :: "(string, string list) gomap"

record 'ast JobGroup =
  gJobs :: "'ast Job list"
  gOrigin :: string
  gOnConflict :: ConflictStrategy

text \<open>The zero values of the structs, for building concrete jobs and steps.\<close>

definition zeroStep :: "'ast Step" where
  "zeroStep = \<lparr>sName = [], sRun = [], sEnv = [], sWorkdir = [], sMounts = [], sCaches = [],
     sSecrets = [], sExports = [], sArtifacts = [], sWhen = None, sNoCache = False,
     sTimeout = 0, sShell = None, sRetry = None, sAllowFailure = False\<rparr>"

definition zeroJob :: "'ast Job" where
  "zeroJob = \<lparr>jName = [], jImage = [], jWorkdir = [], jPlatform = [], jDependsOn = [],
     jMounts = [], jCaches = [], jEnv = [], jExports = [], jArtifacts = [], jSecrets = [],
     jSteps = [], jWhen = None, jMatrix = None, jMatrixValues = None, jNoCache = False,
     jPublish = None, jTimeout = 0, jRetry = None, jShell = None\<rparr>"

definition zeroPipeline :: "'ast Pipeline" where
  "zeroPipeline = \<lparr>pName = [], pJobs = [], pEnv = [], pSecrets = [], pMatrix = None,
     pDefaults = None, pTopoOrder = None\<rparr>"

lemmas zero_defs [go_defs] = zeroStep_def zeroJob_def zeroPipeline_def

section \<open>Names\<close>

text \<open>The character classes and expressions of \<^verbatim>\<open>pipeline.go\<close> and \<^verbatim>\<open>secret.go\<close>.\<close>

definition inRange :: "char \<Rightarrow> char \<Rightarrow> char \<Rightarrow> bool" where
  "inRange lo hi c \<longleftrightarrow> lo \<le> c \<and> c \<le> hi"

definition isDigit :: "char \<Rightarrow> bool" where
  "isDigit = inRange (CHR ''0'') (CHR ''9'')"

definition alnum :: "char \<Rightarrow> bool" where
  "alnum c \<longleftrightarrow> isDigit c \<or> inRange (CHR ''A'') (CHR ''Z'') c \<or> inRange (CHR ''a'') (CHR ''z'') c"

definition nameChar :: "char \<Rightarrow> bool" where
  "nameChar c \<longleftrightarrow> alnum c \<or> c = CHR ''_'' \<or> c = CHR ''-''"

definition bracketChar :: "char \<Rightarrow> bool" where
  "bracketChar c \<longleftrightarrow> alnum c \<or> c \<in> set ''_.:/-''"

text \<open>\<^verbatim>\<open>B+(=B+)?\<close> with \<open>B\<close> the bracket class.\<close>

definition itemRe :: re where
  "itemRe = Then (Plus (Cls bracketChar)) (Opt (Then (Lit (CHR ''='')) (Plus (Cls bracketChar))))"

definition validNameRe :: re where
  "validNameRe =
     Then (Plus (Cls nameChar))
       (Opt (Then (Lit (CHR ''['')) (Then itemRe
         (Then (Rep (Then (Lit (CHR '','')) itemRe)) (Lit (CHR '']''))))))"

definition validDimNameRe :: re where
  "validDimNameRe = Plus (Cls nameChar)"

definition posixIdentifierRe :: re where
  "posixIdentifierRe =
     Then (Cls (\<lambda>c. alnum c \<and> \<not> isDigit c \<or> c = CHR ''_''))
       (Rep (Cls (\<lambda>c. alnum c \<or> c = CHR ''_'')))"

definition validName :: "string \<Rightarrow> bool" where
  "validName s = matches validNameRe s"

definition validDimName :: "string \<Rightarrow> bool" where
  "validDimName s = matches validDimNameRe s"

definition posixIdentifier :: "string \<Rightarrow> bool" where
  "posixIdentifier s = matches posixIdentifierRe s"

lemma validDimName_iff: "validDimName s \<longleftrightarrow> s \<noteq> [] \<and> (\<forall>c\<in>set s. nameChar c)"
  by (simp add: validDimName_def validDimNameRe_def matches_lang)

lemma nameChar_neq:
  "nameChar c \<Longrightarrow> c \<noteq> CHR ''['' \<and> c \<noteq> CHR '']'' \<and> c \<noteq> CHR ''='' \<and> c \<noteq> CHR '','' \<and>
     c \<noteq> CHR ''}'' \<and> c \<noteq> CHR '':''"
  by (auto simp: nameChar_def alnum_def isDigit_def inRange_def)

lemma posixIdentifier_nonempty [simp]: "\<not> posixIdentifier []"
  by (simp add: posixIdentifier_def posixIdentifierRe_def)

text \<open>A valid name is a plain base, perhaps followed by one bracketed suffix.\<close>

lemma validName_shape:
  assumes "validName s"
  obtains b where "\<forall>c\<in>set b. nameChar c" "s = b"
  | b t where "\<forall>c\<in>set b. nameChar c" "s = b @ ''['' @ t @ '']''" "CHR ''['' \<notin> set t" "CHR '']'' \<notin> set t"
proof -
  let ?more = "Rep (Then (Lit (CHR '','')) itemRe)"
  have "(\<forall>c\<in>set s. nameChar c) \<or>
      (\<exists>b u v. s = b @ ''['' @ (u @ v) @ '']'' \<and> (\<forall>c\<in>set b. nameChar c) \<and> u \<in> lang itemRe \<and> v \<in> lang ?more)"
    using assms by (auto simp: validName_def matches_lang validNameRe_def simp del: lang.simps(6))
  then show thesis
  proof (elim disjE exE conjE)
    fix b u v
    assume "s = b @ ''['' @ (u @ v) @ '']''" "\<forall>c\<in>set b. nameChar c" "u \<in> lang itemRe" "v \<in> lang ?more"
    moreover from this have "alphabet itemRe c \<or> c = CHR '',''" if "c \<in> set (u @ v)" for c
      using that lang_alphabet [of u itemRe c] lang_alphabet [of v "Rep (Then (Lit (CHR '','')) itemRe)" c] by auto
    moreover have "\<not> alphabet itemRe (CHR ''['')" "\<not> alphabet itemRe (CHR '']'')"
      by (simp_all add: itemRe_def bracketChar_def alnum_def isDigit_def inRange_def)
    ultimately show thesis using that(2) [of b "u @ v"] by fastforce
  qed (use that(1) in simp)
qed

end
