(* ===== verification/Dep_Graph.thy ===== *)
theory Dep_Graph
  imports Pipeline_Model
begin

text \<open>
  The three-state depth-first search that \<^verbatim>\<open>pipeline.topoSort\<close> and
  \<^verbatim>\<open>runner.detectCycles\<close> share, and the queue- and stack-based reachability of
  \<^verbatim>\<open>filter.go\<close>. The search runs over any node type; its correctness is proved once, in
  the locale \<open>dep_graph\<close>, for a finite graph whose resolved dependencies are nodes again.
\<close>

section \<open>Three-state depth-first search\<close>

datatype colour = Unvisited | Visiting | Visited

record 'n dfs =
  colourOf :: "'n \<Rightarrow> colour"
  orderOf :: "'n list"

definition initDfs :: "'n dfs" where
  "initDfs = \<lparr>colourOf = (\<lambda>_. Unvisited), orderOf = []\<rparr>"

definition markVisiting :: "'n \<Rightarrow> 'n dfs \<Rightarrow> 'n dfs" where
  "markVisiting i st = st\<lparr>colourOf := (colourOf st)(i := Visiting)\<rparr>"

definition markVisited :: "'n \<Rightarrow> 'n dfs \<Rightarrow> 'n dfs" where
  "markVisited i st = \<lparr>colourOf = (colourOf st)(i := Visited), orderOf = orderOf st @ [i]\<rparr>"

text \<open>
  \<open>visitAll V deps xs st\<close> runs the closure \<^verbatim>\<open>visit\<close> on the elements of \<open>xs\<close> in turn and
  stops at the first error; \<^verbatim>\<open>visit(i)\<close> is \<open>visitAll V deps [Inr i]\<close>. An element is a
  resolved dependency, or the error its resolution returned. \<open>V\<close> holds the nodes that
  exist: the code would index out of range, or dereference nil, on any other.
\<close>

function visitAll ::
  "'n list \<Rightarrow> ('n \<Rightarrow> (err + 'n) list) \<Rightarrow> (err + 'n) list \<Rightarrow> 'n dfs \<Rightarrow> err + 'n dfs" where
  "visitAll V deps [] st = Inr st"
| "visitAll V deps (Inl e # xs) st = Inl e"
| "visitAll V deps (Inr i # xs) st =
     (if i \<notin> set V then Inl GoPanic
      else (case colourOf st i of
              Visited \<Rightarrow> visitAll V deps xs st
            | Visiting \<Rightarrow> Inl (Val ErrCycleDetected)
            | Unvisited \<Rightarrow>
                (case visitAll V deps (deps i) (markVisiting i st) of
                   Inl e \<Rightarrow> Inl e
                 | Inr st' \<Rightarrow> visitAll V deps xs (markVisited i st'))))"
  by pat_completeness auto

lemma visitAll_marked_dom:
  "visitAll_dom (V, deps, xs, st) \<Longrightarrow> visitAll V deps xs st = Inr st' \<Longrightarrow>
     colourOf st n \<noteq> Unvisited \<Longrightarrow> colourOf st' n \<noteq> Unvisited"
proof (induction V deps xs st arbitrary: st' rule: visitAll.pinduct)
  case (3 V deps i xs st)
  then show ?case
    by (auto simp: visitAll.psimps markVisiting_def markVisited_def
             split: if_splits colour.splits sum.splits)
qed (simp_all add: visitAll.psimps)

lemma unvisited_filter_less:
  "i \<in> set V \<Longrightarrow> P i \<Longrightarrow> \<not> Q i \<Longrightarrow> (\<And>x. Q x \<Longrightarrow> P x) \<Longrightarrow>
     length (filter Q V) < length (filter P V)"
proof (induction V)
  case (Cons a V)
  have le: "length (filter Q V) \<le> length (filter P V)"
    using Cons.prems(4) by (induction V) (auto simp: le_SucI)
  show ?case
  proof (cases "a = i")
    case True
    with Cons.prems le show ?thesis by auto
  next
    case False
    with Cons show ?thesis by auto
  qed
qed simp

termination visitAll
proof (relation "measures [\<lambda>(V, deps, xs, st). length (filter (\<lambda>n. colourOf st n = Unvisited) V),
                           \<lambda>(V, deps, xs, st). length xs]", goal_cases)
  case (3 V deps i xs st st')
  have keep: "colourOf st' n = Unvisited \<Longrightarrow> colourOf st n = Unvisited" for n
    using visitAll_marked_dom [OF 3(4) 3(3), of n] 3(2)
    by (cases "n = i") (auto simp: markVisiting_def)
  show ?case
    using 3 keep by (auto intro!: unvisited_filter_less [of i] simp: markVisited_def split: if_splits)
qed (auto intro!: unvisited_filter_less simp: markVisiting_def split: if_splits)


text \<open>Computation induction with the graph fixed.\<close>

lemma visitAll_fixed_induct [case_names Nil Err Node]:
  assumes "\<And>st. P [] st"
    and "\<And>e xs st. P (Inl e # xs) st"
    and "\<And>i xs st.
      \<lbrakk>i \<in> set V \<Longrightarrow> colourOf st i = Unvisited \<Longrightarrow> P (deps i) (markVisiting i st);
       \<And>st1. i \<in> set V \<Longrightarrow> colourOf st i = Unvisited \<Longrightarrow>
          visitAll V deps (deps i) (markVisiting i st) = Inr st1 \<Longrightarrow> P xs (markVisited i st1);
       i \<in> set V \<Longrightarrow> colourOf st i = Visited \<Longrightarrow> P xs st\<rbrakk>
      \<Longrightarrow> P (Inr i # xs) st"
  shows "P xs st"
proof -
  have "V' = V \<and> deps' = deps \<longrightarrow> P xs st" for V' deps'
    by (induction V' deps' xs st rule: visitAll.induct) (auto intro: assms)
  then show ?thesis by simp
qed

text \<open>Unfolding a successful visit of a node.\<close>

lemma visitAll_NodeE:
  assumes "visitAll V deps (Inr i # xs) st = Inr st'"
  obtains (old) "i \<in> set V" "colourOf st i = Visited" "visitAll V deps xs st = Inr st'"
    | (fresh) st1 where "i \<in> set V" "colourOf st i = Unvisited"
        "visitAll V deps (deps i) (markVisiting i st) = Inr st1"
        "visitAll V deps xs (markVisited i st1) = Inr st'"
  using assms by (auto split: if_splits colour.splits sum.splits)

text \<open>The set of nodes being visited is restored.\<close>

lemma visitAll_visiting:
  "visitAll V deps xs st = Inr st' \<Longrightarrow> colourOf st' n = Visiting \<longleftrightarrow> colourOf st n = Visiting"
proof (induction xs st arbitrary: st' n rule: visitAll_fixed_induct [where V = V and deps = deps])
  case (Node i xs st)
  from Node.prems show ?case
  proof (cases rule: visitAll_NodeE)
    case old
    with Node.IH(3) show ?thesis by blast
  next
    case (fresh st1)
    from Node.IH(1) [OF fresh(1,2,3)]
    have "colourOf st1 n = Visiting \<longleftrightarrow> n = i \<or> colourOf st n = Visiting"
      by (simp add: markVisiting_def)
    moreover from Node.IH(2) [OF fresh]
    have "colourOf st' n = Visiting \<longleftrightarrow> n \<noteq> i \<and> colourOf st1 n = Visiting"
      by (simp add: markVisited_def)
    ultimately show ?thesis using fresh(2) by auto
  qed
qed simp_all

section \<open>Correctness of the search\<close>

locale dep_graph =
  fixes V :: "'n list" and deps :: "'n \<Rightarrow> (err + 'n) list"
  assumes deps_closed: "i \<in> set V \<Longrightarrow> Inr j \<in> set (deps i) \<Longrightarrow> j \<in> set V"
begin

definition edge :: "('n \<times> 'n) set" where
  "edge = {(i, j). i \<in> set V \<and> Inr j \<in> set (deps i)}"

text \<open>The search state is good when the order lists exactly the visited nodes, each after
  all its dependencies.\<close>

definition depsIn :: "'n \<Rightarrow> 'n set \<Rightarrow> bool" where
  "depsIn y A \<longleftrightarrow> y \<in> set V \<and> set (deps y) \<subseteq> Inr ` A"

definition topo :: "'n list \<Rightarrow> bool" where
  "topo ys \<longleftrightarrow> (\<forall>us y vs. ys = us @ y # vs \<longrightarrow> depsIn y (set us))"

definition good :: "'n dfs \<Rightarrow> bool" where
  "good st \<longleftrightarrow> distinct (orderOf st) \<and> topo (orderOf st) \<and>
     (\<forall>n. n \<in> set (orderOf st) \<longleftrightarrow> colourOf st n = Visited)"

lemma topo_Nil [simp]: "topo []"
  by (simp add: topo_def)

lemma topoD: "topo ys \<Longrightarrow> ys = us @ y # vs \<Longrightarrow> depsIn y (set us)"
  by (simp add: topo_def)

lemma good_split: "good st \<Longrightarrow> n \<in> set (orderOf st) \<Longrightarrow>
    \<exists>us vs. orderOf st = us @ n # vs \<and> depsIn n (set us)"
proof -
  assume g: "good st" and "n \<in> set (orderOf st)"
  then obtain us vs where us: "orderOf st = us @ n # vs" using split_list by metis
  moreover from g have "topo (orderOf st)" by (simp add: good_def)
  ultimately show ?thesis using topoD by blast
qed

lemma topo_snoc: "topo ys \<Longrightarrow> depsIn y (set ys) \<Longrightarrow> topo (ys @ [y])"
  unfolding topo_def by (metis append_eq_append_conv2 append_is_Nil_conv butlast.simps(2)
    butlast_append butlast_snoc last_snoc list.distinct(1) last_appendR last.simps)

lemma good_init [simp]: "good initDfs"
  by (simp add: good_def initDfs_def)

lemma good_markVisiting: "good st \<Longrightarrow> colourOf st i = Unvisited \<Longrightarrow> good (markVisiting i st)"
  by (auto simp: good_def markVisiting_def)

lemma good_markVisited:
  assumes "good st" "colourOf st i = Visiting" "depsIn i (set (orderOf st))"
  shows "good (markVisited i st)"
  using assms by (auto simp: good_def markVisited_def intro: topo_snoc)

lemma visitAll_good:
  "visitAll V deps xs st = Inr st' \<Longrightarrow> good st \<Longrightarrow>
     good st' \<and> prefix (orderOf st) (orderOf st') \<and> set xs \<subseteq> Inr ` set (orderOf st')"
proof (induction xs st arbitrary: st' rule: visitAll_fixed_induct [where V = V and deps = deps])
  case (Node i xs st)
  from Node.prems(1) show ?case
  proof (cases rule: visitAll_NodeE)
    case old
    with Node.IH(3) [OF old(1,2,3) Node.prems(2)] Node.prems(2) show ?thesis
      by (auto simp: good_def dest!: set_mono_prefix)
  next
    case (fresh st1)
    note st1 = Node.IH(1) [OF fresh(1,2,3) good_markVisiting [OF Node.prems(2) fresh(2)]]
    have "colourOf st1 i = Visiting"
      using visitAll_visiting [OF fresh(3), of i] by (simp add: markVisiting_def)
    with st1 fresh(1) have "good (markVisited i st1)"
      by (intro good_markVisited) (auto simp: depsIn_def)
    note st' = Node.IH(2) [OF fresh this]
    have "prefix (orderOf st) (orderOf st1)" "i \<in> set (orderOf st')"
      using st1 st' by (auto simp: markVisiting_def markVisited_def dest!: set_mono_prefix)
    moreover have "prefix (orderOf st1) (orderOf st')"
      using st' by (auto simp: markVisited_def dest: append_prefixD)
    ultimately show ?thesis using st' by (auto dest: prefix_order.trans)
  qed
qed (auto simp: good_def)

text \<open>An order that is topological leaves no room for a cycle.\<close>

lemma topo_no_cycle:
  assumes "topo ys" "distinct ys" "set V \<subseteq> set ys"
  shows "acyclic edge"
proof -
  define pos where "pos n = length (takeWhile (\<lambda>x. x \<noteq> n) ys)" for n
  have step: "pos j < pos i" if "(i, j) \<in> edge" for i j
  proof -
    from that assms(3) have "i \<in> set ys" by (auto simp: edge_def)
    then obtain us vs where ys: "ys = us @ i # vs" by (auto dest: split_list)
    with assms(2) have "pos i = length us"
      by (subst pos_def, subst ys, subst takeWhile_append2) auto
    moreover from assms(1) ys that have "j \<in> set us"
      by (force simp: topo_def depsIn_def edge_def)
    then obtain us1 us2 where us: "us = us1 @ j # us2" "j \<notin> set us1"
      by (auto dest: split_list_first)
    have "pos j = length us1"
      unfolding pos_def ys us(1) append.assoc append_Cons
      using us(2) by (subst takeWhile_append2) auto
    ultimately show ?thesis using us(1) by simp
  qed
  then have "edge\<inverse> \<subseteq> measure pos" by auto
  then have "wf (edge\<inverse>)" by (rule wf_subset [OF wf_measure])
  then show ?thesis by (metis acyclic_converse wf_acyclic)
qed

text \<open>An error names its cause: an unresolved dependency of some node, or a cycle.\<close>

lemma visitAll_error:
  "visitAll V deps xs st = Inl e \<Longrightarrow> (\<And>j. Inr j \<in> set xs \<Longrightarrow> j \<in> set V) \<Longrightarrow>
     (\<And>g j. colourOf st g = Visiting \<Longrightarrow> Inr j \<in> set xs \<Longrightarrow> (g, j) \<in> edge\<^sup>+) \<Longrightarrow>
     Inl e \<in> set xs \<union> (\<Union>i\<in>set V. set (deps i)) \<or>
       e = Val ErrCycleDetected \<and> \<not> acyclic edge"
proof (induction xs st rule: visitAll_fixed_induct [where V = V and deps = deps])
  case (Node i xs st)
  have i: "i \<in> set V" using Node.prems(2) by simp
  have xs: "j \<in> set V" if "Inr j \<in> set xs" for j using that Node.prems(2) by simp
  show ?case
  proof (cases "colourOf st i")
    case Visiting
    with Node.prems(3) [of i i] Node.prems(1) i show ?thesis by (auto simp: acyclic_def)
  next
    case Visited
    with Node.IH(3) [OF i Visited _ xs] Node.prems i show ?thesis by auto
  next
    case Unvisited
    show ?thesis
    proof (cases "visitAll V deps (deps i) (markVisiting i st)")
      case (Inl e')
      with Unvisited i Node.prems(1) have "visitAll V deps (deps i) (markVisiting i st) = Inl e"
        by simp
      moreover have "(g, j) \<in> edge\<^sup>+"
        if "colourOf (markVisiting i st) g = Visiting" "Inr j \<in> set (deps i)" for g j
      proof -
        have ij: "(i, j) \<in> edge" using that(2) i by (simp add: edge_def)
        show ?thesis
        proof (cases "g = i")
          case False
          with that(1) Node.prems(3) [of g i] have "(g, i) \<in> edge\<^sup>+" by (simp add: markVisiting_def)
          then show ?thesis using ij by (rule trancl_into_trancl)
        qed (use ij in auto)
      qed
      ultimately show ?thesis
        using Node.IH(1) [OF i Unvisited] deps_closed [OF i] i by blast
    next
      case (Inr st1)
      have vis: "colourOf st g = Visiting" if "colourOf (markVisited i st1) g = Visiting" for g
        using that visitAll_visiting [OF Inr, of g]
        by (auto simp: markVisited_def markVisiting_def split: if_splits)
      from Inr Unvisited i Node.prems(1) have "visitAll V deps xs (markVisited i st1) = Inl e"
        by simp
      with Node.IH(2) [OF i Unvisited Inr _ xs] Node.prems(3) vis show ?thesis by auto
    qed
  qed
qed simp_all

lemma visitAll_iff:
  "(\<exists>st. visitAll V deps (map Inr V) initDfs = Inr st) \<longleftrightarrow>
     (\<forall>i\<in>set V. \<forall>e. Inl e \<notin> set (deps i)) \<and> acyclic edge"
proof
  assume "\<exists>st. visitAll V deps (map Inr V) initDfs = Inr st"
  then obtain st where "visitAll V deps (map Inr V) initDfs = Inr st" by blast
  from visitAll_good [OF this] have st: "good st" "set V \<subseteq> set (orderOf st)" by auto
  then have "acyclic edge" by (intro topo_no_cycle) (auto simp: good_def)
  moreover have "Inl e \<notin> set (deps i)" if i: "i \<in> set V" for i e
  proof -
    from i st have "\<exists>us vs. orderOf st = us @ i # vs \<and> depsIn i (set us)"
      by (intro good_split) auto
    then show ?thesis by (auto simp: depsIn_def)
  qed
  ultimately show "(\<forall>i\<in>set V. \<forall>e. Inl e \<notin> set (deps i)) \<and> acyclic edge" by blast
next
  assume ok: "(\<forall>i\<in>set V. \<forall>e. Inl e \<notin> set (deps i)) \<and> acyclic edge"
  show "\<exists>st. visitAll V deps (map Inr V) initDfs = Inr st"
  proof (cases "visitAll V deps (map Inr V) initDfs")
    case (Inl e)
    have "Inl e \<in> set (map Inr V) \<union> (\<Union>i\<in>set V. set (deps i)) \<or>
        e = Val ErrCycleDetected \<and> \<not> acyclic edge"
      by (rule visitAll_error [OF Inl]) (auto simp: initDfs_def)
    with ok show ?thesis by auto
  qed blast
qed

text \<open>The order of a successful run: every node once, dependencies first.\<close>

lemma order_complete:
  assumes "visitAll V deps (map Inr V) initDfs = Inr st"
  shows "distinct (orderOf st)" "set (orderOf st) = set V"
    and "(i, j) \<in> edge \<Longrightarrow> before (orderOf st) j i"
proof -
  from visitAll_good [OF assms] have st: "good st" "set V \<subseteq> set (orderOf st)" by auto
  then show "distinct (orderOf st)" by (simp add: good_def)
  show eq: "set (orderOf st) = set V"
  proof
    have "n \<in> set V" if n: "n \<in> set (orderOf st)" for n
    proof -
      from good_split [OF st(1) n] show ?thesis by (auto simp: depsIn_def)
    qed
    then show "set (orderOf st) \<subseteq> set V" by blast
  qed (rule st(2))
  assume "(i, j) \<in> edge"
  then have i: "i \<in> set V" and j: "Inr j \<in> set (deps i)" by (auto simp: edge_def)
  from good_split [OF st(1)] i eq
  obtain us vs where us: "orderOf st = us @ i # vs" "depsIn i (set us)" by blast
  with j have "j \<in> set us" by (auto simp: depsIn_def)
  then show "before (orderOf st) j i" using us(1) by (rule beforeI_append)
qed

end

end
