(* ===== verification/Conditional.thy ===== *)
theory Conditional
  imports Pipeline_Model
begin

text \<open>
  \<^verbatim>\<open>pkg/conditional\<close>: parsing, validation, static and deferred evaluation of \<^verbatim>\<open>when\<close>
  expressions. The CEL library is not part of the repository. What the code calls of it is
  the record \<open>Cel\<close>, an argument of every definition that uses it; its one law that the
  code relies on, that \<^verbatim>\<open>Compile\<close> is \<^verbatim>\<open>Parse\<close> followed by \<^verbatim>\<open>Check\<close>, is the hypothesis
  \<open>compileLaw\<close> where it is needed.
\<close>

section \<open>The CEL library as a parameter\<close>

text \<open>The runtime bindings of the four declared functions; \<open>None\<close> declares without binding.\<close>

record celBindings =
  cbEnv :: "(string \<Rightarrow> string) option"
  cbHostEnv :: "(string \<Rightarrow> string) option"
  cbOutput :: "(string \<Rightarrow> string \<Rightarrow> string) option"
  cbMatrix :: "(string \<Rightarrow> string) option"

datatype celVal = CelBool bool | CelOther

text \<open>
  \<open>celCalls\<close> lists the function names of the call nodes of a tree, \<open>celEval\<close> runs the
  program of a checked tree with the bindings of its environment and the variables
  \<^verbatim>\<open>branch\<close> and \<^verbatim>\<open>tag\<close>; \<open>None\<close> and \<open>False\<close> are the library's error results.
\<close>

record 'ast Cel =
  celNewEnvOk :: "celBindings \<Rightarrow> bool"
  celParse :: "string \<Rightarrow> 'ast option"
  celCheck :: "'ast \<Rightarrow> 'ast option"
  celCompile :: "string \<Rightarrow> 'ast option"
  celIsBool :: "'ast \<Rightarrow> bool"
  celCalls :: "'ast \<Rightarrow> string list"
  celProgramOk :: "'ast \<Rightarrow> bool"
  celEval :: "celBindings \<Rightarrow> 'ast \<Rightarrow> string \<Rightarrow> string \<Rightarrow> celVal option"

definition compileLaw :: "'ast Cel \<Rightarrow> bool" where
  "compileLaw cel \<longleftrightarrow> (\<forall>e. celCompile cel e = Option.bind (celParse cel e) (celCheck cel))"

datatype whenErr =
    ErrInvalidWhenExpr | ErrWhenNotBool | ErrDeferredInStep | ErrDeferredEvaluate
  | ErrNotDeferredEvaluate | CelEnvError | CelProgramError | CelEvalError

section \<open>Bindings (cel.go)\<close>

text \<open>\<^verbatim>\<open>conditional.Context\<close>; a nil map reads as an empty one, \<open>wcGetenv\<close> may be nil.\<close>

record Context =
  wcGetenv :: "(string \<Rightarrow> string) option"
  wcBranch :: string
  wcTag :: string
  wcPipelineEnv :: "(string, string) gomap"
  wcMatrix :: "(string, string) gomap"

definition contextBindings :: "Context \<Rightarrow> celBindings" where
  "contextBindings ctx =
     \<lparr>cbEnv = Some (mgetStr (wcPipelineEnv ctx)),
      cbHostEnv = Some (case wcGetenv ctx of None \<Rightarrow> (\<lambda>_. []) | Some f \<Rightarrow> f),
      cbOutput = None,
      cbMatrix = Some (mgetStr (wcMatrix ctx))\<rparr>"

definition validationBindings :: celBindings where
  "validationBindings = \<lparr>cbEnv = None, cbHostEnv = None, cbOutput = None, cbMatrix = None\<rparr>"

definition staticBindings :: "Context \<Rightarrow> celBindings" where
  "staticBindings ctx = (contextBindings ctx)\<lparr>cbOutput := Some (\<lambda>_ _. [])\<rparr>"

definition outputLookup ::
  "(string, (string, string) gomap) gomap \<Rightarrow> string \<Rightarrow> string \<Rightarrow> string" where
  "outputLookup depOutputs job key =
     (case map_of depOutputs job of None \<Rightarrow> [] | Some outputs \<Rightarrow> mgetStr outputs key)"

definition deferredBindings ::
  "Context \<Rightarrow> (string, (string, string) gomap) gomap \<Rightarrow> celBindings" where
  "deferredBindings ctx depOutputs =
     (contextBindings ctx)\<lparr>cbOutput := Some (outputLookup depOutputs)\<rparr>"

definition astReferencesOutput :: "'ast Cel \<Rightarrow> 'ast \<Rightarrow> bool" where
  "astReferencesOutput cel checked \<longleftrightarrow> ''output'' \<in> set (celCalls cel checked)"

section \<open>Conditions (when.go)\<close>

definition parseAndValidate :: "'ast Cel \<Rightarrow> string \<Rightarrow> whenErr + 'ast \<times> bool" where
  "parseAndValidate cel expr =
     (if \<not> celNewEnvOk cel validationBindings then Inl CelEnvError
      else (case celParse cel expr of
              None \<Rightarrow> Inl ErrInvalidWhenExpr
            | Some parsed \<Rightarrow>
                (case celCheck cel parsed of
                   None \<Rightarrow> Inl ErrInvalidWhenExpr
                 | Some checked \<Rightarrow>
                     if \<not> celIsBool cel checked then Inl ErrWhenNotBool
                     else Inr (parsed, astReferencesOutput cel checked))))"

definition NewWhen :: "'ast Cel \<Rightarrow> string \<Rightarrow> whenErr + 'ast When" where
  "NewWhen cel expr =
     bindE (parseAndValidate cel expr)
       (\<lambda>(parsed, deferred).
          Inr \<lparr>wExpression = expr, wDeferred = deferred, wParsed = Some parsed\<rparr>)"

definition ValidateWhenExpr :: "'ast Cel \<Rightarrow> string \<Rightarrow> whenErr + bool" where
  "ValidateWhenExpr cel expr = bindE (parseAndValidate cel expr) (\<lambda>(_, deferred). Inr deferred)"

definition InvalidateAST :: "'ast When \<Rightarrow> 'ast When" where
  "InvalidateAST w = w\<lparr>wParsed := None\<rparr>"

text \<open>\<^verbatim>\<open>(*When).Validate\<close> writes the parse tree and the deferred flag through its receiver.\<close>

definition WhenValidate :: "'ast Cel \<Rightarrow> 'ast When \<Rightarrow> 'ast When \<times> whenErr option" where
  "WhenValidate cel w =
     (case parseAndValidate cel (wExpression w) of
        Inl e \<Rightarrow> (w, Some e)
      | Inr (parsed, deferred) \<Rightarrow> (w\<lparr>wParsed := Some parsed, wDeferred := deferred\<rparr>, None))"

definition evalExpr ::
  "'ast Cel \<Rightarrow> celBindings \<Rightarrow> string \<Rightarrow> Context \<Rightarrow> 'ast option \<Rightarrow> whenErr + bool" where
  "evalExpr cel b expr ctx parsed =
     (case (case parsed of Some p \<Rightarrow> celCheck cel p | None \<Rightarrow> celCompile cel expr) of
        None \<Rightarrow> Inl ErrInvalidWhenExpr
      | Some compiled \<Rightarrow>
          if \<not> celProgramOk cel compiled then Inl CelProgramError
          else (case celEval cel b compiled (wcBranch ctx) (wcTag ctx) of
                  None \<Rightarrow> Inl CelEvalError
                | Some (CelBool r) \<Rightarrow> Inr r
                | Some CelOther \<Rightarrow> Inl ErrWhenNotBool))"

definition Evaluate :: "'ast Cel \<Rightarrow> 'ast When \<Rightarrow> Context \<Rightarrow> whenErr + bool" where
  "Evaluate cel w ctx =
     (if wDeferred w then Inl ErrDeferredEvaluate
      else if \<not> celNewEnvOk cel (staticBindings ctx) then Inl CelEnvError
      else evalExpr cel (staticBindings ctx) (wExpression w) ctx (wParsed w))"

definition EvaluateDeferred ::
  "'ast Cel \<Rightarrow> 'ast When \<Rightarrow> Context \<Rightarrow> (string, (string, string) gomap) gomap \<Rightarrow> whenErr + bool" where
  "EvaluateDeferred cel w ctx depOutputs =
     (if \<not> wDeferred w then Inl ErrNotDeferredEvaluate
      else if \<not> celNewEnvOk cel (deferredBindings ctx depOutputs) then Inl CelEnvError
      else evalExpr cel (deferredBindings ctx depOutputs) (wExpression w) ctx (wParsed w))"

section \<open>The cached parse tree\<close>

text \<open>The cache is coherent when it is empty or holds the parse of the expression.\<close>

definition cacheOk :: "'ast Cel \<Rightarrow> 'ast When \<Rightarrow> bool" where
  "cacheOk cel w \<longleftrightarrow> (case wParsed w of None \<Rightarrow> True | Some p \<Rightarrow> celParse cel (wExpression w) = Some p)"

lemma parseAndValidate_parsed: "parseAndValidate cel e = Inr (p, d) \<Longrightarrow> celParse cel e = Some p"
  by (auto simp: parseAndValidate_def split: if_splits option.splits)

lemma NewWhen_cacheOk: "NewWhen cel e = Inr w \<Longrightarrow> cacheOk cel w \<and> wExpression w = e"
  by (auto simp: NewWhen_def cacheOk_def dest: parseAndValidate_parsed)

lemma WhenValidate_cacheOk: "cacheOk cel w \<Longrightarrow> cacheOk cel (fst (WhenValidate cel w))"
  by (auto simp: WhenValidate_def cacheOk_def dest: parseAndValidate_parsed
           split: sum.split option.splits)

lemma InvalidateAST_cacheOk [simp]: "cacheOk cel (InvalidateAST w)"
  by (simp add: cacheOk_def InvalidateAST_def)

lemma evalExpr_cache:
  assumes "compileLaw cel" "cacheOk cel w"
  shows "evalExpr cel b (wExpression w) ctx (wParsed w) = evalExpr cel b (wExpression w) ctx None"
  using assms by (auto simp: evalExpr_def cacheOk_def compileLaw_def split: option.splits)

lemma WhenValidate_None:
  "snd (WhenValidate cel w) = None \<longleftrightarrow> (\<exists>p d. parseAndValidate cel (wExpression w) = Inr (p, d))"
  by (auto simp: WhenValidate_def split: sum.split)

lemma WhenValidate_Expression [simp]: "wExpression (fst (WhenValidate cel w)) = wExpression w"
  by (auto simp: WhenValidate_def split: sum.split)

section \<open>A concrete library\<close>

text \<open>
  An instance of the parameter for evaluating the model: expressions are their own parse
  trees, the empty one does not parse, a call is recognised by its name at the start, and
  only \<^verbatim>\<open>true\<close> is true.
\<close>

definition sampleCel :: "string Cel" where
  "sampleCel =
     \<lparr>celNewEnvOk = (\<lambda>_. True), celParse = (\<lambda>e. if e = [] then None else Some e),
      celCheck = Some, celCompile = (\<lambda>e. if e = [] then None else Some e),
      celIsBool = (\<lambda>_. True),
      celCalls = (\<lambda>e. if prefix ''output'' e then [''output''] else []),
      celProgramOk = (\<lambda>_. True),
      celEval = (\<lambda>_ e _ _. Some (CelBool (e = ''true'')))\<rparr>"

lemma sampleCel_compileLaw: "compileLaw sampleCel"
  by (simp add: compileLaw_def sampleCel_def)

end
