(* ===== verification/Secrets.thy ===== *)
theory Secrets
  imports Pipeline_Model
begin

text \<open>
  \<^verbatim>\<open>pkg/pipeline/secret.go\<close>: validation of secret declarations and of the references that
  jobs and steps make to them. Each checker comes with the predicate it decides.
\<close>

section \<open>Declarations\<close>

text \<open>\<^verbatim>\<open>validateStrayFields\<close> rejects fields set on the wrong source type.\<close>

definition validateStrayFields :: "SecretDecl \<Rightarrow> err option" where
  "validateStrayFields d =
     (if sdVar d \<noteq> [] \<and> sdSource d \<noteq> SecretSourceHostEnv then Some (Sec ErrSecretVarWithNonHostEnv)
      else if sdPath d \<noteq> [] \<and> sdSource d \<noteq> SecretSourceFile then Some (Sec ErrSecretPathWithNonFile)
      else if sdCmd d \<noteq> [] \<and> sdSource d \<noteq> SecretSourceCmd then Some (Sec ErrSecretCmdWithNonCmd)
      else None)"

text \<open>\<^verbatim>\<open>cmp.Or(d.Var, d.Name)\<close>: the first non-empty of the two.\<close>

definition hostEnvName :: "SecretDecl \<Rightarrow> string" where
  "hostEnvName d = (if sdVar d \<noteq> [] then sdVar d else sdName d)"

definition checkSource :: "SecretDecl \<Rightarrow> err option" where
  "checkSource d =
     (if sdSource d = SecretSourceHostEnv then
        failIf (\<not> posixIdentifier (hostEnvName d)) (Sec ErrInvalidSecretHostEnvName)
      else if sdSource d = SecretSourceFile then
        failIf (TrimSpace (sdPath d) = []) (Sec ErrMissingSecretPath)
      else if sdSource d = SecretSourceCmd then
        failIf (TrimSpace (sdCmd d) = []) (Sec ErrMissingSecretCmd)
      else Some (Sec ErrInvalidSecretSource))"

definition checkDecl :: "string set \<Rightarrow> SecretDecl \<Rightarrow> err option" where
  "checkDecl seen d =
     orErr (failIf (sdName d = []) (Sec ErrEmptySecretName))
     (orErr (failIf (sdName d \<in> seen) (Sec ErrDuplicateSecret))
     (orErr (checkSource d) (validateStrayFields d)))"

definition validateSecretDecls :: "SecretDecl list \<Rightarrow> err option" where
  "validateSecretDecls decls = runSeen checkDecl sdName {} decls"

definition secretDeclSet :: "SecretDecl list \<Rightarrow> string set" where
  "secretDeclSet decls = sdName ` set decls"

text \<open>What a declaration must be: exactly the fields of its source, and a usable lookup name.\<close>

definition declOk :: "SecretDecl \<Rightarrow> bool" where
  "declOk d \<longleftrightarrow> sdName d \<noteq> [] \<and>
     (sdSource d = SecretSourceHostEnv \<and> posixIdentifier (hostEnvName d) \<and> sdPath d = [] \<and> sdCmd d = [] \<or>
      sdSource d = SecretSourceFile \<and> TrimSpace (sdPath d) \<noteq> [] \<and> sdVar d = [] \<and> sdCmd d = [] \<or>
      sdSource d = SecretSourceCmd \<and> TrimSpace (sdCmd d) \<noteq> [] \<and> sdVar d = [] \<and> sdPath d = [])"

lemma secret_sources_distinct [simp]:
  "SecretSourceHostEnv \<noteq> SecretSourceFile" "SecretSourceHostEnv \<noteq> SecretSourceCmd"
  "SecretSourceFile \<noteq> SecretSourceHostEnv" "SecretSourceFile \<noteq> SecretSourceCmd"
  "SecretSourceCmd \<noteq> SecretSourceHostEnv" "SecretSourceCmd \<noteq> SecretSourceFile"
  by (simp_all add: secret_source_defs)

interpretation decl_loop: dedup_loop checkDecl sdName declOk
  by unfold_locales
    (auto simp: checkDecl_def checkSource_def validateStrayFields_def declOk_def split: if_splits)

section \<open>References\<close>

text \<open>
  \<^verbatim>\<open>validateRefTarget\<close> checks the target of one reference and records it; the two sets are
  the maps \<^verbatim>\<open>envUsed\<close> and \<^verbatim>\<open>mountUsed\<close>.
\<close>

definition validateRefTarget ::
  "SecretRef \<Rightarrow> string set \<Rightarrow> string set \<Rightarrow> err + string set \<times> string set" where
  "validateRefTarget r envUsed mountUsed =
     (let hasEnv = srEnv r \<noteq> []; hasMount = srMount r \<noteq> [] in
      if \<not> hasEnv \<and> \<not> hasMount then Inl (Sec ErrSecretRefNoTarget)
      else if hasEnv \<and> hasMount then Inl (Sec ErrSecretRefBothTarget)
      else if hasEnv \<and> \<not> posixIdentifier (srEnv r) then Inl (Sec ErrInvalidSecretEnvName)
      else if hasMount \<and> \<not> prefix ''/'' (srMount r) then Inl (Sec ErrRelativeSecretMount)
      else if hasEnv \<and> srEnv r \<in> envUsed then Inl (Sec ErrDuplicateSecretEnvName)
      else let envUsed' = (if hasEnv then insert (srEnv r) envUsed else envUsed) in
      if hasMount \<and> srMount r \<in> mountUsed then Inl (Sec ErrDuplicateSecretMount)
      else Inr (envUsed', if hasMount then insert (srMount r) mountUsed else mountUsed))"

fun refsLoop ::
  "string set \<Rightarrow> string set \<Rightarrow> string set \<Rightarrow> string set \<Rightarrow> SecretRef list \<Rightarrow>
     err + string set \<times> string set" where
  "refsLoop declared seen envUsed mountUsed [] = Inr (envUsed, mountUsed)"
| "refsLoop declared seen envUsed mountUsed (r # refs) =
     (if srName r = [] then Inl (Sec ErrEmptySecretName)
      else if srName r \<notin> declared then Inl (Sec ErrUnknownSecret)
      else if srName r \<in> seen then Inl (Sec ErrDuplicateSecretRef)
      else bindE (validateRefTarget r envUsed mountUsed)
        (\<lambda>(env', mount'). refsLoop declared (insert (srName r) seen) env' mount' refs))"

text \<open>A nil parent map is an empty one.\<close>

definition validateSecretRefsWithUsed ::
  "SecretRef list \<Rightarrow> string set \<Rightarrow> string set \<Rightarrow> string set \<Rightarrow> err + string set \<times> string set" where
  "validateSecretRefsWithUsed refs declared parentEnv parentMount =
     refsLoop declared {} parentEnv parentMount refs"

definition validateSecretRefs ::
  "SecretRef list \<Rightarrow> string set \<Rightarrow> err + string set \<times> string set" where
  "validateSecretRefs refs declared = validateSecretRefsWithUsed refs declared {} {}"

definition validateSecretInheritance :: "SecretRef list \<Rightarrow> SecretRef list \<Rightarrow> err option" where
  "validateSecretInheritance jobRefs stepRefs =
     firstErr (\<lambda>r. failIf (srName r \<in> srName ` set jobRefs) (Sec ErrSecretOverride)) stepRefs"

text \<open>What the reference checks decide.\<close>

definition refOk :: "string set \<Rightarrow> SecretRef \<Rightarrow> bool" where
  "refOk declared r \<longleftrightarrow> srName r \<noteq> [] \<and> srName r \<in> declared \<and>
     (srEnv r \<noteq> [] \<and> srMount r = [] \<and> posixIdentifier (srEnv r) \<or>
      srEnv r = [] \<and> srMount r \<noteq> [] \<and> prefix ''/'' (srMount r))"

definition envTargets :: "SecretRef list \<Rightarrow> string list" where
  "envTargets refs = filter (\<lambda>e. e \<noteq> []) (map srEnv refs)"

definition mountTargets :: "SecretRef list \<Rightarrow> string list" where
  "mountTargets refs = filter (\<lambda>m. m \<noteq> []) (map srMount refs)"

lemma targets_simps [simp]:
  "envTargets [] = []" "mountTargets [] = []"
  "envTargets (r # refs) = (if srEnv r \<noteq> [] then [srEnv r] else []) @ envTargets refs"
  "mountTargets (r # refs) = (if srMount r \<noteq> [] then [srMount r] else []) @ mountTargets refs"
  by (simp_all add: envTargets_def mountTargets_def)

lemma validateRefTarget_Inr:
  "validateRefTarget r E M = Inr (E', M') \<longleftrightarrow>
     (srEnv r \<noteq> [] \<and> srMount r = [] \<and> posixIdentifier (srEnv r) \<and> srEnv r \<notin> E \<and>
        E' = insert (srEnv r) E \<and> M' = M \<or>
      srEnv r = [] \<and> srMount r \<noteq> [] \<and> prefix ''/'' (srMount r) \<and> srMount r \<notin> M \<and>
        E' = E \<and> M' = insert (srMount r) M)"
  by (auto simp: validateRefTarget_def Let_def)

lemma refsLoop_Inr:
  "refsLoop declared seen E M refs = Inr (E', M') \<longleftrightarrow>
     (\<forall>r\<in>set refs. refOk declared r) \<and>
     distinct (map srName refs) \<and> srName ` set refs \<inter> seen = {} \<and>
     distinct (envTargets refs) \<and> set (envTargets refs) \<inter> E = {} \<and>
     distinct (mountTargets refs) \<and> set (mountTargets refs) \<inter> M = {} \<and>
     E' = E \<union> set (envTargets refs) \<and> M' = M \<union> set (mountTargets refs)"
proof (induction refs arbitrary: seen E M)
  case (Cons r refs)
  show ?case
    by (auto simp: Cons.IH refOk_def validateRefTarget_Inr)
qed auto

lemma validateSecretInheritance_None [simp]:
  "validateSecretInheritance jobRefs stepRefs = None \<longleftrightarrow>
     srName ` set stepRefs \<inter> srName ` set jobRefs = {}"
  by (auto simp: validateSecretInheritance_def)

end
