(* ===== verification/Validate.thy ===== *)
theory Validate
  imports Dep_Graph Conditional Secrets
begin

text \<open>
  \<^verbatim>\<open>pkg/pipeline/validate.go\<close>: the checks on a pipeline, the construction of the name
  index and the topological sort. Validation also writes: \<^verbatim>\<open>When.Validate\<close> stores the
  parse tree and the deferred flag of every condition it reaches, and success stores the
  order in \<^verbatim>\<open>TopoOrder\<close>; the updated values are part of the results here, on the error
  paths too.
\<close>

section \<open>Field checks\<close>

definition checkEnvVar :: "string set \<Rightarrow> EnvVar \<Rightarrow> err option" where
  "checkEnvVar seen e =
     orErr (failIf (eKey e = []) (Field ErrEmptyEnvKey))
           (failIf (eKey e \<in> seen) (Field ErrDuplicateEnvKey))"

definition validateEnvVars :: "EnvVar list \<Rightarrow> err option" where
  "validateEnvVars envs = runSeen checkEnvVar eKey {} envs"

definition checkExport :: "string set \<Rightarrow> Export \<Rightarrow> err option" where
  "checkExport seen e =
     orErr (failIf (xPath e = []) (Field ErrEmptyExportPath))
     (orErr (failIf (\<not> prefix ''/'' (xPath e)) (Field ErrRelativeExport))
     (orErr (failIf (TrimRight (xPath e) ''/'' = []) (Field ErrRootExport))
     (orErr (failIf (xLocal e = []) (Field ErrEmptyExportLocal))
            (failIf (xPath e \<in> seen) (Field ErrDuplicateExport)))))"

definition validateExports :: "Export list \<Rightarrow> err option" where
  "validateExports exports = runSeen checkExport xPath {} exports"

definition checkArtifact :: "string list \<Rightarrow> string set \<Rightarrow> Artifact \<Rightarrow> err option" where
  "checkArtifact deps seen a =
     orErr (failIf (aFrom a = []) (Field ErrEmptyArtifactFrom))
     (orErr (failIf (aSource a = []) (Field ErrEmptyArtifactSource))
     (orErr (failIf (\<not> prefix ''/'' (aSource a)) (Field ErrRelativeArtifactSource))
     (orErr (failIf (aTarget a = []) (Field ErrEmptyArtifactTarget))
     (orErr (failIf (aFrom a \<notin> set deps) (Field ErrArtifactNoDep))
     (orErr (failIf (\<not> prefix ''/'' (aTarget a)) (Field ErrRelativeArtifact))
     (orErr (failIf (TrimRight (aTarget a) ''/'' = []) (Field ErrRootArtifact))
            (failIf (aTarget a \<in> seen) (Field ErrDuplicateArtifact))))))))"

definition validateArtifacts :: "Artifact list \<Rightarrow> string list \<Rightarrow> err option" where
  "validateArtifacts artifacts deps = runSeen (checkArtifact deps) aTarget {} artifacts"

definition validatePublish :: "Publish option \<Rightarrow> err option" where
  "validatePublish pub =
     (case pub of None \<Rightarrow> None
      | Some p \<Rightarrow> failIf (TrimSpace (pubImage p) = []) (Field ErrEmptyPublishImage))"

definition validateRetry :: "Retry option \<Rightarrow> err option" where
  "validateRetry r =
     (case r of None \<Rightarrow> None
      | Some r \<Rightarrow>
          orErr (failIf (rAttempts r \<le> 0) (Cfg ErrInvalidRetryAttempts))
          (orErr (failIf (rDelay r < 0) (Cfg ErrNegativeDelay))
                 (failIf (rBackoff r \<notin> {[], BackoffNone, BackoffLinear, BackoffExponential})
                    (Cfg ErrInvalidBackoff))))"

definition validateTimeout :: "int \<Rightarrow> err option" where
  "validateTimeout d = failIf (d < 0) (Cfg ErrNegativeTimeout)"

text \<open>A nil shell inherits; a shell that is set must have an argument.\<close>

definition validateShell :: "string list option \<Rightarrow> err option" where
  "validateShell s = failIf (s = Some []) (Cfg ErrEmptyShell)"

section \<open>Steps and jobs\<close>

text \<open>Steps may not use \<^verbatim>\<open>output()\<close>; the flag tested is the one \<^verbatim>\<open>Validate\<close> just stored.\<close>

definition validateStepWhen :: "'ast Cel \<Rightarrow> 'ast Step \<Rightarrow> 'ast Step \<times> err option" where
  "validateStepWhen cel s =
     (case sWhen s of
        None \<Rightarrow> (s, None)
      | Some w \<Rightarrow>
          (case WhenValidate cel w of
             (w', Some _) \<Rightarrow> (s\<lparr>sWhen := Some w'\<rparr>, Some (Val ErrInvalidCondition))
           | (w', None) \<Rightarrow>
               (s\<lparr>sWhen := Some w'\<rparr>, failIf (wDeferred w') (Val ErrDeferredStepWhen))))"

definition validateStep :: "'ast Cel \<Rightarrow> 'ast Step \<Rightarrow> string set \<Rightarrow> 'ast Step \<times> err option" where
  "validateStep cel s seen =
     (case orErr (failIf (sName s = []) (Val ErrEmptyStepName))
           (orErr (failIf (\<not> validName (sName s)) (Val ErrInvalidName))
           (orErr (failIf (sName s \<in> seen) (Val ErrDuplicateStep))
           (orErr (failIf (sRun s = []) (Val ErrMissingRun))
                  (firstErr (\<lambda>cmd. failIf (TrimSpace cmd = []) (Val ErrEmptyRunCommand)) (sRun s))))) of
        Some e \<Rightarrow> (s, Some e)
      | None \<Rightarrow>
          (let (s', e) = validateStepWhen cel s in
           (s', orErr e
                (orErr (validateTimeout (sTimeout s))
                (orErr (validateShell (sShell s))
                (orErr (validateEnvVars (sEnv s))
                (orErr (validateRetry (sRetry s))
                       (validateExports (sExports s))))))))) "

text \<open>
  The loop over the steps of a job. \<^verbatim>\<open>envUsed\<close> and \<^verbatim>\<open>mountUsed\<close> are the targets taken at job
  level, cloned for every step.
\<close>

fun validateSteps ::
  "'ast Cel \<Rightarrow> 'ast Job \<Rightarrow> string set \<Rightarrow> string set \<Rightarrow> string set \<Rightarrow> string set \<Rightarrow>
     'ast Step list \<Rightarrow> 'ast Step list \<times> err option" where
  "validateSteps cel j declared envUsed mountUsed seen [] = ([], None)"
| "validateSteps cel j declared envUsed mountUsed seen (s # ss) =
     (let (s', e) = validateStep cel s seen in
      case orErr e
           (orErr (validateArtifacts (sArtifacts s) (jDependsOn j))
           (orErr (errOf (validateSecretRefsWithUsed (sSecrets s) declared envUsed mountUsed))
                  (validateSecretInheritance (jSecrets j) (sSecrets s)))) of
        Some e' \<Rightarrow> (s' # ss, Some e')
      | None \<Rightarrow>
          (let (ss', r) = validateSteps cel j declared envUsed mountUsed (insert (sName s) seen) ss
           in (s' # ss', r)))"

definition validateJobWhen :: "'ast Cel \<Rightarrow> 'ast Job \<Rightarrow> 'ast Job \<times> err option" where
  "validateJobWhen cel j =
     (case jWhen j of
        None \<Rightarrow> (j, None)
      | Some w \<Rightarrow>
          (let (w', e) = WhenValidate cel w in
           (j\<lparr>jWhen := Some w'\<rparr>, map_option (\<lambda>_. Val ErrInvalidCondition) e)))"

text \<open>
  \<^verbatim>\<open>g.index\<close> maps a job name to its position. \<open>checkJobFields\<close> is the part of \<^verbatim>\<open>validateJob\<close>
  before the secret references; the caller records the name in the index, which no later
  check of the same job reads.
\<close>

type_synonym index = "string \<rightharpoonup> nat"

definition checkJobFields :: "'ast Job \<Rightarrow> index \<Rightarrow> err option" where
  "checkJobFields j index =
     orErr (failIf (jName j = []) (Val ErrEmptyJobName))
     (orErr (failIf (\<not> validName (jName j)) (Val ErrInvalidName))
     (orErr (failIf (index (jName j) \<noteq> None) (Val ErrDuplicateJob))
     (orErr (failIf (jImage j = []) (Val ErrMissingImage))
     (orErr (failIf (jSteps j = []) (Val ErrEmptyJob))
     (orErr (validateEnvVars (jEnv j))
     (orErr (validateExports (jExports j))
     (orErr (validateArtifacts (jArtifacts j) (jDependsOn j))
     (orErr (validatePublish (jPublish j))
     (orErr (validateTimeout (jTimeout j))
     (orErr (validateRetry (jRetry j))
            (validateShell (jShell j))))))))))))"

definition validateJob ::
  "'ast Cel \<Rightarrow> 'ast Job \<Rightarrow> index \<Rightarrow> string set \<Rightarrow> 'ast Job \<times> err option" where
  "validateJob cel j index declared =
     (case checkJobFields j index of
        Some e \<Rightarrow> (j, Some e)
      | None \<Rightarrow>
          (case validateSecretRefs (jSecrets j) declared of
             Inl e \<Rightarrow> (j, Some e)
           | Inr (envUsed, mountUsed) \<Rightarrow>
               (case validateJobWhen cel j of
                  (j', Some e) \<Rightarrow> (j', Some e)
                | (j', None) \<Rightarrow>
                    (let (ss, e) = validateSteps cel j declared envUsed mountUsed {} (jSteps j)
                     in (j'\<lparr>jSteps := ss\<rparr>, e)))))"

section \<open>The job graph\<close>

fun validateJobs ::
  "'ast Cel \<Rightarrow> string set \<Rightarrow> nat \<Rightarrow> index \<Rightarrow> 'ast Job list \<Rightarrow> 'ast Job list \<times> (err + index)" where
  "validateJobs cel declared idx index [] = ([], Inr index)"
| "validateJobs cel declared idx index (j # js) =
     (case validateJob cel j index declared of
        (j', Some e) \<Rightarrow> (j' # js, Inl e)
      | (j', None) \<Rightarrow>
          (let (js', r) = validateJobs cel declared (Suc idx) (index(jName j \<mapsto> idx)) js
           in (j' # js', r)))"

definition checkSelfDeps :: "'ast Job list \<Rightarrow> err option" where
  "checkSelfDeps jobs =
     firstErr (\<lambda>j. failIf (jName j \<in> set (jDependsOn j)) (Val ErrSelfDependency)) jobs"

definition resolveDep :: "index \<Rightarrow> string \<Rightarrow> err + nat" where
  "resolveDep index dep = (case index dep of None \<Rightarrow> Inl (Val ErrUnknownDep) | Some j \<Rightarrow> Inr j)"

definition jobDeps :: "'ast Job list \<Rightarrow> index \<Rightarrow> nat \<Rightarrow> (err + nat) list" where
  "jobDeps jobs index i = map (resolveDep index) (jDependsOn (jobs ! i))"

definition topoSort :: "'ast Job list \<Rightarrow> index \<Rightarrow> err + nat list" where
  "topoSort jobs index =
     bindE (visitAll [0..<length jobs] (jobDeps jobs index) (map Inr [0..<length jobs]) initDfs)
       (\<lambda>st. Inr (orderOf st))"

text \<open>\<^verbatim>\<open>Validate\<close>; the argument is a pointer, the first result what it points to afterwards.\<close>

definition Validate ::
  "'ast Cel \<Rightarrow> 'ast Pipeline option \<Rightarrow> 'ast Pipeline option \<times> (err + nat list)" where
  "Validate cel ptr =
     (case ptr of
        None \<Rightarrow> (None, Inl (Val ErrEmptyPipeline))
      | Some p \<Rightarrow>
          if pJobs p = [] then (Some p, Inl (Val ErrEmptyPipeline))
          else (case orErr (validateEnvVars (pEnv p)) (validateSecretDecls (pSecrets p)) of
                  Some e \<Rightarrow> (Some p, Inl e)
                | None \<Rightarrow>
                    (case validateJobs cel (secretDeclSet (pSecrets p)) 0 Map.empty (pJobs p) of
                       (jobs, Inl e) \<Rightarrow> (Some (p\<lparr>pJobs := jobs\<rparr>), Inl e)
                     | (jobs, Inr index) \<Rightarrow>
                         (case checkSelfDeps jobs of
                            Some e \<Rightarrow> (Some (p\<lparr>pJobs := jobs\<rparr>), Inl e)
                          | None \<Rightarrow>
                              (case topoSort jobs index of
                                 Inl e \<Rightarrow> (Some (p\<lparr>pJobs := jobs\<rparr>), Inl e)
                               | Inr order \<Rightarrow>
                                   (Some (p\<lparr>pJobs := jobs, pTopoOrder := Some order\<rparr>),
                                    Inr order))))))"

section \<open>What a valid pipeline is\<close>

definition absPath :: "string \<Rightarrow> bool" where
  "absPath p \<longleftrightarrow> prefix ''/'' p"

definition notRoot :: "string \<Rightarrow> bool" where
  "notRoot p \<longleftrightarrow> (\<exists>c\<in>set p. c \<noteq> CHR ''/'')"

definition exportOk :: "Export \<Rightarrow> bool" where
  "exportOk e \<longleftrightarrow> absPath (xPath e) \<and> notRoot (xPath e) \<and> xLocal e \<noteq> []"

definition artifactOk :: "string list \<Rightarrow> Artifact \<Rightarrow> bool" where
  "artifactOk deps a \<longleftrightarrow> aFrom a \<noteq> [] \<and> aFrom a \<in> set deps \<and> absPath (aSource a) \<and>
     absPath (aTarget a) \<and> notRoot (aTarget a)"

definition envOk :: "EnvVar list \<Rightarrow> bool" where
  "envOk envs \<longleftrightarrow> (\<forall>e\<in>set envs. eKey e \<noteq> []) \<and> distinct (map eKey envs)"

definition exportsOk :: "Export list \<Rightarrow> bool" where
  "exportsOk xs \<longleftrightarrow> (\<forall>x\<in>set xs. exportOk x) \<and> distinct (map xPath xs)"

definition artifactsOk :: "string list \<Rightarrow> Artifact list \<Rightarrow> bool" where
  "artifactsOk deps xs \<longleftrightarrow> (\<forall>x\<in>set xs. artifactOk deps x) \<and> distinct (map aTarget xs)"

definition declsOk :: "SecretDecl list \<Rightarrow> bool" where
  "declsOk ds \<longleftrightarrow> (\<forall>d\<in>set ds. declOk d) \<and> distinct (map sdName ds)"

definition retryOk :: "Retry option \<Rightarrow> bool" where
  "retryOk r \<longleftrightarrow> (\<forall>x. r = Some x \<longrightarrow> 0 < rAttempts x \<and> 0 \<le> rDelay x \<and>
     rBackoff x \<in> {[], BackoffNone, BackoffLinear, BackoffExponential})"

definition publishOk :: "Publish option \<Rightarrow> bool" where
  "publishOk p \<longleftrightarrow> (\<forall>x. p = Some x \<longrightarrow> TrimSpace (pubImage x) \<noteq> [])"

text \<open>A condition compiles to a boolean; a step's must not refer to outputs.\<close>

definition jobWhenOk :: "'ast Cel \<Rightarrow> 'ast When option \<Rightarrow> bool" where
  "jobWhenOk cel w \<longleftrightarrow> (\<forall>x. w = Some x \<longrightarrow> (\<exists>p d. parseAndValidate cel (wExpression x) = Inr (p, d)))"

definition stepWhenOk :: "'ast Cel \<Rightarrow> 'ast When option \<Rightarrow> bool" where
  "stepWhenOk cel w \<longleftrightarrow> (\<forall>x. w = Some x \<longrightarrow> (\<exists>p. parseAndValidate cel (wExpression x) = Inr (p, False)))"

text \<open>References of one scope, with the targets its parent scope has taken.\<close>

definition refsOk :: "string set \<Rightarrow> SecretRef list \<Rightarrow> SecretRef list \<Rightarrow> bool" where
  "refsOk declared parent refs \<longleftrightarrow>
     (\<forall>r\<in>set refs. refOk declared r) \<and> distinct (map srName refs) \<and>
     distinct (envTargets refs) \<and> set (envTargets refs) \<inter> set (envTargets parent) = {} \<and>
     distinct (mountTargets refs) \<and> set (mountTargets refs) \<inter> set (mountTargets parent) = {} \<and>
     srName ` set refs \<inter> srName ` set parent = {}"

definition stepOk :: "'ast Cel \<Rightarrow> string set \<Rightarrow> 'ast Job \<Rightarrow> 'ast Step \<Rightarrow> bool" where
  "stepOk cel declared j s \<longleftrightarrow>
     validName (sName s) \<and> sRun s \<noteq> [] \<and> (\<forall>c\<in>set (sRun s). TrimSpace c \<noteq> []) \<and>
     stepWhenOk cel (sWhen s) \<and> 0 \<le> sTimeout s \<and> sShell s \<noteq> Some [] \<and> envOk (sEnv s) \<and>
     retryOk (sRetry s) \<and> exportsOk (sExports s) \<and>
     artifactsOk (jDependsOn j) (sArtifacts s) \<and> refsOk declared (jSecrets j) (sSecrets s)"

definition jobOk :: "'ast Cel \<Rightarrow> string set \<Rightarrow> 'ast Job \<Rightarrow> bool" where
  "jobOk cel declared j \<longleftrightarrow>
     validName (jName j) \<and> jImage j \<noteq> [] \<and> jSteps j \<noteq> [] \<and> envOk (jEnv j) \<and>
     exportsOk (jExports j) \<and> artifactsOk (jDependsOn j) (jArtifacts j) \<and>
     publishOk (jPublish j) \<and> 0 \<le> jTimeout j \<and> retryOk (jRetry j) \<and> jShell j \<noteq> Some [] \<and>
     refsOk declared [] (jSecrets j) \<and> jobWhenOk cel (jWhen j) \<and>
     (\<forall>s\<in>set (jSteps j). stepOk cel declared j s) \<and> distinct (map sName (jSteps j))"

text \<open>\<open>depRel jobs\<close>: job \<open>a\<close> depends on job \<open>b\<close>, by name.\<close>

definition depRel :: "'ast Job list \<Rightarrow> (string \<times> string) set" where
  "depRel jobs = {(jName j, d) | j d. j \<in> set jobs \<and> d \<in> set (jDependsOn j)}"

definition jobNames :: "'ast Job list \<Rightarrow> string list" where
  "jobNames jobs = map jName jobs"

definition depsOk :: "'ast Job list \<Rightarrow> bool" where
  "depsOk jobs \<longleftrightarrow> (\<forall>j\<in>set jobs. set (jDependsOn j) \<subseteq> set (jobNames jobs)) \<and> acyclic (depRel jobs)"

definition pipelineOk :: "'ast Cel \<Rightarrow> 'ast Pipeline \<Rightarrow> bool" where
  "pipelineOk cel p \<longleftrightarrow>
     pJobs p \<noteq> [] \<and> envOk (pEnv p) \<and> declsOk (pSecrets p) \<and>
     (\<forall>j\<in>set (pJobs p). jobOk cel (secretDeclSet (pSecrets p)) j) \<and>
     distinct (jobNames (pJobs p)) \<and> depsOk (pJobs p)"

section \<open>The field checks decide their predicates\<close>

interpretation env_loop: dedup_loop checkEnvVar eKey "\<lambda>e. eKey e \<noteq> []"
  by unfold_locales (auto simp: checkEnvVar_def)

interpretation export_loop: dedup_loop checkExport xPath exportOk
  by unfold_locales (auto simp: checkExport_def exportOk_def absPath_def notRoot_def)

interpretation artifact_loop: dedup_loop "checkArtifact deps" aTarget "artifactOk deps" for deps
  by unfold_locales (auto simp: checkArtifact_def artifactOk_def absPath_def notRoot_def)

lemma field_checks [simp]:
  "validateEnvVars envs = None \<longleftrightarrow> envOk envs"
  "validateExports xs = None \<longleftrightarrow> exportsOk xs"
  "validateArtifacts as deps = None \<longleftrightarrow> artifactsOk deps as"
  "validateSecretDecls ds = None \<longleftrightarrow> declsOk ds"
  "validatePublish pub = None \<longleftrightarrow> publishOk pub"
  "validateRetry r = None \<longleftrightarrow> retryOk r"
  "validateTimeout t = None \<longleftrightarrow> 0 \<le> t"
  "validateShell sh = None \<longleftrightarrow> sh \<noteq> Some []"
  by (auto simp: validateEnvVars_def env_loop.run_accepts envOk_def
      validateExports_def export_loop.run_accepts exportsOk_def
      validateArtifacts_def artifact_loop.run_accepts artifactsOk_def
      validateSecretDecls_def decl_loop.run_accepts declsOk_def
      validatePublish_def publishOk_def validateRetry_def retryOk_def
      validateTimeout_def validateShell_def split: option.split)

lemma validName_Nil [simp]: "\<not> validName []"
  by (simp add: validName_def validNameRe_def Plus_def)

lemma validateStepWhen_None: "snd (validateStepWhen cel s) = None \<longleftrightarrow> stepWhenOk cel (sWhen s)"
  by (auto simp: validateStepWhen_def stepWhenOk_def WhenValidate_def
      split: option.splits sum.splits prod.splits)

lemma validateJobWhen_None: "snd (validateJobWhen cel j) = None \<longleftrightarrow> jobWhenOk cel (jWhen j)"
  by (auto simp: validateJobWhen_def jobWhenOk_def WhenValidate_def split: option.splits sum.splits)

lemma validateJobWhen_frame [simp]:
  "jName (fst (validateJobWhen cel j)) = jName j"
  "jDependsOn (fst (validateJobWhen cel j)) = jDependsOn j"
  by (auto simp: validateJobWhen_def split: option.splits prod.splits)

section \<open>Steps, jobs and the index\<close>

lemma validateStep_None:
  "snd (validateStep cel s seen) = None \<longleftrightarrow>
     validName (sName s) \<and> sName s \<notin> seen \<and> sRun s \<noteq> [] \<and> (\<forall>c\<in>set (sRun s). TrimSpace c \<noteq> []) \<and>
     stepWhenOk cel (sWhen s) \<and> 0 \<le> sTimeout s \<and> sShell s \<noteq> Some [] \<and> envOk (sEnv s) \<and>
     retryOk (sRetry s) \<and> exportsOk (sExports s)"
  unfolding validateStep_def validateStepWhen_None [symmetric]
  by (auto simp: split_def Let_def)

lemma refs_step:
  assumes "validateSecretRefs parent declared = Inr (E, M)"
  shows "errOf (validateSecretRefsWithUsed refs declared E M) = None \<and>
       validateSecretInheritance parent refs = None \<longleftrightarrow> refsOk declared parent refs"
  using assms
  by (auto simp: validateSecretRefs_def validateSecretRefsWithUsed_def refsLoop_Inr refsOk_def)

lemma refs_job: "(\<exists>E M. validateSecretRefs refs declared = Inr (E, M)) \<longleftrightarrow> refsOk declared [] refs"
  by (auto simp: validateSecretRefs_def validateSecretRefsWithUsed_def refsLoop_Inr refsOk_def)

lemma validateSteps_None:
  assumes "validateSecretRefs (jSecrets j) declared = Inr (E, M)"
  shows "snd (validateSteps cel j declared E M seen ss) = None \<longleftrightarrow>
     (\<forall>s\<in>set ss. stepOk cel declared j s) \<and> distinct (map sName ss) \<and> sName ` set ss \<inter> seen = {}"
proof (induction ss arbitrary: seen)
  case (Cons s ss)
  have "snd (validateSteps cel j declared E M seen (s # ss)) = None \<longleftrightarrow>
      stepOk cel declared j s \<and> sName s \<notin> seen \<and>
      snd (validateSteps cel j declared E M (insert (sName s) seen) ss) = None"
    using validateStep_None [of cel s seen] refs_step [OF assms, of "sSecrets s"]
    by (auto simp: split_def Let_def stepOk_def)
  with Cons.IH show ?case by auto
qed simp

lemma checkJobFields_None:
  "checkJobFields j index = None \<longleftrightarrow>
     validName (jName j) \<and> jName j \<notin> dom index \<and> jImage j \<noteq> [] \<and> jSteps j \<noteq> [] \<and> envOk (jEnv j) \<and>
     exportsOk (jExports j) \<and> artifactsOk (jDependsOn j) (jArtifacts j) \<and>
     publishOk (jPublish j) \<and> 0 \<le> jTimeout j \<and> retryOk (jRetry j) \<and> jShell j \<noteq> Some []"
  unfolding checkJobFields_def by auto

lemma validateJob_None:
  "snd (validateJob cel j index declared) = None \<longleftrightarrow> jobOk cel declared j \<and> jName j \<notin> dom index"
proof (cases "validateSecretRefs (jSecrets j) declared")
  case (Inl e)
  with refs_job [of "jSecrets j" declared] have "\<not> refsOk declared [] (jSecrets j)" by simp
  with Inl show ?thesis by (simp add: validateJob_def jobOk_def)
next
  case (Inr EM)
  obtain E M where EM: "EM = (E, M)" by (cases EM)
  have "refsOk declared [] (jSecrets j)"
    using refs_job [of "jSecrets j" declared] Inr EM by auto
  then show ?thesis
    using validateJobWhen_None [of cel j] validateSteps_None [OF Inr [unfolded EM], of cel "{}" "jSteps j"]
    by (auto simp: validateJob_def Inr EM checkJobFields_None jobOk_def split_def Let_def)
qed

lemma validateJob_frame [simp]:
  "jName (fst (validateJob cel j index declared)) = jName j"
  "jDependsOn (fst (validateJob cel j index declared)) = jDependsOn j"
  using validateJobWhen_frame [of cel j]
  by (auto simp: validateJob_def Let_def split: option.split sum.split prod.split simp del: validateJobWhen_frame)

text \<open>The index that a run over jobs with distinct names builds.\<close>

definition nameIndex :: "'ast Job list \<Rightarrow> index" where
  "nameIndex jobs = map_of (zip (jobNames jobs) [0..<length jobs])"

lemma nameIndex_dom [simp]: "dom (nameIndex jobs) = set (jobNames jobs)"
  by (simp add: nameIndex_def dom_map_of_zip jobNames_def)

lemma nameIndex_Some:
  assumes "distinct (jobNames jobs)"
  shows "nameIndex jobs n = Some i \<longleftrightarrow> i < length jobs \<and> jName (jobs ! i) = n"
proof -
  have "nameIndex jobs n = Some i \<longleftrightarrow> (n, i) \<in> set (zip (jobNames jobs) [0..<length jobs])"
    unfolding nameIndex_def using assms by (intro map_of_eq_Some_iff) (simp add: jobNames_def)
  also have "\<dots> \<longleftrightarrow> i < length jobs \<and> jName (jobs ! i) = n"
  proof
    assume "(n, i) \<in> set (zip (jobNames jobs) [0..<length jobs])"
    then show "i < length jobs \<and> jName (jobs ! i) = n" by (auto simp: in_set_zip jobNames_def)
  next
    assume "i < length jobs \<and> jName (jobs ! i) = n"
    then show "(n, i) \<in> set (zip (jobNames jobs) [0..<length jobs])"
      unfolding in_set_zip by (intro exI [of _ i]) (simp add: jobNames_def)
  qed
  finally show ?thesis .
qed

lemma nameIndex_bound: "nameIndex jobs n = Some i \<Longrightarrow> i < length jobs"
  by (auto simp: nameIndex_def jobNames_def dest!: map_of_SomeD set_zip_rightD)

lemma nameIndex_cong: "map jName js = map jName js' \<Longrightarrow> nameIndex js = nameIndex js'"
  unfolding nameIndex_def jobNames_def by (metis length_map)

lemma validateJobs_frame:
  "map jName (fst (validateJobs cel declared i ix js)) = map jName js \<and>
   map jDependsOn (fst (validateJobs cel declared i ix js)) = map jDependsOn js"
proof (induction js arbitrary: i ix)
  case (Cons j js)
  obtain j' e where "validateJob cel j ix declared = (j', e)" by fastforce
  moreover from this validateJob_frame [of cel j ix declared]
  have "jName j' = jName j" "jDependsOn j' = jDependsOn j" by simp_all
  ultimately show ?case using Cons.IH by (cases e) (simp_all add: split_def Let_def)
qed simp

lemma validateJobs_Inr:
  "snd (validateJobs cel declared i ix js) = Inr ix' \<longleftrightarrow>
     (\<forall>j\<in>set js. jobOk cel declared j) \<and> distinct (jobNames js) \<and>
     set (jobNames js) \<inter> dom ix = {} \<and>
     ix' = ix ++ map_of (zip (jobNames js) [i..<i + length js])"
proof (induction js arbitrary: i ix)
  case (Cons j js)
  have upt: "[i..<i + length (j # js)] = i # [Suc i..<Suc i + length js]"
    by (simp add: upt_rec [of i] Suc_le_eq)
  have ok: "snd (validateJob cel j ix declared) = None \<longleftrightarrow>
      jobOk cel declared j \<and> jName j \<notin> dom ix" by (rule validateJob_None)
  have "snd (validateJobs cel declared i ix (j # js)) = Inr ix' \<longleftrightarrow>
      snd (validateJob cel j ix declared) = None \<and>
      snd (validateJobs cel declared (Suc i) (ix(jName j \<mapsto> i)) js) = Inr ix'"
    by (auto simp: split_def Let_def split: option.split prod.split)
  also have "\<dots> \<longleftrightarrow> (\<forall>x\<in>set (j # js). jobOk cel declared x) \<and> distinct (jobNames (j # js)) \<and>
      set (jobNames (j # js)) \<inter> dom ix = {} \<and>
      ix' = (ix(jName j \<mapsto> i)) ++ map_of (zip (jobNames js) [Suc i..<Suc i + length js])"
    unfolding ok Cons.IH by (auto simp: jobNames_def)
  also have "(ix(jName j \<mapsto> i)) ++ map_of (zip (jobNames js) [Suc i..<Suc i + length js]) =
      ix ++ map_of (zip (jobNames (j # js)) [i..<i + length (j # js)])"
    if "distinct (jobNames (j # js))"
  proof -
    from that have "jName j \<notin> dom (map_of (zip (jobNames js) [Suc i..<Suc i + length js]))"
      by (auto simp: jobNames_def dest!: map_of_SomeD set_zip_leftD)
    then show ?thesis
      unfolding upt by (simp add: jobNames_def map_add_upd_left domIff)
  qed
  then show ?case by (metis (no_types) calculation)
qed (auto simp: jobNames_def)

text \<open>The job graph is an instance of the search; its nodes are the positions of the jobs.\<close>

interpretation jobg: dep_graph "[0..<length jobs]" "jobDeps jobs (nameIndex jobs)"
  for jobs :: "'ast Job list"
  by unfold_locales
    (auto simp: jobDeps_def resolveDep_def dest: nameIndex_bound split: option.splits)

abbreviation jobEdge :: "'ast Job list \<Rightarrow> (nat \<times> nat) set" where
  "jobEdge jobs \<equiv> dep_graph.edge [0..<length jobs] (jobDeps jobs (nameIndex jobs))"

lemma jobDeps_Inl:
  "Inl e \<in> set (jobDeps jobs (nameIndex jobs) i) \<longleftrightarrow>
     e = Val ErrUnknownDep \<and> \<not> set (jDependsOn (jobs ! i)) \<subseteq> set (jobNames jobs)"
proof -
  have "nameIndex jobs d = None \<longleftrightarrow> d \<notin> set (jobNames jobs)" for d
    using nameIndex_dom [of jobs] by (metis domIff)
  then show ?thesis
    by (force simp: jobDeps_def resolveDep_def image_iff split: option.splits)
qed

lemma jobDeps_Inr:
  assumes "distinct (jobNames jobs)"
  shows "Inr k \<in> set (jobDeps jobs (nameIndex jobs) i) \<longleftrightarrow>
     k < length jobs \<and> jName (jobs ! k) \<in> set (jDependsOn (jobs ! i))"
proof -
  have "Inr k = resolveDep (nameIndex jobs) d \<longleftrightarrow> k < length jobs \<and> jName (jobs ! k) = d" for d
    using nameIndex_Some [OF assms, of d k] by (auto simp: resolveDep_def split: option.split)
  then show ?thesis by (auto simp: jobDeps_def image_iff)
qed

lemma jobEdge_iff:
  assumes "distinct (jobNames jobs)"
  shows "(i, k) \<in> jobEdge jobs \<longleftrightarrow>
     i < length jobs \<and> k < length jobs \<and> jName (jobs ! k) \<in> set (jDependsOn (jobs ! i))"
  using jobDeps_Inr [OF assms] by (auto simp: jobg.edge_def)

lemma depRel_edge:
  assumes "distinct (jobNames jobs)" "\<forall>j\<in>set jobs. set (jDependsOn j) \<subseteq> set (jobNames jobs)"
  shows "depRel jobs =
     map_prod (\<lambda>i. jName (jobs ! i)) (\<lambda>i. jName (jobs ! i)) ` jobEdge jobs"
proof -
  have "(a, b) \<in> depRel jobs \<longleftrightarrow>
      (\<exists>i k. i < length jobs \<and> k < length jobs \<and> a = jName (jobs ! i) \<and> b = jName (jobs ! k) \<and>
         b \<in> set (jDependsOn (jobs ! i)))" for a b
    using assms(2) unfolding depRel_def jobNames_def
    by (fastforce simp: in_set_conv_nth subset_iff)
  moreover have "(a, b) \<in> map_prod f f ` R \<longleftrightarrow> (\<exists>i k. (i, k) \<in> R \<and> a = f i \<and> b = f k)"
    for a b and f :: "nat \<Rightarrow> string" and R by force
  ultimately show ?thesis
    using jobEdge_iff [OF assms(1)] by (intro set_eqI) (simp only: split_paired_all, blast)
qed

text \<open>In general the graph has the edges whose ends are both known.\<close>

lemma edge_inj:
  assumes "distinct (jobNames jobs)"
  shows "inj_on (\<lambda>i. jName (jobs ! i)) (Relation.Field (jobEdge jobs))"
proof -
  have "Relation.Field (jobEdge jobs) \<subseteq> {..<length jobs}"
    using jobg.deps_closed by (fastforce simp: Relation.Field_def jobg.edge_def)
  moreover from assms have "inj_on (\<lambda>i. jName (jobs ! i)) {..<length jobs}"
    by (auto simp: jobNames_def distinct_conv_nth inj_on_def)
  ultimately show ?thesis by (rule inj_on_subset [rotated])
qed

lemma edge_acyclic:
  assumes "distinct (jobNames jobs)" "\<forall>j\<in>set jobs. set (jDependsOn j) \<subseteq> set (jobNames jobs)"
  shows "acyclic (jobEdge jobs) \<longleftrightarrow> acyclic (depRel jobs)"
  unfolding depRel_edge [OF assms] by (rule acyclic_map_prod [OF edge_inj [OF assms(1)], symmetric])

lemma edge_acyclic_weak:
  assumes "distinct (jobNames jobs)" "acyclic (depRel jobs)"
  shows "acyclic (jobEdge jobs)"
proof -
  have "map_prod (\<lambda>i. jName (jobs ! i)) (\<lambda>i. jName (jobs ! i)) ` jobEdge jobs \<subseteq> depRel jobs"
    using jobEdge_iff [OF assms(1)] by (fastforce simp: depRel_def)
  from acyclic_subset [OF assms(2) this] show ?thesis
    by (simp add: acyclic_map_prod [OF edge_inj [OF assms(1)]])
qed

lemma topoSort_Inr:
  assumes "distinct (jobNames jobs)"
  shows "(\<exists>order. topoSort jobs (nameIndex jobs) = Inr order) \<longleftrightarrow> depsOk jobs"
proof -
  have known: "(\<forall>i\<in>set [0..<length jobs]. \<forall>e. Inl e \<notin> set (jobDeps jobs (nameIndex jobs) i)) \<longleftrightarrow>
      (\<forall>j\<in>set jobs. set (jDependsOn j) \<subseteq> set (jobNames jobs))"
    by (auto simp: jobDeps_Inl all_set_conv_all_nth)
  show ?thesis
    using jobg.visitAll_iff [of jobs] known edge_acyclic [OF assms]
    by (auto simp: topoSort_def depsOk_def)
qed

lemma topoSort_order:
  assumes "topoSort jobs (nameIndex jobs) = Inr order"
  shows "distinct order" "set order = {..<length jobs}"
    and "(i, k) \<in> jobEdge jobs \<Longrightarrow> before order k i"
  using assms jobg.order_complete [of jobs]
  by (auto simp: topoSort_def lessThan_atLeast0)

lemma depsOk_no_self: "depsOk jobs \<Longrightarrow> checkSelfDeps jobs = None"
  by (fastforce simp: checkSelfDeps_def depsOk_def depRel_def acyclic_def)

text \<open>Validation leaves the graph alone: names and dependency lists are read only.\<close>

definition depPairs :: "'ast Job list \<Rightarrow> (string \<times> string list) list" where
  "depPairs jobs = map (\<lambda>j. (jName j, jDependsOn j)) jobs"

lemma depPairs_eq:
  "depPairs js = zip (map jName js) (map jDependsOn js)"
  by (simp add: depPairs_def zip_map_map zip_same_conv_map)

lemma depPairs_ex:
  fixes js js' :: "'ast Job list"
  assumes "depPairs js = depPairs js'"
  shows "(\<exists>j\<in>set js. P (jName j) (jDependsOn j)) \<longleftrightarrow> (\<exists>j\<in>set js'. P (jName j) (jDependsOn j))"
proof -
  have "(\<exists>j\<in>set js. P (jName j) (jDependsOn j)) \<longleftrightarrow> (\<exists>x\<in>set (depPairs js). P (fst x) (snd x))"
    for js :: "'ast Job list" by (simp add: depPairs_def)
  then show ?thesis using assms by simp
qed

lemma depRel_pairs: "depRel js = {(a, d). \<exists>ds. (a, ds) \<in> set (depPairs js) \<and> d \<in> set ds}"
  by (force simp: depRel_def depPairs_def)

section \<open>What validation writes\<close>

text \<open>The fields of a condition that validation may write, erased.\<close>

definition eraseWhen :: "'ast When \<Rightarrow> 'ast When" where
  "eraseWhen w = w\<lparr>wDeferred := False, wParsed := None\<rparr>"

definition eraseStep :: "'ast Step \<Rightarrow> 'ast Step" where
  "eraseStep s = s\<lparr>sWhen := map_option eraseWhen (sWhen s)\<rparr>"

definition eraseJob :: "'ast Job \<Rightarrow> 'ast Job" where
  "eraseJob j = j\<lparr>jWhen := map_option eraseWhen (jWhen j), jSteps := map eraseStep (jSteps j)\<rparr>"

text \<open>A condition that is ready for evaluation carries its own parse tree and flag.\<close>

definition whenReady :: "'ast Cel \<Rightarrow> 'ast When \<Rightarrow> bool" where
  "whenReady cel w \<longleftrightarrow>
     (\<exists>p. parseAndValidate cel (wExpression w) = Inr (p, wDeferred w) \<and> wParsed w = Some p)"

definition jobReady :: "'ast Cel \<Rightarrow> 'ast Job \<Rightarrow> bool" where
  "jobReady cel j \<longleftrightarrow> pred_option (whenReady cel) (jWhen j) \<and>
     (\<forall>s\<in>set (jSteps j). pred_option (\<lambda>w. whenReady cel w \<and> \<not> wDeferred w) (sWhen s))"

lemma WhenValidate_effect:
  "eraseWhen (fst (WhenValidate cel w)) = eraseWhen w"
  "snd (WhenValidate cel w) = None \<Longrightarrow> whenReady cel (fst (WhenValidate cel w))"
  by (auto simp: WhenValidate_def eraseWhen_def whenReady_def split: sum.splits)

lemma validateStep_erase: "eraseStep (fst (validateStep cel s seen)) = eraseStep s"
  using WhenValidate_effect(1) [of cel]
  by (auto simp: validateStep_def validateStepWhen_def eraseStep_def split_def Let_def
      split: option.splits prod.splits)

lemma validateStep_ready:
  "validateStep cel s seen = (s', None) \<Longrightarrow>
     pred_option (\<lambda>w. whenReady cel w \<and> \<not> wDeferred w) (sWhen s')"
  using WhenValidate_effect(2) [of cel]
  by (auto simp: validateStep_def validateStepWhen_def split_def Let_def
      split: option.splits prod.splits)

lemma validateSteps_erase:
  "map eraseStep (fst (validateSteps cel j declared E M seen ss)) = map eraseStep ss"
proof (induction ss arbitrary: seen)
  case (Cons s ss)
  obtain s' e where s': "validateStep cel s seen = (s', e)" by fastforce
  with validateStep_erase [of cel s seen] Cons.IH [of "insert (sName s) seen"]
  show ?case by (auto simp: split_def Let_def split: option.splits)
qed simp

lemma validateSteps_ready:
  "validateSteps cel j declared E M seen ss = (ss', None) \<Longrightarrow> s \<in> set ss' \<Longrightarrow>
     pred_option (\<lambda>w. whenReady cel w \<and> \<not> wDeferred w) (sWhen s)"
proof (induction ss arbitrary: seen ss')
  case (Cons s0 ss)
  obtain s' e where s': "validateStep cel s0 seen = (s', e)" by fastforce
  from Cons.prems(1) s' obtain ss1 where "e = None" "ss' = s' # ss1"
    "validateSteps cel j declared E M (insert (sName s0) seen) ss = (ss1, None)"
    by (auto simp: split: prod.splits)
  with Cons.IH Cons.prems(2) validateStep_ready [of cel s0 seen s'] s' show ?case by auto
qed simp

lemma validateJobWhen_effect:
  "(fst (validateJobWhen cel j))\<lparr>jWhen := None\<rparr> = j\<lparr>jWhen := None\<rparr>"
  "map_option eraseWhen (jWhen (fst (validateJobWhen cel j))) = map_option eraseWhen (jWhen j)"
  "snd (validateJobWhen cel j) = None \<Longrightarrow>
     pred_option (whenReady cel) (jWhen (fst (validateJobWhen cel j)))"
  using WhenValidate_effect [of cel]
  by (auto simp: validateJobWhen_def split_def Let_def split: option.splits)

lemma validateJob_erase: "eraseJob (fst (validateJob cel j index declared)) = eraseJob j"
proof -
  obtain j' e where j': "validateJobWhen cel j = (j', e)" by fastforce
  with validateJobWhen_effect(1,2) [of cel j]
  have "j'\<lparr>jWhen := None\<rparr> = j\<lparr>jWhen := None\<rparr>"
    and w: "map_option eraseWhen (jWhen j') = map_option eraseWhen (jWhen j)" by simp_all
  then have "j'\<lparr>jWhen := w, jSteps := ss\<rparr> = j\<lparr>jWhen := w, jSteps := ss\<rparr>" for w ss
    by (cases j'; cases j) simp
  moreover have "jSteps j' = jSteps j"
    using \<open>j'\<lparr>jWhen := None\<rparr> = j\<lparr>jWhen := None\<rparr>\<close> by (cases j'; cases j) simp
  ultimately show ?thesis
    using validateSteps_erase [of cel j declared] w
    by (auto simp: validateJob_def eraseJob_def j' split_def Let_def split: option.splits sum.splits prod.splits)
qed

lemma validateJob_ready: "validateJob cel j index declared = (j', None) \<Longrightarrow> jobReady cel j'"
  using validateJobWhen_effect(3) [of cel j] validateSteps_ready [of cel j declared]
  by (fastforce simp: validateJob_def jobReady_def split: sum.splits option.splits prod.splits)

lemma validateJobs_erase:
  "map eraseJob (fst (validateJobs cel declared i ix js)) = map eraseJob js"
proof (induction js arbitrary: i ix)
  case (Cons j js)
  obtain j' e where "validateJob cel j ix declared = (j', e)" by fastforce
  with validateJob_erase [of cel j ix declared] Cons.IH show ?case
    by (cases e) (simp_all add: split_def Let_def)
qed simp

lemma validateJobs_ready:
  "validateJobs cel declared i ix js = (js', Inr ix') \<Longrightarrow> \<forall>j\<in>set js'. jobReady cel j"
proof (induction js arbitrary: i ix js')
  case (Cons j js)
  obtain j' e where j': "validateJob cel j ix declared = (j', e)" by fastforce
  with Cons.prems obtain js1 where "e = None" "js' = j' # js1"
    "validateJobs cel declared (Suc i) (ix(jName j \<mapsto> i)) js = (js1, Inr ix')"
    by (cases e) (auto simp: Let_def split: prod.splits)
  with j' Cons.IH validateJob_ready [of cel j ix declared j'] show ?case by auto
qed simp

section \<open>The result of validation\<close>

text \<open>How a run that succeeds goes, and where a run that fails stopped.\<close>

lemma Validate_Inr:
  "Validate cel (Some p) = (q, Inr order) \<longleftrightarrow>
     pJobs p \<noteq> [] \<and> envOk (pEnv p) \<and> declsOk (pSecrets p) \<and>
     (\<exists>jobs. validateJobs cel (secretDeclSet (pSecrets p)) 0 Map.empty (pJobs p) =
               (jobs, Inr (nameIndex (pJobs p))) \<and>
        (\<forall>j\<in>set (pJobs p). jobOk cel (secretDeclSet (pSecrets p)) j) \<and> distinct (jobNames (pJobs p)) \<and>
        checkSelfDeps jobs = None \<and> topoSort jobs (nameIndex (pJobs p)) = Inr order \<and>
        q = Some (p\<lparr>pJobs := jobs, pTopoOrder := Some order\<rparr>))"
proof -
  obtain jobs r where v: "validateJobs cel (secretDeclSet (pSecrets p)) 0 Map.empty (pJobs p) = (jobs, r)"
    by fastforce
  with validateJobs_Inr [of cel "secretDeclSet (pSecrets p)" 0 Map.empty "pJobs p"]
  have r: "r = Inr ix \<longleftrightarrow> (\<forall>j\<in>set (pJobs p). jobOk cel (secretDeclSet (pSecrets p)) j) \<and>
      distinct (jobNames (pJobs p)) \<and> ix = nameIndex (pJobs p)" for ix
    by (simp add: nameIndex_def)
  show ?thesis
  proof (cases r)
    case (Inl e)
    with v show ?thesis by (auto simp: Validate_def split: if_splits)
  next
    case (Inr ix)
    with r [of ix] have ix: "ix = nameIndex (pJobs p)" and ok: "distinct (jobNames (pJobs p))"
      "\<forall>j\<in>set (pJobs p). jobOk cel (secretDeclSet (pSecrets p)) j" by auto
    show ?thesis
      using v Inr ok unfolding ix by (auto simp: Validate_def split: sum.splits if_splits)
  qed
qed

lemma validateJobs_graph:
  assumes "validateJobs cel declared i ix js = (jobs, r)"
  shows "nameIndex jobs = nameIndex js" "jobNames jobs = jobNames js" "depRel jobs = depRel js"
    "depPairs jobs = depPairs js" "length jobs = length js" "depsOk jobs \<longleftrightarrow> depsOk js"
proof -
  from validateJobs_frame [of cel declared i ix js] assms
  have n: "map jName jobs = map jName js" and d: "map jDependsOn jobs = map jDependsOn js" by simp_all
  from n show "nameIndex jobs = nameIndex js" by (rule nameIndex_cong)
  from n show names: "jobNames jobs = jobNames js" by (simp add: jobNames_def)
  show pairs: "depPairs jobs = depPairs js" by (simp add: depPairs_eq n d)
  then show rel: "depRel jobs = depRel js" by (simp add: depRel_pairs)
  from d show "length jobs = length js" by (rule map_eq_imp_length_eq)
  from depPairs_ex [OF pairs, of "\<lambda>_ ds. \<not> set ds \<subseteq> set (jobNames js)"]
  show "depsOk jobs \<longleftrightarrow> depsOk js" unfolding depsOk_def names rel by auto
qed

text \<open>Errors of the field checks are never errors of the graph.\<close>

definition graphErr :: "err \<Rightarrow> bool" where
  "graphErr e \<longleftrightarrow> e \<in> {Val ErrSelfDependency, Val ErrUnknownDep, Val ErrCycleDetected, GoPanic}"

lemma field_not_graphErr:
  "validateEnvVars envs = Some e \<Longrightarrow> \<not> graphErr e"
  "validateExports xs = Some e \<Longrightarrow> \<not> graphErr e"
  "validateArtifacts as deps = Some e \<Longrightarrow> \<not> graphErr e"
  "validateSecretDecls ds = Some e \<Longrightarrow> \<not> graphErr e"
  "validatePublish pub = Some e \<Longrightarrow> \<not> graphErr e"
  "validateRetry r = Some e \<Longrightarrow> \<not> graphErr e"
  "validateTimeout t = Some e \<Longrightarrow> \<not> graphErr e"
  "validateShell sh = Some e \<Longrightarrow> \<not> graphErr e"
  "validateSecretInheritance r1 r2 = Some e \<Longrightarrow> \<not> graphErr e"
  unfolding graphErr_def validateEnvVars_def validateExports_def validateArtifacts_def
    validateSecretDecls_def validatePublish_def validateRetry_def validateTimeout_def
    validateShell_def validateSecretInheritance_def
  by (auto dest!: runSeen_Some firstErr_Some simp: checkEnvVar_def checkExport_def checkArtifact_def
      checkDecl_def checkSource_def validateStrayFields_def orErr_Some split: if_splits option.splits)

lemma refs_not_graphErr: "refsLoop declared seen E M refs = Inl e \<Longrightarrow> \<not> graphErr e"
proof (induction refs arbitrary: seen E M)
  case (Cons r refs)
  have "validateRefTarget r E M = Inl e \<Longrightarrow> \<not> graphErr e"
    by (auto simp: validateRefTarget_def graphErr_def Let_def split: if_splits)
  with Cons show ?case
    by (auto simp: bindE_Inl graphErr_def split: if_splits)
qed simp

lemma validateStep_not_graphErr: "validateStep cel s seen = (s', Some e) \<Longrightarrow> \<not> graphErr e"
  by (auto simp: validateStep_def validateStepWhen_def orErr_Some Let_def split_def graphErr_def
      dest!: firstErr_Some field_not_graphErr split: option.splits prod.splits)

lemma validateSteps_not_graphErr:
  "validateSteps cel j declared E M seen ss = (ss', Some e) \<Longrightarrow> \<not> graphErr e"
proof (induction ss arbitrary: seen ss')
  case (Cons s ss)
  obtain s' e' where s': "validateStep cel s seen = (s', e')" by fastforce
  have "\<not> graphErr x" if "orErr e' (orErr (validateArtifacts (sArtifacts s) (jDependsOn j))
      (orErr (errOf (validateSecretRefsWithUsed (sSecrets s) declared E M))
             (validateSecretInheritance (jSecrets j) (sSecrets s)))) = Some x" for x
    using that s'
    by (auto simp: orErr_Some errOf_def validateSecretRefsWithUsed_def split: sum.splits
        dest: validateStep_not_graphErr field_not_graphErr refs_not_graphErr)
  with Cons s' show ?case by (auto split: option.splits prod.splits)
qed simp

lemma checkJobFields_not_graphErr: "checkJobFields j index = Some e \<Longrightarrow> \<not> graphErr e"
  by (auto simp: checkJobFields_def orErr_Some dest: field_not_graphErr simp: graphErr_def)

lemma validateJob_not_graphErr: "validateJob cel j index declared = (j', Some e) \<Longrightarrow> \<not> graphErr e"
  by (auto simp: validateJob_def validateSecretRefs_def validateSecretRefsWithUsed_def
      validateJobWhen_def graphErr_def Let_def
      dest!: checkJobFields_not_graphErr refs_not_graphErr validateSteps_not_graphErr
      split: option.splits sum.splits prod.splits)

lemma validateJobs_not_graphErr:
  "validateJobs cel declared i ix js = (js', Inl e) \<Longrightarrow> \<not> graphErr e"
proof (induction js arbitrary: i ix js')
  case (Cons j js)
  obtain j' e' where "validateJob cel j ix declared = (j', e')" by fastforce
  with Cons show ?case
    by (cases e') (auto simp: Let_def dest: validateJob_not_graphErr split: prod.splits)
qed simp

text \<open>An error of the sort is an unknown dependency or a cycle of the dependency relation.\<close>

lemma topoSort_Inl:
  assumes "distinct (jobNames jobs)" "topoSort jobs (nameIndex jobs) = Inl e"
  shows "e = Val ErrUnknownDep \<and> (\<exists>j\<in>set jobs. \<not> set (jDependsOn j) \<subseteq> set (jobNames jobs)) \<or>
    e = Val ErrCycleDetected \<and> \<not> acyclic (depRel jobs)"
proof -
  have "Inl e \<in> set (map Inr [0..<length jobs]) \<union>
      (\<Union>i\<in>set [0..<length jobs]. set (jobDeps jobs (nameIndex jobs) i)) \<or>
      e = Val ErrCycleDetected \<and> \<not> acyclic (jobEdge jobs)"
    using assms(2)
    by (intro jobg.visitAll_error [where xs = "map Inr [0..<length jobs]" and st = initDfs])
      (auto simp: topoSort_def initDfs_def bindE_Inl)
  moreover have "acyclic (depRel jobs) \<Longrightarrow> acyclic (jobEdge jobs)"
    by (rule edge_acyclic_weak [OF assms(1)])
  ultimately show ?thesis by (auto simp: jobDeps_Inl)
qed

section \<open>Example pipelines\<close>

definition sampleStep :: "string Step" where
  "sampleStep = zeroStep\<lparr>sName := ''run'', sRun := [''make'']\<rparr>"

definition sampleJob :: "string \<Rightarrow> string list \<Rightarrow> string Job" where
  "sampleJob name deps =
     zeroJob\<lparr>jName := name, jImage := ''go'', jDependsOn := deps, jSteps := [sampleStep]\<rparr>"

definition samplePipeline :: "string Pipeline" where
  "samplePipeline = zeroPipeline\<lparr>pJobs :=
     [(sampleJob ''test'' [''build''])
        \<lparr>jWhen := Some \<lparr>wExpression = ''true'', wDeferred = True, wParsed = None\<rparr>\<rparr>,
      sampleJob ''build'' []]\<rparr>"

definition cyclicPipeline :: "string Pipeline" where
  "cyclicPipeline = zeroPipeline\<lparr>pJobs := [sampleJob ''a'' [''b''], sampleJob ''b'' [''a'']]\<rparr>"

lemma sample_valid: "snd (Validate sampleCel (Some samplePipeline)) = Inr [1, 0]"
  by code_simp

lemma cyclic_invalid: "snd (Validate sampleCel (Some cyclicPipeline)) = Inl (Val ErrCycleDetected)"
  by code_simp

lemma Validate_accepts:
  "(\<exists>q order. Validate cel (Some p) = (q, Inr order)) \<longleftrightarrow> pipelineOk cel p"
proof -
  obtain jobs r where v: "validateJobs cel (secretDeclSet (pSecrets p)) 0 Map.empty (pJobs p) = (jobs, r)"
    by fastforce
  note g = validateJobs_graph [OF v]
  have sort: "(\<exists>order. topoSort jobs (nameIndex (pJobs p)) = Inr order) \<longleftrightarrow> depsOk (pJobs p)"
    if "distinct (jobNames (pJobs p))"
    using topoSort_Inr [of jobs] that g by simp
  have idx: "r = Inr (nameIndex (pJobs p)) \<longleftrightarrow>
      (\<forall>j\<in>set (pJobs p). jobOk cel (secretDeclSet (pSecrets p)) j) \<and> distinct (jobNames (pJobs p))"
    using v validateJobs_Inr [of cel "secretDeclSet (pSecrets p)" 0 Map.empty "pJobs p"]
    by (simp add: nameIndex_def)
  show ?thesis
    using sort idx g(6) depsOk_no_self [of jobs] by (auto simp: Validate_Inr v pipelineOk_def)
qed

text \<open>C3: \<^verbatim>\<open>Validate\<close> accepts exactly the well-formed pipelines: every field of every job and
  step is acceptable on its own, names, environment keys, export paths, artifact targets and
  secret targets are unique in their scope, every dependency names a job, and the dependency
  relation has no cycle.\<close>

theorem Validate_accepts_iff:
  "(\<exists>q order. Validate cel (Some p) = (q, Inr order)) \<longleftrightarrow> pipelineOk cel p"
  by (rule Validate_accepts)

text \<open>C17: the order \<^verbatim>\<open>Validate\<close> returns, which is also the one it stores in \<^verbatim>\<open>TopoOrder\<close>, lists
  every job position exactly once and puts each job after all the jobs it depends on.\<close>

theorem Validate_order:
  assumes "Validate cel (Some p) = (q, Inr order)"
  shows "map_option pTopoOrder q = Some (Some order) \<and>
    distinct order \<and> set order = {..<length (pJobs p)} \<and>
    (\<forall>i k. i < length (pJobs p) \<and> k < length (pJobs p) \<and>
       jName (pJobs p ! k) \<in> set (jDependsOn (pJobs p ! i)) \<longrightarrow> before order k i)"
proof -
  from assms obtain jobs where
    v: "validateJobs cel (secretDeclSet (pSecrets p)) 0 Map.empty (pJobs p) = (jobs, Inr (nameIndex (pJobs p)))"
    and d: "distinct (jobNames (pJobs p))" and t: "topoSort jobs (nameIndex (pJobs p)) = Inr order"
    and q: "q = Some (p\<lparr>pJobs := jobs, pTopoOrder := Some order\<rparr>)"
    by (auto simp: Validate_Inr)
  note g = validateJobs_graph [OF v]
  from t g have "topoSort jobs (nameIndex jobs) = Inr order" by simp
  note o = topoSort_order [OF this]
  have "before order k i" if "i < length (pJobs p)" "k < length (pJobs p)"
    "jName (pJobs p ! k) \<in> set (jDependsOn (pJobs p ! i))" for i k
  proof (rule o(3))
    have "jDependsOn (jobs ! i) = jDependsOn (pJobs p ! i)" "jName (jobs ! k) = jName (pJobs p ! k)"
      using that arg_cong [OF g(4), of "\<lambda>xs. xs ! i"] arg_cong [OF g(2), of "\<lambda>xs. xs ! k"] g(5)
      by (simp_all add: depPairs_def jobNames_def)
    with that g(2,5) d show "(i, k) \<in> jobEdge jobs" by (subst jobEdge_iff) simp_all
  qed
  with q o(1,2) g(5) show ?thesis by auto
qed

theorem Validate_order_witness:
  "\<exists>q. Validate sampleCel (Some samplePipeline) = (q, Inr [1, 0]) \<and> before [1, 0] 1 (0 :: nat)"
proof -
  from sample_valid obtain q where q: "Validate sampleCel (Some samplePipeline) = (q, Inr [1, 0])"
    by (metis prod.collapse)
  with Validate_order [OF q] have "before [1, 0] 1 (0 :: nat)"
    by (simp add: samplePipeline_def zero_defs sampleJob_def)
  with q show ?thesis by blast
qed

lemma Validate_errors:
  assumes "Validate cel (Some p) = (q, Inl e)"
  shows "e \<noteq> GoPanic"
    "e = Val ErrUnknownDep \<Longrightarrow> \<exists>j\<in>set (pJobs p). \<not> set (jDependsOn j) \<subseteq> set (jobNames (pJobs p))"
    "e = Val ErrSelfDependency \<Longrightarrow> \<exists>j\<in>set (pJobs p). jName j \<in> set (jDependsOn j)"
    "e = Val ErrCycleDetected \<Longrightarrow> \<not> acyclic (depRel (pJobs p))"
proof -
  obtain jobs r where v: "validateJobs cel (secretDeclSet (pSecrets p)) 0 Map.empty (pJobs p) = (jobs, r)"
    by fastforce
  note g = validateJobs_graph [OF v]
  consider "\<not> graphErr e" | "checkSelfDeps jobs = Some e"
    | "topoSort jobs (nameIndex jobs) = Inl e" "distinct (jobNames jobs)"
  proof (cases r)
    case (Inl e')
    with v have "\<not> graphErr e'" using validateJobs_not_graphErr by blast
    with assms v Inl that(1) show ?thesis
      by (auto simp: Validate_def orErr_Some graphErr_def split: if_splits option.splits
          dest: field_not_graphErr [unfolded graphErr_def])
  next
    case (Inr ix)
    with v validateJobs_Inr [of cel "secretDeclSet (pSecrets p)" 0 Map.empty "pJobs p" ix] g(1,2)
    have "ix = nameIndex jobs" "distinct (jobNames jobs)" by (simp_all add: nameIndex_def)
    with assms v Inr that show ?thesis
      by (auto simp: Validate_def orErr_Some graphErr_def split: if_splits option.splits sum.splits
          dest: field_not_graphErr [unfolded graphErr_def])
  qed
  then have "e \<noteq> GoPanic \<and>
    (e = Val ErrUnknownDep \<longrightarrow> (\<exists>j\<in>set (pJobs p). \<not> set (jDependsOn j) \<subseteq> set (jobNames (pJobs p)))) \<and>
    (e = Val ErrSelfDependency \<longrightarrow> (\<exists>j\<in>set (pJobs p). jName j \<in> set (jDependsOn j))) \<and>
    (e = Val ErrCycleDetected \<longrightarrow> \<not> acyclic (depRel (pJobs p)))"
  proof cases
    case 1 then show ?thesis by (auto simp: graphErr_def)
  next
    case 2
    then have "e = Val ErrSelfDependency" "\<exists>j\<in>set jobs. jName j \<in> set (jDependsOn j)"
      by (auto simp: checkSelfDeps_def dest!: firstErr_Some)
    then show ?thesis using depPairs_ex [OF g(4), of "\<lambda>n ds. n \<in> set ds"] by simp
  next
    case 3
    from topoSort_Inl [OF 3(2,1)] show ?thesis
      using depPairs_ex [OF g(4), of "\<lambda>_ ds. \<not> set ds \<subseteq> set (jobNames jobs)"] g(2,3) by auto
  qed
  then show "e \<noteq> GoPanic"
    "e = Val ErrUnknownDep \<Longrightarrow> \<exists>j\<in>set (pJobs p). \<not> set (jDependsOn j) \<subseteq> set (jobNames (pJobs p))"
    "e = Val ErrSelfDependency \<Longrightarrow> \<exists>j\<in>set (pJobs p). jName j \<in> set (jDependsOn j)"
    "e = Val ErrCycleDetected \<Longrightarrow> \<not> acyclic (depRel (pJobs p))" by blast+
qed

text \<open>C18: an error of \<^verbatim>\<open>Validate\<close> names its cause. A run never panics; it reports an unknown
  dependency, a self-dependency or a cycle only when the dependency lists have one.\<close>

theorem Validate_error_cause:
  assumes "Validate cel (Some p) = (q, Inl e)"
  shows "e \<noteq> GoPanic \<and>
    (e = Val ErrUnknownDep \<longrightarrow> (\<exists>j\<in>set (pJobs p). \<not> set (jDependsOn j) \<subseteq> set (jobNames (pJobs p)))) \<and>
    (e = Val ErrSelfDependency \<longrightarrow> (\<exists>j\<in>set (pJobs p). jName j \<in> set (jDependsOn j))) \<and>
    (e = Val ErrCycleDetected \<longrightarrow> \<not> acyclic (depRel (pJobs p)))"
  using Validate_errors [OF assms] by blast

theorem Validate_error_cause_witness: "\<not> acyclic (depRel (pJobs cyclicPipeline))"
proof -
  from cyclic_invalid
  obtain q where "Validate sampleCel (Some cyclicPipeline) = (q, Inl (Val ErrCycleDetected))"
    by (metis prod.collapse)
  from Validate_error_cause [OF this] show ?thesis by simp
qed

text \<open>The only fields of a pipeline that a successful \<^verbatim>\<open>Validate\<close> changes are \<^verbatim>\<open>TopoOrder\<close> and
  the caches of the conditions; afterwards every condition carries the parse tree of its
  expression and the matching deferred flag, and no step condition is deferred.\<close>

theorem Validate_effect:
  assumes "Validate cel (Some p) = (Some p', Inr order)"
  shows "p'\<lparr>pJobs := map eraseJob (pJobs p')\<rparr> =
      p\<lparr>pJobs := map eraseJob (pJobs p), pTopoOrder := Some order\<rparr> \<and>
    (\<forall>j\<in>set (pJobs p'). jobReady cel j)"
  using assms validateJobs_erase [of cel "secretDeclSet (pSecrets p)" 0 Map.empty "pJobs p"]
    validateJobs_ready [of cel "secretDeclSet (pSecrets p)" 0 Map.empty "pJobs p"]
  by (auto simp: Validate_Inr)

theorem Validate_effect_witness:
  "\<exists>p'. Validate sampleCel (Some samplePipeline) = (Some p', Inr [1, 0]) \<and>
     (\<forall>j\<in>set (pJobs p'). jobReady sampleCel j)"
proof -
  from sample_valid obtain q where "Validate sampleCel (Some samplePipeline) = (q, Inr [1, 0])"
    by (metis prod.collapse)
  moreover from this obtain p' where "q = Some p'" by (auto simp: Validate_Inr)
  ultimately have "Validate sampleCel (Some samplePipeline) = (Some p', Inr [1, 0])" by simp
  with Validate_effect [OF this] show ?thesis by blast
qed

end
