(* ===== verification/Merge.thy ===== *)
theory Merge
  imports Pipeline_Model
begin

text \<open>
  \<^verbatim>\<open>pipeline.go\<close>, \<^verbatim>\<open>slicefn.go\<close> and \<^verbatim>\<open>merge.go\<close>: defaults, environment scopes, merging of
  job groups and expansion of include aliases.
\<close>

section \<open>Slices (slicefn.go)\<close>

text \<open>\<^verbatim>\<open>mapSlice\<close> and \<^verbatim>\<open>flatMap\<close> are \<open>map\<close> and \<open>concat (map f xs)\<close>.\<close>

definition collectUnique :: "'a list \<Rightarrow> ('a \<Rightarrow> string) \<Rightarrow> string list" where
  "collectUnique s fn = dedupBy id {} (filter (\<lambda>r. r \<noteq> []) (map fn s))"

section \<open>Defaults and environment (pipeline.go)\<close>

definition mergeEnv :: "EnvVar list \<Rightarrow> EnvVar list \<Rightarrow> EnvVar list" where
  "mergeEnv base override =
     (let overrideKeys = eKey ` set override
      in filter (\<lambda>e. eKey e \<notin> overrideKeys) base @ override)"

definition applyDefaults :: "Defaults \<Rightarrow> 'ast Job \<Rightarrow> 'ast Job" where
  "applyDefaults d j =
     j\<lparr>jImage := (if jImage j = [] then dfImage d else jImage j),
       jWorkdir := (if jWorkdir j = [] then dfWorkdir d else jWorkdir j),
       jMounts := (if dfMounts d \<noteq> [] then dfMounts d @ jMounts j else jMounts j),
       jEnv := (if dfEnv d \<noteq> [] then mergeEnv (dfEnv d) (jEnv j) else jEnv j),
       jShell := (if jShell j = None \<and> dfShell d \<noteq> [] then Some (dfShell d) else jShell j)\<rparr>"

definition ApplyDefaults :: "'ast Job list \<Rightarrow> Defaults option \<Rightarrow> 'ast Job list" where
  "ApplyDefaults jobs defaults =
     (case defaults of None \<Rightarrow> jobs | Some d \<Rightarrow> map (applyDefaults d) jobs)"

definition BuildEnvScope :: "EnvVar list \<Rightarrow> EnvVar list \<Rightarrow> (string, string) gomap" where
  "BuildEnvScope pipelineEnv jobEnv =
     fold (\<lambda>e. mput (eKey e) (eValue e)) (mergeEnv pipelineEnv jobEnv) []"

definition CollectImages :: "'ast Pipeline \<Rightarrow> string list" where
  "CollectImages p = collectUnique (pJobs p) jImage"

section \<open>Merging (merge.go)\<close>

text \<open>The inner loop of \<^verbatim>\<open>MergeJobs\<close> over one group; \<open>seen\<close> maps a job name to its origin.\<close>

fun mergeGroup ::
  "string \<Rightarrow> ConflictStrategy \<Rightarrow> (string \<rightharpoonup> string) \<Rightarrow> 'ast Job list \<Rightarrow> 'ast Job list \<Rightarrow>
     err + (string \<rightharpoonup> string) \<times> 'ast Job list" where
  "mergeGroup origin onConflict seen merged [] = Inr (seen, merged)"
| "mergeGroup origin onConflict seen merged (j # js) =
     (case seen (jName j) of
        Some _ \<Rightarrow>
          (case onConflict of
             ConflictSkip \<Rightarrow> mergeGroup origin onConflict seen merged js
           | ConflictError \<Rightarrow> Inl (Val ErrDuplicateJob))
      | None \<Rightarrow> mergeGroup origin onConflict (seen(jName j \<mapsto> origin)) (merged @ [j]) js)"

fun mergeGroups ::
  "(string \<rightharpoonup> string) \<Rightarrow> 'ast Job list \<Rightarrow> 'ast JobGroup list \<Rightarrow>
     err + (string \<rightharpoonup> string) \<times> 'ast Job list" where
  "mergeGroups seen merged [] = Inr (seen, merged)"
| "mergeGroups seen merged (g # gs) =
     bindE (mergeGroup (gOrigin g) (gOnConflict g) seen merged (gJobs g))
       (\<lambda>(seen', merged'). mergeGroups seen' merged' gs)"

definition MergeJobs :: "'ast JobGroup list \<Rightarrow> err + 'ast Job list" where
  "MergeJobs groups = bindE (mergeGroups Map.empty [] groups) (\<lambda>(_, merged). Inr merged)"

definition TerminalJobs :: "'ast Job list \<Rightarrow> string list" where
  "TerminalJobs jobs =
     (let depended = \<Union> (set ` jDependsOn ` set jobs)
      in filter (\<lambda>n. n \<notin> depended) (map jName jobs))"

definition aliasTargets :: "(string, string list) gomap \<Rightarrow> string \<Rightarrow> string list" where
  "aliasTargets aliases dep =
     (case map_of aliases dep of
        None \<Rightarrow> [dep]
      | Some targets \<Rightarrow> if targets = [] then [dep] else targets)"

definition expandDeps :: "string list \<Rightarrow> (string, string list) gomap \<Rightarrow> string list" where
  "expandDeps deps aliases = dedupBy id {} (concat (map (aliasTargets aliases) deps))"

definition checkAlias :: "string set \<Rightarrow> string \<times> string list \<Rightarrow> err option" where
  "checkAlias names a =
     failIf (fst a \<in> names \<and> snd a \<noteq> [fst a]) (Modl ErrAliasCollision)"

definition ExpandAliases ::
  "'ast Job list \<Rightarrow> (string, string list) gomap \<Rightarrow> err + 'ast Job list" where
  "ExpandAliases jobs aliases =
     (if aliases = [] then Inr jobs
      else guardE (firstErr (checkAlias (jName ` set jobs)) aliases)
        (Inr (map (\<lambda>j. if jDependsOn j \<noteq> [] then j\<lparr>jDependsOn := expandDeps (jDependsOn j) aliases\<rparr>
                       else j) jobs)))"

section \<open>Environment scopes\<close>

definition envOf :: "EnvVar list \<Rightarrow> string \<rightharpoonup> string" where
  "envOf es = map_of (rev (map (\<lambda>e. (eKey e, eValue e)) es))"

lemma envOf_simps [simp]:
  "envOf [] = Map.empty"
  "envOf (e # es) = (Map.empty(eKey e \<mapsto> eValue e)) ++ envOf es"
  "envOf (es @ fs) = envOf es ++ envOf fs"
  by (simp_all add: envOf_def)

lemma dom_envOf [simp]: "dom (envOf es) = eKey ` set es"
  by (induction es) auto

lemma envOf_filter:
  "envOf (filter (\<lambda>e. eKey e \<notin> K) es) = envOf es |` (- K)"
  by (induction es) (auto simp: fun_eq_iff map_add_def restrict_map_def split: option.splits)

lemma envOf_mergeEnv: "envOf (mergeEnv base override) = envOf base ++ envOf override"
proof (rule ext)
  fix k
  show "envOf (mergeEnv base override) k = (envOf base ++ envOf override) k"
  proof (cases "k \<in> eKey ` set override")
    case True
    then have "k \<in> dom (envOf override)" by simp
    then obtain v where "envOf override k = Some v" by blast
    then show ?thesis by (simp add: mergeEnv_def)
  next
    case False
    then have "k \<notin> dom (envOf override)" by simp
    with False show ?thesis
      by (simp add: mergeEnv_def envOf_filter map_add_def domIff restrict_map_def split: option.split)
  qed
qed

lemma fold_mput_map: "map_of (fold (\<lambda>e. mput (eKey e) (eValue e)) es m) = map_of m ++ envOf es"
  by (induction es arbitrary: m) auto

lemma fold_mput_wf: "wfmap m \<Longrightarrow> wfmap (fold (\<lambda>e. mput (eKey e) (eValue e)) es m)"
  by (induction es arbitrary: m) auto

section \<open>Merged groups\<close>

text \<open>All jobs in document order with the strategy of their group.\<close>

definition flatJobs :: "'ast JobGroup list \<Rightarrow> (ConflictStrategy \<times> 'ast Job) list" where
  "flatJobs groups = concat (map (\<lambda>g. map (Pair (gOnConflict g)) (gJobs g)) groups)"

text \<open>A job may repeat an earlier name only in a group that skips conflicts.\<close>

fun conflictFree :: "string set \<Rightarrow> (ConflictStrategy \<times> 'ast Job) list \<Rightarrow> bool" where
  "conflictFree seen [] = True"
| "conflictFree seen ((c, j) # xs) \<longleftrightarrow>
     (jName j \<in> seen \<longrightarrow> c = ConflictSkip) \<and> conflictFree (insert (jName j) seen) xs"

lemma conflictFree_append:
  "conflictFree seen (xs @ ys) \<longleftrightarrow>
     conflictFree seen xs \<and> conflictFree (seen \<union> jName ` snd ` set xs) ys"
  by (induction seen xs rule: conflictFree.induct) (auto simp: Un_commute Un_left_commute insert_commute)

lemma conflictFree_index:
  "conflictFree seen xs \<longleftrightarrow>
     (\<forall>us c j vs. xs = us @ (c, j) # vs \<longrightarrow>
        jName j \<in> seen \<union> jName ` snd ` set us \<longrightarrow> c = ConflictSkip)"
proof
  assume xs: "conflictFree seen xs"
  show "\<forall>us c j vs. xs = us @ (c, j) # vs \<longrightarrow>
      jName j \<in> seen \<union> jName ` snd ` set us \<longrightarrow> c = ConflictSkip"
  proof (intro allI impI)
    fix us c j vs
    assume "xs = us @ (c, j) # vs" "jName j \<in> seen \<union> jName ` snd ` set us"
    with xs show "c = ConflictSkip" by (auto simp only: conflictFree_append conflictFree.simps)
  qed
next
  assume *: "\<forall>us c j vs. xs = us @ (c, j) # vs \<longrightarrow>
      jName j \<in> seen \<union> jName ` snd ` set us \<longrightarrow> c = ConflictSkip"
  have "conflictFree seen ys" if "xs = ys @ zs" for ys zs
    using that
  proof (induction ys arbitrary: zs rule: rev_induct)
    case (snoc y ys)
    obtain c j where y: "y = (c, j)" by (cases y)
    from snoc.prems y have "xs = ys @ (c, j) # zs" by simp
    with * have "jName j \<in> seen \<union> jName ` snd ` set ys \<longrightarrow> c = ConflictSkip" by blast
    with snoc.IH [of "y # zs"] snoc.prems y show ?case by (auto simp: conflictFree_append)
  qed simp
  then show "conflictFree seen xs" by simp
qed

lemma mergeGroup_Inr:
  "mergeGroup origin c seen merged js = Inr (seen', merged') \<Longrightarrow>
     conflictFree (dom seen) (map (Pair c) js) \<and>
     dom seen' = dom seen \<union> jName ` set js \<and> merged' = merged @ dedupBy jName (dom seen) js"
  by (induction origin c seen merged js rule: mergeGroup.induct)
    (auto simp: insert_absorb domI split: option.splits ConflictStrategy.splits)

lemma mergeGroup_Inl:
  "mergeGroup origin c seen merged js = Inl e \<Longrightarrow>
     e = Val ErrDuplicateJob \<and> \<not> conflictFree (dom seen) (map (Pair c) js)"
  by (induction origin c seen merged js rule: mergeGroup.induct)
    (auto simp: insert_absorb domI split: option.splits ConflictStrategy.splits)

lemma dedupBy_append:
  "dedupBy key seen (xs @ ys) = dedupBy key seen xs @ dedupBy key (seen \<union> key ` set xs) ys"
  by (induction xs arbitrary: seen) (auto simp: insert_absorb)

lemma mergeGroups_result:
  "mergeGroups seen merged gs = Inl (Val ErrDuplicateJob) \<and> \<not> conflictFree (dom seen) (flatJobs gs) \<or>
   (\<exists>seen'. mergeGroups seen merged gs =
      Inr (seen', merged @ dedupBy jName (dom seen) (concat (map gJobs gs)))) \<and>
      conflictFree (dom seen) (flatJobs gs)"
proof (induction gs arbitrary: seen merged)
  case (Cons g gs)
  have names: "jName ` snd ` Pair c ` set js = jName ` set js" for c :: ConflictStrategy and js :: "'a Job list"
    by (simp add: image_image)
  show ?case
  proof (cases "mergeGroup (gOrigin g) (gOnConflict g) seen merged (gJobs g)")
    case (Inl e)
    from mergeGroup_Inl [OF Inl] Inl show ?thesis
      by (simp add: flatJobs_def conflictFree_append)
  next
    case (Inr r)
    obtain seen1 merged1 where r: "r = (seen1, merged1)" by (cases r)
    from mergeGroup_Inr [OF Inr [unfolded r]] Cons.IH [of seen1 merged1] Inr r show ?thesis
      by (auto simp: flatJobs_def conflictFree_append names dedupBy_append)
  qed
qed (simp add: flatJobs_def)

section \<open>Properties\<close>

text \<open>C19: \<^verbatim>\<open>MergeJobs\<close> succeeds exactly when every job that repeats an earlier name stands in a
  group with \<^verbatim>\<open>ConflictSkip\<close>; it then returns, in document order, the first job of every
  name. Its only error is the duplicate-job error.\<close>

theorem MergeJobs_spec:
  "MergeJobs groups =
     (if \<forall>us c j vs. flatJobs groups = us @ (c, j) # vs \<longrightarrow> jName j \<in> jName ` snd ` set us \<longrightarrow>
           c = ConflictSkip
      then Inr (dedupBy jName {} (concat (map gJobs groups)))
      else Inl (Val ErrDuplicateJob))"
proof -
  have iff: "conflictFree {} (flatJobs groups) \<longleftrightarrow>
      (\<forall>us c j vs. flatJobs groups = us @ (c, j) # vs \<longrightarrow> jName j \<in> jName ` snd ` set us \<longrightarrow>
         c = ConflictSkip)"
    using conflictFree_index [of "{}" "flatJobs groups"] by (simp only: Un_empty_left)
  show ?thesis
    using mergeGroups_result [of Map.empty "[]" groups] unfolding iff [symmetric]
    by (auto simp: MergeJobs_def)
qed

definition exampleJobs :: "unit Job list" where
  "exampleJobs = [zeroJob\<lparr>jName := ''a''\<rparr>, zeroJob\<lparr>jName := ''b'', jDependsOn := [''lib'', ''a'']\<rparr>]"

definition exampleGroups :: "unit JobGroup list" where
  "exampleGroups =
     [\<lparr>gJobs = exampleJobs, gOrigin = ''main'', gOnConflict = ConflictError\<rparr>,
      \<lparr>gJobs = [zeroJob\<lparr>jName := ''a''\<rparr>], gOrigin = ''inc'', gOnConflict = ConflictSkip\<rparr>]"

theorem MergeJobs_spec_witness:
  "MergeJobs exampleGroups = Inr exampleJobs"
proof -
  have "conflictFree {} (flatJobs exampleGroups)"
    by (simp add: flatJobs_def exampleGroups_def exampleJobs_def zero_defs)
  then have "\<forall>us c j vs. flatJobs exampleGroups = us @ (c, j) # vs \<longrightarrow> jName j \<in> jName ` snd ` set us \<longrightarrow>
      c = ConflictSkip"
    using conflictFree_index [of "{}" "flatJobs exampleGroups"] by (simp only: Un_empty_left)
  moreover have "dedupBy jName {} (concat (map gJobs exampleGroups)) = exampleJobs"
    by (simp add: exampleGroups_def exampleJobs_def zero_defs)
  ultimately show ?thesis using MergeJobs_spec [of exampleGroups] by simp
qed

text \<open>The environment a job runs with after \<^verbatim>\<open>ApplyDefaults\<close>: in the scope that
  \<^verbatim>\<open>BuildEnvScope\<close> makes, the job's own entry wins over the defaults' entry, and that over
  the pipeline's, for lists with repeated keys as well; no key is lost.\<close>

theorem BuildEnvScope_defaults:
  "map_of (BuildEnvScope penv (jEnv (applyDefaults d j))) = envOf penv ++ envOf (dfEnv d) ++ envOf (jEnv j) \<and>
   wfmap (BuildEnvScope penv (jEnv (applyDefaults d j)))"
  by (auto simp: BuildEnvScope_def fold_mput_map fold_mput_wf applyDefaults_def envOf_mergeEnv)

lemma dependency_closed_path:
  assumes "finite A" "\<And>x. x \<in> A \<Longrightarrow> \<exists>y\<in>A. (y, x) \<in> r" "A \<noteq> {}"
  shows "\<not> acyclic r"
proof
  assume "acyclic r"
  then have "acyclic (r \<inter> A \<times> A)" by (auto intro: acyclic_subset)
  moreover have "finite (r \<inter> A \<times> A)" using assms(1) by auto
  ultimately have "wf (r \<inter> A \<times> A)" by (rule finite_acyclic_wf [rotated])
  with assms(3) obtain x where "x \<in> A" "\<And>y. (y, x) \<in> r \<inter> A \<times> A \<Longrightarrow> y \<notin> A"
    by (metis ex_in_conv wfE_min)
  with assms(2) show False by blast
qed

text \<open>A fragment always has terminal jobs: for a non-empty job list without dependency
  cycle \<^verbatim>\<open>TerminalJobs\<close> returns at least one name, and exactly the names of jobs that no
  job of the list depends on.\<close>

theorem TerminalJobs_nonempty:
  assumes "jobs \<noteq> []" "acyclic {(jName j, d) | j d. j \<in> set jobs \<and> d \<in> set (jDependsOn j)}"
  shows "TerminalJobs jobs \<noteq> [] \<and>
    set (TerminalJobs jobs) = {n \<in> jName ` set jobs. \<forall>j\<in>set jobs. n \<notin> set (jDependsOn j)}"
proof
  show "set (TerminalJobs jobs) = {n \<in> jName ` set jobs. \<forall>j\<in>set jobs. n \<notin> set (jDependsOn j)}"
    by (auto simp: TerminalJobs_def Let_def)
  show "TerminalJobs jobs \<noteq> []"
  proof
    assume "TerminalJobs jobs = []"
    then have "\<forall>n\<in>jName ` set jobs. \<exists>j\<in>set jobs. n \<in> set (jDependsOn j)"
      by (auto simp: TerminalJobs_def Let_def filter_empty_conv)
    then have "\<not> acyclic {(jName j, d) | j d. j \<in> set jobs \<and> d \<in> set (jDependsOn j)}"
      using assms(1) by (intro dependency_closed_path [of "jName ` set jobs"]) fastforce+
    with assms(2) show False by blast
  qed
qed

theorem TerminalJobs_nonempty_witness: "TerminalJobs exampleJobs \<noteq> []"
proof -
  have "acyclic {(''b'', ''lib''), (''b'', ''a'')}" by (simp add: acyclic_insert rtrancl_insert) (simp add: acyclic_def)
  moreover have "{(jName j, d) | j d. j \<in> set exampleJobs \<and> d \<in> set (jDependsOn j)} \<subseteq>
      {(''b'', ''lib''), (''b'', ''a'')}"
    by (auto simp: exampleJobs_def zero_defs)
  ultimately have "acyclic {(jName j, d) | j d. j \<in> set exampleJobs \<and> d \<in> set (jDependsOn j)}"
    by (rule acyclic_subset)
  moreover have "exampleJobs \<noteq> []" by (simp add: exampleJobs_def)
  ultimately show ?thesis using TerminalJobs_nonempty [of exampleJobs] by blast
qed

text \<open>\<^verbatim>\<open>ExpandAliases\<close> succeeds exactly when no alias shadows a job under another meaning,
  and then changes only the dependency lists: each becomes, without repetition and in order
  of first occurrence, the jobs its entries stand for. When every alias target is a job and
  every dependency a job or an alias with targets, only job names remain.\<close>

theorem ExpandAliases_spec:
  assumes "aliases \<noteq> []"
  shows "ExpandAliases jobs aliases =
      (if \<exists>a ts. (a, ts) \<in> set aliases \<and> a \<in> jName ` set jobs \<and> ts \<noteq> [a]
       then Inl (Modl ErrAliasCollision)
       else Inr (map (\<lambda>j. j\<lparr>jDependsOn :=
              rev (remdups (rev (concat (map (aliasTargets aliases) (jDependsOn j)))))\<rparr>) jobs)) \<and>
    ((\<forall>(a, ts)\<in>set aliases. set ts \<subseteq> jName ` set jobs) \<longrightarrow>
     (\<forall>j\<in>set jobs. \<forall>d\<in>set (jDependsOn j). d \<in> jName ` set jobs \<or>
        (\<exists>t ts. map_of aliases d = Some (t # ts))) \<longrightarrow>
     (\<forall>jobs'. ExpandAliases jobs aliases = Inr jobs' \<longrightarrow>
        (\<forall>j\<in>set jobs'. set (jDependsOn j) \<subseteq> jName ` set jobs')))"
proof -
  let ?f = "\<lambda>j. j\<lparr>jDependsOn := expandDeps (jDependsOn j) aliases\<rparr>"
  have skip: "(if jDependsOn j \<noteq> [] then ?f j else j) = ?f j" for j :: "'a Job"
    by (cases j) (simp add: expandDeps_def)
  have eq: "ExpandAliases jobs aliases =
      (if \<exists>a ts. (a, ts) \<in> set aliases \<and> a \<in> jName ` set jobs \<and> ts \<noteq> [a]
       then Inl (Modl ErrAliasCollision) else Inr (map ?f jobs))"
  proof (cases "firstErr (checkAlias (jName ` set jobs)) aliases")
    case None
    then show ?thesis using assms by (auto simp: ExpandAliases_def skip checkAlias_def)
  next
    case (Some e)
    from firstErr_Some [OF this] have "e = Modl ErrAliasCollision"
      "\<exists>a ts. (a, ts) \<in> set aliases \<and> a \<in> jName ` set jobs \<and> ts \<noteq> [a]"
      by (auto simp: checkAlias_def) (metis imageI)
    with Some show ?thesis using assms by (simp add: ExpandAliases_def)
  qed
  have names: "jName ` set (map ?f jobs) = jName ` set jobs" by (simp add: image_image)
  have closed: "set (expandDeps ds aliases) \<subseteq> N"
    if "\<forall>(a, ts)\<in>set aliases. set ts \<subseteq> N"
      "\<forall>d\<in>set ds. d \<in> N \<or> (\<exists>t ts. map_of aliases d = Some (t # ts))" for ds N
  proof -
    have "set (aliasTargets aliases d) \<subseteq> N" if "d \<in> set ds" for d
    proof (cases "map_of aliases d")
      case (Some ts)
      then have "(d, ts) \<in> set aliases" by (rule map_of_SomeD)
      with Some \<open>\<forall>(a, ts)\<in>set aliases. set ts \<subseteq> N\<close> \<open>d \<in> set ds\<close>
        \<open>\<forall>d\<in>set ds. d \<in> N \<or> (\<exists>t ts. map_of aliases d = Some (t # ts))\<close> show ?thesis
        by (auto simp: aliasTargets_def)
    qed (use that \<open>\<forall>d\<in>set ds. d \<in> N \<or> _\<close> in \<open>auto simp: aliasTargets_def\<close>)
    then show ?thesis by (auto simp: expandDeps_def)
  qed
  show ?thesis
  proof (intro conjI impI allI ballI)
    show "ExpandAliases jobs aliases =
      (if \<exists>a ts. (a, ts) \<in> set aliases \<and> a \<in> jName ` set jobs \<and> ts \<noteq> [a]
       then Inl (Modl ErrAliasCollision)
       else Inr (map (\<lambda>j. j\<lparr>jDependsOn :=
              rev (remdups (rev (concat (map (aliasTargets aliases) (jDependsOn j)))))\<rparr>) jobs))"
      unfolding eq by (simp only: expandDeps_def dedupBy_remdups)
  next
    fix jobs' j
    assume *: "\<forall>(a, ts)\<in>set aliases. set ts \<subseteq> jName ` set jobs"
      "\<forall>j\<in>set jobs. \<forall>d\<in>set (jDependsOn j). d \<in> jName ` set jobs \<or>
        (\<exists>t ts. map_of aliases d = Some (t # ts))"
      "ExpandAliases jobs aliases = Inr jobs'" "j \<in> set jobs'"
    from *(3) have jobs': "jobs' = map ?f jobs" unfolding eq by (simp split: if_splits)
    with *(4) obtain j0 where "j0 \<in> set jobs" "j = ?f j0" by auto
    with closed [OF *(1), of "jDependsOn j0"] *(2) names jobs'
    show "set (jDependsOn j) \<subseteq> jName ` set jobs'" by simp
  qed
qed

theorem ExpandAliases_spec_witness:
  "\<exists>jobs'. ExpandAliases exampleJobs [(''lib'', [''a''])] = Inr jobs' \<and>
     (\<forall>j\<in>set jobs'. set (jDependsOn j) \<subseteq> jName ` set jobs')"
proof -
  have names: "jName ` set exampleJobs = {''a'', ''b''}" by (simp add: exampleJobs_def zero_defs)
  have deps: "\<forall>j\<in>set exampleJobs. \<forall>d\<in>set (jDependsOn j). d = ''a'' \<or> d = ''lib''"
    by (simp add: exampleJobs_def zero_defs)
  have "\<exists>jobs'. ExpandAliases exampleJobs [(''lib'', [''a''])] = Inr jobs'"
    using ExpandAliases_spec [of "[(''lib'', [''a''])]" exampleJobs] by (simp add: names)
  then obtain jobs' where "ExpandAliases exampleJobs [(''lib'', [''a''])] = Inr jobs'" by blast
  moreover have "\<forall>(a, ts)\<in>set [(''lib'', [''a''])]. set ts \<subseteq> jName ` set exampleJobs"
    by (simp add: names)
  moreover have "\<forall>j\<in>set exampleJobs. \<forall>d\<in>set (jDependsOn j). d \<in> jName ` set exampleJobs \<or>
      (\<exists>t ts. map_of [(''lib'', [''a''])] d = Some (t # ts))"
    using deps unfolding names by auto
  ultimately show ?thesis using ExpandAliases_spec [of "[(''lib'', [''a''])]" exampleJobs] by blast
qed

end
