(* ===== verification/Expand.thy ===== *)
theory Expand
  imports Merge Conditional
begin

text \<open>
  \<^verbatim>\<open>params.go\<close>, \<^verbatim>\<open>expand.go\<close> and \<^verbatim>\<open>Matrix.Combinations\<close>: parameter resolution, the
  substitution of \<^verbatim>\<open>${...}\<close> placeholders in jobs, and the two phases of matrix expansion.
\<close>

section \<open>Placeholders\<close>

text \<open>\<^verbatim>\<open>"${" + prefix + k + "}"\<close>.\<close>

definition placeholder :: "string \<Rightarrow> string \<Rightarrow> string" where
  "placeholder pfx k = ''${'' @ pfx @ k @ ''}''"

definition substituteVars :: "string \<Rightarrow> (string, string) gomap \<Rightarrow> string \<Rightarrow> string" where
  "substituteVars s combo pfx =
     (if combo = [] then s
      else replacer (map (\<lambda>(k, v). (placeholder pfx k, v)) combo) s)"

section \<open>Substitution in jobs (params.go)\<close>

definition substituteMounts :: "(string \<Rightarrow> string) \<Rightarrow> Mount list \<Rightarrow> Mount list" where
  "substituteMounts sub = map (\<lambda>m. m\<lparr>mSource := sub (mSource m), mTarget := sub (mTarget m)\<rparr>)"

definition substituteCaches :: "(string \<Rightarrow> string) \<Rightarrow> Cache list \<Rightarrow> Cache list" where
  "substituteCaches sub = map (\<lambda>c. c\<lparr>cID := sub (cID c), cTarget := sub (cTarget c)\<rparr>)"

definition substituteEnvValues :: "(string \<Rightarrow> string) \<Rightarrow> EnvVar list \<Rightarrow> EnvVar list" where
  "substituteEnvValues sub = map (\<lambda>e. e\<lparr>eValue := sub (eValue e)\<rparr>)"

definition substituteExports :: "(string \<Rightarrow> string) \<Rightarrow> Export list \<Rightarrow> Export list" where
  "substituteExports sub = map (\<lambda>x. x\<lparr>xPath := sub (xPath x), xLocal := sub (xLocal x)\<rparr>)"

definition substituteArtifacts :: "(string \<Rightarrow> string) \<Rightarrow> Artifact list \<Rightarrow> Artifact list" where
  "substituteArtifacts sub = map (\<lambda>a. a\<lparr>aSource := sub (aSource a), aTarget := sub (aTarget a)\<rparr>)"

definition substituteSecretDecls :: "(string \<Rightarrow> string) \<Rightarrow> SecretDecl list \<Rightarrow> SecretDecl list" where
  "substituteSecretDecls sub =
     map (\<lambda>d. d\<lparr>sdVar := sub (sdVar d), sdPath := sub (sdPath d), sdCmd := sub (sdCmd d)\<rparr>)"

definition substituteSecretRefs :: "(string \<Rightarrow> string) \<Rightarrow> SecretRef list \<Rightarrow> SecretRef list" where
  "substituteSecretRefs sub = map (\<lambda>r. r\<lparr>srEnv := sub (srEnv r), srMount := sub (srMount r)\<rparr>)"

definition substituteMatrixValues :: "(string \<Rightarrow> string) \<Rightarrow> Matrix option \<Rightarrow> Matrix option" where
  "substituteMatrixValues sub =
     map_option (\<lambda>m. m\<lparr>mDimensions := map (\<lambda>d. d\<lparr>dValues := map sub (dValues d)\<rparr>) (mDimensions m)\<rparr>)"

definition substituteWhen :: "(string \<Rightarrow> string) \<Rightarrow> 'ast When \<Rightarrow> 'ast When" where
  "substituteWhen sub w = InvalidateAST (w\<lparr>wExpression := sub (wExpression w)\<rparr>)"

definition substituteStepFields :: "(string \<Rightarrow> string) \<Rightarrow> 'ast Step \<Rightarrow> 'ast Step" where
  "substituteStepFields sub s =
     s\<lparr>sRun := map sub (sRun s),
       sWorkdir := sub (sWorkdir s),
       sMounts := substituteMounts sub (sMounts s),
       sCaches := substituteCaches sub (sCaches s),
       sEnv := substituteEnvValues sub (sEnv s),
       sSecrets := substituteSecretRefs sub (sSecrets s),
       sExports := substituteExports sub (sExports s),
       sArtifacts := substituteArtifacts sub (sArtifacts s),
       sWhen := map_option (substituteWhen sub) (sWhen s)\<rparr>"

definition substituteJobVars :: "'ast Job \<Rightarrow> (string, string) gomap \<Rightarrow> string \<Rightarrow> 'ast Job" where
  "substituteJobVars j combo pfx =
     (let sub = (\<lambda>v. substituteVars v combo pfx) in
      j\<lparr>jImage := sub (jImage j),
        jWorkdir := sub (jWorkdir j),
        jPlatform := sub (jPlatform j),
        jMatrix := substituteMatrixValues sub (jMatrix j),
        jMounts := substituteMounts sub (jMounts j),
        jCaches := substituteCaches sub (jCaches j),
        jEnv := substituteEnvValues sub (jEnv j),
        jExports := substituteExports sub (jExports j),
        jArtifacts := substituteArtifacts sub (jArtifacts j),
        jPublish := map_option (\<lambda>p. p\<lparr>pubImage := sub (pubImage p)\<rparr>) (jPublish j),
        jSecrets := substituteSecretRefs sub (jSecrets j),
        jWhen := map_option (substituteWhen sub) (jWhen j),
        jSteps := map (substituteStepFields sub) (jSteps j)\<rparr>)"

section \<open>Parameters (params.go)\<close>

fun checkParamDefs :: "(string, string) gomap \<Rightarrow> string set \<Rightarrow> ParamDef list \<Rightarrow> err option" where
  "checkParamDefs provided known [] = None"
| "checkParamDefs provided known (d # ds) =
     orErr (failIf (pdName d \<in> known) (Modl ErrDuplicateParam))
     (orErr (failIf (pdRequired d \<and> map_of provided (pdName d) = None) (Modl ErrMissingParam))
            (checkParamDefs provided (insert (pdName d) known) ds))"

definition ValidateParams :: "ParamDef list \<Rightarrow> (string, string) gomap \<Rightarrow> err option" where
  "ValidateParams defs provided =
     orErr (checkParamDefs provided {} defs)
       (firstErr (\<lambda>k. failIf (k \<notin> pdName ` set defs) (Modl ErrUnknownParam)) (gokeys provided))"

definition ResolveParams ::
  "ParamDef list \<Rightarrow> (string, string) gomap \<Rightarrow> err + (string, string) gomap" where
  "ResolveParams defs provided =
     guardE (ValidateParams defs provided)
       (Inr (fold (\<lambda>d. mput (pdName d)
                (case map_of provided (pdName d) of Some v \<Rightarrow> v | None \<Rightarrow> pdDefault d)) defs []))"

definition SubstituteParams :: "'ast Job list \<Rightarrow> (string, string) gomap \<Rightarrow> 'ast Job list" where
  "SubstituteParams jobs params =
     (if params = [] then jobs else map (\<lambda>j. substituteJobVars j params ''param.'') jobs)"

definition SubstituteSecretDeclParams ::
  "SecretDecl list \<Rightarrow> (string, string) gomap \<Rightarrow> SecretDecl list" where
  "SubstituteSecretDeclParams decls params =
     (if params = [] \<or> decls = [] then decls
      else substituteSecretDecls (\<lambda>v. substituteVars v params ''param.'') decls)"

section \<open>Matrices\<close>

text \<open>\<^verbatim>\<open>Matrix.Combinations\<close>: the count with its overflow guard, then the product.\<close>

fun countCombos :: "int \<Rightarrow> Dimension list \<Rightarrow> err + int" where
  "countCombos n0 [] = Inr n0"
| "countCombos n0 (d # ds) =
     (let n = int (length (dValues d)) in
      if n > 0 \<and> n0 > MaxInt div n then Inl (Val ErrMatrixTooLarge)
      else countCombos (wrap64 (n0 * n)) ds)"

definition extendCombos ::
  "Dimension \<Rightarrow> (string, string) gomap list \<Rightarrow> (string, string) gomap list" where
  "extendCombos dim combos =
     concat (map (\<lambda>combo. map (\<lambda>val. mput (dName dim) val combo) (dValues dim)) combos)"

definition Combinations :: "Matrix \<Rightarrow> err + (string, string) gomap list" where
  "Combinations m =
     (if mDimensions m = [] then Inr []
      else bindE (countCombos 1 (mDimensions m)) (\<lambda>_. Inr (fold extendCombos (mDimensions m) [[]])))"

definition maxMatrixCombinations :: int where
  "maxMatrixCombinations = 10000"

fun checkDims :: "string set \<Rightarrow> int \<Rightarrow> Dimension list \<Rightarrow> err option" where
  "checkDims seen n0 [] = None"
| "checkDims seen n0 (d # ds) =
     orErr (failIf (\<not> validDimName (dName d)) (Val ErrInvalidDimName))
     (orErr (failIf (dName d \<in> seen) (Val ErrDuplicateDim))
     (orErr (failIf (dValues d = []) (Val ErrEmptyDimension))
       (let n1 = wrap64 (n0 * int (length (dValues d))) in
        orErr (failIf (n1 > maxMatrixCombinations) (Val ErrMatrixTooLarge))
          (checkDims (insert (dName d) seen) n1 ds))))"

definition ValidateMatrix :: "Matrix option \<Rightarrow> err option" where
  "ValidateMatrix m =
     (case m of
        None \<Rightarrow> Some (Val ErrEmptyMatrix)
      | Some m \<Rightarrow> orErr (failIf (mDimensions m = []) (Val ErrEmptyMatrix))
                        (checkDims {} 1 (mDimensions m)))"

definition checkDimCollisions :: "Matrix \<Rightarrow> 'ast Job list \<Rightarrow> err option" where
  "checkDimCollisions pm jobs =
     (let pipelineDims = dName ` set (mDimensions pm) in
      firstErr (\<lambda>j. case jMatrix j of
                  None \<Rightarrow> None
                | Some m \<Rightarrow> firstErr (\<lambda>d. failIf (dName d \<in> pipelineDims) (Val ErrDuplicateDim))
                              (mDimensions m)) jobs)"

definition mergeMatrixValues ::
  "(string, string) gomap option \<Rightarrow> (string, string) gomap option \<Rightarrow> (string, string) gomap option" where
  "mergeMatrixValues existing combo =
     (if existing = None \<and> combo = None then None
      else Some (mapsCopy (mapsCopy [] (case existing of None \<Rightarrow> [] | Some m \<Rightarrow> m))
                          (case combo of None \<Rightarrow> [] | Some m \<Rightarrow> m)))"

definition replicateJob :: "'ast Job \<Rightarrow> (string, string) gomap \<Rightarrow> 'ast Job" where
  "replicateJob j combo = substituteJobVars j combo ''matrix.''"

section \<open>Expanded names\<close>

text \<open>The bracket suffix of a name: the part before it and the pairs in it.\<close>

definition parsePairs :: "string \<Rightarrow> (string, string) gomap" where
  "parsePairs sfx =
     fold (\<lambda>kv m. case cutAt (CHR ''='') kv of None \<Rightarrow> m | Some (k, v) \<Rightarrow> mput k v m)
       (splitOn (CHR '','') sfx) []"

definition beforeLast :: "char \<Rightarrow> string \<Rightarrow> string" where
  "beforeLast c s = rev (tl (dropWhile (\<lambda>x. x \<noteq> c) (rev s)))"

definition splitSuffix :: "string \<Rightarrow> string \<times> (string, string) gomap" where
  "splitSuffix base =
     (case cutAt (CHR ''['') base of
        None \<Rightarrow> (base, [])
      | Some (name, rest) \<Rightarrow>
          if CHR '']'' \<in> set rest then (name, parsePairs (beforeLast (CHR '']'') rest))
          else (base, []))"

definition renderName :: "string \<Rightarrow> (string, string) gomap \<Rightarrow> string" where
  "renderName name m =
     name @ ''['' @ joinWith '','' (map (\<lambda>k. k @ ''='' @ mgetStr m k) (sortedKeys m)) @ '']''"

definition expandedName :: "string \<Rightarrow> (string, string) gomap \<Rightarrow> string" where
  "expandedName base combo =
     (let (name, existing) = splitSuffix base in renderName name (mapsCopy existing combo))"

definition matrixCacheID :: "string \<Rightarrow> string \<Rightarrow> string" where
  "matrixCacheID baseID expandedJobName = baseID @ ''--'' @ expandedJobName"

definition namespaceCaches :: "string \<Rightarrow> Cache list \<Rightarrow> Cache list" where
  "namespaceCaches jobName = map (\<lambda>c. c\<lparr>cID := matrixCacheID (cID c) jobName\<rparr>)"

section \<open>Dependencies of replicas\<close>

definition correlateDeps :: "string list \<Rightarrow> (string, string) gomap \<Rightarrow> string list" where
  "correlateDeps deps combo = map (\<lambda>dep. expandedName dep combo) deps"

definition rewriteDeps :: "string list \<Rightarrow> (string, string list) gomap \<Rightarrow> string list" where
  "rewriteDeps deps expansionMap =
     concat (map (\<lambda>dep. case map_of expansionMap dep of Some variants \<Rightarrow> variants | None \<Rightarrow> [dep]) deps)"

definition correlateArtifactFroms :: "(string, string) gomap \<Rightarrow> Artifact list \<Rightarrow> Artifact list" where
  "correlateArtifactFroms combo =
     map (\<lambda>a. if aFrom a = [] then a else a\<lparr>aFrom := expandedName (aFrom a) combo\<rparr>)"

definition rewriteArtifactFroms :: "(string, string list) gomap \<Rightarrow> Artifact list \<Rightarrow> Artifact list" where
  "rewriteArtifactFroms expansionMap =
     map (\<lambda>a. if aFrom a = [] then a
              else (case map_of expansionMap (aFrom a) of
                      Some [v] \<Rightarrow> a\<lparr>aFrom := v\<rparr>
                    | _ \<Rightarrow> a))"

section \<open>The two phases\<close>

definition correlateJob :: "'ast Job \<Rightarrow> (string, string) gomap \<Rightarrow> 'ast Job" where
  "correlateJob j combo =
     (let r = replicateJob j combo; name = expandedName (jName j) combo in
      r\<lparr>jName := name,
        jMatrixValues := Some combo,
        jDependsOn := correlateDeps (jDependsOn j) combo,
        jArtifacts := correlateArtifactFroms combo (jArtifacts r),
        jCaches := namespaceCaches name (jCaches r),
        jSteps := map (\<lambda>s. s\<lparr>sArtifacts := correlateArtifactFroms combo (sArtifacts s),
                             sCaches := namespaceCaches name (sCaches s)\<rparr>) (jSteps r)\<rparr>)"

definition expandPipeline :: "'ast Pipeline \<Rightarrow> err + 'ast Pipeline" where
  "expandPipeline p =
     (case pMatrix p of
        None \<Rightarrow> Inr p
      | Some m \<Rightarrow>
          guardE (ValidateMatrix (Some m))
          (guardE (checkDimCollisions m (pJobs p))
          (bindE (Combinations m) (\<lambda>combos.
             Inr (p\<lparr>pMatrix := None,
                    pJobs := concat (map (\<lambda>combo. map (\<lambda>j. correlateJob j combo) (pJobs p)) combos)\<rparr>)))))"

definition variantJob :: "'ast Job \<Rightarrow> (string, string) gomap \<Rightarrow> 'ast Job" where
  "variantJob j combo =
     (let r = replicateJob j combo; name = expandedName (jName j) combo in
      r\<lparr>jName := name,
        jMatrix := None,
        jMatrixValues := mergeMatrixValues (jMatrixValues j) (Some combo),
        jCaches := namespaceCaches name (jCaches r),
        jSteps := map (\<lambda>s. s\<lparr>sCaches := namespaceCaches name (sCaches s)\<rparr>) (jSteps r)\<rparr>)"

text \<open>The variants of one job; a job without matrix has itself as its only variant.\<close>

definition jobVariants :: "'ast Job \<Rightarrow> err + 'ast Job list" where
  "jobVariants j =
     (case jMatrix j of
        None \<Rightarrow> Inr [(replicateJob j [])\<lparr>jMatrixValues := jMatrixValues j\<rparr>]
      | Some m \<Rightarrow> guardE (ValidateMatrix (Some m))
          (bindE (Combinations m) (\<lambda>combos. Inr (map (variantJob j) combos))))"

fun variantsLoop ::
  "(string, string list) gomap \<Rightarrow> 'ast Job list \<Rightarrow> 'ast Job list \<Rightarrow>
     err + (string, string list) gomap \<times> 'ast Job list" where
  "variantsLoop expansionMap expanded [] = Inr (expansionMap, expanded)"
| "variantsLoop expansionMap expanded (j # js) =
     bindE (jobVariants j)
       (\<lambda>vs. variantsLoop (mput (jName j) (map jName vs) expansionMap) (expanded @ vs) js)"

definition rewriteJob :: "(string, string list) gomap \<Rightarrow> 'ast Job \<Rightarrow> 'ast Job" where
  "rewriteJob expansionMap j =
     j\<lparr>jDependsOn := rewriteDeps (jDependsOn j) expansionMap,
       jArtifacts := rewriteArtifactFroms expansionMap (jArtifacts j),
       jSteps := map (\<lambda>s. s\<lparr>sArtifacts := rewriteArtifactFroms expansionMap (sArtifacts s)\<rparr>) (jSteps j)\<rparr>"

definition hasJobMatrix :: "'ast Pipeline \<Rightarrow> bool" where
  "hasJobMatrix p = list_ex (\<lambda>j. jMatrix j \<noteq> None) (pJobs p)"

definition expandJobs :: "'ast Pipeline \<Rightarrow> err + 'ast Pipeline" where
  "expandJobs p =
     (if \<not> hasJobMatrix p then Inr p
      else bindE (variantsLoop [] [] (pJobs p)) (\<lambda>(expansionMap, expanded).
             Inr (p\<lparr>pJobs := map (rewriteJob expansionMap) expanded\<rparr>)))"

definition Expand :: "'ast Pipeline \<Rightarrow> err + 'ast Pipeline" where
  "Expand p =
     (if pMatrix p = None \<and> \<not> hasJobMatrix p then Inr p
      else bindE (expandPipeline p) expandJobs)"

section \<open>Substitution is deterministic\<close>

abbreviation noBrace :: "(string, string) gomap \<Rightarrow> bool" where
  "noBrace combo \<equiv> \<forall>k\<in>set (gokeys combo). CHR ''}'' \<notin> set k"

lemma placeholder_nonempty [simp]: "placeholder pfx k \<noteq> []"
  by (simp add: placeholder_def)

lemma stop_unique:
  "k @ c # x = k' @ c # y \<Longrightarrow> c \<notin> set k \<Longrightarrow> c \<notin> set k' \<Longrightarrow> k = k'"
proof -
  assume eq: "k @ c # x = k' @ c # y" and c: "c \<notin> set k" "c \<notin> set k'"
  have "takeWhile (\<lambda>a. a \<noteq> c) (l @ c # z) = l" if "c \<notin> set l" for l z
    using that by (subst takeWhile_append2) auto
  with eq c show "k = k'" by metis
qed

lemma placeholder_unique:
  assumes "prefix (placeholder pfx k) s" "prefix (placeholder pfx k') s"
    and "CHR ''}'' \<notin> set k" "CHR ''}'' \<notin> set k'"
  shows "k = k'"
proof -
  from assms(1,2) obtain x y where "placeholder pfx k @ x = placeholder pfx k' @ y"
    by (auto simp: prefix_def)
  then have "k @ CHR ''}'' # x = k' @ CHR ''}'' # y" by (simp add: placeholder_def)
  then show ?thesis using assms(3,4) by (rule stop_unique)
qed

text \<open>The pair that applies at a position, if any, does not depend on the order of the map.\<close>

abbreviation pairsOf :: "string \<Rightarrow> (string, string) gomap \<Rightarrow> (string \<times> string) list" where
  "pairsOf pfx combo \<equiv> map (\<lambda>(k, v). (placeholder pfx k, v)) combo"

lemma matchAt_pairs:
  assumes "wfmap combo" "noBrace combo"
  shows "matchAt (pairsOf pfx combo) s = Some (old, new) \<longleftrightarrow>
     (\<exists>k. map_of combo k = Some new \<and> old = placeholder pfx k \<and> prefix old s)"
  using assms
proof (induction combo)
  case (Cons kv combo)
  obtain k v where kv: "kv = (k, v)" by (cases kv)
  from Cons.prems kv have fresh: "map_of combo k = None" and wf: "wfmap combo" "noBrace combo"
    and k: "CHR ''}'' \<notin> set k"
    by (auto simp: wfmap_def map_of_eq_None_iff)
  have "\<not> prefix (placeholder pfx k') s" if "prefix (placeholder pfx k) s" "map_of combo k' = Some v'" for k' v'
  proof
    assume "prefix (placeholder pfx k') s"
    with that(1) k wf(2) map_of_SomeD [OF that(2)] have "k = k'"
      by (intro placeholder_unique [of pfx k s k']) auto
    with fresh that(2) show False by simp
  qed
  with Cons.IH [OF wf] fresh kv show ?case by (auto split: if_splits)
qed simp

lemma substituteVars_order:
  assumes "wfmap m" "wfmap m'" "map_of m = map_of m'" "noBrace m" "noBrace m'"
  shows "substituteVars s m pfx = substituteVars s m' pfx"
proof -
  have "matchAt (pairsOf pfx m) t = matchAt (pairsOf pfx m') t" for t
  proof (rule option_eqI)
    fix x :: "string \<times> string"
    obtain old new where "x = (old, new)" by (cases x)
    with assms show "matchAt (pairsOf pfx m) t = Some x \<longleftrightarrow> matchAt (pairsOf pfx m') t = Some x"
      by (simp only: matchAt_pairs)
  qed
  moreover have "m = [] \<longleftrightarrow> m' = []"
    using assms(3) map_of_eq_empty_iff [of m] map_of_eq_empty_iff [of m'] by simp
  moreover from calculation have "replacer (pairsOf pfx m) s = replacer (pairsOf pfx m') s"
    by (intro replacer_cong)
  ultimately show ?thesis by (simp only: substituteVars_def)
qed

lemma substituteVars_hit:
  assumes "wfmap combo" "noBrace combo" "map_of combo k = Some v"
  shows "substituteVars (placeholder pfx k @ t) combo pfx = v @ substituteVars t combo pfx"
proof -
  have "matchAt (pairsOf pfx combo) (placeholder pfx k @ t) = Some (placeholder pfx k, v)"
    using assms by (auto simp: matchAt_pairs)
  from replacer_hit [OF this] assms(3) show ?thesis by (auto simp: substituteVars_def)
qed

lemma substituteVars_plain:
  assumes "CHR ''$'' \<notin> set u"
  shows "substituteVars (u @ t) combo pfx = u @ substituteVars t combo pfx"
  using assms
proof (induction u)
  case (Cons c u)
  then have "matchAt (pairsOf pfx combo) (c # u @ t) = None" by (auto simp: matchAt_None placeholder_def)
  from replacer_none [OF this] Cons show ?case by (auto simp: substituteVars_def)
qed simp

text \<open>\<^verbatim>\<open>substituteVars\<close> is a function of the map alone: Go's random iteration order does not
  show. It copies text without \<^verbatim>\<open>$\<close>, replaces a placeholder of a known key by its value and
  goes on behind it, so that placeholders inside values are never expanded.\<close>

theorem substituteVars_spec:
  assumes "wfmap combo" "\<forall>k\<in>set (gokeys combo). CHR ''}'' \<notin> set k"
  shows "(\<forall>combo'. wfmap combo' \<and> map_of combo' = map_of combo \<longrightarrow>
        substituteVars s combo' pfx = substituteVars s combo pfx) \<and>
    (CHR ''$'' \<notin> set u \<longrightarrow> map_of combo k = Some v \<longrightarrow>
        substituteVars (u @ ''${'' @ pfx @ k @ ''}'' @ t) combo pfx = u @ v @ substituteVars t combo pfx)"
proof (intro conjI allI impI)
  fix combo' assume *: "wfmap combo' \<and> map_of combo' = map_of combo"
  then have "set (gokeys combo') = set (gokeys combo)" by (simp flip: dom_map_of_conv_image_fst)
  with * assms show "substituteVars s combo' pfx = substituteVars s combo pfx"
    by (intro substituteVars_order) auto
next
  assume "CHR ''$'' \<notin> set u" "map_of combo k = Some v"
  with assms show "substituteVars (u @ ''${'' @ pfx @ k @ ''}'' @ t) combo pfx = u @ v @ substituteVars t combo pfx"
    using substituteVars_hit [of combo k v pfx t] by (simp add: substituteVars_plain placeholder_def)
qed

theorem substituteVars_spec_witness:
  "substituteVars ''go:${matrix.v}'' [(''v'', ''${matrix.os}''), (''os'', ''linux'')] ''matrix.'' =
     ''go:${matrix.os}''"
  using substituteVars_spec [of "[(''v'', ''${matrix.os}''), (''os'', ''linux'')]" "[]" "''matrix.''" "''go:''" "''v''"
      "''${matrix.os}''" "[]"]
  by (simp add: wfmap_def substituteVars_def)

section \<open>Matrices\<close>

text \<open>The number of combinations, without wrap-around.\<close>

definition comboCount :: "Dimension list \<Rightarrow> nat" where
  "comboCount ds = prod_list (map (length \<circ> dValues) ds)"

lemma comboCount_simps [simp]:
  "comboCount [] = 1" "comboCount (d # ds) = length (dValues d) * comboCount ds"
  by (simp_all add: comboCount_def)

text \<open>What the matrix check decides, for dimensions short enough for the product not to wrap.\<close>

definition matrixOk :: "Dimension list \<Rightarrow> bool" where
  "matrixOk ds \<longleftrightarrow> ds \<noteq> [] \<and> (\<forall>d\<in>set ds. validDimName (dName d) \<and> dValues d \<noteq> []) \<and>
     distinct (map dName ds) \<and> comboCount ds \<le> 10000"

lemma comboCount_pos: "\<forall>d\<in>set ds. dValues d \<noteq> [] \<Longrightarrow> 0 < comboCount ds"
  by (induction ds) auto

lemma checkDims_None:
  assumes "\<forall>d\<in>set ds. length (dValues d) < 2 ^ 48" "n \<le> 10000"
  shows "checkDims seen (int n) ds = None \<longleftrightarrow>
     (\<forall>d\<in>set ds. validDimName (dName d) \<and> dValues d \<noteq> []) \<and> distinct (map dName ds) \<and>
     dName ` set ds \<inter> seen = {} \<and> n * comboCount ds \<le> 10000"
  using assms
proof (induction ds arbitrary: seen n)
  case (Cons d ds)
  let ?m = "length (dValues d)"
  have "n * ?m \<le> 10000 * 2 ^ 48" using Cons.prems by (intro mult_le_mono) auto
  then have "in64 (int (n * ?m))" by (simp add: in64_def MaxInt_def del: of_nat_mult)
  from wrap64_id [OF this] have w: "wrap64 (int n * int ?m) = int (n * ?m)" by simp
  show ?case
  proof (cases "n * ?m \<le> 10000")
    case True
    then have "\<not> 10000 < int (n * ?m)" by (simp del: of_nat_mult)
    with Cons.IH [OF _ True, of "insert (dName d) seen"] Cons.prems(1) show ?thesis
      by (auto simp: w Let_def maxMatrixCombinations_def mult.assoc simp del: of_nat_mult)
  next
    case False
    have "\<not> n * comboCount (d # ds) \<le> 10000" if "\<forall>d\<in>set ds. dValues d \<noteq> []"
    proof -
      have "n * ?m * 1 \<le> n * ?m * comboCount ds"
        using comboCount_pos [OF that] by (intro mult_le_mono2) simp
      with False show ?thesis unfolding comboCount_simps mult.assoc by linarith
    qed
    moreover from False have "10000 < int (n * ?m)" by (simp del: of_nat_mult)
    ultimately show ?thesis by (auto simp: w Let_def maxMatrixCombinations_def simp del: of_nat_mult)
  qed
qed simp

lemma countCombos_small:
  assumes "0 \<le> n" "n * int (comboCount ds) \<le> MaxInt" "\<forall>d\<in>set ds. dValues d \<noteq> []"
  shows "countCombos n ds = Inr (n * int (comboCount ds))"
  using assms
proof (induction ds arbitrary: n)
  case (Cons d ds)
  let ?m = "int (length (dValues d))"
  have pos: "0 < ?m" "0 < int (comboCount ds)" using Cons.prems(3) comboCount_pos [of ds] by auto
  then have le: "n * ?m \<le> n * ?m * int (comboCount ds)" 
    using Cons.prems(1) mult_left_mono [of 1 "int (comboCount ds)" "n * ?m"] by simp
  also have "\<dots> \<le> MaxInt" using Cons.prems(2) by (simp add: mult.assoc)
  finally have m: "n * ?m \<le> MaxInt" .
  then have "n \<le> MaxInt div ?m" using pos by (metis zdiv_mono1 nonzero_mult_div_cancel_right less_irrefl)
  moreover have "0 \<le> n * ?m" using Cons.prems(1) by simp
  then have "wrap64 (n * ?m) = n * ?m" using m by (intro wrap64_id) (simp add: in64_def)
  ultimately show ?case
    using Cons.IH [of "n * ?m"] Cons.prems pos by (simp add: Let_def mult.assoc)
qed simp

text \<open>The product: every choice of one value per dimension.\<close>

definition choices :: "Dimension list \<Rightarrow> (string \<rightharpoonup> string) set" where
  "choices ds = {m. dom m = dName ` set ds \<and> (\<forall>d\<in>set ds. \<exists>v\<in>set (dValues d). m (dName d) = Some v)}"

lemma extendCombos_set:
  "set (extendCombos d cs) = (\<Union>c\<in>set cs. (\<lambda>v. mput (dName d) v c) ` set (dValues d))"
  by (simp add: extendCombos_def)

lemma length_extendCombos: "length (extendCombos d cs) = length cs * length (dValues d)"
  by (induction cs) (simp_all add: extendCombos_def)

lemma choices_snoc:
  assumes "dName d \<notin> dName ` set ds"
  shows "choices (ds @ [d]) = (\<Union>m\<in>choices ds. (\<lambda>v. m(dName d \<mapsto> v)) ` set (dValues d))"
proof (intro set_eqI iffI)
  fix m assume m: "m \<in> choices (ds @ [d])"
  then obtain v where v: "v \<in> set (dValues d)" "m (dName d) = Some v" by (auto simp: choices_def)
  have "m |` (dName ` set ds) \<in> choices ds" using m by (auto simp: choices_def)
  moreover have "m = (m |` (dName ` set ds))(dName d \<mapsto> v)"
  proof (rule ext)
    fix k
    from m have "m k = None" if "k \<notin> dName ` set ds" "k \<noteq> dName d"
      using that by (auto simp: choices_def dom_def)
    with v(2) show "m k = ((m |` (dName ` set ds))(dName d \<mapsto> v)) k" by (simp add: restrict_map_def)
  qed
  ultimately show "m \<in> (\<Union>m\<in>choices ds. (\<lambda>v. m(dName d \<mapsto> v)) ` set (dValues d))" using v(1) by blast
next
  fix m assume "m \<in> (\<Union>m\<in>choices ds. (\<lambda>v. m(dName d \<mapsto> v)) ` set (dValues d))"
  then obtain m0 v where m0: "m0 \<in> choices ds" "v \<in> set (dValues d)" "m = m0(dName d \<mapsto> v)" by blast
  moreover have "dName x \<noteq> dName d" if "x \<in> set ds" for x
  proof
    assume "dName x = dName d"
    with that have "dName d \<in> dName ` set ds" by (auto simp flip: \<open>dName x = dName d\<close>)
    with assms show False by blast
  qed
  ultimately show "m \<in> choices (ds @ [d])" by (auto simp: choices_def)
qed

lemma combos_correct:
  assumes "distinct (map dName ds)"
  shows "map_of ` set (fold extendCombos ds [[]]) = choices ds \<and>
     (\<forall>c\<in>set (fold extendCombos ds [[]]). wfmap c) \<and>
     length (fold extendCombos ds [[]]) = comboCount ds"
  using assms
proof (induction ds rule: rev_induct)
  case Nil
  show ?case by (auto simp: choices_def)
next
  case (snoc d ds)
  let ?cs = "fold extendCombos ds [[]]"
  from snoc have IH: "map_of ` set ?cs = choices ds" "\<forall>c\<in>set ?cs. wfmap c" "length ?cs = comboCount ds"
    and new: "dName d \<notin> dName ` set ds" by simp_all
  have "map_of ` set (extendCombos d ?cs) = (\<Union>m\<in>map_of ` set ?cs. (\<lambda>v. m(dName d \<mapsto> v)) ` set (dValues d))"
    by (simp add: extendCombos_set image_UN image_image)
  with IH choices_snoc [OF new] show ?case
    by (auto simp: extendCombos_set length_extendCombos comboCount_def)
qed

text \<open>For dimensions of fewer than \<open>2^48\<close> values, \<^verbatim>\<open>ValidateMatrix\<close> accepts exactly the
  matrices with at least one dimension, valid and distinct dimension names, no empty
  dimension and at most ten thousand combinations; for an accepted matrix
  \<^verbatim>\<open>Combinations\<close> never reports an overflow and returns, for every choice of one value
  per dimension, a map with exactly that choice, and as many maps as the sizes multiply to.\<close>

theorem matrix_combinations:
  assumes "\<forall>d\<in>set (mDimensions m). length (dValues d) < 2 ^ 48"
  shows "(ValidateMatrix (Some m) = None \<longleftrightarrow> matrixOk (mDimensions m)) \<and>
    (ValidateMatrix (Some m) = None \<longrightarrow>
      (\<exists>combos. Combinations m = Inr combos \<and> length combos = comboCount (mDimensions m) \<and>
         (\<forall>c\<in>set combos. wfmap c) \<and> map_of ` set combos = choices (mDimensions m)))"
proof -
  have iff: "ValidateMatrix (Some m) = None \<longleftrightarrow> matrixOk (mDimensions m)"
    using checkDims_None [OF assms, of 1 "{}"] by (auto simp: ValidateMatrix_def matrixOk_def)
  moreover have "\<exists>combos. Combinations m = Inr combos \<and> length combos = comboCount (mDimensions m) \<and>
         (\<forall>c\<in>set combos. wfmap c) \<and> map_of ` set combos = choices (mDimensions m)"
    if "matrixOk (mDimensions m)"
    using that countCombos_small [of 1 "mDimensions m"] combos_correct [of "mDimensions m"]
    by (auto simp: matrixOk_def Combinations_def MaxInt_def)
  ultimately show ?thesis by blast
qed

theorem matrix_combinations_witness:
  "\<exists>combos. Combinations \<lparr>mDimensions = [\<lparr>dName = ''os'', dValues = [''l'', ''m'']\<rparr>, \<lparr>dName = ''v'', dValues = [''1'']\<rparr>]\<rparr> =
     Inr combos \<and> length combos = 2"
proof -
  let ?m = "\<lparr>mDimensions = [\<lparr>dName = ''os'', dValues = [''l'', ''m'']\<rparr>, \<lparr>dName = ''v'', dValues = [''1'']\<rparr>]\<rparr>"
  have "ValidateMatrix (Some ?m) = None" by code_simp
  then show ?thesis using matrix_combinations [of ?m] by auto
qed

section \<open>Names\<close>

text \<open>Keys and values that a bracket suffix can hold: no comma, and no equals sign in a key.\<close>

definition cleanMap :: "(string, string) gomap \<Rightarrow> bool" where
  "cleanMap m \<longleftrightarrow> wfmap m \<and>
     (\<forall>(k, v)\<in>set m. CHR '','' \<notin> set k \<and> CHR ''='' \<notin> set k \<and> CHR '','' \<notin> set v)"

definition baseName :: "string \<Rightarrow> string" where
  "baseName n = takeWhile (\<lambda>c. c \<noteq> CHR ''['') n"

lemma baseName_plain [simp]: "CHR ''['' \<notin> set n \<Longrightarrow> baseName n = n"
  by (auto simp: baseName_def takeWhile_eq_all_conv)

lemma baseName_append [simp]: "baseName (n @ CHR ''['' # r) = baseName n"
  by (induction n) (simp_all add: baseName_def)

lemma baseName_splitSuffix: "baseName (fst (splitSuffix n)) = baseName n"
  by (auto simp: splitSuffix_def cutAt_Some split: option.split)

lemma baseName_expandedName [simp]: "baseName (expandedName n combo) = baseName n"
  using baseName_splitSuffix [of n]
  by (simp add: expandedName_def renderName_def split_def Let_def)

lemma beforeLast_snoc [simp]: "beforeLast c (s @ [c]) = s"
  by (simp add: beforeLast_def)

text \<open>Reading a rendered suffix back gives the map.\<close>

lemma fold_mput_map_of:
  "map_of (fold (\<lambda>(k, v) m. mput k v m) kvs m) = map_of m ++ map_of (rev kvs)"
  by (induction kvs arbitrary: m) (auto simp: split_def)

lemma fold_mput_wfmap: "wfmap m \<Longrightarrow> wfmap (fold (\<lambda>(k, v) m. mput k v m) kvs m)"
  by (induction kvs arbitrary: m) (auto simp: split_def)

lemma parsePairs_render:
  assumes "\<forall>(k, v)\<in>set kvs. CHR '','' \<notin> set k \<and> CHR ''='' \<notin> set k \<and> CHR '','' \<notin> set v"
  shows "parsePairs (joinWith '','' (map (\<lambda>(k, v). k @ ''='' @ v) kvs)) =
     fold (\<lambda>(k, v) m. mput k v m) kvs []"
proof (cases "kvs = []")
  case False
  let ?r = "\<lambda>(k, v). k @ ''='' @ v"
  have "splitOn (CHR '','') (joinWith '','' (map ?r kvs)) = map ?r kvs"
    using False assms by (intro splitOn_joinWith) auto
  moreover have "fold (\<lambda>kv m. case cutAt (CHR ''='') kv of None \<Rightarrow> m | Some (k, v) \<Rightarrow> mput k v m) (map ?r kvs) m =
      fold (\<lambda>(k, v) m. mput k v m) kvs m" for m
    using assms by (induction kvs arbitrary: m) auto
  ultimately show ?thesis by (simp add: parsePairs_def)
qed (simp add: parsePairs_def cutAt_def)

lemma sorted_pairs_map:
  assumes "wfmap m"
  shows "map_of (rev (map (\<lambda>k. (k, mgetStr m k)) (sortedKeys m))) = map_of m"
proof -
  have "map_of (rev (map (\<lambda>k. (k, f k)) ks)) k = (if k \<in> set ks then Some (f k) else None)" for k ks and f :: "string \<Rightarrow> string"
    by (induction ks) (auto simp: map_add_def split: option.split)
  moreover have "k \<in> set (gokeys m) \<longleftrightarrow> map_of m k \<noteq> None" for k by (simp add: map_of_eq_None_iff)
  ultimately show ?thesis by (auto simp: fun_eq_iff mgetStr_def)
qed

lemma splitSuffix_render:
  assumes "cleanMap m" "CHR ''['' \<notin> set n"
  shows "fst (splitSuffix (renderName n m)) = n"
    and "map_of (snd (splitSuffix (renderName n m))) = map_of m"
    and "wfmap (snd (splitSuffix (renderName n m)))"
proof -
  let ?kvs = "map (\<lambda>k. (k, mgetStr m k)) (sortedKeys m)"
  have "(k, mgetStr m k) \<in> set m" if "k \<in> set (gokeys m)" for k
    using that assms(1) by (auto simp: cleanMap_def wfmap_def mgetStr_def dest: map_of_is_SomeI)
  then have "set ?kvs \<subseteq> set m" by auto
  then have clean: "\<forall>(k, v)\<in>set ?kvs. CHR '','' \<notin> set k \<and> CHR ''='' \<notin> set k \<and> CHR '','' \<notin> set v"
    using assms(1) by (auto simp: cleanMap_def)
  have "splitSuffix (n @ CHR ''['' # t @ '']'') = (n, parsePairs t)" for t
    using assms(2) by (simp add: splitSuffix_def)
  then have "splitSuffix (renderName n m) =
      (n, parsePairs (joinWith '','' (map (\<lambda>(k, v). k @ ''='' @ v) ?kvs)))"
    by (simp add: renderName_def o_def)
  with parsePairs_render [OF clean]
  have eq: "splitSuffix (renderName n m) = (n, fold (\<lambda>(k, v) m. mput k v m) ?kvs [])" by simp
  then show "fst (splitSuffix (renderName n m)) = n" by simp
  from eq assms(1) show "map_of (snd (splitSuffix (renderName n m))) = map_of m"
    using sorted_pairs_map [of m] by (simp add: fold_mput_map_of cleanMap_def)
  from eq show "wfmap (snd (splitSuffix (renderName n m)))" by (simp add: fold_mput_wfmap)
qed

lemma renderName_cong:
  assumes "wfmap m" "wfmap m'" "map_of m = map_of m'"
  shows "renderName n m = renderName n m'"
  using map_of_eq_perm [OF assms] assms(3) by (simp add: renderName_def mgetStr_def)

lemma expandedName_plain:
  assumes "CHR ''['' \<notin> set n" "wfmap c"
  shows "expandedName n c = renderName n c"
proof -
  from assms(1) have "cutAt (CHR ''['') n = None" by simp
  with assms(2) show ?thesis
    by (simp only: expandedName_def splitSuffix_def option.case prod.case Let_def mapsCopy_Nil)
qed

lemma cleanMap_wf [simp]: "cleanMap m \<Longrightarrow> wfmap m"
  by (simp add: cleanMap_def)

lemma expandedName_again:
  assumes "CHR ''['' \<notin> set n" "cleanMap c1" "cleanMap c2"
  shows "expandedName (expandedName n c1) c2 = expandedName n (mapsCopy c1 c2)"
proof -
  let ?s = "splitSuffix (renderName n c1)"
  have "expandedName (renderName n c1) c2 = renderName n (mapsCopy (snd ?s) c2)"
    using splitSuffix_render(1) [OF assms(2,1)] by (simp add: expandedName_def split_def Let_def)
  also have "\<dots> = renderName n (mapsCopy c1 c2)"
    using splitSuffix_render [OF assms(2,1)] assms(2,3)
    by (intro renderName_cong) (simp_all add: map_of_mapsCopy)
  finally show ?thesis using assms by (simp add: expandedName_plain)
qed

lemma expandedName_inj:
  assumes "CHR ''['' \<notin> set n" "CHR ''['' \<notin> set n'" "cleanMap c" "cleanMap c'"
    and "expandedName n c = expandedName n' c'"
  shows "n = n' \<and> map_of c = map_of c'"
proof -
  from assms have "renderName n c = renderName n' c'" by (simp add: expandedName_plain)
  with splitSuffix_render [OF assms(3,1)] splitSuffix_render [OF assms(4,2)] show ?thesis by simp
qed

text \<open>C37: the name of a replica identifies it. For a base name without a bracket and values
  without comma, reading the bracket suffix gives base name and values back, two replicas
  have the same name only if base name and values agree, and expanding a replica's name
  by further dimensions gives the name of the combined choice.\<close>

theorem expandedName_roundtrip:
  assumes "CHR ''['' \<notin> set n" "CHR ''['' \<notin> set n'" "cleanMap c" "cleanMap c'"
  shows "fst (splitSuffix (expandedName n c)) = n \<and>
    map_of (snd (splitSuffix (expandedName n c))) = map_of c \<and>
    (expandedName n c = expandedName n' c' \<longleftrightarrow> n = n' \<and> map_of c = map_of c') \<and>
    expandedName (expandedName n c) c' = expandedName n (mapsCopy c c')"
proof -
  have "expandedName n c = expandedName n' c'" if "n = n'" "map_of c = map_of c'"
    using that assms renderName_cong [of c c' n] by (simp add: expandedName_plain)
  then show ?thesis
    using assms splitSuffix_render(1,2) [OF assms(3,1)] expandedName_inj [OF assms] expandedName_again
    by (auto simp: expandedName_plain)
qed

theorem expandedName_roundtrip_witness:
  "expandedName (expandedName ''build'' [(''os'', ''linux/amd64'')]) [(''go'', ''1.25'')] =
     ''build[go=1.25,os=linux/amd64]''"
proof -
  have "expandedName (expandedName ''build'' [(''os'', ''linux/amd64'')]) [(''go'', ''1.25'')] =
      expandedName ''build'' (mapsCopy [(''os'', ''linux/amd64'')] [(''go'', ''1.25'')])"
    using expandedName_roundtrip [of "''build''" "''b''" "[(''os'', ''linux/amd64'')]" "[(''go'', ''1.25'')]"]
    by (simp add: cleanMap_def wfmap_def)
  also have "\<dots> = ''build[go=1.25,os=linux/amd64]''" by code_simp
  finally show ?thesis .
qed

section \<open>What the phases do to names and dependencies\<close>

lemma substituteJobVars_frame [simp]:
  "jName (substituteJobVars j c p) = jName j"
  "jDependsOn (substituteJobVars j c p) = jDependsOn j"
  by (simp_all add: substituteJobVars_def Let_def)

lemma correlateJob_frame [simp]:
  "jName (correlateJob j c) = expandedName (jName j) c"
  "jDependsOn (correlateJob j c) = map (\<lambda>d. expandedName d c) (jDependsOn j)"
  by (simp_all add: correlateJob_def correlateDeps_def Let_def)

lemma variantJob_frame [simp]:
  "jName (variantJob j c) = expandedName (jName j) c"
  "jDependsOn (variantJob j c) = jDependsOn j"
  by (simp_all add: variantJob_def replicateJob_def Let_def)

lemma rewriteJob_frame [simp]:
  "jName (rewriteJob m j) = jName j"
  "jDependsOn (rewriteJob m j) = rewriteDeps (jDependsOn j) m"
  by (simp_all add: rewriteJob_def)

lemma jobVariants_names:
  "jobVariants j = Inr vs \<Longrightarrow> v \<in> set vs \<Longrightarrow> baseName (jName v) = baseName (jName j) \<and> jDependsOn v = jDependsOn j"
  by (auto simp: jobVariants_def replicateJob_def split: option.splits)

text \<open>The loop over the jobs collects the variants and records, for every job, their names.\<close>

lemma variantsLoop_Inr:
  assumes "variantsLoop m expanded js = Inr (m', expanded')"
  shows "\<exists>vss. list_all2 (\<lambda>j vs. jobVariants j = Inr vs) js vss \<and> expanded' = expanded @ concat vss \<and>
     m' = fold (\<lambda>(j, vs). mput (jName j) (map jName vs)) (zip js vss) m"
  using assms
proof (induction m expanded js rule: variantsLoop.induct)
  case (2 m expanded j js)
  then obtain vs where vs: "jobVariants j = Inr vs"
    and rest: "variantsLoop (mput (jName j) (map jName vs) m) (expanded @ vs) js = Inr (m', expanded')"
    by auto
  from "2.IH" [OF rest] obtain vss where "list_all2 (\<lambda>j vs. jobVariants j = Inr vs) js vss"
    "expanded' = (expanded @ vs) @ concat vss"
    "m' = fold (\<lambda>(j, vs). mput (jName j) (map jName vs)) (zip js vss) (mput (jName j) (map jName vs) m)"
    by blast
  with vs show ?case by (intro exI [of _ "vs # vss"]) simp
qed simp

lemma fold_expansion_lookup:
  "map_of (fold (\<lambda>(j, vs). mput (jName j) (map jName vs)) jvs m) d = Some ns \<Longrightarrow>
     (\<exists>(j, vs)\<in>set jvs. jName j = d \<and> ns = map jName vs) \<or> map_of m d = Some ns"
  by (induction jvs arbitrary: m) (fastforce split: if_splits)+

lemma fold_expansion_dom:
  "map_of (fold (\<lambda>(j, vs). mput (jName j) (map jName vs)) jvs m) d = None \<longleftrightarrow>
     d \<notin> jName ` fst ` set jvs \<and> map_of m d = None"
  by (induction jvs arbitrary: m) (auto split: if_splits)

section \<open>Parameters\<close>

lemma checkParamDefs_None:
  "checkParamDefs provided known ds = None \<longleftrightarrow>
     distinct (map pdName ds) \<and> pdName ` set ds \<inter> known = {} \<and>
     (\<forall>d\<in>set ds. pdRequired d \<longrightarrow> map_of provided (pdName d) \<noteq> None)"
  by (induction provided known ds rule: checkParamDefs.induct) auto

lemma resolve_fold:
  "distinct (map pdName ds) \<Longrightarrow>
     map_of (fold (\<lambda>d. mput (pdName d) (f d)) ds m) = map_of m ++ map_of (map (\<lambda>d. (pdName d, f d)) ds)"
proof (induction ds arbitrary: m)
  case (Cons d ds)
  then have "map_of (map (\<lambda>d. (pdName d, f d)) ds) (pdName d) = None"
    by (auto simp: map_of_eq_None_iff)
  with Cons show ?case by (auto simp: fun_eq_iff map_add_def split: option.split)
qed simp

text \<open>\<^verbatim>\<open>ResolveParams\<close> succeeds exactly when the parameter names are distinct, every required
  parameter is provided and every provided one is known; the result then has one entry per
  declared parameter, the provided value where there is one and the default otherwise.\<close>

theorem ResolveParams_spec:
  "((\<exists>r. ResolveParams defs provided = Inr r) \<longleftrightarrow>
      distinct (map pdName defs) \<and>
      (\<forall>d\<in>set defs. pdRequired d \<longrightarrow> map_of provided (pdName d) \<noteq> None) \<and>
      set (gokeys provided) \<subseteq> pdName ` set defs) \<and>
   (\<forall>r. ResolveParams defs provided = Inr r \<longrightarrow>
      dom (map_of r) = pdName ` set defs \<and>
      (\<forall>d\<in>set defs. map_of r (pdName d) =
         Some (case map_of provided (pdName d) of Some v \<Rightarrow> v | None \<Rightarrow> pdDefault d)))"
proof -
  let ?f = "\<lambda>d. case map_of provided (pdName d) of Some v \<Rightarrow> v | None \<Rightarrow> pdDefault d"
  have ok: "ValidateParams defs provided = None \<longleftrightarrow>
      distinct (map pdName defs) \<and>
      (\<forall>d\<in>set defs. pdRequired d \<longrightarrow> map_of provided (pdName d) \<noteq> None) \<and>
      set (gokeys provided) \<subseteq> pdName ` set defs"
    by (auto simp: ValidateParams_def checkParamDefs_None)
  have r: "dom (map_of r) = pdName ` set defs \<and> (\<forall>d\<in>set defs. map_of r (pdName d) = Some (?f d))"
    if "ResolveParams defs provided = Inr r" for r
  proof -
    from that have d: "distinct (map pdName defs)"
      and m: "map_of r = map_of (map (\<lambda>d. (pdName d, ?f d)) defs)"
      by (auto simp: ResolveParams_def ok resolve_fold)
    have "map_of (map (\<lambda>d. (pdName d, ?f d)) defs) (pdName x) = Some (?f x)" if "x \<in> set defs" for x
      using d that by (intro map_of_is_SomeI) (auto simp: o_def)
    then show ?thesis unfolding m by (auto simp: dom_map_of_conv_image_fst image_image)
  qed
  show ?thesis using r by (auto simp: ResolveParams_def ok)
qed

theorem ResolveParams_spec_witness:
  "\<exists>r. ResolveParams [\<lparr>pdName = ''v'', pdDefault = ''1'', pdRequired = False\<rparr>] [] = Inr r \<and>
     map_of r ''v'' = Some ''1''"
  using ResolveParams_spec [of "[\<lparr>pdName = ''v'', pdDefault = ''1'', pdRequired = False\<rparr>]" "[]"] by auto

text \<open>The comment on \<^verbatim>\<open>replicateJob\<close> says that cache identifiers are copied verbatim; they are
  substituted like every other field.\<close>

lemma replicateJob_cache_ids:
  "map cID (jCaches (replicateJob j combo)) =
     map (\<lambda>c. substituteVars (cID c) combo ''matrix.'') (jCaches j)"
  by (simp add: replicateJob_def substituteJobVars_def substituteCaches_def Let_def)

end
