(* ===== verification/Expand_Graph.thy ===== *)
theory Expand_Graph
  imports Expand Validate
begin

text \<open>
  Matrix expansion and the job graph: the pipeline that \<^verbatim>\<open>Expand\<close> returns has the
  dependency structure that validation requires.
\<close>

section \<open>One phase of expansion\<close>

text \<open>
  A phase maps every job to replicas whose names keep the base name. Its contract: each
  dependency of a replica stands for a dependency of its original, and names a replica.
\<close>

locale expansion =
  fixes old :: "'ast Job list" and new :: "'ast Job list"
  assumes origin: "j' \<in> set new \<Longrightarrow>
      \<exists>j\<in>set old. baseName (jName j') = baseName (jName j) \<and>
        (\<forall>d'\<in>set (jDependsOn j'). \<exists>d\<in>set (jDependsOn j). baseName d' = baseName d)"
    and replicas: "j' \<in> set new \<Longrightarrow> d' \<in> set (jDependsOn j') \<Longrightarrow>
      \<forall>j\<in>set old. set (jDependsOn j) \<subseteq> jName ` set old \<Longrightarrow> d' \<in> jName ` set new"
begin

text \<open>Base names of the new relation are base names of the old one.\<close>

lemma rel_base: "map_prod baseName baseName ` depRel new \<subseteq> map_prod baseName baseName ` depRel old"
proof
  fix x assume "x \<in> map_prod baseName baseName ` depRel new"
  then obtain j' d' where j': "j' \<in> set new" "d' \<in> set (jDependsOn j')"
    and x: "x = (baseName (jName j'), baseName d')" by (auto simp: depRel_def)
  from origin [OF j'(1)] j'(2) obtain j d where "j \<in> set old" "d \<in> set (jDependsOn j)"
    "baseName (jName j') = baseName (jName j)" "baseName d' = baseName d" by blast
  then have "(jName j, d) \<in> depRel old" "x = map_prod baseName baseName (jName j, d)"
    using x by (auto simp: depRel_def)
  then show "x \<in> map_prod baseName baseName ` depRel old" by blast
qed

lemma known:
  "\<forall>j\<in>set old. set (jDependsOn j) \<subseteq> jName ` set old \<Longrightarrow>
     \<forall>j\<in>set new. set (jDependsOn j) \<subseteq> jName ` set new"
  using replicas by blast

end

lemma acyclic_image:
  assumes "acyclic (map_prod f f ` r)"
  shows "acyclic r"
proof -
  have "(f x, f y) \<in> (map_prod f f ` r)\<^sup>+" if "(x, y) \<in> r\<^sup>+" for x y
    using that by (induction rule: trancl_induct) (auto intro: trancl_into_trancl rev_image_eqI)
  with assms show ?thesis by (auto simp: acyclic_def)
qed

section \<open>The phases meet the contract\<close>

definition phase1Jobs :: "'ast Job list \<Rightarrow> (string, string) gomap list \<Rightarrow> 'ast Job list" where
  "phase1Jobs jobs combos = concat (map (\<lambda>combo. map (\<lambda>j. correlateJob j combo) jobs) combos)"

definition phase2Jobs :: "'ast Job list \<Rightarrow> 'ast Job list" where
  "phase2Jobs jobs =
     (case variantsLoop [] [] jobs of
        Inl _ \<Rightarrow> []
      | Inr (expansionMap, expanded) \<Rightarrow> map (rewriteJob expansionMap) expanded)"

interpretation phase1: expansion jobs "phase1Jobs jobs combos" for jobs :: "'ast Job list" and combos
proof
  fix j' assume "j' \<in> set (phase1Jobs jobs combos)"
  then obtain j c where j: "j \<in> set jobs" "c \<in> set combos" "j' = correlateJob j c"
    by (auto simp: phase1Jobs_def)
  then show "\<exists>j\<in>set jobs. baseName (jName j') = baseName (jName j) \<and>
      (\<forall>d'\<in>set (jDependsOn j'). \<exists>d\<in>set (jDependsOn j). baseName d' = baseName d)"
    by (intro bexI [of _ j]) auto
  fix d' assume d': "d' \<in> set (jDependsOn j')" and known: "\<forall>j\<in>set jobs. set (jDependsOn j) \<subseteq> jName ` set jobs"
  from d' j obtain d where d: "d \<in> set (jDependsOn j)" "d' = expandedName d c" by auto
  with known j(1) obtain j0 where "j0 \<in> set jobs" "jName j0 = d" by blast
  with j(2) d(2) have "correlateJob j0 c \<in> set (phase1Jobs jobs combos)" "jName (correlateJob j0 c) = d'"
    by (auto simp: phase1Jobs_def)
  then show "d' \<in> jName ` set (phase1Jobs jobs combos)" by blast
qed

text \<open>A variant of a job, and what the expansion map holds.\<close>

lemma phase2_parts:
  assumes "j' \<in> set (phase2Jobs jobs)"
  obtains m expanded v j vs where "variantsLoop [] [] jobs = Inr (m, expanded)" "j' = rewriteJob m v"
    "v \<in> set vs" "j \<in> set jobs" "jobVariants j = Inr vs"
    "phase2Jobs jobs = map (rewriteJob m) expanded"
proof -
  from assms obtain m expanded v where *: "variantsLoop [] [] jobs = Inr (m, expanded)"
    "j' = rewriteJob m v" "v \<in> set expanded"
    by (cases "variantsLoop [] [] jobs") (auto simp: phase2Jobs_def)
  from variantsLoop_Inr [OF *(1)] obtain vss where
    "list_all2 (\<lambda>j vs. jobVariants j = Inr vs) jobs vss" "expanded = concat vss" by auto
  with *(3) obtain vs j where "v \<in> set vs" "j \<in> set jobs" "jobVariants j = Inr vs"
    by (auto simp: list_all2_conv_all_nth in_set_conv_nth) metis
  with * that show ?thesis by (simp add: phase2Jobs_def)
qed

lemma phase2_map:
  assumes "variantsLoop [] [] jobs = Inr (m, expanded)"
  shows "map_of m d = None \<longleftrightarrow> d \<notin> jName ` set jobs"
    and "map_of m d = Some ns \<Longrightarrow> n \<in> set ns \<Longrightarrow> baseName n = baseName d \<and> n \<in> jName ` set expanded"
proof -
  from variantsLoop_Inr [OF assms] obtain vss where
    vss: "list_all2 (\<lambda>j vs. jobVariants j = Inr vs) jobs vss" "expanded = concat vss"
    "m = fold (\<lambda>(j, vs). mput (jName j) (map jName vs)) (zip jobs vss) []" by auto
  then have "fst ` set (zip jobs vss) = set jobs"
    by (metis list_all2_lengthD list.set_map map_fst_zip)
  with vss(3) show "map_of m d = None \<longleftrightarrow> d \<notin> jName ` set jobs" by (simp add: fold_expansion_dom)
  assume ns: "map_of m d = Some ns" "n \<in> set ns"
  with vss(3) obtain j vs where "(j, vs) \<in> set (zip jobs vss)" "jName j = d" "ns = map jName vs"
    using fold_expansion_lookup [of "zip jobs vss" "[]" d ns] by auto
  with vss(1,2) ns(2) show "baseName n = baseName d \<and> n \<in> jName ` set expanded"
    by (auto simp: list_all2_iff dest: jobVariants_names set_zip_rightD)
qed

lemma rewriteDeps_cases:
  assumes "d' \<in> set (rewriteDeps ds m)"
  obtains d where "d \<in> set ds" "map_of m d = None" "d' = d"
    | d ns where "d \<in> set ds" "map_of m d = Some ns" "d' \<in> set ns"
  using assms by (fastforce simp: rewriteDeps_def split: option.splits)

interpretation phase2: expansion jobs "phase2Jobs jobs" for jobs :: "'ast Job list"
proof
  fix j' assume "j' \<in> set (phase2Jobs jobs)"
  then obtain m expanded v j vs where m: "variantsLoop [] [] jobs = Inr (m, expanded)"
    and v: "j' = rewriteJob m v" "v \<in> set vs" "j \<in> set jobs" "jobVariants j = Inr vs"
    and new: "phase2Jobs jobs = map (rewriteJob m) expanded"
    by (rule phase2_parts)
  note base = jobVariants_names [OF v(4,2)]
  have "\<exists>d\<in>set (jDependsOn j). baseName d' = baseName d" if "d' \<in> set (jDependsOn j')" for d'
  proof -
    from that v(1) base have "d' \<in> set (rewriteDeps (jDependsOn j) m)" by simp
    then show ?thesis by (cases rule: rewriteDeps_cases) (auto dest: phase2_map(2) [OF m])
  qed
  with v base show "\<exists>j\<in>set jobs. baseName (jName j') = baseName (jName j) \<and>
      (\<forall>d'\<in>set (jDependsOn j'). \<exists>d\<in>set (jDependsOn j). baseName d' = baseName d)" by auto
  fix d' assume d': "d' \<in> set (jDependsOn j')" and known: "\<forall>j\<in>set jobs. set (jDependsOn j) \<subseteq> jName ` set jobs"
  from d' v(1) base have "d' \<in> set (rewriteDeps (jDependsOn j) m)" by simp
  then show "d' \<in> jName ` set (phase2Jobs jobs)"
  proof (cases rule: rewriteDeps_cases)
    case (1 d)
    with known v(3) phase2_map(1) [OF m] show ?thesis by blast
  next
    case (2 d ns)
    with phase2_map(2) [OF m] new show ?thesis by (simp add: image_image)
  qed
qed

section \<open>Expansion keeps the graph valid\<close>

lemma expandPipeline_jobs:
  "expandPipeline p = Inr p1 \<Longrightarrow> pJobs p1 = pJobs p \<or> (\<exists>combos. pJobs p1 = phase1Jobs (pJobs p) combos)"
  by (auto simp: expandPipeline_def phase1Jobs_def split: option.splits)

lemma expandJobs_jobs:
  "expandJobs p1 = Inr q \<Longrightarrow> pJobs q = pJobs p1 \<or> pJobs q = phase2Jobs (pJobs p1)"
  by (auto simp: expandJobs_def phase2Jobs_def split: if_splits sum.splits)

lemma Expand_depsOk:
  assumes "Expand p = Inr q" "\<forall>j\<in>set (pJobs p). CHR ''['' \<notin> set (jName j)" "depsOk (pJobs p)"
  shows "depsOk (pJobs q)"
proof -
  let ?b = "\<lambda>jobs :: 'a Job list. map_prod baseName baseName ` depRel jobs"
  let ?known = "\<lambda>jobs :: 'a Job list. \<forall>j\<in>set jobs. set (jDependsOn j) \<subseteq> jName ` set jobs"
  from assms(3) have known: "?known (pJobs p)" and ac: "acyclic (depRel (pJobs p))"
    by (auto simp: depsOk_def jobNames_def)
  have "?b (pJobs p) = depRel (pJobs p)"
  proof -
    have "map_prod baseName baseName x = x" if x: "x \<in> depRel (pJobs p)" for x
    proof -
      from x obtain j d where j: "j \<in> set (pJobs p)" "d \<in> set (jDependsOn j)" "x = (jName j, d)"
        by (auto simp: depRel_def)
      with known obtain j0 where "j0 \<in> set (pJobs p)" "d = jName j0" by blast
      with j assms(2) show ?thesis by simp
    qed
    then show ?thesis by (simp add: image_def)
  qed
  moreover have "?b (pJobs q) \<subseteq> ?b (pJobs p) \<and> ?known (pJobs q)"
  proof (cases "q = p")
    case False
    with assms(1) obtain p1 where p1: "expandPipeline p = Inr p1" "expandJobs p1 = Inr q"
      by (auto simp: Expand_def split: if_splits)
    have p1_ok: "?b (pJobs p1) \<subseteq> ?b (pJobs p) \<and> ?known (pJobs p1)"
      using expandPipeline_jobs [OF p1(1)]
    proof (elim disjE exE)
      fix combos assume "pJobs p1 = phase1Jobs (pJobs p) combos"
      with phase1.rel_base [of "pJobs p" combos] phase1.known [OF known, of combos] show ?thesis by simp
    qed (use known in simp)
    have q_ok: "?b (pJobs q) \<subseteq> ?b (pJobs p1) \<and> ?known (pJobs q)"
      using expandJobs_jobs [OF p1(2)]
    proof (elim disjE)
      assume "pJobs q = phase2Jobs (pJobs p1)"
      with phase2.rel_base [of "pJobs p1"] phase2.known [of "pJobs p1"] p1_ok show ?thesis by simp
    qed (use p1_ok in simp)
    show ?thesis
      using order_trans [OF conjunct1 [OF q_ok] conjunct1 [OF p1_ok]] conjunct2 [OF q_ok] by (rule conjI)
  qed (use known in simp)
  ultimately have "acyclic (?b (pJobs q))" and q: "?known (pJobs q)"
    using acyclic_subset [OF ac] by simp_all
  from acyclic_image [OF this(1)] q show ?thesis by (simp add: depsOk_def jobNames_def)
qed

section \<open>The graph of an expansion\<close>

text \<open>
  The reference: the rows of a matrix, one for each choice of a value per dimension; no matrix
  is one row without values.
\<close>

fun matrixRows :: "Dimension list \<Rightarrow> (string, string) gomap list" where
  "matrixRows [] = [[]]"
| "matrixRows (d # ds) = concat (map (\<lambda>v. map (Cons (dName d, v)) (matrixRows ds)) (dValues d))"

definition rowsOf :: "Matrix option \<Rightarrow> (string, string) gomap option list" where
  "rowsOf m = (case m of None \<Rightarrow> [None] | Some m \<Rightarrow> map Some (matrixRows (mDimensions m)))"

definition rowName :: "(string, string) gomap option \<Rightarrow> string \<Rightarrow> string" where
  "rowName r n = (case r of None \<Rightarrow> n | Some c \<Rightarrow> expandedName n c)"

text \<open>
  The rows of a job's own matrix, in a replica: its values are substituted like the other
  fields of the job.
\<close>

definition jobRows :: "(string, string) gomap option \<Rightarrow> 'ast Job \<Rightarrow> (string, string) gomap option list" where
  "jobRows r j = rowsOf (case r of None \<Rightarrow> jMatrix j | Some c \<Rightarrow>
     map_option (\<lambda>m. m\<lparr>mDimensions := map (\<lambda>d. d\<lparr>dValues := map (\<lambda>v. substituteVars v c ''matrix.'') (dValues d)\<rparr>)
       (mDimensions m)\<rparr>) (jMatrix j))"

text \<open>
  A dependency becomes all the variants of the job it names, in the same replica. The expanded
  graph has, replica by replica, every variant of every job.
\<close>

definition fanOut :: "'ast Job list \<Rightarrow> (string, string) gomap option \<Rightarrow> string \<Rightarrow> string list" where
  "fanOut jobs r d = concat (map (\<lambda>k. map (\<lambda>v. rowName v (rowName r d)) (jobRows r k)) (filter (\<lambda>k. jName k = d) jobs))"

definition expandedGraph :: "Matrix option \<Rightarrow> 'ast Job list \<Rightarrow> (string \<times> string list) list" where
  "expandedGraph m jobs = concat (map (\<lambda>r. concat (map (\<lambda>j. map (\<lambda>v.
     (rowName v (rowName r (jName j)), concat (map (fanOut jobs r) (jDependsOn j)))) (jobRows r j)) jobs)) (rowsOf m))"

text \<open>The values of the pipeline matrix differ within a dimension and have no comma.\<close>

definition plainMatrix :: "Matrix option \<Rightarrow> bool" where
  "plainMatrix m \<longleftrightarrow> (\<forall>d\<in>set (case m of None \<Rightarrow> [] | Some m \<Rightarrow> mDimensions m).
     distinct (dValues d) \<and> (\<forall>v\<in>set (dValues d). CHR '','' \<notin> set v))"

lemma concat_product: "concat (map (\<lambda>x. map (f x) ys) xs) = map (\<lambda>(x, y). f x y) (List.product xs ys)"
  by (induction xs) simp_all

lemma mput_new: "k \<notin> fst ` set m \<Longrightarrow> mput k v m = m @ [(k, v)]"
  by (induction m) auto

lemma append_prefix: "(@) (xs @ [y]) = (\<lambda>r. xs @ y # r)" "(@) [] = id"
  by (simp_all add: fun_eq_iff)

lemma combos_rows:
  assumes "distinct (map dName ds)" "\<forall>c\<in>set cs. fst ` set c \<inter> dName ` set ds = {}"
  shows "fold extendCombos ds cs = concat (map (\<lambda>c. map (\<lambda>r. c @ r) (matrixRows ds)) cs)"
  using assms
proof (induction ds arbitrary: cs)
  case (Cons d ds)
  have ext: "extendCombos d cs = concat (map (\<lambda>c. map (\<lambda>v. c @ [(dName d, v)]) (dValues d)) cs)"
    unfolding extendCombos_def using Cons.prems(2)
    by (intro arg_cong [of _ _ concat] map_cong refl) (auto intro!: mput_new)
  have "fold extendCombos ds (extendCombos d cs) = concat (map (\<lambda>c. map (\<lambda>r. c @ r) (matrixRows ds)) (extendCombos d cs))"
    using Cons.prems unfolding ext by (intro Cons.IH) auto
  moreover have "concat (map (\<lambda>c. map (\<lambda>r. c @ r) (matrixRows ds)) (concat (map (\<lambda>c. map (\<lambda>v. c @ [(dName d, v)]) (dValues d)) cs))) =
      concat (map (\<lambda>c. map (\<lambda>r. c @ r) (matrixRows (d # ds))) cs)"
    by (induction cs) (simp_all add: map_concat comp_def append_prefix)
  ultimately show ?case by (simp add: ext)
qed simp

lemma checkDims_sound:
  "checkDims seen n ds = None \<Longrightarrow> distinct (map dName ds) \<and> (\<forall>d\<in>set ds. validDimName (dName d)) \<and> dName ` set ds \<inter> seen = {}"
  by (induction seen n ds rule: checkDims.induct) (auto simp: Let_def)

lemma ValidateMatrix_sound:
  "ValidateMatrix (Some m) = None \<Longrightarrow> mDimensions m \<noteq> [] \<and> distinct (map dName (mDimensions m)) \<and>
     (\<forall>d\<in>set (mDimensions m). validDimName (dName d))"
  using checkDims_sound [of "{}" 1 "mDimensions m"] by (auto simp: ValidateMatrix_def)

lemma Combinations_rows:
  assumes "ValidateMatrix (Some m) = None" "Combinations m = Inr combos"
  shows "combos = matrixRows (mDimensions m)"
proof -
  note v = ValidateMatrix_sound [OF assms(1)]
  with assms(2) have "combos = fold extendCombos (mDimensions m) [[]]" by (auto simp: Combinations_def)
  with combos_rows [of "mDimensions m" "[[]]"] v show ?thesis by (simp add: append_prefix)
qed

lemma rows_keys: "r \<in> set (matrixRows ds) \<Longrightarrow> map fst r = map dName ds"
  by (induction ds arbitrary: r) auto

lemma rows_values: "r \<in> set (matrixRows ds) \<Longrightarrow> (k, v) \<in> set r \<Longrightarrow> \<exists>d\<in>set ds. k = dName d \<and> v \<in> set (dValues d)"
  by (induction ds arbitrary: r) fastforce+

lemma rows_distinct: "\<forall>d\<in>set ds. distinct (dValues d) \<Longrightarrow> distinct (matrixRows ds)"
  by (induction ds) (auto simp: concat_product [of "\<lambda>v. Cons (_, v)"] distinct_map distinct_product inj_on_def)

lemma rows_clean:
  assumes "distinct (map dName ds)" "\<forall>d\<in>set ds. validDimName (dName d)"
    "\<forall>d\<in>set ds. \<forall>v\<in>set (dValues d). CHR '','' \<notin> set v" "r \<in> set (matrixRows ds)"
  shows "cleanMap r"
proof -
  have "CHR '','' \<notin> set k \<and> CHR ''='' \<notin> set k" if "validDimName k" for k
    using that by (auto simp: validDimName_iff dest: nameChar_neq)
  with rows_values [OF assms(4)] rows_keys [OF assms(4)] assms(1-3) show ?thesis
    by (fastforce simp: cleanMap_def wfmap_def)
qed

text \<open>The first phase, row by row.\<close>

definition replicaOf :: "(string, string) gomap option \<Rightarrow> 'ast Job \<Rightarrow> 'ast Job" where
  "replicaOf r j = (case r of None \<Rightarrow> j | Some c \<Rightarrow> correlateJob j c)"

lemma concat_map_concat: "concat (map f (concat xss)) = concat (map (\<lambda>xs. concat (map f xs)) xss)"
  by (induction xss) simp_all

lemma row_None [simp]: "rowName None = id" "replicaOf None = id" "replicaOf (Some c) = (\<lambda>j. correlateJob j c)"
  by (simp_all add: fun_eq_iff rowName_def replicaOf_def)

lemma replicaOf_frame:
  "jName (replicaOf r j) = rowName r (jName j)" "jDependsOn (replicaOf r j) = map (rowName r) (jDependsOn j)"
  "rowsOf (jMatrix (replicaOf r j)) = jobRows r j"
  by (simp_all add: replicaOf_def rowName_def jobRows_def correlateJob_def replicateJob_def substituteJobVars_def
      substituteMatrixValues_def correlateDeps_def Let_def split: option.split)

lemma expandPipeline_rows:
  assumes "expandPipeline p = Inr p1"
  shows "pJobs p1 = concat (map (\<lambda>r. map (replicaOf r) (pJobs p)) (rowsOf (pMatrix p)))"
proof (cases "pMatrix p")
  case None
  with assms show ?thesis by (simp add: expandPipeline_def rowsOf_def)
next
  case (Some m)
  with assms obtain combos where v: "ValidateMatrix (Some m) = None" "Combinations m = Inr combos"
    and p1: "pJobs p1 = concat (map (\<lambda>combo. map (\<lambda>j. correlateJob j combo) (pJobs p)) combos)"
    by (auto simp: expandPipeline_def)
  from Combinations_rows [OF v] p1 Some show ?thesis by (simp add: rowsOf_def comp_def)
qed

lemma rowName_inj:
  assumes "expandPipeline p = Inr p1" "plainMatrix (pMatrix p)" "r \<in> set (rowsOf (pMatrix p))" "r' \<in> set (rowsOf (pMatrix p))"
    and "CHR ''['' \<notin> set n" "CHR ''['' \<notin> set n'" "rowName r n = rowName r' n'"
  shows "n = n' \<and> r = r'"
proof (cases "pMatrix p")
  case None
  with assms show ?thesis by (simp add: rowsOf_def rowName_def)
next
  case (Some m)
  with assms(1) have "ValidateMatrix (Some m) = None" by (auto simp: expandPipeline_def)
  from ValidateMatrix_sound [OF this] have v: "distinct (map dName (mDimensions m))"
    "\<forall>d\<in>set (mDimensions m). validDimName (dName d)" by auto
  have plain: "\<forall>d\<in>set (mDimensions m). \<forall>v\<in>set (dValues d). CHR '','' \<notin> set v"
    using assms(2) by (simp add: plainMatrix_def Some)
  from assms(3,4) Some obtain c c' where c: "r = Some c" "r' = Some c'"
    "c \<in> set (matrixRows (mDimensions m))" "c' \<in> set (matrixRows (mDimensions m))" by (auto simp: rowsOf_def)
  note clean = rows_clean [OF v plain c(3)] rows_clean [OF v plain c(4)]
  from expandedName_inj [OF assms(5,6) clean] assms(7) have eq: "n = n'" "map_of c = map_of c'"
    by (simp_all add: c rowName_def)
  have keys: "map fst c = map fst c'" using rows_keys c(3,4) by metis
  have "c = c'"
  proof (rule nth_equalityI)
    show len: "length c = length c'" using keys by (metis length_map)
    fix i assume i: "i < length c"
    have "fst (c ! i) = fst (c' ! i)" using keys i len by (metis nth_map)
    moreover have "map_of c (fst (c ! i)) = Some (snd (c ! i))" "map_of c' (fst (c' ! i)) = Some (snd (c' ! i))"
      using clean i len by (auto simp: cleanMap_def wfmap_def intro: map_of_is_SomeI)
    ultimately show "c ! i = c' ! i" using eq(2) by (simp add: prod_eq_iff)
  qed
  with eq(1) c show ?thesis by simp
qed

lemma phase1_names_distinct:
  assumes "expandPipeline p = Inr p1" "plainMatrix (pMatrix p)" "distinct (jobNames (pJobs p))"
    "\<forall>j\<in>set (pJobs p). CHR ''['' \<notin> set (jName j)"
  shows "distinct (map jName (pJobs p1))"
proof -
  have rows: "distinct (rowsOf (pMatrix p))"
    using assms(2) rows_distinct by (auto simp: rowsOf_def plainMatrix_def distinct_map split: option.splits)
  have jobs: "distinct (pJobs p)" "inj_on jName (set (pJobs p))" using assms(3) by (simp_all add: jobNames_def distinct_map)
  have "map jName (pJobs p1) = map (\<lambda>(r, j). rowName r (jName j)) (List.product (rowsOf (pMatrix p)) (pJobs p))"
    unfolding expandPipeline_rows [OF assms(1)] concat_product by (simp add: replicaOf_frame split_def comp_def)
  moreover have "inj_on (\<lambda>(r, j). rowName r (jName j)) (set (List.product (rowsOf (pMatrix p)) (pJobs p)))"
  proof (rule inj_onI, clarsimp)
    fix r j r' j'
    assume in_rows: "r \<in> set (rowsOf (pMatrix p))" "r' \<in> set (rowsOf (pMatrix p))"
      and in_jobs: "j \<in> set (pJobs p)" "j' \<in> set (pJobs p)" and eq: "rowName r (jName j) = rowName r' (jName j')"
    have "CHR ''['' \<notin> set (jName j)" "CHR ''['' \<notin> set (jName j')" using assms(4) in_jobs by blast+
    from rowName_inj [OF assms(1,2) in_rows this eq] have "jName j = jName j'" "r = r'" by blast+
    with inj_onD [OF jobs(2) _ in_jobs] show "r = r' \<and> j = j'" by blast
  qed
  ultimately show ?thesis using rows jobs(1) by (simp add: distinct_map distinct_product)
qed

text \<open>The second phase: every job is replaced by its variants, and so is every dependency.\<close>

lemma jobVariants_rows:
  assumes "jobVariants j = Inr vs"
  shows "map jName vs = map (\<lambda>v. rowName v (jName j)) (rowsOf (jMatrix j))" "\<forall>v\<in>set vs. jDependsOn v = jDependsOn j"
proof -
  show "map jName vs = map (\<lambda>v. rowName v (jName j)) (rowsOf (jMatrix j))"
    using assms Combinations_rows
    by (fastforce simp: jobVariants_def rowsOf_def rowName_def replicateJob_def comp_def split: option.splits)
qed (use jobVariants_names [OF assms] in blast)

definition variantsOf :: "'ast Job list \<Rightarrow> string \<Rightarrow> string list" where
  "variantsOf jobs d = (case find (\<lambda>k. jName k = d) jobs of
     None \<Rightarrow> [d] | Some k \<Rightarrow> map (\<lambda>v. rowName v d) (rowsOf (jMatrix k)))"

lemma find_job: "distinct (map jName js) \<Longrightarrow> j \<in> set js \<Longrightarrow> find (\<lambda>k. jName k = jName j) js = Some j"
  by (induction js) (auto simp: image_iff)

lemma expandJobs_rows:
  assumes "expandJobs p1 = Inr q" "distinct (map jName (pJobs p1))"
  shows "depPairs (pJobs q) = concat (map (\<lambda>j. map (\<lambda>v.
    (rowName v (jName j), concat (map (variantsOf (pJobs p1)) (jDependsOn j)))) (rowsOf (jMatrix j))) (pJobs p1))"
proof (cases "hasJobMatrix p1")
  case False
  then have none: "jMatrix j = None" if "j \<in> set (pJobs p1)" for j using that by (auto simp: hasJobMatrix_def list_ex_iff)
  then have "variantsOf (pJobs p1) d = [d]" for d
    by (auto simp: variantsOf_def rowsOf_def rowName_def find_Some_iff split: option.splits)
  then have deps: "concat (map (variantsOf (pJobs p1)) ds) = ds" for ds by (induction ds) simp_all
  have "q = p1" using False assms(1) by (simp add: expandJobs_def)
  have single: "map (\<lambda>j. map (\<lambda>v. (rowName v (jName j), jDependsOn j)) (rowsOf (jMatrix j))) (pJobs p1) =
      map (\<lambda>j. [(jName j, jDependsOn j)]) (pJobs p1)"
    using none by (intro map_cong refl) (simp add: rowsOf_def)
  have "concat (map (\<lambda>j. [f j]) js) = map f js" for f :: "'a Job \<Rightarrow> string \<times> string list" and js
    by (induction js) simp_all
  then show ?thesis unfolding \<open>q = p1\<close> deps depPairs_def single by simp
next
  case True
  with assms(1) obtain m expanded where run: "variantsLoop [] [] (pJobs p1) = Inr (m, expanded)"
    and q: "pJobs q = map (rewriteJob m) expanded" by (auto simp: expandJobs_def)
  from variantsLoop_Inr [OF run] obtain vss where
    vss: "list_all2 (\<lambda>j vs. jobVariants j = Inr vs) (pJobs p1) vss" "expanded = concat vss"
    "m = fold (\<lambda>(j, vs). mput (jName j) (map jName vs)) (zip (pJobs p1) vss) []" by auto
  have look: "(case map_of m d of Some variants \<Rightarrow> variants | None \<Rightarrow> [d]) = variantsOf (pJobs p1) d" for d
  proof (cases "map_of m d")
    case None
    with phase2_map(1) [OF run, of d] have "find (\<lambda>k. jName k = d) (pJobs p1) = None"
      by (auto simp: find_None_iff)
    with None show ?thesis by (simp add: variantsOf_def)
  next
    case (Some ns)
    with vss(3) obtain j vs where j: "(j, vs) \<in> set (zip (pJobs p1) vss)" "jName j = d" "ns = map jName vs"
      using fold_expansion_lookup [of "zip (pJobs p1) vss" "[]" d ns] by auto
    with vss(1) have "jobVariants j = Inr vs" "j \<in> set (pJobs p1)" by (auto simp: list_all2_iff dest: set_zip_leftD)
    with jobVariants_rows(1) find_job [OF assms(2)] j Some show ?thesis by (auto simp: variantsOf_def)
  qed
  then have deps: "rewriteDeps ds m = concat (map (variantsOf (pJobs p1)) ds)" for ds by (simp add: rewriteDeps_def)
  have pairs: "map (\<lambda>v. (jName v, rewriteDeps (jDependsOn v) m)) vs =
      map (\<lambda>v. (rowName v (jName j), concat (map (variantsOf (pJobs p1)) (jDependsOn j)))) (rowsOf (jMatrix j))"
    if "jobVariants j = Inr vs" for j vs
  proof -
    note r = jobVariants_rows [OF that]
    have "map (\<lambda>v. (jName v, rewriteDeps (jDependsOn v) m)) vs =
        map (\<lambda>n. (n, concat (map (variantsOf (pJobs p1)) (jDependsOn j)))) (map jName vs)"
      using r(2) by (simp add: deps)
    then show ?thesis unfolding r(1) by simp
  qed
  have "map (map (\<lambda>v. (jName v, rewriteDeps (jDependsOn v) m))) vs = map g js"
    if "list_all2 (\<lambda>j vs. jobVariants j = Inr vs) js vs"
      "\<And>j vs. jobVariants j = Inr vs \<Longrightarrow> map (\<lambda>v. (jName v, rewriteDeps (jDependsOn v) m)) vs = g j" for js vs g
    using that(1) by (induction rule: list_all2_induct) (simp_all add: that(2))
  from this [OF vss(1) pairs] show ?thesis by (simp add: depPairs_def q vss(2) map_concat comp_def)
qed

lemma Expand_phases: "Expand p = bindE (expandPipeline p) expandJobs"
  by (auto simp: Expand_def expandPipeline_def expandJobs_def)

lemma Expand_graph:
  assumes "Expand p = Inr q" "\<forall>j\<in>set (pJobs p). CHR ''['' \<notin> set (jName j)" "depsOk (pJobs p)"
    "distinct (jobNames (pJobs p))" "plainMatrix (pMatrix p)"
  shows "depPairs (pJobs q) = expandedGraph (pMatrix p) (pJobs p)"
proof -
  let ?jobs = "pJobs p" and ?rows = "rowsOf (pMatrix p)"
  from assms(1) obtain p1 where p1: "expandPipeline p = Inr p1" "expandJobs p1 = Inr q" by (auto simp: Expand_phases)
  note jobs1 = expandPipeline_rows [OF p1(1)]
  have dist: "distinct (map jName (pJobs p1))" by (rule phase1_names_distinct [OF p1(1) assms(5,4,2)])
  have one: "filter (\<lambda>k. jName k = jName j) js = [j]" if "distinct (map jName js)" "j \<in> set js" for j and js :: "'a Job list"
    using that by (induction js) (auto simp: image_iff filter_empty_conv)
  have fan: "variantsOf (pJobs p1) (rowName r d) = fanOut ?jobs r d" if "r \<in> set ?rows" "j \<in> set ?jobs" "d \<in> set (jDependsOn j)" for r j d
  proof -
    from assms(3) that(2,3) obtain k where k: "k \<in> set ?jobs" "jName k = d" by (auto simp: depsOk_def jobNames_def)
    have "replicaOf r k \<in> set (pJobs p1)" using that(1) k(1) by (auto simp: jobs1)
    from find_job [OF dist this] have "find (\<lambda>k. jName k = rowName r d) (pJobs p1) = Some (replicaOf r k)"
      by (simp add: replicaOf_frame k(2))
    moreover have "filter (\<lambda>k. jName k = d) ?jobs = [k]" using one [of ?jobs k] assms(4) k by (simp add: jobNames_def)
    ultimately show ?thesis by (simp add: variantsOf_def fanOut_def replicaOf_frame(3))
  qed
  have row: "map (\<lambda>v. (rowName v (jName (replicaOf r j)), concat (map (variantsOf (pJobs p1)) (jDependsOn (replicaOf r j))))) (rowsOf (jMatrix (replicaOf r j))) =
      map (\<lambda>v. (rowName v (rowName r (jName j)), concat (map (fanOut ?jobs r) (jDependsOn j)))) (jobRows r j)"
    if "r \<in> set ?rows" "j \<in> set ?jobs" for r j
  proof -
    have "map (variantsOf (pJobs p1)) (jDependsOn (replicaOf r j)) = map (fanOut ?jobs r) (jDependsOn j)"
      using fan [OF that] by (simp add: replicaOf_frame)
    then show ?thesis by (simp only: replicaOf_frame(1,3))
  qed
  have "depPairs (pJobs q) = concat (map (\<lambda>r. concat (map (\<lambda>j.
      map (\<lambda>v. (rowName v (jName (replicaOf r j)), concat (map (variantsOf (pJobs p1)) (jDependsOn (replicaOf r j))))) (rowsOf (jMatrix (replicaOf r j)))) ?jobs)) ?rows)"
    unfolding expandJobs_rows [OF p1(2) dist] unfolding jobs1 by (simp add: concat_map_concat comp_def)
  also have "\<dots> = expandedGraph (pMatrix p) ?jobs"
    unfolding expandedGraph_def by (intro arg_cong [of _ _ concat] map_cong refl row)
  finally show ?thesis .
qed

text \<open>C6: what matrix expansion makes of the dependency graph. When the job names of a
  pipeline have no bracket, every dependency names a job and there is no cycle, the same
  holds of the pipeline that \<^verbatim>\<open>Expand\<close> returns. When the job names also differ and the values of
  the pipeline matrix differ within a dimension and have no comma, its names and dependencies
  are exactly these: replica by replica for the rows of the pipeline matrix, every variant of
  every job for the rows of the job's own matrix, and in place of each dependency all the
  variants of the job it names, in the same replica.\<close>

theorem Expand_keeps_depsOk:
  assumes "Expand p = Inr q" "\<forall>j\<in>set (pJobs p). CHR ''['' \<notin> set (jName j)" "depsOk (pJobs p)"
  shows "depsOk (pJobs q) \<and>
    (distinct (jobNames (pJobs p)) \<and> plainMatrix (pMatrix p) \<longrightarrow>
       map (\<lambda>j. (jName j, jDependsOn j)) (pJobs q) = expandedGraph (pMatrix p) (pJobs p))"
  using Expand_depsOk [OF assms] Expand_graph [OF assms] by (auto simp: depPairs_def)

definition matrixPipeline :: "string Pipeline" where
  "matrixPipeline = zeroPipeline
     \<lparr>pMatrix := Some \<lparr>mDimensions = [\<lparr>dName = ''os'', dValues = [''linux'', ''mac'']\<rparr>]\<rparr>,
      pJobs := [sampleJob ''test'' [''build''],
                (sampleJob ''build'' [])
                  \<lparr>jMatrix := Some \<lparr>mDimensions = [\<lparr>dName = ''go'', dValues = [''1'', ''2'']\<rparr>]\<rparr>\<rparr>]\<rparr>"

lemma matrixPipeline_expands:
  "map_sum id (\<lambda>q. map (\<lambda>j. (jName j, jDependsOn j)) (pJobs q)) (Expand matrixPipeline) = Inr
    [(''test[os=linux]'', [''build[go=1,os=linux]'', ''build[go=2,os=linux]'']),
     (''build[go=1,os=linux]'', []), (''build[go=2,os=linux]'', []),
     (''test[os=mac]'', [''build[go=1,os=mac]'', ''build[go=2,os=mac]'']),
     (''build[go=1,os=mac]'', []), (''build[go=2,os=mac]'', [])]"
  by code_simp

theorem Expand_keeps_depsOk_witness:
  "\<exists>q. Expand matrixPipeline = Inr q \<and> depsOk (pJobs q) \<and>
     map (\<lambda>j. (jName j, jDependsOn j)) (pJobs q) = expandedGraph (pMatrix matrixPipeline) (pJobs matrixPipeline)"
proof -
  from matrixPipeline_expands obtain q where q: "Expand matrixPipeline = Inr q"
    by (cases "Expand matrixPipeline") auto
  have plain: "\<forall>j\<in>set (pJobs matrixPipeline). CHR ''['' \<notin> set (jName j)"
    "distinct (jobNames (pJobs matrixPipeline))" "plainMatrix (pMatrix matrixPipeline)"
    by (simp_all add: matrixPipeline_def sampleJob_def zero_defs jobNames_def plainMatrix_def)
  have "depRel (pJobs matrixPipeline) \<subseteq> {(''test'', ''build'')}"
    "\<forall>j\<in>set (pJobs matrixPipeline). set (jDependsOn j) \<subseteq> set (jobNames (pJobs matrixPipeline))"
    by (auto simp: depRel_def jobNames_def matrixPipeline_def sampleJob_def zero_defs)
  moreover have acyclic_pair: "acyclic {(''test'', ''build'')}"
    by (simp add: acyclic_insert) (simp add: acyclic_def)
  ultimately have "depsOk (pJobs matrixPipeline)"
    using acyclic_subset [of "{(''test'', ''build'')}"] acyclic_pair unfolding depsOk_def by blast
  with q plain show ?thesis using Expand_keeps_depsOk [of matrixPipeline q] by blast
qed

end
