(* ===== verification/Job_Filter.thy ===== *)
theory Job_Filter
  imports Validate
begin

text \<open>
  \<^verbatim>\<open>pkg/pipeline/filter.go\<close>: the subgraph that \<^verbatim>\<open>--start-at\<close> and \<^verbatim>\<open>--stop-after\<close> select.
  A set of job names is a list without repetition, in the order in which the code inserts
  into the map; where the code ranges over such a map the order is Go's, and the results
  below do not depend on it.
\<close>

section \<open>Targets\<close>

record filterTarget =
  ftJob :: string
  ftStep :: string

text \<open>The scan of \<^verbatim>\<open>parseFilterTarget\<close>: bracket depth, and the bytes already passed.\<close>

fun scanTarget :: "nat \<Rightarrow> string \<Rightarrow> string \<Rightarrow> filterTarget" where
  "scanTarget depth pre [] = \<lparr>ftJob = pre, ftStep = []\<rparr>"
| "scanTarget depth pre (c # s) =
     (if c = CHR ''['' then scanTarget (depth + 1) (pre @ [c]) s
      else if c = CHR '']'' then scanTarget (if depth > 0 then depth - 1 else depth) (pre @ [c]) s
      else if c = CHR '':'' \<and> depth = 0 then \<lparr>ftJob = pre, ftStep = s\<rparr>
      else scanTarget depth (pre @ [c]) s)"

definition parseFilterTarget :: "string \<Rightarrow> filterTarget" where
  "parseFilterTarget s = scanTarget 0 [] s"

section \<open>Adjacency\<close>

record jobAdj =
  adjDependents :: "(string, string list) gomap"
  adjDependencies :: "(string, string list) gomap"

definition addJobAdj :: "'ast Job \<Rightarrow> jobAdj \<Rightarrow> jobAdj" where
  "addJobAdj j adj =
     \<lparr>adjDependents =
        fold (\<lambda>dep m. mput dep (mgetList m dep @ [jName j]) m) (jDependsOn j) (adjDependents adj),
      adjDependencies = mput (jName j) (jDependsOn j) (adjDependencies adj)\<rparr>"

definition adjOf :: "'ast Job list \<Rightarrow> jobAdj" where
  "adjOf jobs = fold addJobAdj jobs \<lparr>adjDependents = [], adjDependencies = []\<rparr>"

text \<open>\<^verbatim>\<open>jobByName\<close>: the last job of a name.\<close>

definition jobByName :: "'ast Job list \<Rightarrow> string \<rightharpoonup> 'ast Job" where
  "jobByName jobs = map_of (rev (map (\<lambda>j. (jName j, j)) jobs))"

definition jobHasStep :: "'ast Job \<Rightarrow> string \<Rightarrow> bool" where
  "jobHasStep j step = list_ex (\<lambda>s. sName s = step) (jSteps j)"

definition validateTarget ::
  "filterTarget \<Rightarrow> 'ast Job list \<Rightarrow> err \<Rightarrow> err \<Rightarrow> err option" where
  "validateTarget t jobs errJob errStep =
     (if ftJob t = [] then failIf (ftStep t \<noteq> []) (Filt ErrOrphanedStep)
      else (case jobByName jobs (ftJob t) of
              None \<Rightarrow> Some errJob
            | Some j \<Rightarrow> failIf (ftStep t \<noteq> [] \<and> \<not> jobHasStep j (ftStep t)) errStep))"

definition buildJobAdj :: "'ast Job list \<Rightarrow> filterTarget \<Rightarrow> filterTarget \<Rightarrow> err + jobAdj" where
  "buildJobAdj jobs startAt stopAfter =
     guardE (validateTarget startAt jobs (Filt ErrUnknownStartAt) (Filt ErrUnknownStartAtStep))
     (guardE (validateTarget stopAfter jobs (Filt ErrUnknownStopAfter) (Filt ErrUnknownStopAfterStep))
       (Inr (adjOf jobs)))"

section \<open>Reachability\<close>

definition adjNodes :: "(string, string list) gomap \<Rightarrow> string set" where
  "adjNodes adj = \<Union> (set ` snd ` set adj)"

lemma mgetList_nodes: "set (mgetList adj k) \<subseteq> adjNodes adj"
proof (cases "map_of adj k")
  case (Some xs)
  from map_of_SomeD [OF this] have "set xs \<subseteq> adjNodes adj" by (force simp: adjNodes_def)
  with Some show ?thesis by (simp add: mgetList_def)
qed (simp add: mgetList_def)

lemma finite_adjNodes [simp]: "finite (adjNodes adj)"
  by (simp add: adjNodes_def)

text \<open>The queue loop of \<^verbatim>\<open>bfsReachable\<close>; its inner loop marks and enqueues the unmarked.\<close>

function bfsLoop :: "(string, string list) gomap \<Rightarrow> string list \<Rightarrow> string list \<Rightarrow> string list" where
  "bfsLoop adj visited [] = visited"
| "bfsLoop adj visited (cur # queue) =
     (let new = dedupBy id (set visited) (mgetList adj cur)
      in bfsLoop adj (visited @ new) (queue @ new))"
  by pat_completeness auto
termination
proof (relation "measures [\<lambda>(adj, visited, queue). card (adjNodes adj - set visited),
                           \<lambda>(adj, visited, queue). length queue]", goal_cases)
  case (2 adj visited cur queue new)
  show ?case
  proof (cases "new = []")
    case False
    then obtain x where "x \<in> set new" by (cases new) auto
    moreover have "set new \<subseteq> adjNodes adj - set visited"
      using 2 mgetList_nodes [of adj cur] by auto
    ultimately have "adjNodes adj - (set visited \<union> set new) \<subset> adjNodes adj - set visited" by auto
    then have "card (adjNodes adj - (set visited \<union> set new)) < card (adjNodes adj - set visited)"
      by (intro psubset_card_mono) auto
    then show ?thesis by simp
  qed simp
qed simp

definition bfsReachable :: "string \<Rightarrow> (string, string list) gomap \<Rightarrow> string list" where
  "bfsReachable start adj = bfsLoop adj [start] [start]"

text \<open>\<open>None\<close> is the nil set, which stands for all names.\<close>

definition intersectSets :: "string list option \<Rightarrow> string list option \<Rightarrow> string list option" where
  "intersectSets a b =
     (case (a, b) of
        (None, _) \<Rightarrow> b
      | (_, None) \<Rightarrow> a
      | (Some xs, Some ys) \<Rightarrow>
          if length xs > length ys then Some (filter (\<lambda>k. k \<in> set xs) ys)
          else Some (filter (\<lambda>k. k \<in> set ys) xs))"

text \<open>
  The recursion of \<^verbatim>\<open>addTransitiveDeps\<close>, on a list of dependencies still to be looked at;
  \<open>visited\<close> is the map it updates.
\<close>

function addDeps :: "(string, string list) gomap \<Rightarrow> string list \<Rightarrow> string set \<Rightarrow> string set" where
  "addDeps deps [] visited = visited"
| "addDeps deps (dep # rest) visited =
     (if dep \<in> visited then addDeps deps rest visited
      else addDeps deps rest (addDeps deps (mgetList deps dep) (insert dep visited)))"
  by pat_completeness auto

lemma addDeps_mono_dom:
  "addDeps_dom (deps, xs, visited) \<Longrightarrow> visited \<subseteq> addDeps deps xs visited"
  by (induction deps xs visited rule: addDeps.pinduct) (auto simp: addDeps.psimps)

termination addDeps
proof (relation "measures [\<lambda>(deps, xs, visited). card ((adjNodes deps \<union> set xs) - visited),
                           \<lambda>(deps, xs, visited). length xs]", goal_cases)
  case (2 deps dep rest visited)
  have "card ((adjNodes deps \<union> set rest) - visited) \<le> card ((adjNodes deps \<union> set (dep # rest)) - visited)"
    by (intro card_mono) auto
  then show ?case by auto
next
  case (3 deps dep rest visited)
  have "(adjNodes deps \<union> set (mgetList deps dep)) - insert dep visited \<subset>
      (adjNodes deps \<union> set (dep # rest)) - visited"
    using 3 mgetList_nodes [of deps dep] by auto
  then have "card ((adjNodes deps \<union> set (mgetList deps dep)) - insert dep visited) <
      card ((adjNodes deps \<union> set (dep # rest)) - visited)"
    by (intro psubset_card_mono) auto
  then show ?case by simp
next
  case (4 deps dep rest visited)
  from addDeps_mono_dom [OF 4(2)]
  have "(adjNodes deps \<union> set rest) - addDeps deps (mgetList deps dep) (insert dep visited) \<subset>
      (adjNodes deps \<union> set (dep # rest)) - visited"
    using 4(1) by auto
  then have "card ((adjNodes deps \<union> set rest) - addDeps deps (mgetList deps dep) (insert dep visited)) <
      card ((adjNodes deps \<union> set (dep # rest)) - visited)"
    by (intro psubset_card_mono) auto
  then show ?case by simp
qed simp

definition addTransitiveDeps :: "string \<Rightarrow> (string, string list) gomap \<Rightarrow> string set \<Rightarrow> string set" where
  "addTransitiveDeps name deps visited = addDeps deps (mgetList deps name) visited"

section \<open>Selection\<close>

definition stripExports :: "'ast Job \<Rightarrow> 'ast Job" where
  "stripExports j = j\<lparr>jExports := [], jPublish := None, jSteps := map (\<lambda>s. s\<lparr>sExports := []\<rparr>) (jSteps j)\<rparr>"

text \<open>\<^verbatim>\<open>slices.IndexFunc\<close>: the first index, \<open>None\<close> for \<^verbatim>\<open>-1\<close>.\<close>

fun stepIndex :: "'ast Step list \<Rightarrow> string \<Rightarrow> nat option" where
  "stepIndex [] name = None"
| "stepIndex (s # ss) name =
     (if sName s = name then Some 0 else map_option Suc (stepIndex ss name))"

record stepTrimOpts =
  stStartIdx :: "nat option"
  stStopIdx :: "nat option"

definition resolveStepTrim ::
  "string \<Rightarrow> 'ast Step list \<Rightarrow> filterTarget \<Rightarrow> filterTarget \<Rightarrow> stepTrimOpts" where
  "resolveStepTrim jobName steps startAt stopAfter =
     \<lparr>stStartIdx = (if ftStep startAt \<noteq> [] \<and> jobName = ftJob startAt
                    then stepIndex steps (ftStep startAt) else None),
      stStopIdx = (if ftStep stopAfter \<noteq> [] \<and> jobName = ftJob stopAfter
                   then stepIndex steps (ftStep stopAfter) else None)\<rparr>"

text \<open>\<^verbatim>\<open>Steps[:n]\<close> panics beyond the capacity; here the bound is the length.\<close>

definition sliceTo :: "'a list \<Rightarrow> nat \<Rightarrow> err + 'a list" where
  "sliceTo xs n = (if n \<le> length xs then Inr (take n xs) else Inl GoPanic)"

definition stripStepExports :: "nat \<Rightarrow> 'ast Step list \<Rightarrow> 'ast Step list" where
  "stripStepExports n steps = map (\<lambda>s. s\<lparr>sExports := []\<rparr>) (take n steps) @ drop n steps"

definition trimJob :: "filterTarget \<Rightarrow> filterTarget \<Rightarrow> 'ast Job \<Rightarrow> err + 'ast Job" where
  "trimJob startAt stopAfter j =
     (let trim = resolveStepTrim (jName j) (jSteps j) startAt stopAfter in
      case (stStartIdx trim, stStopIdx trim) of
        (None, None) \<Rightarrow> Inr j
      | (Some a, None) \<Rightarrow>
          bindE (sliceTo (jSteps j) a) (\<lambda>_. Inr (j\<lparr>jSteps := stripStepExports a (jSteps j)\<rparr>))
      | (None, Some b) \<Rightarrow>
          bindE (sliceTo (jSteps j) (b + 1)) (\<lambda>steps. Inr (j\<lparr>jSteps := steps\<rparr>))
      | (Some a, Some b) \<Rightarrow>
          if a > b then Inl (Filt ErrEmptyStepWindow)
          else bindE (sliceTo (jSteps j) (b + 1)) (\<lambda>steps.
               bindE (sliceTo steps a) (\<lambda>_. Inr (j\<lparr>jSteps := stripStepExports a steps\<rparr>))))"

definition applyStepTrimming ::
  "'ast Job list \<Rightarrow> filterTarget \<Rightarrow> filterTarget \<Rightarrow> err + 'ast Job list" where
  "applyStepTrimming jobs startAt stopAfter =
     (if ftStep startAt = [] \<and> ftStep stopAfter = [] then Inr jobs
      else mapE (trimJob startAt stopAfter) jobs)"

definition FilterJobs :: "'ast Job list \<Rightarrow> FilterOpts \<Rightarrow> err + 'ast Job list" where
  "FilterJobs jobs opts =
     (if foStartAt opts = [] \<and> foStopAfter opts = [] then Inr jobs
      else
        let startAt = parseFilterTarget (foStartAt opts);
            stopAfter = parseFilterTarget (foStopAfter opts) in
        bindE (buildJobAdj jobs startAt stopAfter) (\<lambda>adj.
        let forwardSet = (if ftJob startAt \<noteq> [] then Some (bfsReachable (ftJob startAt) (adjDependents adj)) else None);
            backwardSet = (if ftJob stopAfter \<noteq> [] then Some (bfsReachable (ftJob stopAfter) (adjDependencies adj)) else None);
            executionWindow = (case intersectSets forwardSet backwardSet of None \<Rightarrow> [] | Some w \<Rightarrow> w) in
        if executionWindow = [] then Inl (Filt ErrEmptyFilterResult)
        else
          let fullSet = fold (\<lambda>name. addTransitiveDeps name (adjDependencies adj)) executionWindow (set executionWindow);
              filtered = map (\<lambda>j. if jName j \<in> set executionWindow then j else stripExports j)
                             (filter (\<lambda>j. jName j \<in> fullSet) jobs) in
          applyStepTrimming filtered startAt stopAfter))"

section \<open>Reachability is what it says\<close>

definition adjRel :: "(string, string list) gomap \<Rightarrow> (string \<times> string) set" where
  "adjRel adj = {(a, b). b \<in> set (mgetList adj a)}"

lemma rtrancl_closed:
  assumes "r `` A \<subseteq> A"
  shows "r\<^sup>* `` A = A"
proof -
  have "y \<in> A" if "(x, y) \<in> r\<^sup>*" "x \<in> A" for x y
    using that by (induction rule: rtrancl_induct) (use assms in auto)
  then show ?thesis by auto
qed

lemma Image_rtrancl_sub: "A \<subseteq> r\<^sup>* `` B \<Longrightarrow> r\<^sup>* `` A \<subseteq> r\<^sup>* `` B"
  by (blast intro: rtrancl_trans)

lemma rtrancl_sandwich:
  assumes "A \<subseteq> R" "R \<subseteq> r\<^sup>* `` A" "r `` R \<subseteq> R"
  shows "R = r\<^sup>* `` A"
proof
  show "r\<^sup>* `` A \<subseteq> R" using Image_mono [OF subset_refl assms(1), of "r\<^sup>*"] rtrancl_closed [OF assms(3)] by simp
qed (rule assms(2))

lemma bfsLoop_spec:
  assumes "set queue \<subseteq> set visited"
    and "\<And>v. v \<in> set visited \<Longrightarrow> v \<notin> set queue \<Longrightarrow> set (mgetList adj v) \<subseteq> set visited"
    and "distinct visited"
  shows "set (bfsLoop adj visited queue) = (adjRel adj)\<^sup>* `` set visited \<and> distinct (bfsLoop adj visited queue)"
  using assms
proof (induction adj visited queue rule: bfsLoop.induct)
  case (1 adj visited)
  then have "adjRel adj `` set visited \<subseteq> set visited" by (auto simp: adjRel_def)
  with 1 show ?case by (simp add: rtrancl_closed)
next
  case (2 adj visited cur queue)
  let ?new = "dedupBy id (set visited) (mgetList adj cur)"
  have set_new: "set visited \<union> set ?new = set visited \<union> set (mgetList adj cur)" by auto
  have "set (bfsLoop adj (visited @ ?new) (queue @ ?new)) = (adjRel adj)\<^sup>* `` set (visited @ ?new) \<and>
      distinct (bfsLoop adj (visited @ ?new) (queue @ ?new))"
  proof (rule "2.IH" [OF refl])
    show "set (queue @ ?new) \<subseteq> set (visited @ ?new)" using "2.prems"(1) by auto
    show "distinct (visited @ ?new)" using "2.prems"(3) by auto
    fix v assume v: "v \<in> set (visited @ ?new)" "v \<notin> set (queue @ ?new)"
    then have "v = cur \<or> v \<notin> set (cur # queue)" "v \<in> set visited" by auto
    with "2.prems"(2) [of v] show "set (mgetList adj v) \<subseteq> set (visited @ ?new)" by auto
  qed
  moreover have "(adjRel adj)\<^sup>* `` set (visited @ ?new) = (adjRel adj)\<^sup>* `` set visited"
  proof -
    have "(cur, x) \<in> (adjRel adj)\<^sup>*" if "x \<in> set ?new" for x
      using that by (auto simp: adjRel_def)
    then have "set ?new \<subseteq> (adjRel adj)\<^sup>* `` set visited" using "2.prems"(1) by auto
    then have "(adjRel adj)\<^sup>* `` set ?new \<subseteq> (adjRel adj)\<^sup>* `` set visited"
      by (rule Image_rtrancl_sub)
    then show ?thesis by (simp only: set_append Image_Un) blast
  qed
  ultimately show ?case by (simp add: Let_def)
qed

lemma bfsReachable_spec: "set (bfsReachable start adj) = (adjRel adj)\<^sup>* `` {start}"
  using bfsLoop_spec [of "[start]" "[start]" adj] by (simp add: bfsReachable_def)

text \<open>One call of the recursion: what it adds is reachable, and closed except for what was there.\<close>

lemma addDeps_spec:
  "visited \<subseteq> addDeps deps xs visited \<and> set xs \<subseteq> addDeps deps xs visited \<and>
   addDeps deps xs visited \<subseteq> visited \<union> (adjRel deps)\<^sup>* `` set xs \<and>
   adjRel deps `` (addDeps deps xs visited - visited) \<subseteq> addDeps deps xs visited"
proof (induction deps xs visited rule: addDeps.induct)
  case (2 deps dep rest visited)
  show ?case
  proof (cases "dep \<in> visited")
    case True
    with 2(1) show ?thesis by auto
  next
    case False
    define mid where "mid = addDeps deps (mgetList deps dep) (insert dep visited)"
    define fin where "fin = addDeps deps rest mid"
    have eq: "addDeps deps (dep # rest) visited = fin" using False by (simp add: mid_def fin_def)
    note a = 2(2) [OF False, folded mid_def] and b = 2(3) [OF False, folded mid_def, folded fin_def]
    have "set (mgetList deps dep) \<subseteq> (adjRel deps)\<^sup>* `` {dep}" by (auto simp: adjRel_def)
    then have "(adjRel deps)\<^sup>* `` set (mgetList deps dep) \<subseteq> (adjRel deps)\<^sup>* `` {dep}"
      by (rule Image_rtrancl_sub)
    moreover from a have "mid \<subseteq> insert dep visited \<union> (adjRel deps)\<^sup>* `` set (mgetList deps dep)" by simp
    moreover from b have "fin \<subseteq> mid \<union> (adjRel deps)\<^sup>* `` set rest" by simp
    moreover have "dep \<in> (adjRel deps)\<^sup>* `` {dep}" by simp
    ultimately have "fin \<subseteq> visited \<union> ((adjRel deps)\<^sup>* `` {dep} \<union> (adjRel deps)\<^sup>* `` set rest)" by blast
    then have up: "fin \<subseteq> visited \<union> (adjRel deps)\<^sup>* `` set (dep # rest)" by auto
    have closed: "adjRel deps `` (fin - visited) \<subseteq> fin"
    proof
      fix y assume "y \<in> adjRel deps `` (fin - visited)"
      then obtain x where x: "x \<in> fin" "x \<notin> visited" "(x, y) \<in> adjRel deps" by blast
      consider "x = dep" | "x \<in> mid - insert dep visited" | "x \<in> fin - mid" using x by blast
      then show "y \<in> fin"
      proof cases
        case 1
        with x(3) have "y \<in> set (mgetList deps dep)" by (simp add: adjRel_def)
        with a b show ?thesis by blast
      qed (use a b x(3) in blast)+
    qed
    from a b have "visited \<subseteq> fin" "set (dep # rest) \<subseteq> fin" by auto
    with up closed show ?thesis unfolding eq by blast
  qed
qed simp

lemma addDeps_fold:
  assumes "visited = fold (\<lambda>name. addTransitiveDeps name deps) done0 (set window)" "set done0 \<subseteq> set window"
  shows "set window \<subseteq> visited \<and> visited \<subseteq> (adjRel deps)\<^sup>* `` set window \<and>
     adjRel deps `` (visited - set window) \<subseteq> visited \<and> adjRel deps `` set done0 \<subseteq> visited"
  using assms
proof (induction done0 arbitrary: visited rule: rev_induct)
  case (snoc w done0)
  define v0 where "v0 = fold (\<lambda>name. addTransitiveDeps name deps) done0 (set window)"
  from snoc.IH [OF v0_def] snoc.prems(2)
  have v0: "set window \<subseteq> v0" "v0 \<subseteq> (adjRel deps)\<^sup>* `` set window"
    "adjRel deps `` (v0 - set window) \<subseteq> v0" "adjRel deps `` set done0 \<subseteq> v0" by auto
  have v: "visited = addDeps deps (mgetList deps w) v0"
    using snoc.prems(1) unfolding v0_def by (simp add: addTransitiveDeps_def [of w])
  note s = addDeps_spec [of v0 deps "mgetList deps w", folded v]
  have w: "adjRel deps `` {w} = set (mgetList deps w)" by (auto simp: adjRel_def)
  have "(adjRel deps)\<^sup>* `` set (mgetList deps w) \<subseteq> (adjRel deps)\<^sup>* `` set window"
    using snoc.prems(2) by (auto simp flip: w intro: converse_rtrancl_into_rtrancl)
  with s v0 have "visited \<subseteq> (adjRel deps)\<^sup>* `` set window" by blast
  moreover have "visited - set window \<subseteq> (visited - v0) \<union> (v0 - set window)" by blast
  with s v0 have "adjRel deps `` (visited - set window) \<subseteq> visited" by blast
  moreover have "adjRel deps `` set (done0 @ [w]) \<subseteq> visited" using s v0(4) w by auto
  ultimately show ?case using s v0(1) by blast
qed auto

lemma fullSet_spec:
  "fold (\<lambda>name. addTransitiveDeps name deps) window (set window) = (adjRel deps)\<^sup>* `` set window"
proof (rule rtrancl_sandwich)
  let ?R = "fold (\<lambda>name. addTransitiveDeps name deps) window (set window)"
  have "set window \<subseteq> ?R \<and> ?R \<subseteq> (adjRel deps)\<^sup>* `` set window \<and>
      adjRel deps `` (?R - set window) \<subseteq> ?R \<and> adjRel deps `` set window \<subseteq> ?R"
    by (rule addDeps_fold [OF refl]) simp
  then show "set window \<subseteq> ?R" "?R \<subseteq> (adjRel deps)\<^sup>* `` set window" "adjRel deps `` ?R \<subseteq> ?R" by blast+
qed

section \<open>The adjacency maps are the dependency relation\<close>

lemma dependents_fold:
  "set (mgetList (fold (\<lambda>dep m. mput dep (mgetList m dep @ [n]) m) ds m) d) =
     set (mgetList m d) \<union> (if d \<in> set ds then {n} else {})"
  by (induction ds arbitrary: m) auto

lemma adjOf_snoc: "adjOf (jobs @ [j]) = addJobAdj j (adjOf jobs)"
  by (simp add: adjOf_def)

lemma adjOf_dependents: "adjRel (adjDependents (adjOf jobs)) = (depRel jobs)\<inverse>"
proof (induction jobs rule: rev_induct)
  case Nil
  show ?case by (simp add: adjOf_def adjRel_def depRel_def mgetList_def)
next
  case (snoc j jobs)
  have "depRel (jobs @ [j]) = depRel jobs \<union> {(jName j, d) | d. d \<in> set (jDependsOn j)}"
    by (auto simp: depRel_def)
  moreover have "adjRel (adjDependents (adjOf (jobs @ [j]))) =
      adjRel (adjDependents (adjOf jobs)) \<union> {(d, jName j) | d. d \<in> set (jDependsOn j)}"
    by (auto simp: adjOf_snoc addJobAdj_def adjRel_def dependents_fold split: if_splits)
  ultimately show ?case using snoc.IH by auto
qed

lemma adjOf_dependencies:
  "distinct (jobNames jobs) \<Longrightarrow> adjRel (adjDependencies (adjOf jobs)) = depRel jobs"
proof (induction jobs rule: rev_induct)
  case Nil
  show ?case by (simp add: adjOf_def adjRel_def depRel_def mgetList_def)
next
  case (snoc j jobs)
  then have new: "jName j \<notin> jName ` set jobs" and IH: "adjRel (adjDependencies (adjOf jobs)) = depRel jobs"
    by (auto simp: jobNames_def)
  have "mgetList (adjDependencies (adjOf jobs)) (jName j) = []"
  proof -
    have "\<nexists>d. (jName j, d) \<in> depRel jobs" using new by (force simp: depRel_def)
    moreover have "(jName j, d) \<in> adjRel (adjDependencies (adjOf jobs)) \<longleftrightarrow> (jName j, d) \<in> depRel jobs" for d
      using IH by simp
    ultimately have "d \<notin> set (mgetList (adjDependencies (adjOf jobs)) (jName j))" for d
      by (simp add: adjRel_def)
    then show ?thesis by (cases "mgetList (adjDependencies (adjOf jobs)) (jName j)") auto
  qed
  then have "adjRel (adjDependencies (adjOf (jobs @ [j]))) =
      adjRel (adjDependencies (adjOf jobs)) \<union> {(jName j, d) | d. d \<in> set (jDependsOn j)}"
    by (auto simp: adjOf_snoc addJobAdj_def adjRel_def split: if_splits)
  with IH show ?case by (auto simp: depRel_def)
qed

section \<open>Trimming steps\<close>

lemma stepIndex_Some:
  "stepIndex ss n = Some i \<Longrightarrow> i < length ss \<and> sName (ss ! i) = n \<and> (\<forall>k<i. sName (ss ! k) \<noteq> n)"
proof (induction ss arbitrary: i)
  case (Cons s ss)
  show ?case
  proof (cases "sName s = n")
    case False
    with Cons.prems obtain i' where "stepIndex ss n = Some i'" "i = Suc i'" by auto
    with Cons.IH False show ?thesis by (auto simp: less_Suc_eq_0_disj)
  qed (use Cons.prems in simp)
qed simp

lemma stepIndex_None: "stepIndex ss n = None \<longleftrightarrow> n \<notin> sName ` set ss"
  by (induction ss) auto

text \<open>A step after trimming: the same step, perhaps without exports.\<close>

definition trimmedStep :: "'ast Step \<Rightarrow> 'ast Step \<Rightarrow> bool" where
  "trimmedStep s s' \<longleftrightarrow> s' = s \<or> s' = s\<lparr>sExports := []\<rparr>"

definition trimmed :: "'ast Job \<Rightarrow> 'ast Job \<Rightarrow> bool" where
  "trimmed j j' \<longleftrightarrow> (\<exists>n ss. j' = j\<lparr>jSteps := ss\<rparr> \<and> list_all2 trimmedStep (take n (jSteps j)) ss)"

lemma stripStepExports_trimmed: "list_all2 trimmedStep ss (stripStepExports n ss)"
proof -
  have "list_all2 trimmedStep (take n ss @ drop n ss) (stripStepExports n ss)"
    unfolding stripStepExports_def
    by (intro list_all2_appendI) (auto simp: list_all2_map2 trimmedStep_def list.rel_refl intro: list.rel_refl)
  then show ?thesis by simp
qed

lemma trimmed_step_refl: "list_all2 trimmedStep ss ss"
  by (rule list.rel_refl) (simp add: trimmedStep_def)

lemma trimmed_take: "trimmed j (j\<lparr>jSteps := take n (jSteps j)\<rparr>)"
  unfolding trimmed_def using trimmed_step_refl by blast

lemma trimmed_strip: "trimmed j (j\<lparr>jSteps := stripStepExports a (take n (jSteps j))\<rparr>)"
  unfolding trimmed_def using stripStepExports_trimmed by blast

lemma trimmed_refl [simp]: "trimmed j j"
  using trimmed_take [of j "length (jSteps j)"] by simp

lemma trimJob_Inr: "trimJob startAt stopAfter j = Inr j' \<Longrightarrow> trimmed j j'"
  using trimmed_strip [of j _ "length (jSteps j)"]
  by (auto simp: trimJob_def sliceTo_def Let_def intro: trimmed_take trimmed_strip
      split: option.splits if_splits)

lemma trimmed_frame:
  "trimmed j j' \<Longrightarrow> jName j' = jName j \<and> jDependsOn j' = jDependsOn j \<and> jExports j' = jExports j \<and>
     jPublish j' = jPublish j \<and> prefix (map sName (jSteps j')) (map sName (jSteps j))"
proof -
  assume "trimmed j j'"
  then obtain n ss where j': "j' = j\<lparr>jSteps := ss\<rparr>" "list_all2 trimmedStep (take n (jSteps j)) ss"
    by (auto simp: trimmed_def)
  from j'(2) have "map sName (take n (jSteps j)) = map sName ss"
    by (induction rule: list_all2_induct) (auto simp: trimmedStep_def)
  then have "map sName ss = take n (map sName (jSteps j))" by (simp add: take_map)
  with j'(1) take_is_prefix [of n "map sName (jSteps j)"] show ?thesis by simp
qed

text \<open>The only error is an empty window, and only for the job that both targets name.\<close>

lemma trimJob_Inl:
  assumes "trimJob startAt stopAfter j = Inl e"
  shows "e = Filt ErrEmptyStepWindow \<and> jName j = ftJob startAt \<and> jName j = ftJob stopAfter \<and>
     (\<exists>a b. stepIndex (jSteps j) (ftStep startAt) = Some a \<and> stepIndex (jSteps j) (ftStep stopAfter) = Some b \<and> b < a)"
  using assms stepIndex_Some [of "jSteps j" "ftStep startAt"] stepIndex_Some [of "jSteps j" "ftStep stopAfter"]
  by (fastforce simp: trimJob_def sliceTo_def Let_def resolveStepTrim_def split: option.splits if_splits)

lemma jobByName_Some: "jobByName jobs n = Some j \<Longrightarrow> j \<in> set jobs \<and> jName j = n"
  by (auto simp: jobByName_def dest!: map_of_SomeD)

lemma jobByName_None: "jobByName jobs n = None \<longleftrightarrow> n \<notin> set (jobNames jobs)"
  by (auto simp: jobByName_def map_of_eq_None_iff jobNames_def image_image)

lemma jobByName_distinct:
  assumes "distinct (jobNames jobs)" "j \<in> set jobs"
  shows "jobByName jobs (jName j) = Some j"
proof -
  obtain j' where j': "jobByName jobs (jName j) = Some j'"
    using assms(2) jobByName_None [of jobs "jName j"] by (cases "jobByName jobs (jName j)") (auto simp: jobNames_def)
  with jobByName_Some [OF j'] assms have "j' = j"
    by (auto simp: jobNames_def distinct_map inj_on_def)
  with j' show ?thesis by simp
qed

text \<open>A target is good when it is empty or names a job, and a step of it if it has one.\<close>

definition targetOk :: "'ast Job list \<Rightarrow> filterTarget \<Rightarrow> bool" where
  "targetOk jobs t \<longleftrightarrow> (if ftJob t = [] then ftStep t = []
     else (\<exists>j. jobByName jobs (ftJob t) = Some j \<and> (ftStep t = [] \<or> ftStep t \<in> sName ` set (jSteps j))))"

lemma jobHasStep_iff: "jobHasStep j n \<longleftrightarrow> n \<in> sName ` set (jSteps j)"
  by (auto simp: jobHasStep_def list_ex_iff image_iff)

lemma validateTarget_None: "validateTarget t jobs e1 e2 = None \<longleftrightarrow> targetOk jobs t"
  by (auto simp: validateTarget_def targetOk_def jobHasStep_iff split: option.splits)

text \<open>The steps before the first one of a name, and the bounds that the two targets set in a job:
  steps from the stop bound on are dropped, and steps before the start bound export nothing.\<close>

definition stepsBefore :: "string \<Rightarrow> 'ast Step list \<Rightarrow> nat" where
  "stepsBefore name ss = length (takeWhile (\<lambda>s. sName s \<noteq> name) ss)"

definition startBound :: "filterTarget \<Rightarrow> 'ast Job \<Rightarrow> nat" where
  "startBound t j = (if ftStep t \<noteq> [] \<and> ftJob t = jName j then stepsBefore (ftStep t) (jSteps j) else 0)"

definition stopBound :: "filterTarget \<Rightarrow> 'ast Job \<Rightarrow> nat" where
  "stopBound t j = (if ftStep t \<noteq> [] \<and> ftJob t = jName j then Suc (stepsBefore (ftStep t) (jSteps j))
     else length (jSteps j))"

lemma stepIndex_before:
  "stepIndex ss n = (if n \<in> sName ` set ss then Some (stepsBefore n ss) else None)"
  by (induction ss) (auto simp: stepsBefore_def)

lemma stepsBefore_less: "n \<in> sName ` set ss \<Longrightarrow> stepsBefore n ss < length ss"
  using stepIndex_Some [of ss n "stepsBefore n ss"] by (simp add: stepIndex_before)

definition targetStep :: "filterTarget \<Rightarrow> 'ast Job \<Rightarrow> bool" where
  "targetStep t j \<longleftrightarrow> (ftStep t \<noteq> [] \<and> ftJob t = jName j \<longrightarrow> ftStep t \<in> sName ` set (jSteps j))"

lemma targetOk_step: "distinct (jobNames jobs) \<Longrightarrow> targetOk jobs t \<Longrightarrow> j \<in> set jobs \<Longrightarrow> targetStep t j"
  using jobByName_distinct [of jobs j] by (auto simp: targetOk_def targetStep_def split: if_splits)

lemma trimJob_exact:
  assumes "trimJob s t j = Inr j'" "targetStep s j" "targetStep t j"
  shows "j' = j\<lparr>jSteps := stripStepExports (startBound s j) (take (stopBound t j) (jSteps j))\<rparr>"
proof -
  have strip: "stripStepExports 0 ss = ss" for ss :: "'a Step list" by (simp add: stripStepExports_def)
  define A where "A \<longleftrightarrow> ftStep s \<noteq> [] \<and> jName j = ftJob s"
  define B where "B \<longleftrightarrow> ftStep t \<noteq> [] \<and> jName j = ftJob t"
  have trim: "resolveStepTrim (jName j) (jSteps j) s t =
      \<lparr>stStartIdx = (if A then Some (startBound s j) else None),
       stStopIdx = (if B then Some (stepsBefore (ftStep t) (jSteps j)) else None)\<rparr>"
    using assms(2,3) by (auto simp: resolveStepTrim_def stepIndex_before targetStep_def startBound_def A_def B_def)
  have start: "\<not> A \<Longrightarrow> startBound s j = 0" by (auto simp: startBound_def A_def)
  have stop: "stopBound t j = (if B then Suc (stepsBefore (ftStep t) (jSteps j)) else length (jSteps j))"
    by (auto simp: stopBound_def B_def)
  note run = assms(1) [unfolded trimJob_def trim Let_def]
  show ?thesis
  proof (cases A)
    case True
    then show ?thesis using run by (cases B) (auto simp: sliceTo_def stop split: if_splits)
  next
    case False
    show ?thesis using run unfolding start [OF False] strip stop by (cases B) (auto simp: sliceTo_def False split: if_splits)
  qed
qed

section \<open>What a filter selects\<close>

text \<open>
  The execution window: the jobs that lie downstream of the start job and upstream of the
  stop job, each with itself; a missing end does not restrict.
\<close>

definition window :: "'ast Job list \<Rightarrow> FilterOpts \<Rightarrow> string set" where
  "window jobs opts =
     (let s = ftJob (parseFilterTarget (foStartAt opts)); t = ftJob (parseFilterTarget (foStopAfter opts)) in
      if s = [] \<and> t = [] then {}
      else (if s = [] then UNIV else ((depRel jobs)\<inverse>)\<^sup>* `` {s}) \<inter>
           (if t = [] then UNIV else (depRel jobs)\<^sup>* `` {t}))"

lemma intersectSets_set:
  "set (case intersectSets a b of None \<Rightarrow> [] | Some w \<Rightarrow> w) =
     (if a = None \<and> b = None then {}
      else (case a of None \<Rightarrow> UNIV | Some xs \<Rightarrow> set xs) \<inter> (case b of None \<Rightarrow> UNIV | Some ys \<Rightarrow> set ys))"
  by (auto simp: intersectSets_def split: option.splits)

text \<open>The body of \<^verbatim>\<open>FilterJobs\<close> after the adjacency maps, with the sets it computes.\<close>

definition selectJobs :: "'ast Job list \<Rightarrow> string set \<Rightarrow> string set \<Rightarrow> 'ast Job list" where
  "selectJobs jobs W F = map (\<lambda>j. if jName j \<in> W then j else stripExports j) (filter (\<lambda>j. jName j \<in> F) jobs)"

lemma FilterJobs_eq:
  assumes "distinct (jobNames jobs)" "\<not> (foStartAt opts = [] \<and> foStopAfter opts = [])"
  shows "FilterJobs jobs opts =
     bindE (buildJobAdj jobs (parseFilterTarget (foStartAt opts)) (parseFilterTarget (foStopAfter opts)))
       (\<lambda>_. if window jobs opts = {} then Inl (Filt ErrEmptyFilterResult)
            else applyStepTrimming (selectJobs jobs (window jobs opts) ((depRel jobs)\<^sup>* `` window jobs opts))
                   (parseFilterTarget (foStartAt opts)) (parseFilterTarget (foStopAfter opts)))"
proof -
  define s where "s = parseFilterTarget (foStartAt opts)"
  define t where "t = parseFilterTarget (foStopAfter opts)"
  define w where "w = (case intersectSets
      (if ftJob s \<noteq> [] then Some (bfsReachable (ftJob s) (adjDependents (adjOf jobs))) else None)
      (if ftJob t \<noteq> [] then Some (bfsReachable (ftJob t) (adjDependencies (adjOf jobs))) else None) of
      None \<Rightarrow> [] | Some w \<Rightarrow> w)"
  have w: "set w = window jobs opts"
    by (simp add: w_def window_def intersectSets_set bfsReachable_spec adjOf_dependents
        adjOf_dependencies [OF assms(1)] flip: s_def t_def)
  have "FilterJobs jobs opts = bindE (buildJobAdj jobs s t)
      (\<lambda>_. if w = [] then Inl (Filt ErrEmptyFilterResult)
           else applyStepTrimming (selectJobs jobs (set w)
             (fold (\<lambda>name. addTransitiveDeps name (adjDependencies (adjOf jobs))) w (set w))) s t)"
  proof (cases "buildJobAdj jobs s t")
    case (Inl e)
    then show ?thesis using assms(2) by (simp add: FilterJobs_def Let_def flip: s_def t_def)
  next
    case (Inr adj)
    then have "buildJobAdj jobs s t = Inr (adjOf jobs)" by (auto simp: buildJobAdj_def)
    then show ?thesis
      unfolding FilterJobs_def Let_def if_not_P [OF assms(2)] s_def [symmetric] t_def [symmetric]
        selectJobs_def bindE_simps w_def by (simp only: bindE_simps)
  qed
  moreover have "fold (\<lambda>name. addTransitiveDeps name (adjDependencies (adjOf jobs))) w (set w) =
      (depRel jobs)\<^sup>* `` window jobs opts"
    unfolding fullSet_spec adjOf_dependencies [OF assms(1)] by (simp only: w)
  moreover have "w = [] \<longleftrightarrow> window jobs opts = {}" unfolding w [symmetric] by simp
  ultimately show ?thesis unfolding s_def t_def by (simp only: w)
qed

lemma selectJobs_frame:
  "depPairs (selectJobs jobs W F) = filter (\<lambda>(n, _). n \<in> F) (depPairs jobs)"
  by (induction jobs) (auto simp: selectJobs_def depPairs_def stripExports_def)

lemma applyStepTrimming_Inr:
  "applyStepTrimming js s t = Inr js' \<Longrightarrow> list_all2 trimmed js js'"
  by (auto simp: applyStepTrimming_def mapE_Inr list.rel_refl split: if_splits
      intro: list.rel_mono_strong dest: trimJob_Inr)

lemma trimmed_depPairs: "list_all2 trimmed js js' \<Longrightarrow> depPairs js' = depPairs js"
  by (induction rule: list_all2_induct) (auto simp: depPairs_def dest: trimmed_frame)

text \<open>A successful run with at least one flag, as one relation.\<close>

lemma FilterJobs_Inr:
  assumes "distinct (jobNames jobs)" "foStartAt opts \<noteq> [] \<or> foStopAfter opts \<noteq> []"
    and "FilterJobs jobs opts = Inr out"
  shows "window jobs opts \<noteq> {}"
    and "list_all2 trimmed (selectJobs jobs (window jobs opts) ((depRel jobs)\<^sup>* `` window jobs opts)) out"
proof -
  have "\<not> (foStartAt opts = [] \<and> foStopAfter opts = [])" using assms(2) by blast
  from assms(3) [unfolded FilterJobs_eq [OF assms(1) this]] show "window jobs opts \<noteq> {}"
    and "list_all2 trimmed (selectJobs jobs (window jobs opts) ((depRel jobs)\<^sup>* `` window jobs opts)) out"
    by (auto split: if_splits dest: applyStepTrimming_Inr)
qed

lemma selected_job:
  assumes "list_all2 trimmed (selectJobs jobs W F) out" "j' \<in> set out"
  obtains j where "j \<in> set jobs" "jName j' = jName j" "jName j \<in> F"
    "trimmed (if jName j \<in> W then j else stripExports j) j'"
proof -
  from assms obtain j0 where "j0 \<in> set (selectJobs jobs W F)" "trimmed j0 j'"
    by (auto simp: list_all2_conv_all_nth in_set_conv_nth) metis
  then obtain j where j: "j \<in> set jobs" "jName j \<in> F" "trimmed (if jName j \<in> W then j else stripExports j) j'"
    by (auto simp: selectJobs_def)
  moreover from trimmed_frame [OF j(3)] have "jName j' = jName j" by (simp add: stripExports_def split: if_splits)
  ultimately show ?thesis using that by blast
qed

lemma trimmed_exports:
  "trimmed j j' \<Longrightarrow> \<forall>s\<in>set (jSteps j). sExports s = [] \<Longrightarrow> \<forall>s\<in>set (jSteps j'). sExports s = []"
proof -
  assume "trimmed j j'" and ex: "\<forall>s\<in>set (jSteps j). sExports s = []"
  then obtain n where "list_all2 trimmedStep (take n (jSteps j)) (jSteps j')" by (auto simp: trimmed_def)
  moreover have "\<forall>s\<in>set (take n (jSteps j)). sExports s = []" using ex by (auto dest: in_set_takeD)
  ultimately show ?thesis by (induction rule: list_all2_induct) (auto simp: trimmedStep_def)
qed

definition filterSample :: "string Job list" where
  "filterSample = [sampleJob ''lint'' [], sampleJob ''build'' [], sampleJob ''test'' [''build''],
     sampleJob ''deploy'' [''test'']]"

definition sampleOpts :: FilterOpts where
  "sampleOpts = \<lparr>foStartAt = ''test'', foStopAfter = []\<rparr>"

lemma filterSample_runs:
  "map_sum id (map jName) (FilterJobs filterSample sampleOpts) = Inr [''build'', ''test'', ''deploy'']"
  by code_simp

lemma filterSample_distinct: "distinct (jobNames filterSample)"
  by code_simp

lemma list_all2_set2: "list_all2 P xs ys \<Longrightarrow> y \<in> set ys \<Longrightarrow> \<exists>x\<in>set xs. P x y"
  by (induction xs ys rule: list_all2_induct) auto

lemma applyStepTrimming_each:
  "applyStepTrimming js s t = Inr js' \<Longrightarrow> list_all2 (\<lambda>j j'. trimJob s t j = Inr j') js js'"
  by (auto simp: applyStepTrimming_def mapE_Inr trimJob_def resolveStepTrim_def list_all2_same split: if_splits)

lemma stripExports_bounds:
  "startBound t (stripExports j) = startBound t j" "stopBound t (stripExports j) = stopBound t j"
  "targetStep t (stripExports j) = targetStep t j"
proof -
  have "takeWhile (\<lambda>s. sName s \<noteq> n) (map (\<lambda>s. s\<lparr>sExports := []\<rparr>) ss) =
      map (\<lambda>s. s\<lparr>sExports := []\<rparr>) (takeWhile (\<lambda>s. sName s \<noteq> n) ss)" for n and ss :: "'a Step list"
    by (simp add: takeWhile_map comp_def)
  then show "startBound t (stripExports j) = startBound t j" "stopBound t (stripExports j) = stopBound t j"
    "targetStep t (stripExports j) = targetStep t j"
    by (auto simp: startBound_def stopBound_def targetStep_def stripExports_def stepsBefore_def image_image)
qed

text \<open>A job that the filter keeps, given the window and the two targets.\<close>

lemma kept_job:
  assumes "trimJob s t (if inW then j else stripExports j) = Inr j'" "targetStep s j" "targetStep t j"
  shows "j' = j\<lparr>jExports := (if inW then jExports j else []), jPublish := (if inW then jPublish j else None),
     jSteps := map (\<lambda>k. if inW \<and> startBound s j \<le> k then jSteps j ! k else (jSteps j ! k)\<lparr>sExports := []\<rparr>)
       [0..<stopBound t j]\<rparr>"
proof -
  have stop: "stopBound t j \<le> length (jSteps j)"
    using assms(3) stepsBefore_less [of "ftStep t" "jSteps j"] by (auto simp: stopBound_def targetStep_def)
  have strip: "stripStepExports n (take m ss) = map (\<lambda>k. if n \<le> k then ss ! k else (ss ! k)\<lparr>sExports := []\<rparr>) [0..<m]"
    if "m \<le> length ss" for n m and ss :: "'a Step list"
    using that by (auto simp: list_eq_iff_nth_eq stripStepExports_def nth_append min_def)
  let ?j = "if inW then j else stripExports j"
  have "targetStep s ?j" "targetStep t ?j" using assms(2,3) by (simp_all add: stripExports_bounds)
  from trimJob_exact [OF assms(1) this]
  have "j' = ?j\<lparr>jSteps := stripStepExports (startBound s j) (take (stopBound t j) (jSteps ?j))\<rparr>"
    by (simp add: stripExports_bounds split: if_splits)
  with stop show ?thesis
    by (cases inW) (simp_all add: strip stripExports_def cong: map_cong)
qed

text \<open>C7: what \<^verbatim>\<open>FilterJobs\<close> selects. With the window of the jobs between the two targets, the
  result has, in the original order and with their dependency lists, exactly the jobs of the
  window and everything they transitively depend on. Every job is the given one in all its
  fields but three: a job kept only as a dependency exports and publishes nothing, a job of the
  window keeps its exports and its publish setting, and the steps are the first steps of the
  job, through the step named by the stop target when that names a step of the job. A step is
  kept with all its fields; only its exports are dropped, when the job is outside the window or
  the step comes before the one named by the start target.\<close>

theorem FilterJobs_selects:
  assumes "distinct (jobNames jobs)" "foStartAt opts \<noteq> [] \<or> foStopAfter opts \<noteq> []"
    and "FilterJobs jobs opts = Inr out"
  shows "window jobs opts \<noteq> {} \<and>
    depPairs out = filter (\<lambda>(n, _). n \<in> (depRel jobs)\<^sup>* `` window jobs opts) (depPairs jobs) \<and>
    (\<forall>j'\<in>set out. \<exists>j\<in>set jobs. jName j' = jName j \<and>
       (let inW = jName j \<in> window jobs opts;
            start = startBound (parseFilterTarget (foStartAt opts)) j;
            stop = stopBound (parseFilterTarget (foStopAfter opts)) j in
        stop \<le> length (jSteps j) \<and>
        j' = j\<lparr>jExports := (if inW then jExports j else []), jPublish := (if inW then jPublish j else None),
               jSteps := map (\<lambda>k. if inW \<and> start \<le> k then jSteps j ! k else (jSteps j ! k)\<lparr>sExports := []\<rparr>)
                 [0..<stop]\<rparr>))"
proof (intro conjI ballI)
  note r = FilterJobs_Inr [OF assms]
  let ?s = "parseFilterTarget (foStartAt opts)" and ?t = "parseFilterTarget (foStopAfter opts)"
  let ?W = "window jobs opts"
  show "?W \<noteq> {}" by (rule r(1))
  show "depPairs out = filter (\<lambda>(n, _). n \<in> (depRel jobs)\<^sup>* `` ?W) (depPairs jobs)"
    using trimmed_depPairs [OF r(2)] by (simp add: selectJobs_frame)
  have "\<not> (foStartAt opts = [] \<and> foStopAfter opts = [])" using assms(2) by blast
  from assms(3) [unfolded FilterJobs_eq [OF assms(1) this]] r(1)
  have ok: "targetOk jobs ?s" "targetOk jobs ?t"
    and run: "applyStepTrimming (selectJobs jobs ?W ((depRel jobs)\<^sup>* `` ?W)) ?s ?t = Inr out"
    by (auto simp: buildJobAdj_def validateTarget_None bindE_Inr)
  fix j' assume "j' \<in> set out"
  from list_all2_set2 [OF applyStepTrimming_each [OF run] this] obtain j where j: "j \<in> set jobs"
    "trimJob ?s ?t (if jName j \<in> ?W then j else stripExports j) = Inr j'" by (auto simp: selectJobs_def)
  have st: "targetStep ?s j" "targetStep ?t j" using targetOk_step [OF assms(1) _ j(1)] ok by blast+
  then have "stopBound ?t j \<le> length (jSteps j)"
    using stepsBefore_less [of "ftStep ?t" "jSteps j"] by (auto simp: stopBound_def targetStep_def)
  with kept_job [OF j(2) st] j(1)
  show "\<exists>j\<in>set jobs. jName j' = jName j \<and>
       (let inW = jName j \<in> ?W; start = startBound ?s j; stop = stopBound ?t j in
        stop \<le> length (jSteps j) \<and>
        j' = j\<lparr>jExports := (if inW then jExports j else []), jPublish := (if inW then jPublish j else None),
               jSteps := map (\<lambda>k. if inW \<and> start \<le> k then jSteps j ! k else (jSteps j ! k)\<lparr>sExports := []\<rparr>)
                 [0..<stop]\<rparr>)"
    unfolding Let_def by (intro bexI [of _ j]) simp_all
qed

theorem FilterJobs_selects_witness:
  "\<exists>out. FilterJobs filterSample sampleOpts = Inr out \<and> window filterSample sampleOpts \<noteq> {} \<and>
     depPairs out = filter (\<lambda>(n, _). n \<in> (depRel filterSample)\<^sup>* `` window filterSample sampleOpts) (depPairs filterSample)"
proof -
  from filterSample_runs obtain out where out: "FilterJobs filterSample sampleOpts = Inr out"
    by (cases "FilterJobs filterSample sampleOpts") auto
  have "foStartAt sampleOpts \<noteq> [] \<or> foStopAfter sampleOpts \<noteq> []" by (simp add: sampleOpts_def)
  from FilterJobs_selects [OF filterSample_distinct this out] out show ?thesis by blast
qed

text \<open>The filtered pipeline is still well-founded: if every dependency names a job and
  there is no cycle, the same holds after \<^verbatim>\<open>FilterJobs\<close>.\<close>

theorem FilterJobs_keeps_depsOk:
  assumes "distinct (jobNames jobs)" "depsOk jobs" "FilterJobs jobs opts = Inr out"
  shows "depsOk out \<and> distinct (jobNames out)"
proof (cases "foStartAt opts = [] \<and> foStopAfter opts = []")
  case True
  with assms show ?thesis by (auto simp: FilterJobs_def)
next
  case False
  let ?F = "(depRel jobs)\<^sup>* `` window jobs opts"
  from False have "foStartAt opts \<noteq> [] \<or> foStopAfter opts \<noteq> []" by blast
  from FilterJobs_Inr(2) [OF assms(1) this assms(3)]
  have pairs: "depPairs out = filter (\<lambda>(n, _). n \<in> ?F) (depPairs jobs)"
    by (simp add: trimmed_depPairs selectJobs_frame)
  have names: "jobNames out = filter (\<lambda>n. n \<in> ?F) (jobNames jobs)"
  proof -
    have fst_pairs: "jobNames js = map fst (depPairs js)" for js :: "'a Job list"
      by (simp add: jobNames_def depPairs_def)
    show ?thesis unfolding fst_pairs pairs by (induction "depPairs jobs") (auto simp: filter_map o_def split_def)
  qed
  have rel: "depRel out = {(a, d) \<in> depRel jobs. a \<in> ?F}" unfolding depRel_pairs pairs by auto
  have "d \<in> set (jobNames out)" if "j' \<in> set out" "d \<in> set (jDependsOn j')" for j' d
  proof -
    from that have "(jName j', d) \<in> depRel out" by (auto simp: depRel_def)
    with rel have e: "(jName j', d) \<in> depRel jobs" "jName j' \<in> ?F" by auto
    then have "d \<in> ?F" by (auto intro: rtrancl_into_rtrancl)
    moreover from e(1) assms(2) have "d \<in> set (jobNames jobs)" by (auto simp: depRel_def depsOk_def)
    ultimately show ?thesis by (simp add: names)
  qed
  moreover have "acyclic (depRel out)"
    using assms(2) rel by (auto simp: depsOk_def intro: acyclic_subset)
  ultimately show ?thesis using assms(1) names by (auto simp: depsOk_def)
qed

theorem FilterJobs_keeps_depsOk_witness:
  "\<exists>out. FilterJobs filterSample sampleOpts = Inr out \<and> depsOk out"
proof -
  from filterSample_runs obtain out where out: "FilterJobs filterSample sampleOpts = Inr out"
    by (cases "FilterJobs filterSample sampleOpts") auto
  have "topoSort filterSample (nameIndex filterSample) = Inr [0, 1, 2, 3]" by code_simp
  then have "depsOk filterSample" using topoSort_Inr [OF filterSample_distinct] by blast
  from FilterJobs_keeps_depsOk [OF filterSample_distinct this out] out show ?thesis by blast
qed

section \<open>Errors of the filter\<close>

lemma validateTarget_Some:
  assumes "validateTarget t jobs e1 e2 = Some e"
  shows "\<not> targetOk jobs t \<and> (e = Filt ErrOrphanedStep \<and> ftJob t = [] \<or>
       e = e1 \<and> ftJob t \<notin> set (jobNames jobs) \<or> e = e2 \<and> ftJob t \<in> set (jobNames jobs))"
  using assms validateTarget_None [of t jobs e1 e2] jobByName_None [of jobs "ftJob t"]
  by (auto simp: validateTarget_def split: option.splits if_splits)

text \<open>An error of \<^verbatim>\<open>FilterJobs\<close> names its cause, and slicing the steps never panics: the
  start or stop target does not resolve, the window is empty, or both targets name the same
  job and the start step comes after the stop step.\<close>

theorem FilterJobs_error_cause:
  assumes "distinct (jobNames jobs)" "FilterJobs jobs opts = Inl e"
  defines "s \<equiv> parseFilterTarget (foStartAt opts)" and "t \<equiv> parseFilterTarget (foStopAfter opts)"
  shows "\<not> targetOk jobs s \<and> (e = Filt ErrOrphanedStep \<or> e = Filt ErrUnknownStartAt \<or> e = Filt ErrUnknownStartAtStep) \<or>
    \<not> targetOk jobs t \<and> (e = Filt ErrOrphanedStep \<or> e = Filt ErrUnknownStopAfter \<or> e = Filt ErrUnknownStopAfterStep) \<or>
    targetOk jobs s \<and> targetOk jobs t \<and> window jobs opts = {} \<and> e = Filt ErrEmptyFilterResult \<or>
    targetOk jobs s \<and> targetOk jobs t \<and> ftJob s = ftJob t \<and> e = Filt ErrEmptyStepWindow \<and>
      (\<exists>j\<in>set jobs. jName j = ftJob s \<and>
         (\<exists>a b. stepIndex (jSteps j) (ftStep s) = Some a \<and> stepIndex (jSteps j) (ftStep t) = Some b \<and> b < a))"
proof -
  have ne: "\<not> (foStartAt opts = [] \<and> foStopAfter opts = [])" using assms(2) by (auto simp: FilterJobs_def)
  let ?W = "window jobs opts" and ?F = "(depRel jobs)\<^sup>* `` window jobs opts"
  have run: "bindE (buildJobAdj jobs s t) (\<lambda>_. if ?W = {} then Inl (Filt ErrEmptyFilterResult)
      else applyStepTrimming (selectJobs jobs ?W ?F) s t) = Inl e"
    using assms(2) [unfolded FilterJobs_eq [OF assms(1) ne]] unfolding s_def t_def .
  show ?thesis
  proof (cases "buildJobAdj jobs s t")
    case (Inl e')
    with run have "buildJobAdj jobs s t = Inl e" by simp
    then show ?thesis
      by (auto simp: buildJobAdj_def guardE_Inl dest: validateTarget_Some)
  next
    case (Inr adj)
    then have ok: "targetOk jobs s" "targetOk jobs t"
      by (auto simp: buildJobAdj_def validateTarget_None)
    show ?thesis
    proof (cases "?W = {}")
      case True
      with run Inr ok show ?thesis by simp
    next
      case False
      with run Inr have "applyStepTrimming (selectJobs jobs ?W ?F) s t = Inl e" by simp
      then obtain j' where j': "j' \<in> set (selectJobs jobs ?W ?F)" "trimJob s t j' = Inl e"
        by (auto simp: applyStepTrimming_def dest: mapE_Inl split: if_splits)
      then obtain j where j: "j \<in> set jobs" "j' = (if jName j \<in> ?W then j else stripExports j)"
        by (auto simp: selectJobs_def)
      have same: "stepIndex (jSteps (stripExports j)) n = stepIndex (jSteps j) n" for n
      proof -
        have "stepIndex (map (\<lambda>s. s\<lparr>sExports := []\<rparr>) ss) n = stepIndex ss n" for ss :: "'a Step list"
          by (induction ss) auto
        then show ?thesis by (simp add: stripExports_def)
      qed
      from trimJob_Inl [OF j'(2)] j same ok show ?thesis
        by (auto simp: stripExports_def split: if_splits)
    qed
  qed
qed

theorem FilterJobs_error_cause_witness:
  "window filterSample \<lparr>foStartAt = ''test'', foStopAfter = ''lint''\<rparr> = {}"
proof -
  let ?o = "\<lparr>foStartAt = ''test'', foStopAfter = ''lint''\<rparr>"
  have "map_sum id (map jName) (FilterJobs filterSample ?o) = Inl (Filt ErrEmptyFilterResult)" by code_simp
  then have "FilterJobs filterSample ?o = Inl (Filt ErrEmptyFilterResult)"
    by (cases "FilterJobs filterSample ?o") auto
  from FilterJobs_error_cause [OF filterSample_distinct this] show ?thesis by simp
qed

section \<open>Parsing a target\<close>

lemma scanTarget_plain:
  "\<forall>c\<in>set b. nameChar c \<Longrightarrow> scanTarget d p (b @ r) = scanTarget d (p @ b) r"
  by (induction b arbitrary: p) (auto dest: nameChar_neq)

lemma scanTarget_bracket:
  assumes "CHR ''['' \<notin> set t" "CHR '']'' \<notin> set t"
  shows "scanTarget (Suc d) p (t @ CHR '']'' # r) = scanTarget d (p @ t @ '']'') r"
  using assms by (induction t arbitrary: p) auto

lemma scanTarget_validName:
  assumes "validName j"
  shows "scanTarget 0 [] (j @ r) = scanTarget 0 j r"
  using assms
proof (cases rule: validName_shape)
  case 1
  then show ?thesis by (simp add: scanTarget_plain)
next
  case (2 b t)
  then show ?thesis by (simp add: scanTarget_plain scanTarget_bracket)
qed

text \<open>Parsing a filter flag inverts writing it: for a valid job name, with or without a
  bracket suffix and colons in it, \<^verbatim>\<open>job\<close> parses to the job alone and \<^verbatim>\<open>job:step\<close> to the job
  and the step, whatever the step's text is.\<close>

theorem parseFilterTarget_roundtrip:
  assumes "validName job"
  shows "parseFilterTarget job = \<lparr>ftJob = job, ftStep = []\<rparr> \<and>
    parseFilterTarget (job @ '':'' @ step) = \<lparr>ftJob = job, ftStep = step\<rparr>"
  using scanTarget_validName [OF assms, of "[]"] scanTarget_validName [OF assms, of "'':'' @ step"]
  by (simp add: parseFilterTarget_def)

theorem parseFilterTarget_roundtrip_witness:
  "parseFilterTarget ''build[img=a:b]:run'' = \<lparr>ftJob = ''build[img=a:b]'', ftStep = ''run''\<rparr>"
proof -
  have "validName ''build[img=a:b]''" by code_simp
  from parseFilterTarget_roundtrip [OF this, of "''run''"] show ?thesis by simp
qed

end
