(* ===== verification/Condition_Eval.thy ===== *)
theory Condition_Eval
  imports Validate Merge
begin

text \<open>
  \<^verbatim>\<open>pkg/pipeline/when.go\<close>: static evaluation of the conditions of jobs and steps before a
  run, and the removal of what they switch off. The log messages are not part of the model.
\<close>

section \<open>Operations\<close>

definition matrixMap :: "(string, string) gomap option \<Rightarrow> (string, string) gomap" where
  "matrixMap m = (case m of None \<Rightarrow> [] | Some m \<Rightarrow> m)"

text \<open>The static conditions; a missing or deferred one keeps the job or step.\<close>

definition jobCondition :: "'ast Cel \<Rightarrow> EnvVar list \<Rightarrow> Context \<Rightarrow> 'ast Job \<Rightarrow> err + bool" where
  "jobCondition cel penv wctx j =
     (case jWhen j of
        None \<Rightarrow> Inr True
      | Some w \<Rightarrow>
          if wDeferred w then Inr True
          else (case Evaluate cel w (wctx\<lparr>wcPipelineEnv := BuildEnvScope penv (jEnv j),
                                          wcMatrix := matrixMap (jMatrixValues j)\<rparr>) of
                  Inl _ \<Rightarrow> Inl (Cond ErrJobCondition)
                | Inr ok \<Rightarrow> Inr ok))"

definition stepCondition ::
  "'ast Cel \<Rightarrow> EnvVar list \<Rightarrow> Context \<Rightarrow> 'ast Job \<Rightarrow> 'ast Step \<Rightarrow> err + bool" where
  "stepCondition cel penv wctx j s =
     (case sWhen s of
        None \<Rightarrow> Inr True
      | Some w \<Rightarrow>
          if wDeferred w then Inr True
          else (case Evaluate cel w (wctx\<lparr>wcPipelineEnv := BuildEnvScope penv (mergeEnv (jEnv j) (sEnv s)),
                                          wcMatrix := matrixMap (jMatrixValues j)\<rparr>) of
                  Inl _ \<Rightarrow> Inl (Cond ErrStepCondition)
                | Inr ok \<Rightarrow> Inr ok))"

text \<open>A loop that keeps the elements whose condition holds and lists the names of the others.\<close>

fun partitionE :: "('a \<Rightarrow> err + bool) \<Rightarrow> ('a \<Rightarrow> string) \<Rightarrow> 'a list \<Rightarrow> err + 'a list \<times> string list" where
  "partitionE cond name [] = Inr ([], [])"
| "partitionE cond name (x # xs) =
     bindE (cond x) (\<lambda>ok.
     bindE (partitionE cond name xs) (\<lambda>(kept, skipped).
       Inr (if ok then (x # kept, skipped) else (kept, name x # skipped))))"

definition cleanJobRefs :: "string set \<Rightarrow> 'ast Job \<Rightarrow> 'ast Job" where
  "cleanJobRefs skipped j =
     j\<lparr>jDependsOn := filter (\<lambda>d. d \<notin> skipped) (jDependsOn j),
       jArtifacts := filter (\<lambda>a. aFrom a \<notin> skipped) (jArtifacts j),
       jSteps := map (\<lambda>s. s\<lparr>sArtifacts := filter (\<lambda>a. aFrom a \<notin> skipped) (sArtifacts s)\<rparr>) (jSteps j)\<rparr>"

text \<open>Phase 2 over the remaining jobs: jobs with their kept steps, and the skipped step names.\<close>

fun evalSteps ::
  "'ast Cel \<Rightarrow> EnvVar list \<Rightarrow> Context \<Rightarrow> (string, string list) gomap \<Rightarrow> 'ast Job list \<Rightarrow>
     err + 'ast Job list \<times> (string, string list) gomap" where
  "evalSteps cel penv wctx skippedSteps [] = Inr ([], skippedSteps)"
| "evalSteps cel penv wctx skippedSteps (j # js) =
     bindE (partitionE (stepCondition cel penv wctx j) sName (jSteps j)) (\<lambda>(kept, names).
     bindE (evalSteps cel penv wctx
              (fold (\<lambda>n m. mput (jName j) (mgetList m (jName j) @ [n]) m) names skippedSteps) js)
       (\<lambda>(js', skippedSteps'). Inr (j\<lparr>jSteps := kept\<rparr> # js', skippedSteps')))"

text \<open>Phase 3: jobs without steps are removed as well.\<close>

definition dropEmptyJobs ::
  "'ast Pipeline \<Rightarrow> string list \<Rightarrow> 'ast Job list \<Rightarrow> (string, string list) gomap \<Rightarrow> 'ast ConditionResult" where
  "dropEmptyJobs p skipped jobs skippedSteps =
     (let emptyJobs = map jName (filter (\<lambda>j. jSteps j = []) jobs) in
      if emptyJobs \<noteq> [] then
        \<lparr>crPipeline = p\<lparr>pJobs := map (cleanJobRefs (set emptyJobs))
                                  (filter (\<lambda>j. jName j \<notin> set emptyJobs) jobs),
                        pTopoOrder := None\<rparr>,
         crSkipped = skipped @ emptyJobs, crSkippedSteps = skippedSteps\<rparr>
      else
        \<lparr>crPipeline = p\<lparr>pJobs := jobs, pTopoOrder := None\<rparr>,
         crSkipped = skipped, crSkippedSteps = skippedSteps\<rparr>)"

definition EvaluateConditions ::
  "'ast Cel \<Rightarrow> 'ast Pipeline \<Rightarrow> Context \<Rightarrow> err + 'ast ConditionResult" where
  "EvaluateConditions cel p wctx =
     bindE (partitionE (jobCondition cel (pEnv p) wctx) jName (pJobs p)) (\<lambda>(kept, skipped).
     bindE (evalSteps cel (pEnv p) wctx [] (map (cleanJobRefs (set skipped)) kept)) (\<lambda>(jobs, skippedSteps).
       Inr (dropEmptyJobs p skipped jobs skippedSteps)))"

section \<open>Lemmas\<close>

abbreviation holds :: "err + bool \<Rightarrow> bool" where
  "holds c \<equiv> c = Inr True"

lemma partitionE_Inr:
  "partitionE cond name xs = Inr (kept, skipped) \<Longrightarrow>
     kept = filter (\<lambda>x. holds (cond x)) xs \<and> skipped = map name (filter (\<lambda>x. \<not> holds (cond x)) xs)"
  by (induction xs arbitrary: kept skipped) (auto split: if_splits)

lemma stepCondition_clean [simp]:
  "stepCondition cel penv wctx (cleanJobRefs A j) (s\<lparr>sArtifacts := as\<rparr>) = stepCondition cel penv wctx j s"
  by (cases "sWhen s") (simp_all add: stepCondition_def cleanJobRefs_def)

lemma cleanJobRefs_frame [simp]:
  "jName (cleanJobRefs A j) = jName j"
  "jDependsOn (cleanJobRefs A j) = filter (\<lambda>d. d \<notin> A) (jDependsOn j)"
  by (simp_all add: cleanJobRefs_def)

text \<open>The steps of a job that its step conditions keep.\<close>

definition keptSteps :: "'ast Cel \<Rightarrow> EnvVar list \<Rightarrow> Context \<Rightarrow> 'ast Job \<Rightarrow> 'ast Job" where
  "keptSteps cel penv wctx j = j\<lparr>jSteps := filter (\<lambda>s. holds (stepCondition cel penv wctx j s)) (jSteps j)\<rparr>"

lemma keptSteps_frame [simp]:
  "jName (keptSteps cel penv wctx j) = jName j"
  "jDependsOn (keptSteps cel penv wctx j) = jDependsOn j"
  by (simp_all add: keptSteps_def)

lemma keptSteps_clean:
  "keptSteps cel penv wctx (cleanJobRefs A j) = cleanJobRefs A (keptSteps cel penv wctx j)"
proof -
  let ?f = "\<lambda>s. s\<lparr>sArtifacts := filter (\<lambda>a. aFrom a \<notin> A) (sArtifacts s)\<rparr>"
  have "jSteps (cleanJobRefs A j) = map ?f (jSteps j)" by (simp add: cleanJobRefs_def)
  then have "filter (\<lambda>s. holds (stepCondition cel penv wctx (cleanJobRefs A j) s)) (jSteps (cleanJobRefs A j)) =
      map ?f (filter (\<lambda>s. holds (stepCondition cel penv wctx j s)) (jSteps j))"
    by (simp add: filter_map o_def)
  then show ?thesis unfolding keptSteps_def by (simp add: cleanJobRefs_def)
qed

lemma cleanJobRefs_twice: "cleanJobRefs B (cleanJobRefs A j) = cleanJobRefs (A \<union> B) j"
  by (simp add: cleanJobRefs_def conj_commute)

lemma evalSteps_Inr:
  "evalSteps cel penv wctx m js = Inr (js', m') \<Longrightarrow> js' = map (keptSteps cel penv wctx) js"
proof (induction js arbitrary: m js' m')
  case (Cons j js)
  then show ?case by (auto simp: keptSteps_def dest: partitionE_Inr)
qed simp

section \<open>What is skipped and what remains\<close>

text \<open>A job runs if its own condition holds and some step is left.\<close>

definition runs :: "'ast Cel \<Rightarrow> 'ast Pipeline \<Rightarrow> Context \<Rightarrow> 'ast Job \<Rightarrow> bool" where
  "runs cel p wctx j \<longleftrightarrow> holds (jobCondition cel (pEnv p) wctx j) \<and>
     (\<exists>s\<in>set (jSteps j). holds (stepCondition cel (pEnv p) wctx j s))"

lemma keptSteps_empty:
  "jSteps (cleanJobRefs A (keptSteps cel penv wctx j)) = [] \<longleftrightarrow>
     \<not> (\<exists>s\<in>set (jSteps j). holds (stepCondition cel penv wctx j s))"
  by (auto simp: cleanJobRefs_def keptSteps_def filter_empty_conv)

lemma distinct_jobs_by_name:
  assumes "distinct (jobNames js)" "j \<in> set js"
  shows "jName j \<in> jName ` {x \<in> set js. P x} \<longleftrightarrow> P j"
  using assms by (auto simp: jobNames_def distinct_map inj_on_def)

lemma cleanJobRefs_empty [simp]: "cleanJobRefs {} j = j"
  by (simp add: cleanJobRefs_def)

lemma EvaluateConditions_run:
  assumes "EvaluateConditions cel p wctx = Inr r" "distinct (jobNames (pJobs p))"
  shows "set (crSkipped r) = jName ` {j \<in> set (pJobs p). \<not> runs cel p wctx j}"
    and "pJobs (crPipeline r) = map (\<lambda>j. cleanJobRefs (set (crSkipped r)) (keptSteps cel (pEnv p) wctx j))
           (filter (runs cel p wctx) (pJobs p))"
    and "crPipeline r = p\<lparr>pJobs := pJobs (crPipeline r), pTopoOrder := None\<rparr>"
proof -
  let ?kept = "filter (\<lambda>j. holds (jobCondition cel (pEnv p) wctx j)) (pJobs p)"
  let ?sk = "map jName (filter (\<lambda>j. \<not> holds (jobCondition cel (pEnv p) wctx j)) (pJobs p))"
  let ?S = "set ?sk"
  let ?jobs = "map (\<lambda>j. cleanJobRefs ?S (keptSteps cel (pEnv p) wctx j)) ?kept"
  define E where "E = map jName (filter (\<lambda>j. jSteps j = []) ?jobs)"
  from assms(1) obtain kept sk jobs ss where
    k: "partitionE (jobCondition cel (pEnv p) wctx) jName (pJobs p) = Inr (kept, sk)" and
    e: "evalSteps cel (pEnv p) wctx [] (map (cleanJobRefs (set sk)) kept) = Inr (jobs, ss)" and
    r: "r = dropEmptyJobs p sk jobs ss"
    by (auto simp: EvaluateConditions_def)
  from partitionE_Inr [OF k] have ks: "kept = ?kept" "sk = ?sk" by simp_all
  from evalSteps_Inr [OF e] have "jobs = ?jobs" unfolding ks by (simp add: keptSteps_clean)
  with r ks have r: "r = dropEmptyJobs p ?sk ?jobs ss" by simp
  have jobs: "pJobs (crPipeline r) = map (cleanJobRefs (set E)) (filter (\<lambda>j. jName j \<notin> set E) ?jobs)"
    and skipped: "set (crSkipped r) = ?S \<union> set E"
    unfolding r dropEmptyJobs_def E_def [symmetric] Let_def by (simp_all del: set_map filter_map)
  show "crPipeline r = p\<lparr>pJobs := pJobs (crPipeline r), pTopoOrder := None\<rparr>"
    unfolding r dropEmptyJobs_def Let_def by simp
  have E: "set E = jName ` {j \<in> set ?kept. \<not> runs cel p wctx j}"
  proof -
    have "E = map jName (filter (\<lambda>j. \<not> (\<exists>s\<in>set (jSteps j). holds (stepCondition cel (pEnv p) wctx j s))) ?kept)"
      by (simp add: E_def filter_map o_def keptSteps_empty del: set_map)
    then show ?thesis by (auto simp: runs_def)
  qed
  have S: "?S = jName ` {j \<in> set (pJobs p). \<not> holds (jobCondition cel (pEnv p) wctx j)}" by auto
  show sk: "set (crSkipped r) = jName ` {j \<in> set (pJobs p). \<not> runs cel p wctx j}"
    unfolding skipped E S by (auto simp: runs_def)
  have "jName j \<in> set E \<longleftrightarrow> \<not> runs cel p wctx j" if "j \<in> set ?kept" for j
  proof -
    have "distinct (jobNames ?kept)" using assms(2) by (auto simp: jobNames_def)
    from distinct_jobs_by_name [OF this that] show ?thesis unfolding E by simp
  qed
  then have "filter (\<lambda>j. jName j \<notin> set E) ?kept = filter (runs cel p wctx) ?kept" by (intro filter_cong) auto
  also have "\<dots> = filter (runs cel p wctx) (pJobs p)" 
    unfolding filter_filter by (rule filter_cong [OF refl]) (auto simp: runs_def)
  finally show "pJobs (crPipeline r) = map (\<lambda>j. cleanJobRefs (set (crSkipped r)) (keptSteps cel (pEnv p) wctx j))
           (filter (runs cel p wctx) (pJobs p))"
    unfolding jobs skipped by (simp add: filter_map o_def cleanJobRefs_twice)
qed

section \<open>Properties\<close>

definition emptyContext :: Context where
  "emptyContext = \<lparr>wcGetenv = None, wcBranch = [], wcTag = [], wcPipelineEnv = [], wcMatrix = []\<rparr>"

definition conditionSample :: "string Pipeline" where
  "conditionSample = zeroPipeline\<lparr>pJobs :=
     [(sampleJob ''lint'' [])\<lparr>jWhen := Some \<lparr>wExpression = ''false'', wDeferred = False, wParsed = None\<rparr>\<rparr>,
      sampleJob ''test'' [''lint''],
      (sampleJob ''docs'' [''test''])\<lparr>jSteps := [sampleStep\<lparr>sWhen :=
         Some \<lparr>wExpression = ''never'', wDeferred = False, wParsed = None\<rparr>\<rparr>]\<rparr>,
      sampleJob ''ship'' [''test'', ''docs'']]\<rparr>"

lemma conditionSample_runs:
  "map_sum id (\<lambda>r. (depPairs (pJobs (crPipeline r)), crSkipped r, crSkippedSteps r))
     (EvaluateConditions sampleCel conditionSample emptyContext) =
   Inr ([(''test'', []), (''ship'', [''test''])], [''lint'', ''docs''], [(''docs'', [''run''])])"
  by code_simp

lemma conditionSample_distinct: "distinct (jobNames (pJobs conditionSample))"
  by code_simp

text \<open>C13: \<^verbatim>\<open>EvaluateConditions\<close> keeps exactly the jobs whose static condition holds (or is absent
  or deferred) and that have a step left, in order; it names the others in \<^verbatim>\<open>Skipped\<close>. A kept
  job keeps exactly the steps whose condition holds, and loses the dependencies and the
  artifacts, its own and its steps', that refer to a skipped job.\<close>

theorem EvaluateConditions_spec:
  assumes "EvaluateConditions cel p wctx = Inr r" "distinct (jobNames (pJobs p))"
  shows "set (crSkipped r) = jName ` {j \<in> set (pJobs p). \<not> runs cel p wctx j} \<and>
    pJobs (crPipeline r) = map (\<lambda>j. cleanJobRefs (set (crSkipped r)) (keptSteps cel (pEnv p) wctx j))
      (filter (runs cel p wctx) (pJobs p)) \<and>
    crPipeline r = p\<lparr>pJobs := pJobs (crPipeline r), pTopoOrder := None\<rparr>"
  using EvaluateConditions_run [OF assms] by blast

theorem EvaluateConditions_spec_witness:
  "{j \<in> set (pJobs conditionSample). runs sampleCel conditionSample emptyContext j} \<noteq> {}"
proof -
  from conditionSample_runs obtain r where r: "EvaluateConditions sampleCel conditionSample emptyContext = Inr r"
    "depPairs (pJobs (crPipeline r)) = [(''test'', []), (''ship'', [''test''])]"
    by (cases "EvaluateConditions sampleCel conditionSample emptyContext") auto
  then have "pJobs (crPipeline r) \<noteq> []" by (auto simp: depPairs_def)
  with EvaluateConditions_spec [OF r(1) conditionSample_distinct] show ?thesis
    by (auto simp: filter_empty_conv)
qed

text \<open>After \<^verbatim>\<open>EvaluateConditions\<close> the graph is still valid: every remaining dependency names
  a remaining job, there is no cycle, no artifact refers to a skipped job, and no job is
  without steps.\<close>

theorem EvaluateConditions_keeps_depsOk:
  assumes "EvaluateConditions cel p wctx = Inr r" "distinct (jobNames (pJobs p))" "depsOk (pJobs p)"
  shows "depsOk (pJobs (crPipeline r)) \<and>
    (\<forall>j\<in>set (pJobs (crPipeline r)). jSteps j \<noteq> [] \<and>
       (\<forall>a\<in>set (jArtifacts j). aFrom a \<notin> set (crSkipped r)) \<and>
       (\<forall>s\<in>set (jSteps j). \<forall>a\<in>set (sArtifacts s). aFrom a \<notin> set (crSkipped r)))"
proof
  note run = EvaluateConditions_run [OF assms(1,2)]
  let ?js = "pJobs (crPipeline r)"
  have names: "set (jobNames ?js) = jName ` {j \<in> set (pJobs p). runs cel p wctx j}"
    unfolding jobNames_def run(2) by (auto simp: image_image)
  have "set (jDependsOn j') \<subseteq> set (jobNames ?js)" if j': "j' \<in> set ?js" for j'
  proof
    fix d assume d: "d \<in> set (jDependsOn j')"
    from j' run(2) obtain j where j: "j \<in> set (pJobs p)"
      "j' = cleanJobRefs (set (crSkipped r)) (keptSteps cel (pEnv p) wctx j)" by auto
    with d have d': "d \<in> set (jDependsOn j)" "d \<notin> set (crSkipped r)" by auto
    with j(1) assms(3) obtain j0 where "j0 \<in> set (pJobs p)" "d = jName j0"
      by (fastforce simp: depsOk_def jobNames_def)
    with d'(2) run(1) show "d \<in> set (jobNames ?js)" unfolding names by blast
  qed
  moreover have "depRel ?js \<subseteq> depRel (pJobs p)" unfolding run(2) by (auto simp: depRel_def)
  then have "acyclic (depRel ?js)" using assms(3) by (auto simp: depsOk_def intro: acyclic_subset)
  ultimately show "depsOk ?js" by (simp add: depsOk_def)
  show "\<forall>j\<in>set ?js. jSteps j \<noteq> [] \<and> (\<forall>a\<in>set (jArtifacts j). aFrom a \<notin> set (crSkipped r)) \<and>
       (\<forall>s\<in>set (jSteps j). \<forall>a\<in>set (sArtifacts s). aFrom a \<notin> set (crSkipped r))"
    using keptSteps_empty unfolding run(2) by (fastforce simp: runs_def cleanJobRefs_def)
qed

theorem EvaluateConditions_keeps_depsOk_witness:
  "\<exists>r. EvaluateConditions sampleCel conditionSample emptyContext = Inr r \<and> depsOk (pJobs (crPipeline r))"
proof -
  from conditionSample_runs obtain r where r: "EvaluateConditions sampleCel conditionSample emptyContext = Inr r"
    by (cases "EvaluateConditions sampleCel conditionSample emptyContext") auto
  have "topoSort (pJobs conditionSample) (nameIndex (pJobs conditionSample)) = Inr [0, 1, 2, 3]" by code_simp
  then have "depsOk (pJobs conditionSample)" using topoSort_Inr [OF conditionSample_distinct] by blast
  from EvaluateConditions_keeps_depsOk [OF r conditionSample_distinct this] r show ?thesis by blast
qed

end
