(* ===== verification/Runner_Retry.thy ===== *)
theory Runner_Retry
  imports Pipeline_Model
begin

text \<open>
  \<^verbatim>\<open>internal/runner/node.go\<close> and \<^verbatim>\<open>solve.go\<close>: retry delays, the retry loops of jobs and
  steps, and the execution of a job step by step. BuildKit, the clock and the cancellation
  of the context are arguments: what the solver returns in attempt \<open>i\<close>, and whether the
  context is found cancelled after it.
\<close>

section \<open>Delays (node.go)\<close>

definition maxDelay :: int where
  "maxDelay = MaxInt"

definition checkedMul :: "int \<Rightarrow> int \<Rightarrow> int" where
  "checkedMul d n =
     (if n \<le> 0 then 0
      else if d \<le> 0 \<or> n = 1 then d
      else if d > MaxInt div n then maxDelay
      else wrap64 (d * n))"

definition retryDelay :: "Retry \<Rightarrow> int \<Rightarrow> int" where
  "retryDelay r attempt =
     (if rBackoff r = BackoffLinear then checkedMul (rDelay r) (wrap64 (attempt + 1))
      else if rBackoff r = BackoffExponential then
        if attempt \<ge> 63 then maxDelay
        else checkedMul (rDelay r) (wrap64 (2 ^ nat attempt))
      else rDelay r)"

section \<open>The retry loop\<close>

text \<open>
  The environment of a loop: the error of attempt \<open>i\<close> (\<open>None\<close> for success), the error of
  the context when it is found cancelled after attempt \<open>i\<close>, and its error when it is
  cancelled during the sleep after attempt \<open>i\<close>.
\<close>

record 'e retryEnv =
  reSolve :: "int \<Rightarrow> 'e option"
  reCtxErr :: "int \<Rightarrow> 'e option"
  reSleepErr :: "int \<Rightarrow> 'e option"

text \<open>What a loop does, in order.\<close>

datatype retryEvent = Solve int | RetryMsg int | Sleep int

text \<open>
  What follows a failed attempt: return with an error (\<open>Inl\<close>), or go on after a message and
  perhaps a sleep (\<open>Inr\<close>).
\<close>

definition afterFailure ::
  "Retry \<Rightarrow> 'e retryEnv \<Rightarrow> int \<Rightarrow> int \<Rightarrow> 'e \<Rightarrow> ('e \<times> retryEvent list) + retryEvent list" where
  "afterFailure r env maxAttempts attempt e =
     (if attempt = maxAttempts - 1 then Inl (e, [])
      else (case reCtxErr env attempt of
              Some c \<Rightarrow> Inl (c, [])
            | None \<Rightarrow>
                (let delay = retryDelay r attempt; msg = RetryMsg (attempt + 2) in
                 if delay > 0 then
                   (case reSleepErr env attempt of
                      Some c \<Rightarrow> Inl (c, [msg, Sleep delay])
                    | None \<Rightarrow> Inr [msg, Sleep delay])
                 else Inr [msg])))"

text \<open>
  \<^verbatim>\<open>for attempt := range maxAttempts\<close> from \<open>attempt\<close> on, with the last error so far. The
  first result is the error the loop returns.
\<close>

function retryLoop ::
  "Retry \<Rightarrow> 'e retryEnv \<Rightarrow> int \<Rightarrow> int \<Rightarrow> 'e option \<Rightarrow> 'e option \<times> retryEvent list" where
  "retryLoop r env maxAttempts attempt lastErr =
     (if attempt \<ge> maxAttempts then (lastErr, [])
      else (case reSolve env attempt of
              None \<Rightarrow> (None, [Solve attempt])
            | Some e \<Rightarrow>
                (case afterFailure r env maxAttempts attempt e of
                   Inl (c, es) \<Rightarrow> (Some c, Solve attempt # es)
                 | Inr es \<Rightarrow> map_prod id (\<lambda>es'. Solve attempt # es @ es')
                              (retryLoop r env maxAttempts (attempt + 1) (Some e)))))"
  by pat_completeness auto
termination
  by (relation "measure (\<lambda>(r, env, maxAttempts, attempt, lastErr). nat (maxAttempts - attempt))") auto

declare retryLoop.simps [simp del]

definition retryJob :: "Retry option \<Rightarrow> 'e retryEnv \<Rightarrow> 'e option \<times> retryEvent list" where
  "retryJob retry env =
     (case retry of
        None \<Rightarrow> (reSolve env 0, [Solve 0])
      | Some r \<Rightarrow> retryLoop r env (wrap64 (1 + rAttempts r)) 0 None)"

section \<open>Steps (solve.go)\<close>

text \<open>
  One step against the gateway. The four calls of an attempt may fail: building the LLB
  state and marshalling it end the step at once, solving is retried, and a result without
  a single reference ends it.
\<close>

record ('st, 'ref, 'e) stepEnv =
  seBuild :: "'st \<Rightarrow> int \<Rightarrow> 'e + 'st"
  seMarshal :: "'st \<Rightarrow> 'e option"
  seSolve :: "'st \<Rightarrow> int \<Rightarrow> 'e + ('e + 'ref)"
  seCtxErr :: "int \<Rightarrow> 'e option"
  seSleepErr :: "int \<Rightarrow> 'e option"

text \<open>The zero value of the results: no state, a nil reference and a nil error.\<close>

datatype ('st, 'ref, 'e) stepResult = StepOk 'st 'ref | StepErr 'e | StepNothing

function solveStepLoop ::
  "Retry option \<Rightarrow> ('st, 'ref, 'e) stepEnv \<Rightarrow> 'st \<Rightarrow> int \<Rightarrow> int \<Rightarrow> 'e option \<Rightarrow>
     ('st, 'ref, 'e) stepResult" where
  "solveStepLoop retry env base maxAttempts attempt lastErr =
     (if attempt \<ge> maxAttempts then (case lastErr of None \<Rightarrow> StepNothing | Some e \<Rightarrow> StepErr e)
      else (case seBuild env base attempt of
              Inl e \<Rightarrow> StepErr e
            | Inr st \<Rightarrow>
                (case seMarshal env st of
                   Some e \<Rightarrow> StepErr e
                 | None \<Rightarrow>
                     (case seSolve env st attempt of
                        Inr (Inr ref) \<Rightarrow> StepOk st ref
                      | Inr (Inl e) \<Rightarrow> StepErr e
                      | Inl e \<Rightarrow>
                          if attempt = maxAttempts - 1 then StepErr e
                          else (case seCtxErr env attempt of
                                  Some c \<Rightarrow> StepErr c
                                | None \<Rightarrow>
                                    (case (case retry of None \<Rightarrow> None
                                           | Some r \<Rightarrow> if retryDelay r attempt > 0 then seSleepErr env attempt
                                                       else None) of
                                       Some c \<Rightarrow> StepErr c
                                     | None \<Rightarrow>
                                         solveStepLoop retry env base maxAttempts (attempt + 1) (Some e)))))))"
  by pat_completeness auto
termination
  by (relation "measure (\<lambda>(retry, env, base, maxAttempts, attempt, lastErr). nat (maxAttempts - attempt))") auto

declare solveStepLoop.simps [simp del]

definition solveStep ::
  "Retry option \<Rightarrow> ('st, 'ref, 'e) stepEnv \<Rightarrow> 'st \<Rightarrow> ('st, 'ref, 'e) stepResult" where
  "solveStep retry env base =
     solveStepLoop retry env base (case retry of None \<Rightarrow> 1 | Some r \<Rightarrow> wrap64 (1 + rAttempts r)) 0 None"

record ('st, 'ref, 'e) StepExec =
  seName :: string
  seRetry :: "Retry option"
  seAllowFailure :: bool
  seEnv :: "('st, 'ref, 'e) stepEnv"

text \<open>
  The loop of \<^verbatim>\<open>stepControlBuildFunc\<close>: the state and reference of the last step that
  succeeded, and the names of the steps whose failure was allowed. A step that neither
  succeeds nor fails leaves the zero state and a nil reference behind.
\<close>

fun stepControl ::
  "'st \<Rightarrow> 'st \<Rightarrow> 'ref option \<Rightarrow> ('st, 'ref, 'e) StepExec list \<Rightarrow>
     'e + 'st \<times> 'ref option \<times> string list" where
  "stepControl zeroState cur lastRef [] = Inr (cur, lastRef, [])"
| "stepControl zeroState cur lastRef (s # ss) =
     (case solveStep (seRetry s) (seEnv s) cur of
        StepOk st ref \<Rightarrow> stepControl zeroState st (Some ref) ss
      | StepNothing \<Rightarrow> stepControl zeroState zeroState None ss
      | StepErr e \<Rightarrow>
          if seAllowFailure s
          then bindE (stepControl zeroState cur lastRef ss)
                 (\<lambda>(st, ref, allowed). Inr (st, ref, seName s # allowed))
          else Inl e)"

text \<open>\<^verbatim>\<open>cleanTimeoutError\<close>: an error is its exit code, if it has one, and the timeout detail.\<close>

record runErr =
  reExit :: "int option"
  reTimeout :: "(string \<times> string \<times> int) option"

definition cleanTimeoutError :: "runErr \<Rightarrow> string \<Rightarrow> (string, int) gomap \<Rightarrow> runErr" where
  "cleanTimeoutError err jobName stepTimeouts =
     (case reExit err of
        None \<Rightarrow> err
      | Some code \<Rightarrow>
          if code \<noteq> 124 \<and> code \<noteq> 137 then err
          else
            (let detail =
               (case stepTimeouts of
                  [(vertex, t)] \<Rightarrow>
                    (case splitOn (CHR ''/'') vertex of
                       _ # step # _ # _ \<Rightarrow> (step, t)
                     | _ \<Rightarrow> ([], 0))
                | _ \<Rightarrow> ([], 0))
             in \<lparr>reExit = Some code, reTimeout = Some (jobName, fst detail, snd detail)\<rparr>))"

section \<open>Delays are the ideal ones, capped\<close>

definition idealDelay :: "Retry \<Rightarrow> int \<Rightarrow> int" where
  "idealDelay r attempt =
     (if rBackoff r = BackoffLinear then rDelay r * (attempt + 1)
      else if rBackoff r = BackoffExponential then rDelay r * 2 ^ nat attempt
      else rDelay r)"

lemma checkedMul_min:
  assumes "0 \<le> d" "0 < n" "d \<le> MaxInt"
  shows "checkedMul d n = min (d * n) MaxInt"
proof -
  have iff: "d > MaxInt div n \<longleftrightarrow> d * n > MaxInt"
  proof -
    have "d \<le> MaxInt div n" if "d * n \<le> MaxInt"
      using zdiv_mono1 [OF that assms(2)] assms(2) by simp
    moreover have "d * n \<le> MaxInt" if "d \<le> MaxInt div n"
    proof -
      have "d * n \<le> (MaxInt div n) * n" using that assms(2) by (intro mult_right_mono) auto
      also have "\<dots> = MaxInt - MaxInt mod n" by (simp add: minus_mod_eq_div_mult)
      also have "\<dots> \<le> MaxInt" using pos_mod_sign [OF assms(2), of MaxInt] by linarith
      finally show ?thesis .
    qed
    ultimately show ?thesis by linarith
  qed
  have "wrap64 (d * n) = d * n" if "d * n \<le> MaxInt"
  proof (rule wrap64_id)
    have "0 \<le> d * n" using assms by simp
    then have "- (2 ^ 63) \<le> d * n" by (rule order_trans [rotated]) simp
    with that show "in64 (d * n)" by (simp add: in64_def)
  qed
  then show ?thesis
    using assms iff by (auto simp: checkedMul_def maxDelay_def min_def)
qed

lemma wrap64_pow: "0 \<le> a \<Longrightarrow> a < 63 \<Longrightarrow> wrap64 (2 ^ nat a) = 2 ^ nat a"
proof -
  assume a: "0 \<le> a" "a < 63"
  then have "(2 :: int) ^ nat a \<le> 2 ^ 62" by (intro power_increasing) auto
  moreover have "- (2 ^ 63) \<le> (2 :: int) ^ nat a" by (rule order_trans [of _ 0]) simp_all
  ultimately show ?thesis by (intro wrap64_id) (simp add: in64_def MaxInt_def)
qed

lemma retryDelay_min:
  assumes "0 < rDelay r" "rDelay r \<le> MaxInt" "0 \<le> attempt" "attempt < MaxInt"
  shows "retryDelay r attempt = min (idealDelay r attempt) MaxInt"
proof -
  have w: "wrap64 (attempt + 1) = attempt + 1"
    using assms(3,4) by (intro wrap64_id) (simp add: in64_def MaxInt_def)
  consider (lin) "rBackoff r = BackoffLinear"
    | (exp) "rBackoff r = BackoffExponential" "attempt < 63"
    | (cap) "rBackoff r = BackoffExponential" "attempt \<ge> 63"
    | (const) "rBackoff r \<noteq> BackoffLinear" "rBackoff r \<noteq> BackoffExponential" by linarith
  then show ?thesis
  proof cases
    case lin
    then show ?thesis using assms checkedMul_min [of "rDelay r" "attempt + 1"]
      by (simp add: retryDelay_def idealDelay_def w)
  next
    case exp
    then show ?thesis using assms checkedMul_min [of "rDelay r" "2 ^ nat attempt"] wrap64_pow [of attempt]
      by (simp add: retryDelay_def idealDelay_def backoff_defs)
  next
    case cap
    then have "(2 :: int) ^ 63 \<le> 2 ^ nat attempt" by (intro power_increasing) auto
    also have "\<dots> \<le> rDelay r * 2 ^ nat attempt" using assms(1) by simp
    finally have "MaxInt \<le> rDelay r * 2 ^ nat attempt" by (simp add: MaxInt_def)
    with cap show ?thesis by (simp add: retryDelay_def idealDelay_def maxDelay_def backoff_defs)
  next
    case const
    then show ?thesis using assms(2) by (simp add: retryDelay_def idealDelay_def)
  qed
qed

lemma idealDelay_mono:
  assumes "0 \<le> rDelay r" "0 \<le> a" "a \<le> b"
  shows "idealDelay r a \<le> idealDelay r b"
  using assms by (auto simp: idealDelay_def intro!: mult_left_mono power_increasing)

text \<open>C38: retry delays never wrap: for a positive delay the pause after an attempt is the
  delay that linear or exponential backoff prescribes, cut off at the largest duration, and
  pauses never get shorter from one attempt to a later one.\<close>

theorem retryDelay_capped:
  assumes "0 < rDelay r" "rDelay r \<le> MaxInt" "0 \<le> a" "a \<le> b" "b < MaxInt"
  shows "retryDelay r a = min (idealDelay r a) MaxInt \<and> 0 < retryDelay r a \<and> retryDelay r a \<le> retryDelay r b"
proof -
  have pos: "0 < idealDelay r a" using assms by (simp add: idealDelay_def)
  show ?thesis
    using retryDelay_min [OF assms(1,2), of a] retryDelay_min [OF assms(1,2), of b]
      idealDelay_mono [of r a b] pos assms
    by (auto simp: min_def MaxInt_def)
qed

theorem retryDelay_capped_witness:
  "retryDelay \<lparr>rAttempts = 100, rDelay = 1000, rBackoff = BackoffExponential\<rparr> 62 = MaxInt"
  using retryDelay_capped [of "\<lparr>rAttempts = 100, rDelay = 1000, rBackoff = BackoffExponential\<rparr>" 62 62]
  by (simp add: idealDelay_def MaxInt_def backoff_defs)

text \<open>With exponential backoff and a delay of zero the pause is zero for the first 63
  attempts and the largest duration, about 292 years, from the next attempt on, although
  the prescribed pause is still zero: the guard against overflow looks at the attempt only.\<close>

theorem retryDelay_zero_jump:
  assumes "rBackoff r = BackoffExponential" "rDelay r = 0" "0 \<le> attempt"
  shows "retryDelay r attempt = (if attempt < 63 then 0 else MaxInt) \<and> idealDelay r attempt = 0"
  using assms by (auto simp: retryDelay_def checkedMul_def maxDelay_def idealDelay_def backoff_defs)

theorem retryDelay_zero_jump_witness:
  "retryDelay \<lparr>rAttempts = 70, rDelay = 0, rBackoff = BackoffExponential\<rparr> 63 = MaxInt"
  using retryDelay_zero_jump [of "\<lparr>rAttempts = 70, rDelay = 0, rBackoff = BackoffExponential\<rparr>" 63] by simp

section \<open>The retry loop\<close>

definition solves :: "retryEvent list \<Rightarrow> int list" where
  "solves es = concat (map (\<lambda>e. case e of Solve i \<Rightarrow> [i] | _ \<Rightarrow> []) es)"

lemma solves_simps [simp]:
  "solves [] = []" "solves (Solve i # es) = i # solves es"
  "solves (RetryMsg i # es) = solves es" "solves (Sleep i # es) = solves es"
  by (simp_all add: solves_def)

lemma solves_append [simp]: "solves (es @ es') = solves es @ solves es'"
  by (simp add: solves_def)

lemma afterFailure_solves:
  "afterFailure r env m a e = Inl (c, es) \<Longrightarrow> solves es = []"
  "afterFailure r env m a e = Inr es \<Longrightarrow> solves es = [] \<and> a \<noteq> m - 1"
  by (auto simp: afterFailure_def Let_def split: if_splits option.splits)

lemma afterFailure_uncancelled:
  "reCtxErr env a = None \<Longrightarrow> reSleepErr env a = None \<Longrightarrow> a \<noteq> m - 1 \<Longrightarrow>
     \<exists>es. afterFailure r env m a e = Inr es"
  by (auto simp: afterFailure_def Let_def)

lemma retryLoop_step:
  assumes "retryLoop r env m a l = (res, es)" "a < m"
  obtains (stop) "solves es = [a]" "res = None \<longleftrightarrow> reSolve env a = None"
  | (more) e es' where "reSolve env a = Some e" "retryLoop r env m (a + 1) (Some e) = (res, es')"
      "solves es = a # solves es'" "a + 1 < m"
proof -
  note unfold = assms(1) [unfolded retryLoop.simps [of r env m a l]]
  show thesis
  proof (cases "reSolve env a")
    case None
    with unfold assms(2) that(1) show thesis by auto
  next
    case (Some e)
    show thesis
    proof (cases "afterFailure r env m a e")
      case (Inl ces)
      obtain c es0 where ces: "ces = (c, es0)" by (cases ces)
      with afterFailure_solves(1) [of r env m a e c es0] Inl Some unfold assms(2)
      have "res = Some c" "solves es = [a]" by auto
      with Some that(1) show thesis by simp
    next
      case (Inr es0)
      obtain res' es' where rest: "retryLoop r env m (a + 1) (Some e) = (res', es')" by fastforce
      with afterFailure_solves(2) [OF Inr] Inr Some unfold assms(2)
      have "res' = res" "solves es = a # solves es'" "a + 1 < m" by auto
      with rest Some that(2) [of e es'] show thesis by simp
    qed
  qed
qed

text \<open>The attempts of a loop are consecutive, and every one but the last failed.\<close>

lemma retryLoop_attempts:
  assumes "retryLoop r env m a l = (res, es)" "a < m"
  shows "\<exists>b. a \<le> b \<and> b < m \<and> solves es = [a..b] \<and> (\<forall>i. a \<le> i \<and> i < b \<longrightarrow> reSolve env i \<noteq> None) \<and>
     (res = None \<longleftrightarrow> reSolve env b = None)"
  using assms
proof (induction "nat (m - a)" arbitrary: a l es rule: less_induct)
  case less
  from less.prems show ?case
  proof (cases rule: retryLoop_step)
    case stop
    with less.prems(2) show ?thesis by (intro exI [of _ a]) auto
  next
    case (more e es')
    have "nat (m - (a + 1)) < nat (m - a)" using more(4) by simp
    from less.hyps [OF this more(2,4)]
    obtain b where "a + 1 \<le> b \<and> b < m \<and> solves es' = [a + 1..b] \<and>
      (\<forall>i. a + 1 \<le> i \<and> i < b \<longrightarrow> reSolve env i \<noteq> None) \<and> (res = None \<longleftrightarrow> reSolve env b = None)" ..
    then have b: "a + 1 \<le> b" "b < m" "solves es' = [a + 1..b]"
      "\<forall>i. a + 1 \<le> i \<and> i < b \<longrightarrow> reSolve env i \<noteq> None" "res = None \<longleftrightarrow> reSolve env b = None"
      by auto
    moreover have "reSolve env i \<noteq> None" if "a \<le> i" "i < b" for i
      using that b(4) more(1) by (cases "i = a") auto
    moreover have "solves es = [a..b]" using b(1,3) more(3) upto_rec1 [of a b] by simp
    ultimately show ?thesis using b by (intro exI [of _ b] conjI) simp_all
  qed
qed

text \<open>Without cancellation the loop stops at the first success or at the last attempt.\<close>

lemma retryLoop_uncancelled:
  assumes "\<And>i. reCtxErr env i = None" "\<And>i. reSleepErr env i = None" "a < m"
  shows "fst (retryLoop r env m a l) =
     (if \<exists>i. a \<le> i \<and> i < m \<and> reSolve env i = None then None else reSolve env (m - 1))"
  using assms(3)
proof (induction "nat (m - a)" arbitrary: a l rule: less_induct)
  case less
  show ?case
  proof (cases "reSolve env a")
    case None
    with less.prems show ?thesis by (subst retryLoop.simps) auto
  next
    case (Some e)
    show ?thesis
    proof (cases "a = m - 1")
      case True
      with Some have "\<not> (\<exists>i. a \<le> i \<and> i < m \<and> reSolve env i = None)" by (auto dest: antisym)
      moreover have "fst (retryLoop r env m a l) = Some e"
        using True Some less.prems by (subst retryLoop.simps) (simp add: afterFailure_def)
      ultimately show ?thesis using True Some by simp
    next
      case False
      with less.prems have lt: "a + 1 < m" "nat (m - (a + 1)) < nat (m - a)" by auto
      have step: "fst (retryLoop r env m a l) = fst (retryLoop r env m (a + 1) (Some e))"
        using Some less.prems afterFailure_uncancelled [OF assms(1,2) False, of r e]
        by (subst retryLoop.simps) auto
      have "(\<exists>i. a \<le> i \<and> i < m \<and> reSolve env i = None) \<longleftrightarrow> (\<exists>i. a + 1 \<le> i \<and> i < m \<and> reSolve env i = None)"
      proof
        assume "\<exists>i. a \<le> i \<and> i < m \<and> reSolve env i = None"
        then obtain i where "a \<le> i" "i < m" "reSolve env i = None" by blast
        moreover from this Some have "i \<noteq> a" by auto
        ultimately show "\<exists>i. a + 1 \<le> i \<and> i < m \<and> reSolve env i = None" by (intro exI [of _ i]) simp
      next
        assume "\<exists>i. a + 1 \<le> i \<and> i < m \<and> reSolve env i = None"
        then obtain i where "a + 1 \<le> i" "i < m" "reSolve env i = None" by blast
        then show "\<exists>i. a \<le> i \<and> i < m \<and> reSolve env i = None" by (intro exI [of _ i]) simp
      qed
      with step less.hyps [OF lt(2,1), of "Some e"] show ?thesis by simp
    qed
  qed
qed

text \<open>C39: \<^verbatim>\<open>retryJob\<close> with a sane retry count makes between one and \<open>1 + Attempts\<close> solves, in
  order, each after a failed one, and reports success exactly when the last of them
  succeeded. If the context is never cancelled, it succeeds as soon as one of the allowed
  attempts does, and otherwise returns the error of the last attempt.\<close>

theorem retryJob_attempts:
  assumes "0 \<le> rAttempts r" "rAttempts r < MaxInt" "retryJob (Some r) env = (res, es)"
  shows "(\<exists>b. 0 \<le> b \<and> b \<le> rAttempts r \<and> solves es = [0..b] \<and>
        (\<forall>i. 0 \<le> i \<and> i < b \<longrightarrow> reSolve env i \<noteq> None) \<and> (res = None \<longleftrightarrow> reSolve env b = None)) \<and>
    ((\<forall>i. reCtxErr env i = None \<and> reSleepErr env i = None) \<longrightarrow>
      res = (if \<exists>i. 0 \<le> i \<and> i \<le> rAttempts r \<and> reSolve env i = None then None
             else reSolve env (rAttempts r)))"
proof -
  have w: "wrap64 (1 + rAttempts r) = 1 + rAttempts r"
    using assms(1,2) by (intro wrap64_id) (simp add: in64_def MaxInt_def)
  with assms(3) have run: "retryLoop r env (1 + rAttempts r) 0 None = (res, es)" by (simp add: retryJob_def)
  have lt: "0 < 1 + rAttempts r" using assms(1) by simp
  have bound: "i < 1 + rAttempts r \<longleftrightarrow> i \<le> rAttempts r" for i by auto
  show ?thesis
    using retryLoop_attempts [OF run lt] retryLoop_uncancelled [of env 0 "1 + rAttempts r" r None] run lt
    unfolding bound by auto
qed

theorem retryJob_attempts_witness:
  "fst (retryJob (Some \<lparr>rAttempts = 2, rDelay = 5, rBackoff = BackoffLinear\<rparr>)
      \<lparr>reSolve = (\<lambda>i. if i < 2 then Some ''exit 1'' else None), reCtxErr = (\<lambda>_. None), reSleepErr = (\<lambda>_. None)\<rparr>) = None"
proof -
  let ?r = "\<lparr>rAttempts = 2, rDelay = 5, rBackoff = BackoffLinear\<rparr>"
  let ?e = "\<lparr>reSolve = (\<lambda>i :: int. if i < 2 then Some ''exit 1'' else None), reCtxErr = (\<lambda>_. None), reSleepErr = (\<lambda>_. None)\<rparr>"
  obtain res es where run: "retryJob (Some ?r) ?e = (res, es)" by fastforce
  have "\<exists>i. 0 \<le> i \<and> i \<le> rAttempts ?r \<and> reSolve ?e i = None" by (intro exI [of _ 2]) simp
  with retryJob_attempts [of ?r ?e res es] run show ?thesis by (simp add: MaxInt_def)
qed

text \<open>The retry count is not bounded by validation, and \<open>1 + Attempts\<close> wraps for the
  largest one: the loop then runs no attempt at all and the job is reported as successful
  without having been solved.\<close>

theorem retryJob_overflow:
  assumes "rAttempts r = MaxInt"
  shows "retryJob (Some r) env = (None, [])"
proof -
  have "wrap64 (1 + MaxInt) = - (2 ^ 63)" by (simp add: wrap64_def MaxInt_def)
  with assms show ?thesis by (simp add: retryJob_def) (subst retryLoop.simps, simp)
qed

theorem retryJob_overflow_witness:
  "retryJob (Some \<lparr>rAttempts = 9223372036854775807, rDelay = 0, rBackoff = []\<rparr>)
     \<lparr>reSolve = (\<lambda>_. Some ''exit 1''), reCtxErr = (\<lambda>_. None), reSleepErr = (\<lambda>_. None)\<rparr> = (None, [])"
  by (rule retryJob_overflow) (simp add: MaxInt_def)

section \<open>Steps\<close>

lemma stepControl_append:
  "stepControl z b r (xs @ ys) =
     bindE (stepControl z b r xs) (\<lambda>(cur, ref, al).
     bindE (stepControl z cur ref ys) (\<lambda>(st, rf, al2). Inr (st, rf, al @ al2)))"
proof (induction xs arbitrary: b r)
  case Nil
  show ?case by (cases "stepControl z b r ys") auto
next
  case (Cons s ss)
  show ?case
    by (cases "solveStep (seRetry s) (seEnv s) b")
      (auto simp: Cons.IH bindE_def split: sum.splits)
qed

text \<open>A failing step. If a step fails after the earlier ones ran, the job fails with that
  error unless the step allows failure; then it is recorded, and the remaining steps run
  from the state before it, so that the job's final state and reference are those of the
  job without that step.\<close>

theorem stepControl_failure:
  assumes "stepControl z base None ss = Inr (cur, ref, allowed)"
    and "solveStep (seRetry s) (seEnv s) cur = StepErr e"
  shows "stepControl z base None (ss @ s # ts) =
    (if seAllowFailure s
     then map_sum id (\<lambda>(st, rf, al). (st, rf, allowed @ seName s # drop (length allowed) al))
            (stepControl z base None (ss @ ts))
     else Inl e)"
  using assms
  by (cases "stepControl z cur ref ts") (auto simp: stepControl_append)

definition sampleStepEnv :: "int \<Rightarrow> (int, int, string) stepEnv" where
  "sampleStepEnv ok =
     \<lparr>seBuild = (\<lambda>st _. Inr (st + 1)), seMarshal = (\<lambda>_. None),
      seSolve = (\<lambda>st i. if i < ok then Inl ''exit 1'' else Inr (Inr st)),
      seCtxErr = (\<lambda>_. None), seSleepErr = (\<lambda>_. None)\<rparr>"

definition stepExec :: "string \<Rightarrow> bool \<Rightarrow> int \<Rightarrow> (int, int, string) StepExec" where
  "stepExec name allow ok = \<lparr>seName = name, seRetry = None, seAllowFailure = allow, seEnv = sampleStepEnv ok\<rparr>"

theorem stepControl_failure_witness:
  "stepControl 0 10 None ([stepExec ''a'' False 0] @ stepExec ''flaky'' True 1 # [stepExec ''b'' False 0]) =
   Inr (12, Some 12, [''flaky''])"
proof -
  have a: "stepControl 0 10 None [stepExec ''a'' False 0] = Inr (11, Some 11, [])" by code_simp
  have s: "solveStep (seRetry (stepExec ''flaky'' True 1)) (seEnv (stepExec ''flaky'' True 1)) 11 = StepErr ''exit 1''"
    by code_simp
  have b: "stepControl 0 10 None ([stepExec ''a'' False 0] @ [stepExec ''b'' False 0]) = Inr (12, Some 12, [])"
    by code_simp
  have "seAllowFailure (stepExec ''flaky'' True 1)" "seName (stepExec ''flaky'' True 1) = ''flaky''"
    by (simp_all add: stepExec_def)
  then show ?thesis unfolding stepControl_failure [OF a s, of "[stepExec ''b'' False 0]"] b by simp
qed

end
