(* ===== verification/Runner_Dag.thy ===== *)
theory Runner_Dag
  imports Dep_Graph Conditional Runner_Retry
begin

text \<open>
  \<^verbatim>\<open>internal/runner/runner.go\<close>: the jobs handed to the runner, the node index that
  \<^verbatim>\<open>buildDAG\<close> makes of them and its rejection of cycles by the search of \<open>Dep_Graph\<close>. The
  map of nodes is walked in an order that Go does not fix; that order is an argument.
\<close>

section \<open>Jobs of the runner (runnermodel/types.go)\<close>

text \<open>
  LLB definitions are opaque values of type \<open>'def\<close>. The functions that build the steps of a
  step-controlled job are part of the environment of the scheduler; here \<open>rjSteps\<close> tells
  whether the slice is non-nil.
\<close>

record ('ast, 'def) RunnerJob =
  rjName :: string
  rjDefinition :: "'def option"
  rjDependsOn :: "string list"
  rjWhen :: "'ast When option"
  rjEnv :: "(string, string) gomap"
  rjMatrix :: "(string, string) gomap"
  rjOutputDef :: "'def option"
  rjSkippedSteps :: "string list"
  rjTimeout :: int
  rjRetry :: "Retry option"
  rjStepTimeouts :: "(string, int) gomap"
  rjSteps :: bool

type_synonym ('ast, 'def) dag = "(string, ('ast, 'def) RunnerJob) gomap"

section \<open>The node index (runner.go)\<close>

fun addNodes :: "('ast, 'def) dag \<Rightarrow> ('ast, 'def) RunnerJob list \<Rightarrow> err + ('ast, 'def) dag" where
  "addNodes nodes [] = Inr nodes"
| "addNodes nodes (j # js) =
     (if map_of nodes (rjName j) \<noteq> None then Inl (Val ErrDuplicateJob)
      else addNodes (mput (rjName j) j nodes) js)"

definition checkDeps :: "('ast, 'def) dag \<Rightarrow> ('ast, 'def) RunnerJob list \<Rightarrow> err option" where
  "checkDeps nodes jobs =
     firstErr (\<lambda>j. firstErr (\<lambda>dep. failIf (map_of nodes dep = None) (Val ErrUnknownDep)) (rjDependsOn j)) jobs"

definition nodeDeps :: "('ast, 'def) dag \<Rightarrow> string \<Rightarrow> string list" where
  "nodeDeps nodes n = (case map_of nodes n of None \<Rightarrow> [] | Some j \<Rightarrow> rjDependsOn j)"

definition detectCycles :: "string list \<Rightarrow> ('ast, 'def) dag \<Rightarrow> err option" where
  "detectCycles order nodes =
     errOf (visitAll order (\<lambda>n. map Inr (nodeDeps nodes n)) (map Inr order) initDfs)"

text \<open>The iteration order is computed from the finished map by the argument \<open>order\<close>.\<close>

definition buildDAG ::
  "(('ast, 'def) dag \<Rightarrow> string list) \<Rightarrow> ('ast, 'def) RunnerJob list \<Rightarrow> err + ('ast, 'def) dag" where
  "buildDAG order jobs =
     bindE (addNodes [] jobs)
       (\<lambda>nodes. guardE (checkDeps nodes jobs)
                  (guardE (detectCycles (order nodes) nodes) (Inr nodes)))"

section \<open>What an accepted graph is\<close>

abbreviation rjNames :: "('ast, 'def) RunnerJob list \<Rightarrow> string list" where
  "rjNames jobs \<equiv> map rjName jobs"

definition runRel :: "('ast, 'def) dag \<Rightarrow> (string \<times> string) set" where
  "runRel nodes = {(n, d). n \<in> fst ` set nodes \<and> d \<in> set (nodeDeps nodes n)}"

text \<open>An iteration of a map visits every key once.\<close>

definition mapOrder :: "(('ast, 'def) dag \<Rightarrow> string list) \<Rightarrow> bool" where
  "mapOrder order \<longleftrightarrow> (\<forall>nodes. set (order nodes) = fst ` set nodes)"

definition dagOk :: "('ast, 'def) dag \<Rightarrow> bool" where
  "dagOk nodes \<longleftrightarrow> wfmap nodes \<and> runRel nodes \<subseteq> UNIV \<times> fst ` set nodes \<and> acyclic (runRel nodes)"

lemma addNodes_result:
  "addNodes nodes jobs =
     (if distinct (rjNames jobs) \<and> fst ` set nodes \<inter> set (rjNames jobs) = {}
      then Inr (nodes @ map (\<lambda>j. (rjName j, j)) jobs) else Inl (Val ErrDuplicateJob))"
proof (induction nodes jobs rule: addNodes.induct)
  case (2 nodes j js)
  have new: "mput (rjName j) j nodes = nodes @ [(rjName j, j)]" if "rjName j \<notin> fst ` set nodes"
    using that by (induction nodes) auto
  show ?case
  proof (cases "map_of nodes (rjName j)")
    case None
    then have "rjName j \<notin> fst ` set nodes" by (simp add: map_of_eq_None_iff)
    with 2 None new show ?thesis by auto
  next
    case (Some x)
    then have "rjName j \<in> fst ` set nodes" by (auto dest: map_of_SomeD simp: rev_image_eqI)
    with Some show ?thesis by auto
  qed
qed simp

lemma checkDeps_None:
  "checkDeps nodes jobs = None \<longleftrightarrow> (\<forall>j\<in>set jobs. set (rjDependsOn j) \<subseteq> fst ` set nodes)"
  by (auto simp: checkDeps_def map_of_eq_None_iff)

lemma checkDeps_Some: "checkDeps nodes jobs = Some e \<Longrightarrow> e = Val ErrUnknownDep"
  by (auto simp: checkDeps_def dest!: firstErr_Some)

lemma nodeDeps_job:
  "distinct (rjNames jobs) \<Longrightarrow> j \<in> set jobs \<Longrightarrow>
     nodeDeps (map (\<lambda>j. (rjName j, j)) jobs) (rjName j) = rjDependsOn j"
  by (simp add: nodeDeps_def map_of_eq_Some_iff comp_def image_iff)

text \<open>The search runs over the names of the map, in any order.\<close>

lemma detectCycles_graph:
  assumes "runRel nodes \<subseteq> UNIV \<times> fst ` set nodes" "set order = fst ` set nodes"
  shows "dep_graph order (\<lambda>n. map Inr (nodeDeps nodes n))"
    and "dep_graph.edge order (\<lambda>n. map Inr (nodeDeps nodes n)) = runRel nodes"
proof -
  show "dep_graph order (\<lambda>n. map Inr (nodeDeps nodes n))"
    using assms by unfold_locales (auto simp: runRel_def)
  then show "dep_graph.edge order (\<lambda>n. map Inr (nodeDeps nodes n)) = runRel nodes"
    using assms(2) by (auto simp: dep_graph.edge_def runRel_def)
qed

lemma detectCycles_result:
  assumes "runRel nodes \<subseteq> UNIV \<times> fst ` set nodes" "set order = fst ` set nodes"
  shows "detectCycles order nodes =
    (if acyclic (runRel nodes) then None else Some (Val ErrCycleDetected))"
proof -
  let ?deps = "\<lambda>n. map Inr (nodeDeps nodes n) :: (err + string) list"
  note g = detectCycles_graph [OF assms]
  have iff: "(\<exists>st. visitAll order ?deps (map Inr order) initDfs = Inr st) \<longleftrightarrow> acyclic (runRel nodes)"
    using dep_graph.visitAll_iff [OF g(1)] g(2) by auto
  show ?thesis
  proof (cases "visitAll order ?deps (map Inr order) initDfs")
    case (Inl e)
    have "Inl e \<in> set (map Inr order) \<union> (\<Union>i\<in>set order. set (?deps i)) \<or>
        e = Val ErrCycleDetected \<and> \<not> acyclic (runRel nodes)"
      unfolding g(2) [symmetric]
      by (rule dep_graph.visitAll_error [OF g(1) Inl]) (auto simp: initDfs_def)
    then show ?thesis using Inl by (auto simp: detectCycles_def)
  next
    case (Inr st)
    then show ?thesis using iff by (auto simp: detectCycles_def)
  qed
qed

lemma runRel_jobs:
  assumes "distinct (rjNames jobs)"
  shows "runRel (map (\<lambda>j. (rjName j, j)) jobs) =
    {(rjName j, d) | j d. j \<in> set jobs \<and> d \<in> set (rjDependsOn j)}"
proof (intro set_eqI iffI)
  fix p assume "p \<in> runRel (map (\<lambda>j. (rjName j, j)) jobs)"
  then show "p \<in> {(rjName j, d) | j d. j \<in> set jobs \<and> d \<in> set (rjDependsOn j)}"
    using nodeDeps_job [OF assms] by (auto simp: runRel_def)
next
  fix p assume "p \<in> {(rjName j, d) | j d. j \<in> set jobs \<and> d \<in> set (rjDependsOn j)}"
  then obtain j d where "p = (rjName j, d)" "j \<in> set jobs" "d \<in> set (rjDependsOn j)" by blast
  then show "p \<in> runRel (map (\<lambda>j. (rjName j, j)) jobs)"
    using nodeDeps_job [OF assms] by (auto simp: runRel_def image_image)
qed

lemma buildDAG_equation:
  fixes jobs :: "('ast, 'def) RunnerJob list"
  assumes "mapOrder order"
  shows "buildDAG order jobs =
    (if \<not> distinct (rjNames jobs) then Inl (Val ErrDuplicateJob)
     else if \<exists>j\<in>set jobs. \<not> set (rjDependsOn j) \<subseteq> set (rjNames jobs) then Inl (Val ErrUnknownDep)
     else if \<not> acyclic {(rjName j, d) | j d. j \<in> set jobs \<and> d \<in> set (rjDependsOn j)}
       then Inl (Val ErrCycleDetected)
     else Inr (map (\<lambda>j. (rjName j, j)) jobs)) \<and>
   (\<forall>nodes. buildDAG order jobs = Inr nodes \<longrightarrow> dagOk nodes)"
proof (cases "distinct (rjNames jobs)")
  case False
  then show ?thesis by (simp add: buildDAG_def addNodes_result)
next
  case True
  let ?nodes = "map (\<lambda>j. (rjName j, j)) jobs :: ('ast, 'def) dag"
  have keys: "fst ` set ?nodes = set (rjNames jobs)" by force
  have order: "set (order ?nodes) = fst ` set ?nodes" using assms by (simp add: mapOrder_def)
  have wf: "wfmap ?nodes" using True by (simp add: wfmap_def comp_def)
  show ?thesis
  proof (cases "\<exists>j\<in>set jobs. \<not> set (rjDependsOn j) \<subseteq> set (rjNames jobs)")
    case True': True
    then obtain e where "checkDeps ?nodes jobs = Some e"
      using checkDeps_None [of ?nodes jobs] keys by (cases "checkDeps ?nodes jobs") auto
    with checkDeps_Some [OF this] True True' show ?thesis
      by (simp add: buildDAG_def addNodes_result)
  next
    case False
    then have none: "checkDeps ?nodes jobs = None" using checkDeps_None [of ?nodes jobs] keys by auto
    have closed: "runRel ?nodes \<subseteq> UNIV \<times> fst ` set ?nodes"
      using False unfolding keys runRel_jobs [OF True] by auto
    show ?thesis
      using True False none wf closed detectCycles_result [OF closed order]
      by (auto simp: buildDAG_def addNodes_result dagOk_def runRel_jobs [OF True] simp del: split_paired_Ex)
  qed
qed

lemma buildDAG_Inr:
  assumes "mapOrder order" "buildDAG order jobs = Inr nodes"
  shows "dagOk nodes" "nodes = map (\<lambda>j. (rjName j, j)) jobs"
  using buildDAG_equation [OF assms(1), of jobs] assms(2) by (auto split: if_splits)

text \<open>\<^verbatim>\<open>buildDAG\<close>, in whatever order Go walks the map: a duplicate name is reported first,
  then an unknown dependency, then a cycle, each with its own error; otherwise the index
  holds every job under its name, every dependency is a key and the graph is acyclic.\<close>

theorem buildDAG_spec:
  fixes jobs :: "('ast, 'def) RunnerJob list"
  assumes "mapOrder order"
  shows "buildDAG order jobs =
    (if \<not> distinct (rjNames jobs) then Inl (Val ErrDuplicateJob)
     else if \<exists>j\<in>set jobs. \<not> set (rjDependsOn j) \<subseteq> set (rjNames jobs) then Inl (Val ErrUnknownDep)
     else if \<not> acyclic {(rjName j, d) | j d. j \<in> set jobs \<and> d \<in> set (rjDependsOn j)}
       then Inl (Val ErrCycleDetected)
     else Inr (map (\<lambda>j. (rjName j, j)) jobs)) \<and>
   (\<forall>nodes. buildDAG order jobs = Inr nodes \<longrightarrow> dagOk nodes)"
  by (rule buildDAG_equation [OF assms])

definition plainJob :: "string \<Rightarrow> string list \<Rightarrow> (string, nat) RunnerJob" where
  "plainJob n deps =
     \<lparr>rjName = n, rjDefinition = Some 0, rjDependsOn = deps, rjWhen = None, rjEnv = [], rjMatrix = [],
      rjOutputDef = None, rjSkippedSteps = [], rjTimeout = 0, rjRetry = None, rjStepTimeouts = [],
      rjSteps = False\<rparr>"

lemma mapOrder_keys: "mapOrder gokeys"
  by (simp add: mapOrder_def)

theorem buildDAG_spec_witness:
  "buildDAG gokeys [plainJob ''a'' [''b''], plainJob ''b'' [''a'']] = Inl (Val ErrCycleDetected)"
proof -
  let ?jobs = "[plainJob ''a'' [''b''], plainJob ''b'' [''a'']]"
  let ?r = "{(rjName j, d) | j d. j \<in> set ?jobs \<and> d \<in> set (rjDependsOn j)}"
  have "(''a'', ''b'') \<in> ?r" "(''b'', ''a'') \<in> ?r"
    by (rule CollectI, rule exI [of _ "plainJob ''a'' [''b'']"], simp add: plainJob_def)
      (rule CollectI, rule exI [of _ "plainJob ''b'' [''a'']"], simp add: plainJob_def)
  then have "\<not> acyclic ?r" by (meson acyclic_def trancl.intros)
  then show ?thesis
    using buildDAG_spec [OF mapOrder_keys, of ?jobs] by (simp add: plainJob_def)
qed

end
