(* ===== verification/Runner_Sched.thy ===== *)
theory Runner_Sched
  imports Runner_Dag
begin

text \<open>
  \<^verbatim>\<open>runNode\<close> of \<^verbatim>\<open>internal/runner/node.go\<close> run by one goroutine per job, as
  \<^verbatim>\<open>Run\<close> starts them. A goroutine is cut at the points where another one can be observed:
  the receive on a dependency's \<^verbatim>\<open>done\<close> channel, the semaphore, the solve, the deferred
  release and the deferred close. A schedule is a list of events; every interleaving and
  every outcome of a \<^verbatim>\<open>select\<close> is some schedule.

  Not in the repository, and hence arguments: BuildKit's answers, the clock (\<open>nodeEnv\<close>) and
  the weighted semaphore, of which the code uses that \<^verbatim>\<open>Acquire\<close> succeeds only below the
  limit and does succeed, for some waiter, when a slot is free (\<open>semaphoreLaw\<close>).
\<close>

section \<open>Configuration\<close>

text \<open>
  The errors of a solve, and of a node. A wrapped error keeps the error it wraps; messages
  are not modelled. \<open>CtxErr\<close> is the error of a cancelled context.
\<close>

datatype solveErr = NilDefinition | SolverErr runErr | CtxErr

datatype nodeErr =
    DepErr string nodeErr | WaitErr | WhenErr whenErr | SemErr | JobTimeoutErr int
  | ExitErr int solveErr | JobErr solveErr | OutputErr

text \<open>
  What BuildKit and the clock do to one node: the result of \<^verbatim>\<open>solver.Solve\<close>, or of
  \<^verbatim>\<open>solver.Build\<close> with the outputs read inside the gateway, in every attempt; when the
  context is found cancelled; whether the job's timer fired; the file that
  \<^verbatim>\<open>extractOutputs\<close> reads.
\<close>

record nodeEnv =
  neSolve :: "int \<Rightarrow> runErr option"
  neBuild :: "int \<Rightarrow> runErr + (string, string) gomap"
  neCtxErr :: "int \<Rightarrow> bool"
  neSleepErr :: "int \<Rightarrow> bool"
  neTimedOut :: bool
  neExtract :: "(string, string) gomap option"

text \<open>
  \<open>rcEnv n c\<close> is the environment of node \<open>n\<close> when its solve ends with the context cancelled
  (\<open>c\<close>) or not; \<open>rcGrant limit held\<close> tells whether the semaphore grants one more slot;
  \<open>rcParentCancel\<close> tells whether the caller's context may be cancelled during the run.
\<close>

record ('ast, 'def) runConfig =
  rcCel :: "'ast Cel"
  rcNodes :: "('ast, 'def) dag"
  rcLimit :: int
  rcGrant :: "int \<Rightarrow> nat \<Rightarrow> bool"
  rcWhenCtx :: "Context option"
  rcEnv :: "string \<Rightarrow> bool \<Rightarrow> nodeEnv"
  rcFailFast :: bool
  rcParentCancel :: bool

definition semaphoreLaw :: "('ast, 'def) runConfig \<Rightarrow> bool" where
  "semaphoreLaw cfg \<longleftrightarrow> (\<forall>limit held. rcGrant cfg limit held \<longleftrightarrow> int held < limit)"

text \<open>The limit that \<^verbatim>\<open>Run\<close> gives to the semaphore.\<close>

definition semLimit :: "int \<Rightarrow> nat \<Rightarrow> int" where
  "semLimit parallelism njobs = (if parallelism > 0 then parallelism else int njobs)"

section \<open>State\<close>

text \<open>
  Where a goroutine stands: before the receive on the first of the remaining dependencies
  (\<open>Waiting\<close>; with none left it is about to evaluate its condition), in \<^verbatim>\<open>sem.Acquire\<close>,
  holding a slot and solving, before the deferred \<^verbatim>\<open>sem.Release\<close>, before the deferred
  \<^verbatim>\<open>close(node.done)\<close>, or returned.
\<close>

datatype phase = Waiting "string list" | Acquiring | Solving | Releasing | Closing | Returned

record nodeResult =
  resErr :: "nodeErr option"
  resSkipped :: bool
  resOutputs :: "(string, string) gomap option"

definition freshResult :: nodeResult where
  "freshResult = \<lparr>resErr = None, resSkipped = False, resOutputs = None\<rparr>"

datatype progMsg =
    JobSkippedMsg string | JobTimeoutMsg string int | StepSkippedMsg string string
  | JobRetryMsg string int

record dagState =
  phaseOf :: "string \<Rightarrow> phase"
  resultOf :: "string \<Rightarrow> nodeResult"
  held :: nat
  cancelled :: bool
  sent :: "progMsg list"
  errs :: "nodeErr list"

definition initState :: "('ast, 'def) runConfig \<Rightarrow> dagState" where
  "initState cfg =
     \<lparr>phaseOf = (\<lambda>n. Waiting (nodeDeps (rcNodes cfg) n)), resultOf = (\<lambda>_. freshResult),
      held = 0, cancelled = False, sent = [], errs = []\<rparr>"

section \<open>The parts of runNode\<close>

definition collectDepOutputs ::
  "(string \<Rightarrow> (string, string) gomap option) \<Rightarrow> string list \<Rightarrow> (string, (string, string) gomap) gomap" where
  "collectDepOutputs outs deps =
     fold (\<lambda>dep m. case outs dep of None \<Rightarrow> m | Some o' \<Rightarrow> mput dep o' m) deps []"

text \<open>Lines 50 to 70: the deferred condition. Without one, or without a context, the job runs.\<close>

definition deferredVerdict ::
  "('ast, 'def) runConfig \<Rightarrow> ('ast, 'def) RunnerJob \<Rightarrow> (string \<Rightarrow> (string, string) gomap option) \<Rightarrow>
     whenErr + bool" where
  "deferredVerdict cfg job outs =
     (case (rjWhen job, rcWhenCtx cfg) of
        (Some w, Some ctx) \<Rightarrow>
          EvaluateDeferred (rcCel cfg) w (ctx\<lparr>wcPipelineEnv := rjEnv job, wcMatrix := rjMatrix job\<rparr>)
            (collectDepOutputs outs (rjDependsOn job))
      | _ \<Rightarrow> Inr True)"

text \<open>The closure \<^verbatim>\<open>solve\<close> of \<^verbatim>\<open>retryJob\<close>: step-controlled or monolithic.\<close>

definition solveAttempt :: "('ast, 'def) RunnerJob \<Rightarrow> nodeEnv \<Rightarrow> int \<Rightarrow> solveErr option" where
  "solveAttempt job env attempt =
     (if rjSteps job then
        (case neBuild env attempt of Inl e \<Rightarrow> Some (SolverErr e) | Inr _ \<Rightarrow> None)
      else if rjDefinition job = None then Some NilDefinition
      else map_option SolverErr (neSolve env attempt))"

definition jobRetryEnv :: "('ast, 'def) RunnerJob \<Rightarrow> nodeEnv \<Rightarrow> solveErr retryEnv" where
  "jobRetryEnv job env =
     \<lparr>reSolve = solveAttempt job env,
      reCtxErr = (\<lambda>i. if neCtxErr env i then Some CtxErr else None),
      reSleepErr = (\<lambda>i. if neSleepErr env i then Some CtxErr else None)\<rparr>"

text \<open>The outputs that \<^verbatim>\<open>solveJobSteps\<close> stored in its last, successful, attempt.\<close>

definition stepOutputs :: "('ast, 'def) RunnerJob \<Rightarrow> nodeEnv \<Rightarrow> retryEvent list \<Rightarrow> (string, string) gomap option" where
  "stepOutputs job env es =
     (if rjSteps job then
        (case rev [i. Solve i \<leftarrow> es] of
           [] \<Rightarrow> None
         | i # _ \<Rightarrow> (case neBuild env i of Inl _ \<Rightarrow> None | Inr outs \<Rightarrow> Some outs))
      else None)"

definition exitCode :: "solveErr \<Rightarrow> int option" where
  "exitCode e = (case e of SolverErr r \<Rightarrow> reExit r | _ \<Rightarrow> None)"

text \<open>The error branch after \<^verbatim>\<open>retryJob\<close>.\<close>

definition classifyErr ::
  "('ast, 'def) RunnerJob \<Rightarrow> nodeEnv \<Rightarrow> solveErr \<Rightarrow> nodeErr \<times> progMsg list" where
  "classifyErr job env e =
     (if rjTimeout job > 0 \<and> neTimedOut env
      then (JobTimeoutErr (rjTimeout job), [JobTimeoutMsg (rjName job) (rjTimeout job)])
      else
        (let e' = (if rjStepTimeouts job \<noteq> [] then
                     (case e of SolverErr r \<Rightarrow> SolverErr (cleanTimeoutError r (rjName job) (rjStepTimeouts job))
                      | _ \<Rightarrow> e)
                   else e)
         in (case exitCode e' of Some code \<Rightarrow> (ExitErr code e', []) | None \<Rightarrow> (JobErr e', []))))"

text \<open>From \<^verbatim>\<open>retryJob\<close> to the end of the function: the fields of the node and the messages.\<close>

definition solveNode ::
  "('ast, 'def) RunnerJob \<Rightarrow> nodeEnv \<Rightarrow> nodeResult \<times> progMsg list" where
  "solveNode job env =
     (let r = retryJob (rjRetry job) (jobRetryEnv job env);
          retries = [JobRetryMsg (rjName job) k. RetryMsg k \<leftarrow> snd r] in
      case fst r of
        Some e \<Rightarrow>
          (let c = classifyErr job env e in
           (freshResult\<lparr>resErr := Some (fst c)\<rparr>, retries @ snd c))
      | None \<Rightarrow>
          (let skips = map (StepSkippedMsg (rjName job)) (rjSkippedSteps job);
               outs = stepOutputs job env (snd r) in
           if outs = None \<and> rjOutputDef job \<noteq> None then
             (case neExtract env of
                None \<Rightarrow> (freshResult\<lparr>resErr := Some OutputErr\<rparr>, retries @ skips)
              | Some o' \<Rightarrow> (freshResult\<lparr>resOutputs := Some o'\<rparr>, retries @ skips))
           else (freshResult\<lparr>resOutputs := outs\<rparr>, retries @ skips)))"

section \<open>Events\<close>

datatype event =
    DepDone string | DepCancelled string | EvalWhen string | Acquire string | AcquireFail string
  | SolveDone string | Release string | CloseDone string | Cancel

text \<open>Leave \<^verbatim>\<open>runNode\<close> with the given fields, on the way to its deferred calls.\<close>

definition moveTo :: "string \<Rightarrow> phase \<Rightarrow> nodeResult \<Rightarrow> progMsg list \<Rightarrow> dagState \<Rightarrow> dagState" where
  "moveTo n p r ms s =
     s\<lparr>phaseOf := (phaseOf s)(n := p), resultOf := (resultOf s)(n := r), sent := sent s @ ms\<rparr>"

definition failWith :: "nodeErr \<Rightarrow> nodeResult" where
  "failWith e = freshResult\<lparr>resErr := Some e\<rparr>"

definition skippedResult :: nodeResult where
  "skippedResult = freshResult\<lparr>resSkipped := True\<rparr>"

text \<open>The receive from \<^verbatim>\<open>cfg.nodes[dep].done\<close> and the two checks after it.\<close>

definition depDone :: "string \<Rightarrow> string \<Rightarrow> string list \<Rightarrow> dagState \<Rightarrow> dagState" where
  "depDone n d ds s =
     (case resErr (resultOf s d) of
        Some e \<Rightarrow> moveTo n Closing (failWith (DepErr d e)) [] s
      | None \<Rightarrow>
          if resSkipped (resultOf s d) then moveTo n Closing skippedResult [JobSkippedMsg n] s
          else moveTo n (Waiting ds) (resultOf s n) [] s)"

definition evalWhen :: "('ast, 'def) runConfig \<Rightarrow> ('ast, 'def) RunnerJob \<Rightarrow> string \<Rightarrow> dagState \<Rightarrow> dagState" where
  "evalWhen cfg job n s =
     (case deferredVerdict cfg job (\<lambda>d. resOutputs (resultOf s d)) of
        Inl e \<Rightarrow> moveTo n Closing (failWith (WhenErr e)) [] s
      | Inr False \<Rightarrow> moveTo n Closing skippedResult [JobSkippedMsg n] s
      | Inr True \<Rightarrow> moveTo n Acquiring (resultOf s n) [] s)"

text \<open>
  One event of the schedule; \<open>None\<close> when it is not enabled. The context is cancelled by the
  caller, or by the error group of a fail-fast run once a goroutine has returned an error.
\<close>

fun nodeEvent ::
  "('ast, 'def) runConfig \<Rightarrow> ('ast, 'def) RunnerJob \<Rightarrow> string \<Rightarrow> event \<Rightarrow> dagState \<Rightarrow> dagState option" where
  "nodeEvent cfg job n (DepDone _) s =
     (case phaseOf s n of
        Waiting (d # ds) \<Rightarrow> if phaseOf s d = Returned then Some (depDone n d ds s) else None
      | _ \<Rightarrow> None)"
| "nodeEvent cfg job n (DepCancelled _) s =
     (case phaseOf s n of
        Waiting (d # ds) \<Rightarrow>
          if cancelled s then Some (moveTo n Closing (failWith WaitErr) [] s) else None
      | _ \<Rightarrow> None)"
| "nodeEvent cfg job n (EvalWhen _) s =
     (if phaseOf s n = Waiting [] then Some (evalWhen cfg job n s) else None)"
| "nodeEvent cfg job n (Acquire _) s =
     (if phaseOf s n = Acquiring \<and> rcGrant cfg (rcLimit cfg) (held s)
      then Some ((moveTo n Solving (resultOf s n) [] s)\<lparr>held := held s + 1\<rparr>) else None)"
| "nodeEvent cfg job n (AcquireFail _) s =
     (if phaseOf s n = Acquiring \<and> cancelled s
      then Some (moveTo n Closing (failWith SemErr) [] s) else None)"
| "nodeEvent cfg job n (SolveDone _) s =
     (if phaseOf s n = Solving then
        (let r = solveNode job (rcEnv cfg n (cancelled s)) in Some (moveTo n Releasing (fst r) (snd r) s))
      else None)"
| "nodeEvent cfg job n (Release _) s =
     (if phaseOf s n = Releasing
      then Some ((moveTo n Closing (resultOf s n) [] s)\<lparr>held := held s - 1\<rparr>) else None)"
| "nodeEvent cfg job n (CloseDone _) s =
     (if phaseOf s n = Closing
      then Some ((moveTo n Returned (resultOf s n) [] s)
                   \<lparr>errs := errs s @ (case resErr (resultOf s n) of None \<Rightarrow> [] | Some e \<Rightarrow> [e])\<rparr>)
      else None)"
| "nodeEvent cfg job n Cancel s = None"

fun eventNode :: "event \<Rightarrow> string option" where
  "eventNode (DepDone n) = Some n"
| "eventNode (DepCancelled n) = Some n"
| "eventNode (EvalWhen n) = Some n"
| "eventNode (Acquire n) = Some n"
| "eventNode (AcquireFail n) = Some n"
| "eventNode (SolveDone n) = Some n"
| "eventNode (Release n) = Some n"
| "eventNode (CloseDone n) = Some n"
| "eventNode Cancel = None"

definition schedStep :: "('ast, 'def) runConfig \<Rightarrow> event \<Rightarrow> dagState \<Rightarrow> dagState option" where
  "schedStep cfg ev s =
     (case eventNode ev of
        None \<Rightarrow>
          if \<not> cancelled s \<and> (rcParentCancel cfg \<or> rcFailFast cfg \<and> errs s \<noteq> [])
          then Some (s\<lparr>cancelled := True\<rparr>) else None
      | Some n \<Rightarrow>
          (case map_of (rcNodes cfg) n of None \<Rightarrow> None | Some job \<Rightarrow> nodeEvent cfg job n ev s))"

fun schedRun :: "('ast, 'def) runConfig \<Rightarrow> event list \<Rightarrow> dagState \<Rightarrow> dagState option" where
  "schedRun cfg [] s = Some s"
| "schedRun cfg (ev # evs) s = Option.bind (schedStep cfg ev s) (schedRun cfg evs)"

inductive reachable :: "('ast, 'def) runConfig \<Rightarrow> dagState \<Rightarrow> bool" for cfg where
  start: "reachable cfg (initState cfg)"
| step: "reachable cfg s \<Longrightarrow> schedStep cfg ev s = Some s' \<Longrightarrow> reachable cfg s'"

definition allReturned :: "('ast, 'def) runConfig \<Rightarrow> dagState \<Rightarrow> bool" where
  "allReturned cfg s \<longleftrightarrow> (\<forall>n\<in>fst ` set (rcNodes cfg). phaseOf s n = Returned)"

lemma schedRun_append:
  "schedRun cfg (xs @ ys) s = Option.bind (schedRun cfg xs s) (schedRun cfg ys)"
  by (induction xs arbitrary: s) (simp_all add: Option.bind_assoc cong: Option.bind_cong)

lemma schedRun_reachable: "reachable cfg s \<Longrightarrow> schedRun cfg evs s = Some s' \<Longrightarrow> reachable cfg s'"
  by (induction evs arbitrary: s) (auto simp: bind_eq_Some_conv intro: reachable.step)

section \<open>The result of a node from the results of its dependencies\<close>

text \<open>The nodes whose channel is closed, with the fields that others read.\<close>

definition closedRes :: "dagState \<Rightarrow> string \<rightharpoonup> nodeResult" where
  "closedRes s n = (if phaseOf s n = Returned then Some (resultOf s n) else None)"

datatype depVerdict = Go | Stop nodeResult

fun scanDeps :: "(string \<rightharpoonup> nodeResult) \<Rightarrow> string list \<Rightarrow> depVerdict option" where
  "scanDeps r [] = Some Go"
| "scanDeps r (d # ds) =
     (case r d of
        None \<Rightarrow> None
      | Some x \<Rightarrow>
          (case resErr x of
             Some e \<Rightarrow> Some (Stop (failWith (DepErr d e)))
           | None \<Rightarrow> if resSkipped x then Some (Stop skippedResult) else scanDeps r ds))"

text \<open>
  The sequential meaning of a job, with no cancellation: the first dependency, in the order
  of the list, that failed or was skipped decides; then the condition; then the solve.
\<close>

definition localResult ::
  "('ast, 'def) runConfig \<Rightarrow> (string \<rightharpoonup> nodeResult) \<Rightarrow> string \<Rightarrow> nodeResult option" where
  "localResult cfg r n =
     (case map_of (rcNodes cfg) n of
        None \<Rightarrow> None
      | Some job \<Rightarrow>
          (case scanDeps r (rjDependsOn job) of
             None \<Rightarrow> None
           | Some (Stop x) \<Rightarrow> Some x
           | Some Go \<Rightarrow>
               (case deferredVerdict cfg job (\<lambda>d. Option.bind (r d) resOutputs) of
                  Inl e \<Rightarrow> Some (failWith (WhenErr e))
                | Inr False \<Rightarrow> Some skippedResult
                | Inr True \<Rightarrow> Some (fst (solveNode job (rcEnv cfg n False))))))"

lemma scanDeps_mono: "scanDeps r ds = Some v \<Longrightarrow> r \<subseteq>\<^sub>m r' \<Longrightarrow> scanDeps r' ds = Some v"
  by (induction r ds rule: scanDeps.induct)
    (auto simp: map_le_def dom_def split: option.splits if_splits)

lemma scanDeps_Go:
  "scanDeps r ds = Some Go \<longleftrightarrow>
     (\<forall>d\<in>set ds. \<exists>x. r d = Some x \<and> resErr x = None \<and> \<not> resSkipped x)"
  by (induction r ds rule: scanDeps.induct) (auto split: option.splits)

lemma scanDeps_append: "scanDeps r pre = Some Go \<Longrightarrow> scanDeps r (pre @ ds) = scanDeps r ds"
  by (induction r pre rule: scanDeps.induct) (auto split: option.splits if_splits)

lemma deferredVerdict_cong:
  "(\<And>d. d \<in> set (rjDependsOn job) \<Longrightarrow> f d = g d) \<Longrightarrow> deferredVerdict cfg job f = deferredVerdict cfg job g"
proof -
  assume eq: "\<And>d. d \<in> set (rjDependsOn job) \<Longrightarrow> f d = g d"
  have "collectDepOutputs f ds = collectDepOutputs g ds" if "set ds \<subseteq> set (rjDependsOn job)" for ds
    unfolding collectDepOutputs_def using that eq by (intro fold_cong) auto
  then show ?thesis by (simp add: deferredVerdict_def split: option.split)
qed

lemma localResult_mono:
  assumes "localResult cfg r n = Some x" "r \<subseteq>\<^sub>m r'"
  shows "localResult cfg r' n = Some x"
proof -
  from assms(1) obtain job v where job: "map_of (rcNodes cfg) n = Some job"
    and v: "scanDeps r (rjDependsOn job) = Some v"
    by (auto simp: localResult_def split: option.splits)
  have "Option.bind (r d) resOutputs = Option.bind (r' d) resOutputs"
    if "v = Go" "d \<in> set (rjDependsOn job)" for d
    using v that assms(2) unfolding that(1) scanDeps_Go by (force simp: map_le_def dom_def)
  then have "v = Go \<Longrightarrow> deferredVerdict cfg job (\<lambda>d. Option.bind (r d) resOutputs) =
      deferredVerdict cfg job (\<lambda>d. Option.bind (r' d) resOutputs)"
    by (intro deferredVerdict_cong)
  with assms(1) job v scanDeps_mono [OF v assms(2)] show ?thesis
    by (cases v) (auto simp: localResult_def)
qed

section \<open>The invariant of a node\<close>

abbreviation depsGo :: "('ast, 'def) runConfig \<Rightarrow> dagState \<Rightarrow> ('ast, 'def) RunnerJob \<Rightarrow> bool" where
  "depsGo cfg s job \<equiv> scanDeps (closedRes s) (rjDependsOn job) = Some Go"

abbreviation verdictRun :: "('ast, 'def) runConfig \<Rightarrow> dagState \<Rightarrow> ('ast, 'def) RunnerJob \<Rightarrow> bool" where
  "verdictRun cfg s job \<equiv>
     deferredVerdict cfg job (\<lambda>d. Option.bind (closedRes s d) resOutputs) = Inr True"

definition succeeded :: "nodeResult \<Rightarrow> bool" where
  "succeeded r \<longleftrightarrow> resErr r = None \<and> \<not> resSkipped r"

lemma succeeded_simps [simp]: "\<not> succeeded (failWith e)" "\<not> succeeded skippedResult"
  by (simp_all add: succeeded_def failWith_def skippedResult_def)

definition explained :: "('ast, 'def) runConfig \<Rightarrow> dagState \<Rightarrow> string \<Rightarrow> bool" where
  "explained cfg s n \<longleftrightarrow> (\<not> cancelled s \<longrightarrow> localResult cfg (closedRes s) n = Some (resultOf s n))"

definition nodeInv :: "('ast, 'def) runConfig \<Rightarrow> dagState \<Rightarrow> string \<Rightarrow> ('ast, 'def) RunnerJob \<Rightarrow> bool" where
  "nodeInv cfg s n job =
     (case phaseOf s n of
        Waiting ds \<Rightarrow> resultOf s n = freshResult \<and>
          (\<exists>pre. rjDependsOn job = pre @ ds \<and> scanDeps (closedRes s) pre = Some Go)
      | Acquiring \<Rightarrow> resultOf s n = freshResult \<and> depsGo cfg s job \<and> verdictRun cfg s job
      | Solving \<Rightarrow> resultOf s n = freshResult \<and> depsGo cfg s job \<and> verdictRun cfg s job
      | Releasing \<Rightarrow> depsGo cfg s job \<and> explained cfg s n
      | Closing \<Rightarrow> explained cfg s n \<and> (succeeded (resultOf s n) \<longrightarrow> depsGo cfg s job)
      | Returned \<Rightarrow> explained cfg s n \<and> (succeeded (resultOf s n) \<longrightarrow> depsGo cfg s job))"

text \<open>An event of one node leaves the fields of every other node alone.\<close>

lemma nodeEvent_frame:
  assumes "nodeEvent cfg job n ev s = Some s'"
  shows "phaseOf s n \<noteq> Returned" "cancelled s' = cancelled s"
    and "m \<noteq> n \<Longrightarrow> phaseOf s' m = phaseOf s m \<and> resultOf s' m = resultOf s m"
  using assms
  by (cases ev; auto simp: moveTo_def depDone_def evalWhen_def Let_def
        split: phase.splits list.splits if_splits option.splits sum.splits bool.splits)+

lemma closedRes_mono:
  assumes "phaseOf s n \<noteq> Returned" "\<And>m. m \<noteq> n \<Longrightarrow> phaseOf s' m = phaseOf s m \<and> resultOf s' m = resultOf s m"
  shows "closedRes s \<subseteq>\<^sub>m closedRes s'"
  using assms by (auto simp: map_le_def closedRes_def split: if_splits) (metis | metis)+

lemma verdictRun_mono:
  assumes "depsGo cfg s job" "verdictRun cfg s job" "closedRes s \<subseteq>\<^sub>m closedRes s'"
  shows "verdictRun cfg s' job"
proof -
  have "Option.bind (closedRes s d) resOutputs = Option.bind (closedRes s' d) resOutputs"
    if "d \<in> set (rjDependsOn job)" for d
    using assms(1,3) that unfolding scanDeps_Go by (force simp: map_le_def dom_def)
  then show ?thesis using assms(2) deferredVerdict_cong [of job "\<lambda>d. Option.bind (closedRes s d) resOutputs"] by simp
qed

text \<open>A node that does not move keeps its invariant while other channels are closed.\<close>

lemma nodeInv_mono:
  assumes "nodeInv cfg s m job" "closedRes s \<subseteq>\<^sub>m closedRes s'"
    and "phaseOf s' m = phaseOf s m" "resultOf s' m = resultOf s m" "cancelled s \<longrightarrow> cancelled s'"
  shows "nodeInv cfg s' m job"
proof -
  have "explained cfg s m \<Longrightarrow> explained cfg s' m"
    using assms(4,5) localResult_mono [OF _ assms(2)] by (auto simp: explained_def)
  then show ?thesis
    using assms(1,3,4) scanDeps_mono [OF _ assms(2)] verdictRun_mono [OF _ _ assms(2)]
    by (auto simp: nodeInv_def split: phase.splits)
qed

lemma closedRes_moveTo:
  "phaseOf s n \<noteq> Returned \<Longrightarrow> p \<noteq> Returned \<Longrightarrow> closedRes (moveTo n p r ms s) = closedRes s"
  by (auto simp: closedRes_def moveTo_def)

lemma closedRes_held [simp]: "closedRes (s\<lparr>held := k\<rparr>) = closedRes s"
  by (auto simp: closedRes_def)

lemma moveTo_simps [simp]:
  "phaseOf (moveTo n p r ms s) n = p" "resultOf (moveTo n p r ms s) n = r"
  "cancelled (moveTo n p r ms s) = cancelled s" "held (moveTo n p r ms s) = held s"
  by (simp_all add: moveTo_def)

text \<open>The verdict over the fields equals the verdict over the closed nodes.\<close>

lemma verdict_closed:
  assumes "depsGo cfg s job"
  shows "deferredVerdict cfg job (\<lambda>d. resOutputs (resultOf s d)) =
    deferredVerdict cfg job (\<lambda>d. Option.bind (closedRes s d) resOutputs)"
  using assms unfolding scanDeps_Go
  by (intro deferredVerdict_cong) (auto simp: closedRes_def split: if_splits)

lemma depDone_inv:
  assumes "nodeInv cfg s n job" "map_of (rcNodes cfg) n = Some job"
    and "phaseOf s n = Waiting (d # ds)" "phaseOf s d = Returned"
  shows "nodeInv cfg (depDone n d ds s) n job"
proof -
  from assms obtain pre where pre: "rjDependsOn job = pre @ d # ds"
    "scanDeps (closedRes s) pre = Some Go" "resultOf s n = freshResult"
    by (auto simp: nodeInv_def)
  have d: "closedRes s d = Some (resultOf s d)" using assms(4) by (simp add: closedRes_def)
  have scan: "scanDeps (closedRes s) (rjDependsOn job) = scanDeps (closedRes s) (d # ds)"
    unfolding pre(1) by (rule scanDeps_append [OF pre(2)])
  have cl: "closedRes (moveTo n p r ms s) = closedRes s" if "p \<noteq> Returned" for p r ms
    using assms(3) that by (intro closedRes_moveTo) auto
  show ?thesis
  proof (cases "resErr (resultOf s d)")
    case (Some e)
    then show ?thesis
      using scan d cl assms(2)
      by (simp add: depDone_def nodeInv_def explained_def localResult_def)
  next
    case None
    have "scanDeps (closedRes s) (pre @ [d]) = Some Go" if "\<not> resSkipped (resultOf s d)"
      unfolding scanDeps_append [OF pre(2)] using None d that by simp
    then show ?thesis
      using None scan d cl assms(2) pre
      by (auto simp: depDone_def nodeInv_def explained_def localResult_def intro!: exI [of _ "pre @ [d]"])
  qed
qed

lemma evalWhen_inv:
  assumes "nodeInv cfg s n job" "map_of (rcNodes cfg) n = Some job" "phaseOf s n = Waiting []"
  shows "nodeInv cfg (evalWhen cfg job n s) n job"
proof -
  from assms have go: "depsGo cfg s job" and fresh: "resultOf s n = freshResult"
    by (auto simp: nodeInv_def)
  have cl: "closedRes (moveTo n p r ms s) = closedRes s" if "p \<noteq> Returned" for p r ms
    using assms(3) that by (intro closedRes_moveTo) auto
  show ?thesis
    using go fresh cl assms(2) verdict_closed [OF go]
    by (auto simp: evalWhen_def nodeInv_def explained_def localResult_def split: sum.splits bool.splits)
qed

lemma nodeEvent_inv:
  assumes "nodeEvent cfg job n ev s = Some s'" "map_of (rcNodes cfg) n = Some job" "nodeInv cfg s n job"
  shows "nodeInv cfg s' n job"
proof -
  have cl: "closedRes (moveTo n p r ms s) = closedRes s" if "p \<noteq> Returned" for p r ms
    using nodeEvent_frame(1) [OF assms(1)] that by (intro closedRes_moveTo) auto
  have le: "closedRes s \<subseteq>\<^sub>m closedRes s'"
    using nodeEvent_frame [OF assms(1)] by (intro closedRes_mono) auto
  show ?thesis
  proof (cases ev)
    case (DepDone x)
    with assms show ?thesis by (auto split: phase.splits list.splits if_splits intro: depDone_inv)
  next
    case (EvalWhen x)
    with assms show ?thesis by (auto split: if_splits intro: evalWhen_inv)
  next
    case (SolveDone x)
    with assms cl show ?thesis
      by (auto simp: nodeInv_def explained_def localResult_def Let_def split: if_splits)
  next
    case (CloseDone x)
    with assms(1) have "phaseOf s n = Closing" "phaseOf s' n = Returned" "resultOf s' n = resultOf s n"
      "cancelled s' = cancelled s"
      by (auto simp: moveTo_def split: if_splits)
    then show ?thesis
      using assms(3) localResult_mono [OF _ le] scanDeps_mono [OF _ le]
      by (auto simp: nodeInv_def explained_def)
  qed (use assms cl in \<open>auto simp: nodeInv_def explained_def split: phase.splits list.splits if_splits\<close>)
qed

lemma reachable_nodeInv:
  assumes "reachable cfg s" "map_of (rcNodes cfg) m = Some job"
  shows "nodeInv cfg s m job"
  using assms
proof (induction arbitrary: m job rule: reachable.induct)
  case start
  then show ?case by (simp add: nodeInv_def initState_def nodeDeps_def)
next
  case (step s ev s')
  show ?case
  proof (cases "eventNode ev")
    case None
    with step.hyps(2) have "s' = s\<lparr>cancelled := True\<rparr>" by (auto simp: schedStep_def split: if_splits)
    then have "closedRes s \<subseteq>\<^sub>m closedRes s'" "phaseOf s' = phaseOf s" "resultOf s' = resultOf s" "cancelled s'"
      by (simp_all add: closedRes_def map_le_def)
    from nodeInv_mono [OF step.IH [OF step.prems] this(1)] this(2-) show ?thesis by simp
  next
    case (Some n)
    with step.hyps(2) obtain j where j: "map_of (rcNodes cfg) n = Some j" "nodeEvent cfg j n ev s = Some s'"
      by (auto simp: schedStep_def split: option.splits)
    note frame = nodeEvent_frame [OF j(2)]
    show ?thesis
    proof (cases "m = n")
      case True
      with j step.prems step.IH show ?thesis by (auto intro: nodeEvent_inv)
    next
      case False
      have "closedRes s \<subseteq>\<^sub>m closedRes s'" by (rule closedRes_mono [OF frame(1,3)])
      from nodeInv_mono [OF step.IH [OF step.prems] this] frame(2) frame(3) [OF False]
      show ?thesis by simp
    qed
  qed
qed

section \<open>Slots\<close>

abbreviation holding :: "phase \<Rightarrow> bool" where
  "holding p \<equiv> p = Solving \<or> p = Releasing"

definition holders :: "('ast, 'def) runConfig \<Rightarrow> dagState \<Rightarrow> string set" where
  "holders cfg s = {n \<in> fst ` set (rcNodes cfg). holding (phaseOf s n)}"

lemma finite_holders [simp]: "finite (holders cfg s)"
  by (simp add: holders_def)

lemma schedStepE:
  assumes "schedStep cfg ev s = Some s'"
  obtains (cancel) "ev = Cancel" "s' = s\<lparr>cancelled := True\<rparr>" "\<not> cancelled s"
      "rcParentCancel cfg \<or> rcFailFast cfg \<and> errs s \<noteq> []"
    | (node) n job where "eventNode ev = Some n" "map_of (rcNodes cfg) n = Some job"
      "n \<in> fst ` set (rcNodes cfg)" "nodeEvent cfg job n ev s = Some s'"
proof (cases "eventNode ev")
  case None
  then have "ev = Cancel" by (cases ev) auto
  with assms that(1) show ?thesis by (auto simp: schedStep_def split: if_splits)
next
  case (Some n)
  with assms obtain job where "map_of (rcNodes cfg) n = Some job" "nodeEvent cfg job n ev s = Some s'"
    by (auto simp: schedStep_def split: option.splits)
  with Some that(2) show ?thesis by (metis domI dom_map_of_conv_image_fst)
qed

lemma nodeEvent_holding:
  assumes "nodeEvent cfg job n ev s = Some s'"
  shows "if ev = Acquire (the (eventNode ev)) then \<not> holding (phaseOf s n) \<and> holding (phaseOf s' n) \<and>
           rcGrant cfg (rcLimit cfg) (held s) \<and> held s' = held s + 1
         else if ev = Release (the (eventNode ev)) then holding (phaseOf s n) \<and> \<not> holding (phaseOf s' n) \<and>
           held s' = held s - 1
         else holding (phaseOf s' n) = holding (phaseOf s n) \<and> held s' = held s"
  using assms
  by (cases ev; auto simp: moveTo_def depDone_def evalWhen_def Let_def
        split: phase.splits list.splits if_splits option.splits sum.splits bool.splits)

lemma reachable_held:
  assumes "reachable cfg s" "semaphoreLaw cfg" "0 \<le> rcLimit cfg"
  shows "held s = card (holders cfg s) \<and> int (held s) \<le> rcLimit cfg"
  using assms
proof (induction rule: reachable.induct)
  case start
  have "holders cfg (initState cfg) = {}" by (auto simp: holders_def initState_def)
  then show ?case using start.prems by (simp add: initState_def)
next
  case (step s ev s')
  note IH = step.IH [OF step.prems]
  from step.hyps(2) show ?case
  proof (cases rule: schedStepE)
    case cancel
    with IH show ?thesis by (simp add: holders_def)
  next
    case (node n job)
    have other: "m \<noteq> n \<Longrightarrow> phaseOf s' m = phaseOf s m" for m
      using nodeEvent_frame(3) [OF node(4)] by blast
    have h: "holders cfg s' = (if holding (phaseOf s' n) then insert n (holders cfg s) else holders cfg s - {n})"
      using other node(3) by (auto simp: holders_def) metis+
    have n: "n \<in> holders cfg s \<longleftrightarrow> holding (phaseOf s n)" using node(3) by (simp add: holders_def)
    have pos: "n \<in> holders cfg s \<Longrightarrow> card (holders cfg s) \<ge> 1"
      by (metis One_nat_def card_gt_0_iff empty_iff finite_holders less_eq_Suc_le)
    show ?thesis
      using nodeEvent_holding [OF node(4)] IH n h pos step.prems(1)
      by (auto simp: semaphoreLaw_def card_Diff_singleton insert_absorb split: if_splits)
  qed
qed

section \<open>Progress and termination\<close>

fun weight :: "phase \<Rightarrow> nat" where
  "weight (Waiting ds) = length ds + 5"
| "weight Acquiring = 4"
| "weight Solving = 3"
| "weight Releasing = 2"
| "weight Closing = 1"
| "weight Returned = 0"

definition workLeft :: "('ast, 'def) runConfig \<Rightarrow> dagState \<Rightarrow> nat" where
  "workLeft cfg s = (\<Sum>n\<in>fst ` set (rcNodes cfg). weight (phaseOf s n)) + (if cancelled s then 0 else 1)"

lemma nodeEvent_weight:
  "nodeEvent cfg job n ev s = Some s' \<Longrightarrow> weight (phaseOf s' n) < weight (phaseOf s n)"
  by (cases ev; auto simp: moveTo_def depDone_def evalWhen_def Let_def
        split: phase.splits list.splits if_splits option.splits sum.splits bool.splits)

lemma schedStep_workLeft:
  assumes "schedStep cfg ev s = Some s'"
  shows "workLeft cfg s' < workLeft cfg s"
  using assms
proof (cases rule: schedStepE)
  case (node n job)
  let ?V = "fst ` set (rcNodes cfg)"
  have "(\<Sum>m\<in>?V. weight (phaseOf s' m)) < (\<Sum>m\<in>?V. weight (phaseOf s m))"
  proof (rule sum_strict_mono_ex1)
    show "\<forall>m\<in>?V. weight (phaseOf s' m) \<le> weight (phaseOf s m)"
      using nodeEvent_frame(3) [OF node(4)] nodeEvent_weight [OF node(4)]
      by (metis less_imp_le order_refl)
    show "\<exists>m\<in>?V. weight (phaseOf s' m) < weight (phaseOf s m)"
      using node(3) nodeEvent_weight [OF node(4)] by blast
  qed simp
  then show ?thesis using nodeEvent_frame(2) [OF node(4)] by (simp add: workLeft_def)
qed (simp add: workLeft_def)

lemma schedRun_workLeft: "schedRun cfg evs s = Some s' \<Longrightarrow> workLeft cfg s' + length evs \<le> workLeft cfg s"
proof (induction evs arbitrary: s)
  case (Cons ev evs)
  then obtain s1 where "schedStep cfg ev s = Some s1" "schedRun cfg evs s1 = Some s'"
    by (auto simp: bind_eq_Some_conv)
  with Cons.IH [of s1] schedStep_workLeft [of cfg ev s s1] show ?case by simp
qed simp

text \<open>Some node has not returned while all its dependencies have.\<close>

lemma unblocked_node:
  assumes "dagOk (rcNodes cfg)" "\<not> allReturned cfg s"
  obtains n job where "map_of (rcNodes cfg) n = Some job" "phaseOf s n \<noteq> Returned"
    "\<forall>d\<in>set (rjDependsOn job). phaseOf s d = Returned"
proof -
  let ?r = "runRel (rcNodes cfg)"
  have "?r \<subseteq> fst ` set (rcNodes cfg) \<times> fst ` set (rcNodes cfg)"
    using assms(1) by (auto simp: dagOk_def runRel_def)
  then have "finite ?r" by (rule finite_subset) simp
  then have wf: "wf (?r\<inverse>)"
    using assms(1) by (intro finite_acyclic_wf_converse) (auto simp: dagOk_def)
  from assms(2) obtain m where "m \<in> {n \<in> fst ` set (rcNodes cfg). phaseOf s n \<noteq> Returned}"
    by (auto simp: allReturned_def)
  from wfE_min [OF wf this] obtain n where n: "n \<in> fst ` set (rcNodes cfg)" "phaseOf s n \<noteq> Returned"
    and min: "\<And>d. (n, d) \<in> ?r \<Longrightarrow> d \<notin> {n \<in> fst ` set (rcNodes cfg). phaseOf s n \<noteq> Returned}"
    by (metis (mono_tags, lifting) converse_iff mem_Collect_eq)
  from n(1) obtain job where job: "map_of (rcNodes cfg) n = Some job"
    by (metis domD dom_map_of_conv_image_fst)
  have "phaseOf s d = Returned" if "d \<in> set (rjDependsOn job)" for d
  proof -
    have "(n, d) \<in> ?r" using that n(1) job by (simp add: runRel_def nodeDeps_def)
    with min [OF this] assms(1) show ?thesis by (auto simp: dagOk_def)
  qed
  with that job n(2) show ?thesis by blast
qed

lemma schedStep_node:
  "eventNode ev = Some n \<Longrightarrow> map_of (rcNodes cfg) n = Some job \<Longrightarrow> schedStep cfg ev s = nodeEvent cfg job n ev s"
  by (simp add: schedStep_def)

lemma holder_moves:
  assumes "n \<in> holders cfg s"
  shows "\<exists>ev s'. schedStep cfg ev s = Some s'"
proof -
  from assms have "n \<in> dom (map_of (rcNodes cfg))" and h: "holding (phaseOf s n)"
    by (auto simp: holders_def dom_map_of_conv_image_fst)
  then obtain job where job: "map_of (rcNodes cfg) n = Some job" by blast
  from h show ?thesis
    using schedStep_node [OF _ job, of "SolveDone n" s] schedStep_node [OF _ job, of "Release n" s]
    by (auto simp: Let_def intro: exI [of _ "SolveDone n"] exI [of _ "Release n"])
qed

lemma progress:
  assumes "reachable cfg s" "dagOk (rcNodes cfg)" "semaphoreLaw cfg" "1 \<le> rcLimit cfg" "\<not> allReturned cfg s"
  shows "\<exists>ev s'. schedStep cfg ev s = Some s'"
proof -
  from unblocked_node [OF assms(2,5)] obtain n job where n: "map_of (rcNodes cfg) n = Some job"
    "phaseOf s n \<noteq> Returned" "\<forall>d\<in>set (rjDependsOn job). phaseOf s d = Returned" .
  note inv = reachable_nodeInv [OF assms(1) n(1)]
  note at = schedStep_node [OF _ n(1)]
  show ?thesis
  proof (cases "phaseOf s n")
    case (Waiting ds)
    with inv have "set ds \<subseteq> set (rjDependsOn job)" by (auto simp: nodeInv_def)
    with Waiting n(3) at [of "DepDone n" s] at [of "EvalWhen n" s] show ?thesis
      by (cases ds) auto
  next
    case Acquiring
    show ?thesis
    proof (cases "rcGrant cfg (rcLimit cfg) (held s)")
      case True
      with Acquiring at [of "Acquire n" s] show ?thesis by auto
    next
      case False
      with assms(3,4) have "held s \<ge> 1" by (auto simp: semaphoreLaw_def)
      then have "holders cfg s \<noteq> {}" using reachable_held [OF assms(1,3)] assms(4) by auto
      then show ?thesis using holder_moves by blast
    qed
  next
    case Closing
    with at [of "CloseDone n" s] show ?thesis by auto
  qed (use n(2) at [of "SolveDone n" s] at [of "Release n" s] in \<open>auto simp: Let_def\<close>)
qed

lemma run_completes:
  assumes "dagOk (rcNodes cfg)" "semaphoreLaw cfg" "1 \<le> rcLimit cfg" "reachable cfg s"
  shows "\<exists>evs s'. schedRun cfg evs s = Some s' \<and> allReturned cfg s'"
  using assms(4)
proof (induction "workLeft cfg s" arbitrary: s rule: less_induct)
  case less
  show ?case
  proof (cases "allReturned cfg s")
    case True
    then show ?thesis by (intro exI [of _ "[]"]) auto
  next
    case False
    from progress [OF less.prems assms(1-3) this] obtain ev s1 where s1: "schedStep cfg ev s = Some s1"
      by blast
    from less.hyps [OF schedStep_workLeft [OF s1] reachable.step [OF less.prems s1]]
    obtain evs s' where "schedRun cfg evs s1 = Some s'" "allReturned cfg s'" by blast
    with s1 show ?thesis by (intro exI [of _ "ev # evs"]) auto
  qed
qed

section \<open>Sequential execution\<close>

text \<open>One job after another in a given order, with nothing else running.\<close>

definition seqRun :: "('ast, 'def) runConfig \<Rightarrow> string list \<Rightarrow> string \<rightharpoonup> nodeResult" where
  "seqRun cfg order = fold (\<lambda>n r. r(n := localResult cfg r n)) order Map.empty"

definition depOrder :: "('ast, 'def) dag \<Rightarrow> string list \<Rightarrow> bool" where
  "depOrder nodes order \<longleftrightarrow> distinct order \<and> set order = fst ` set nodes \<and>
     (\<forall>us n vs. order = us @ n # vs \<longrightarrow> set (nodeDeps nodes n) \<subseteq> set us)"

lemma scanDeps_total: "set ds \<subseteq> dom r \<Longrightarrow> \<exists>v. scanDeps r ds = Some v"
  by (induction r ds rule: scanDeps.induct) (auto split: option.splits)

lemma localResult_total:
  assumes "map_of (rcNodes cfg) n = Some job" "set (rjDependsOn job) \<subseteq> dom r"
  shows "\<exists>x. localResult cfg r n = Some x"
  using scanDeps_total [OF assms(2)] assms(1)
  by (auto simp: localResult_def split: depVerdict.splits sum.splits bool.splits)

lemma seqRun_prefix:
  assumes "reachable cfg s" "\<not> cancelled s" "allReturned cfg s" "depOrder (rcNodes cfg) order" "order = us @ vs"
  shows "seqRun cfg us = closedRes s |` set us"
  using assms(5)
proof (induction us arbitrary: vs rule: rev_induct)
  case Nil
  then show ?case by (simp add: seqRun_def)
next
  case (snoc n us)
  have IH: "seqRun cfg us = closedRes s |` set us" using snoc by simp
  have n: "n \<in> fst ` set (rcNodes cfg)" "n \<notin> set us" "set (nodeDeps (rcNodes cfg) n) \<subseteq> set us"
    using assms(4) snoc.prems by (auto simp: depOrder_def)
  then obtain job where job: "map_of (rcNodes cfg) n = Some job"
    by (metis domD dom_map_of_conv_image_fst)
  have ret: "phaseOf s m = Returned" if "m \<in> set us" for m
  proof -
    have "set order = fst ` set (rcNodes cfg)" using assms(4) by (simp add: depOrder_def)
    with that snoc.prems have "m \<in> fst ` set (rcNodes cfg)" by auto
    with assms(3) show ?thesis by (simp only: allReturned_def)
  qed
  have "set (rjDependsOn job) \<subseteq> dom (seqRun cfg us)"
    using n(3) job ret IH by (auto simp: nodeDeps_def closedRes_def restrict_map_def split: if_splits)
  from localResult_total [OF job this] obtain x where x: "localResult cfg (seqRun cfg us) n = Some x" ..
  have "localResult cfg (closedRes s) n = Some x"
    by (rule localResult_mono [OF x]) (simp add: IH map_le_def)
  moreover have "explained cfg s n" and pn: "phaseOf s n = Returned"
    using reachable_nodeInv [OF assms(1) job] assms(3) n(1) by (auto simp: nodeInv_def allReturned_def)
  ultimately have "x = resultOf s n" using assms(2) by (simp add: explained_def)
  moreover have "seqRun cfg (us @ [n]) = (seqRun cfg us)(n := localResult cfg (seqRun cfg us) n)"
    by (simp add: seqRun_def)
  ultimately have "seqRun cfg (us @ [n]) = (closedRes s |` set us)(n \<mapsto> resultOf s n)"
    using IH x by simp
  then show ?case using pn by (auto simp: restrict_map_def closedRes_def fun_eq_iff)
qed

section \<open>What is recorded\<close>

lemma solveNode_not_skipped: "\<not> resSkipped (fst (solveNode job env))"
  by (auto simp: solveNode_def Let_def freshResult_def split: option.splits)

lemma solveNode_msgs: "JobSkippedMsg m \<notin> set (snd (solveNode job env))"
  by (auto simp: solveNode_def Let_def classifyErr_def split: option.splits retryEvent.splits)

lemma nodeEvent_skips:
  assumes "nodeEvent cfg job n ev s = Some s'" "nodeInv cfg s n job" 
    and "JobSkippedMsg n \<in> set (sent s) \<longleftrightarrow> resSkipped (resultOf s n)"
  shows "JobSkippedMsg n \<in> set (sent s') \<longleftrightarrow> resSkipped (resultOf s' n)"
    and "m \<noteq> n \<Longrightarrow> JobSkippedMsg m \<in> set (sent s') \<longleftrightarrow> JobSkippedMsg m \<in> set (sent s)"
  using assms solveNode_not_skipped [of job] solveNode_msgs [of _ job]
  by (cases ev; auto simp: nodeInv_def moveTo_def depDone_def evalWhen_def Let_def freshResult_def
        failWith_def skippedResult_def
        split: phase.splits list.splits if_splits option.splits sum.splits bool.splits)+

lemma reachable_skips:
  assumes "reachable cfg s" "n \<in> fst ` set (rcNodes cfg)"
  shows "JobSkippedMsg n \<in> set (sent s) \<longleftrightarrow> resSkipped (resultOf s n)"
  using assms
proof (induction arbitrary: n rule: reachable.induct)
  case start
  then show ?case by (simp add: initState_def freshResult_def)
next
  case (step s ev s')
  from step.hyps(2) show ?case
  proof (cases rule: schedStepE)
    case cancel
    with step show ?thesis by simp
  next
    case (node m job)
    note ev = nodeEvent_skips [OF node(4) reachable_nodeInv [OF step.hyps(1) node(2)] step.IH [OF node(3)]]
    show ?thesis
    proof (cases "n = m")
      case False
      with nodeEvent_frame(3) [OF node(4), of n] ev(2) step.IH [OF step.prems] show ?thesis by simp
    qed (use ev(1) in simp)
  qed
qed

lemma nodeEvent_errs:
  assumes "nodeEvent cfg job n ev s = Some s'"
  shows "errs s' = errs s @ (if phaseOf s' n = Returned then
           (case resErr (resultOf s' n) of None \<Rightarrow> [] | Some e \<Rightarrow> [e]) else [])"
  using assms
  by (cases ev; auto simp: moveTo_def depDone_def evalWhen_def Let_def
        split: phase.splits list.splits if_splits option.splits sum.splits bool.splits)

lemma reachable_errs:
  assumes "reachable cfg s"
  shows "set (errs s) = {e. \<exists>n\<in>fst ` set (rcNodes cfg). phaseOf s n = Returned \<and> resErr (resultOf s n) = Some e}"
  using assms
proof (induction rule: reachable.induct)
  case (step s ev s')
  from step.hyps(2) show ?case
  proof (cases rule: schedStepE)
    case (node n job)
    have other: "m \<noteq> n \<Longrightarrow> phaseOf s' m = phaseOf s m \<and> resultOf s' m = resultOf s m" for m
      by (rule nodeEvent_frame(3) [OF node(4)])
    let ?E = "\<lambda>s A. {e. \<exists>m\<in>A. phaseOf s m = Returned \<and> resErr (resultOf s m) = Some e}"
    let ?V = "fst ` set (rcNodes cfg)"
    have "?E s' ?V = ?E s' (?V - {n}) \<union> ?E s' {n}" "?E s ?V = ?E s (?V - {n})"
      using node(3) nodeEvent_frame(1) [OF node(4)] by auto
    moreover have "?E s' (?V - {n}) = ?E s (?V - {n})" using other by auto
    moreover have "set (errs s') = set (errs s) \<union> ?E s' {n}"
      using nodeEvent_errs [OF node(4)]
      by (cases "phaseOf s' n = Returned"; cases "resErr (resultOf s' n)") auto
    ultimately show ?thesis using step.IH by simp
  qed (use step.IH in simp)
qed (auto simp: initState_def)

section \<open>Properties of the scheduler\<close>

text \<open>C5: no job runs early. In every reachable state of every schedule, cancelled or not: a
  job that waits for a slot, holds one or has succeeded has all its dependencies returned,
  without error and not skipped.\<close>

theorem sched_respects_deps:
  assumes "reachable cfg s" "map_of (rcNodes cfg) n = Some job"
    and "phaseOf s n \<in> {Acquiring, Solving, Releasing} \<or> phaseOf s n = Returned \<and> succeeded (resultOf s n)"
  shows "\<forall>d\<in>set (rjDependsOn job). phaseOf s d = Returned \<and> succeeded (resultOf s d)"
proof -
  have "depsGo cfg s job" using reachable_nodeInv [OF assms(1,2)] assms(3) by (auto simp: nodeInv_def)
  then show ?thesis unfolding scanDeps_Go by (auto simp: closedRes_def succeeded_def split: if_splits)
qed

definition sampleNodeEnv :: nodeEnv where
  "sampleNodeEnv =
     \<lparr>neSolve = (\<lambda>_. None), neBuild = (\<lambda>_. Inr []), neCtxErr = (\<lambda>_. False), neSleepErr = (\<lambda>_. False),
      neTimedOut = False, neExtract = None\<rparr>"

definition sampleCfg :: "(string, nat) runConfig" where
  "sampleCfg =
     \<lparr>rcCel = sampleCel, rcNodes = map (\<lambda>j. (rjName j, j)) [plainJob ''a'' [], plainJob ''b'' [''a'']],
      rcLimit = semLimit 1 2, rcGrant = (\<lambda>limit held. int held < limit), rcWhenCtx = None,
      rcEnv = (\<lambda>_ _. sampleNodeEnv), rcFailFast = False, rcParentCancel = False\<rparr>"

definition sampleEvents :: "event list" where
  "sampleEvents =
     [EvalWhen ''a'', Acquire ''a'', SolveDone ''a'', Release ''a'', CloseDone ''a'',
      DepDone ''b'', EvalWhen ''b'', Acquire ''b'', SolveDone ''b'', Release ''b'', CloseDone ''b'']"

definition sampleState :: "nat \<Rightarrow> dagState" where
  "sampleState k = the (schedRun sampleCfg (take k sampleEvents) (initState sampleCfg))"

lemma sample_runs:
  "schedRun sampleCfg (take 8 sampleEvents) (initState sampleCfg) \<noteq> None"
  "schedRun sampleCfg (take 11 sampleEvents) (initState sampleCfg) \<noteq> None"
  by code_simp+

lemma sample_run: "k \<in> {8, 11} \<Longrightarrow>
    schedRun sampleCfg (take k sampleEvents) (initState sampleCfg) = Some (sampleState k)"
  using sample_runs by (auto simp: sampleState_def)

lemma sample_reachable: "k \<in> {8, 11} \<Longrightarrow> reachable sampleCfg (sampleState k)"
  using schedRun_reachable [OF reachable.start sample_run] .

lemma sample_laws: "semaphoreLaw sampleCfg" "1 \<le> rcLimit sampleCfg"
  by (simp_all add: semaphoreLaw_def sampleCfg_def semLimit_def)

lemma sample_keys: "fst ` set (rcNodes sampleCfg) = {''a'', ''b''}"
  by (simp add: sampleCfg_def plainJob_def)

lemma sample_returned: "phaseOf (sampleState 11) ''a'' = Returned" "phaseOf (sampleState 11) ''b'' = Returned"
  by code_simp+

theorem sched_respects_deps_witness:
  "phaseOf (sampleState 8) ''b'' = Solving \<and> phaseOf (sampleState 8) ''a'' = Returned \<and>
   succeeded (resultOf (sampleState 8) ''a'')"
proof -
  have b: "map_of (rcNodes sampleCfg) ''b'' = Some (plainJob ''b'' [''a''])"
    by (simp add: sampleCfg_def plainJob_def)
  have p: "phaseOf (sampleState 8) ''b'' = Solving" by code_simp
  from sched_respects_deps [OF sample_reachable b, of 8] p show ?thesis by (simp add: plainJob_def)
qed

text \<open>C40: the slots. The counter of the semaphore is the number of jobs between \<^verbatim>\<open>Acquire\<close> and
  the deferred \<^verbatim>\<open>Release\<close>, and never exceeds the limit that \<^verbatim>\<open>Run\<close> sets: the configured
  parallelism, or the number of jobs.\<close>

theorem sched_bounded:
  assumes "reachable cfg s" "semaphoreLaw cfg" "rcLimit cfg = semLimit parallelism (length (rcNodes cfg))"
  shows "held s = card {n \<in> fst ` set (rcNodes cfg). phaseOf s n = Solving \<or> phaseOf s n = Releasing} \<and>
    int (held s) \<le> (if parallelism > 0 then parallelism else int (length (rcNodes cfg)))"
  using reachable_held [OF assms(1,2)] assms(3) by (auto simp: semLimit_def holders_def)

theorem sched_bounded_witness: "int (held (sampleState 8)) \<le> 1"
  using sched_bounded [OF sample_reachable sample_laws(1), of 8 1]
  by (simp add: sampleCfg_def semLimit_def)

text \<open>C4: every run ends. A schedule has at most five events per job, one per dependency and
  one cancellation; a schedule that cannot be extended has returned from every job (no
  deadlock, whatever the number of slots); and every schedule can be completed.\<close>

theorem sched_terminates:
  assumes "dagOk (rcNodes cfg)" "semaphoreLaw cfg" "1 \<le> rcLimit cfg"
    and "schedRun cfg evs (initState cfg) = Some s"
  shows "length evs \<le> (\<Sum>n\<in>fst ` set (rcNodes cfg). length (nodeDeps (rcNodes cfg) n) + 5) + 1 \<and>
    ((\<forall>ev. schedStep cfg ev s = None) \<longrightarrow> allReturned cfg s) \<and>
    (\<exists>evs' s'. schedRun cfg (evs @ evs') (initState cfg) = Some s' \<and> allReturned cfg s')"
proof -
  have reach: "reachable cfg s" by (rule schedRun_reachable [OF reachable.start assms(4)])
  have "workLeft cfg (initState cfg) =
      (\<Sum>n\<in>fst ` set (rcNodes cfg). length (nodeDeps (rcNodes cfg) n) + 5) + 1"
    by (simp add: workLeft_def initState_def)
  with schedRun_workLeft [OF assms(4)] progress [OF reach assms(1-3)]
    run_completes [OF assms(1-3) reach] assms(4)
  show ?thesis by (simp add: schedRun_append) (metis option.distinct(1))
qed

lemma sample_dagOk: "dagOk (rcNodes sampleCfg)"
proof -
  have "runRel (rcNodes sampleCfg) = {(''b'', ''a'')}"
    unfolding runRel_def sample_keys by (auto simp: nodeDeps_def sampleCfg_def plainJob_def)
  moreover have "acyclic {(''b'', ''a'')}" by (simp add: acyclic_insert) (simp add: acyclic_def)
  ultimately show ?thesis unfolding dagOk_def sample_keys
    by (simp add: wfmap_def sampleCfg_def plainJob_def)
qed

theorem sched_terminates_witness: "\<exists>evs s. schedRun sampleCfg evs (initState sampleCfg) = Some s \<and>
    allReturned sampleCfg s \<and> length (take 8 sampleEvents) \<le> 12"
proof -
  have "(\<Sum>n\<in>fst ` set (rcNodes sampleCfg). length (nodeDeps (rcNodes sampleCfg) n) + 5) = 11"
    unfolding sample_keys by (simp add: nodeDeps_def sampleCfg_def plainJob_def)
  with sched_terminates [OF sample_dagOk sample_laws sample_run, of 8] show ?thesis by auto
qed

text \<open>C1: the interleaving does not matter. When every job has returned and the context was
  not cancelled, each job has exactly the result (error, skip flag, outputs) of running
  the jobs one by one in any order that respects the dependencies.\<close>

theorem sched_sequential:
  assumes "reachable cfg s" "allReturned cfg s" "\<not> cancelled s" "depOrder (rcNodes cfg) order"
    and "n \<in> fst ` set (rcNodes cfg)"
  shows "seqRun cfg order n = Some (resultOf s n)"
proof -
  have "seqRun cfg order = closedRes s |` set order"
    by (rule seqRun_prefix [OF assms(1,3,2,4), of order "[]"]) simp
  moreover have "phaseOf s n = Returned" using assms(2,5) by (simp only: allReturned_def)
  ultimately show ?thesis using assms(4,5) by (simp add: closedRes_def depOrder_def)
qed

theorem sched_sequential_witness:
  "seqRun sampleCfg [''a'', ''b''] ''b'' = Some (resultOf (sampleState 11) ''b'')"
proof (rule sched_sequential)
  show "reachable sampleCfg (sampleState 11)" by (rule sample_reachable) simp
  show "allReturned sampleCfg (sampleState 11)"
    unfolding allReturned_def sample_keys using sample_returned by simp
  show "\<not> cancelled (sampleState 11)" by code_simp
  show "''b'' \<in> fst ` set (rcNodes sampleCfg)" unfolding sample_keys by simp
  have "set (nodeDeps (rcNodes sampleCfg) n) \<subseteq> set us" if "[''a'', ''b''] = us @ n # vs" for us n vs
    using that by (auto simp: Cons_eq_append_conv nodeDeps_def sampleCfg_def plainJob_def)
  then show "depOrder (rcNodes sampleCfg) [''a'', ''b'']"
    unfolding depOrder_def sample_keys by simp
qed

text \<open>What \<^verbatim>\<open>close(done)\<close> publishes is final: once a job has returned, no later event changes
  its fields. The errors collected are those of the returned jobs, and a job is announced
  as skipped exactly when its flag is set.\<close>

theorem sched_records:
  assumes "reachable cfg s"
  shows "(\<forall>evs s' n. schedRun cfg evs s = Some s' \<longrightarrow> phaseOf s n = Returned \<longrightarrow>
            phaseOf s' n = Returned \<and> resultOf s' n = resultOf s n) \<and>
    set (errs s) = {e. \<exists>n\<in>fst ` set (rcNodes cfg). phaseOf s n = Returned \<and> resErr (resultOf s n) = Some e} \<and>
    (\<forall>n\<in>fst ` set (rcNodes cfg). JobSkippedMsg n \<in> set (sent s) \<longleftrightarrow> resSkipped (resultOf s n))"
proof -
  have "schedRun cfg evs s = Some s' \<Longrightarrow> closedRes s \<subseteq>\<^sub>m closedRes s'" for evs s s'
  proof (induction evs arbitrary: s)
    case (Cons ev evs)
    then obtain s1 where s1: "schedStep cfg ev s = Some s1" "schedRun cfg evs s1 = Some s'"
      by (auto simp: bind_eq_Some_conv)
    from s1(1) have "closedRes s \<subseteq>\<^sub>m closedRes s1"
    proof (cases rule: schedStepE)
      case (node n job)
      show ?thesis by (rule closedRes_mono [OF nodeEvent_frame(1,3) [OF node(4)]])
    qed (simp add: closedRes_def map_le_def)
    then show ?case using Cons.IH [OF s1(2)] by (rule map_le_trans)
  qed simp
  then have "phaseOf s' n = Returned \<and> resultOf s' n = resultOf s n"
    if "schedRun cfg evs s = Some s'" "phaseOf s n = Returned" for evs s' n
    using that by (fastforce simp: map_le_def closedRes_def dom_def split: if_splits)
  then show ?thesis using reachable_errs [OF assms] reachable_skips [OF assms] by blast
qed

theorem sched_records_witness:
  "phaseOf (sampleState 11) ''a'' = Returned \<and> resultOf (sampleState 11) ''a'' = resultOf (sampleState 8) ''a''"
proof -
  have "sampleEvents = take 8 sampleEvents @ drop 8 sampleEvents" "take 11 sampleEvents = sampleEvents"
    by (simp_all add: sampleEvents_def)
  then have "schedRun sampleCfg (drop 8 sampleEvents) (sampleState 8) = Some (sampleState 11)"
    using sample_run [of 8] sample_run [of 11] schedRun_append [of sampleCfg "take 8 sampleEvents"]
    by (metis bind.bind_lunit insertCI)
  moreover have "phaseOf (sampleState 8) ''a'' = Returned" by code_simp
  ultimately show ?thesis using sched_records [OF sample_reachable, of 8] by blast
qed

end
