(* ===== verification/Go_Path.thy ===== *)
theory Go_Path
  imports Go_Strings
begin

text \<open>
  The slash-separated path functions of Go's \<^verbatim>\<open>path\<close> and, on Unix, \<^verbatim>\<open>path/filepath\<close> that the
  sources use: \<^verbatim>\<open>Clean\<close>, \<^verbatim>\<open>Dir\<close>, \<^verbatim>\<open>Base\<close>, \<^verbatim>\<open>Join\<close>, \<^verbatim>\<open>Ext\<close> and \<^verbatim>\<open>IsAbs\<close>.
\<close>

abbreviation slash :: char where
  "slash \<equiv> CHR ''/''"

definition pathIsAbs :: "string \<Rightarrow> bool" where
  "pathIsAbs p \<longleftrightarrow> p \<noteq> [] \<and> hd p = slash"

text \<open>One component of \<^verbatim>\<open>Clean\<close>; the components kept so far are stacked, the last on top.\<close>

definition cleanStep :: "bool \<Rightarrow> string \<Rightarrow> string list \<Rightarrow> string list" where
  "cleanStep rooted c stack =
     (if c = [] \<or> c = ''.'' then stack
      else if c = ''..'' then
        (case stack of
           [] \<Rightarrow> if rooted then [] else [''..'']
         | prev # rest \<Rightarrow> if prev = ''..'' then ''..'' # stack else rest)
      else c # stack)"

definition pathClean :: "string \<Rightarrow> string" where
  "pathClean p =
     (let rooted = pathIsAbs p;
          body = joinWith ''/'' (rev (fold (cleanStep rooted) (splitOn slash p) []))
      in if rooted then slash # body else if body = [] then ''.'' else body)"

text \<open>What follows the last slash, and what comes before it with the slash.\<close>

definition afterSlash :: "string \<Rightarrow> string" where
  "afterSlash p = rev (takeWhile (\<lambda>c. c \<noteq> slash) (rev p))"

definition uptoSlash :: "string \<Rightarrow> string" where
  "uptoSlash p = rev (dropWhile (\<lambda>c. c \<noteq> slash) (rev p))"

definition pathDir :: "string \<Rightarrow> string" where
  "pathDir p = pathClean (uptoSlash p)"

definition pathBase :: "string \<Rightarrow> string" where
  "pathBase p =
     (if p = [] then ''.''
      else (let q = TrimRight p ''/'' in if q = [] then ''/'' else afterSlash q))"

definition pathJoin :: "string list \<Rightarrow> string" where
  "pathJoin elems =
     (case dropWhile (\<lambda>e. e = []) elems of [] \<Rightarrow> [] | es \<Rightarrow> pathClean (joinWith ''/'' es))"

definition pathExt :: "string \<Rightarrow> string" where
  "pathExt p =
     (let b = afterSlash p in
      if CHR ''.'' \<notin> set b then [] else CHR ''.'' # rev (takeWhile (\<lambda>c. c \<noteq> CHR ''.'') (rev b)))"

text \<open>Components of a cleaned path are neither empty nor a dot and have no slash.\<close>

definition cleanComponent :: "string \<Rightarrow> bool" where
  "cleanComponent c \<longleftrightarrow> c \<noteq> [] \<and> c \<noteq> ''.'' \<and> slash \<notin> set c"

lemma cleanStep_components:
  "\<forall>c\<in>set stack. cleanComponent c \<Longrightarrow> slash \<notin> set c \<Longrightarrow> \<forall>c\<in>set (cleanStep rooted c stack). cleanComponent c"
  by (auto simp: cleanStep_def cleanComponent_def split: list.splits)

lemma fold_cleanStep_components:
  "\<forall>c\<in>set cs. slash \<notin> set c \<Longrightarrow> \<forall>c\<in>set stack. cleanComponent c \<Longrightarrow>
     \<forall>c\<in>set (fold (cleanStep rooted) cs stack). cleanComponent c"
proof (induction cs arbitrary: stack)
  case (Cons c cs)
  have "\<forall>x\<in>set (cleanStep rooted c stack). cleanComponent x"
    using Cons.prems by (intro cleanStep_components) auto
  with Cons show ?case by simp
qed simp

lemma pathClean_nonempty [simp]: "pathClean p \<noteq> []"
  by (simp add: pathClean_def Let_def)

lemma pathIsAbs_clean [simp]: "pathIsAbs (pathClean p) = pathIsAbs p"
proof -
  have comps: "\<forall>c\<in>set (rev (fold (cleanStep r) (splitOn slash p) [])). cleanComponent c" for r
    using fold_cleanStep_components [of "splitOn slash p" "[]" r] by (auto dest: splitOn_parts)
  have "\<not> pathIsAbs (joinWith ''/'' cs)" if "\<forall>c\<in>set cs. cleanComponent c" for cs
    using that by (cases cs; cases "tl cs") (auto simp: pathIsAbs_def cleanComponent_def neq_Nil_conv)
  with comps have "\<not> pathIsAbs (joinWith ''/'' (rev (fold (cleanStep r) (splitOn slash p) [])))" for r by blast
  then show ?thesis by (cases "pathIsAbs p") (simp_all add: pathClean_def Let_def, simp_all add: pathIsAbs_def)
qed

end
