(* ===== verification/Runner_Publish.thy ===== *)
theory Runner_Publish
  imports Runner_Sched Go_Path
begin

text \<open>
  \<^verbatim>\<open>internal/runner/export.go\<close> and the rest of \<^verbatim>\<open>runner.go\<close>: exports, image publishing, and
  \<^verbatim>\<open>Run\<close>, which puts the scheduler and them together. BuildKit, the container runtime, the
  platform parser and the error group are arguments (\<open>publishEnv\<close>); of the group the code
  uses that it reports one of the errors of its members, and none when there is none
  (\<open>errgroupLaw\<close>).
\<close>

section \<open>Inputs (runnermodel)\<close>

datatype runFail =
    ErrNilSolver | ErrNilSender | ErrNilDefinition | ErrNilRuntime | ErrExportDockerMultiPlatform
  | ErrPublishSettingConflict | ErrDuplicatePlatform | ErrEmptyExportLocal | PlatformError
  | SolveFailed | LoadFailed | MarshalFailed | DagFail err | NodeFail nodeErr

record 'def RunnerExport =
  exDefinition :: "'def option"
  exJobName :: string
  exLocal :: string
  exDir :: bool

record 'def ImagePublish =
  ipDefinition :: "'def option"
  ipJobName :: string
  ipImage :: string
  ipPush :: bool
  ipInsecure :: bool
  ipExportDocker :: bool
  ipPlatform :: string

datatype exporterKind = ExporterLocal | ExporterImage | ExporterDocker

record exportEntry =
  eeType :: exporterKind
  eeAttrs :: "(string, string) gomap"
  eeOutputDir :: string

record ('def, 'ref) publishEnv =
  peSolve :: "'def \<Rightarrow> exportEntry \<Rightarrow> bool"
  peVariant :: "'def \<Rightarrow> 'ref option"
  peMarshal :: "string list \<Rightarrow> bool"
  peBuild :: "(string \<times> 'ref) list \<Rightarrow> exportEntry \<Rightarrow> bool"
  peLoadImage :: "string \<Rightarrow> bool"
  pePlatform :: "string \<Rightarrow> string option"
  peWait :: "runFail list \<Rightarrow> runFail option"

definition errgroupLaw :: "('e list \<Rightarrow> 'e option) \<Rightarrow> bool" where
  "errgroupLaw wait \<longleftrightarrow>
     (\<forall>es. (wait es = None \<longleftrightarrow> es = []) \<and> (\<forall>e. wait es = Some e \<longrightarrow> e \<in> set es))"

abbreviation someErr :: "'e option \<Rightarrow> 'e list" where
  "someErr x \<equiv> (case x of None \<Rightarrow> [] | Some e \<Rightarrow> [e])"

section \<open>Exports\<close>

definition solveExport :: "('def, 'ref) publishEnv \<Rightarrow> 'def RunnerExport \<Rightarrow> runFail option" where
  "solveExport env ex =
     (case exDefinition ex of
        None \<Rightarrow> Some ErrNilDefinition
      | Some d \<Rightarrow>
          if exLocal ex = [] then Some ErrEmptyExportLocal
          else
            (let outputDir = (if exDir ex then exLocal ex else pathDir (exLocal ex)) in
             failIf (\<not> peSolve env d \<lparr>eeType = ExporterLocal, eeAttrs = [], eeOutputDir = outputDir\<rparr>)
               SolveFailed))"

section \<open>Image publishing\<close>

record 'def publishGroup =
  pgImage :: string
  pgPush :: bool
  pgInsecure :: bool
  pgExportDocker :: bool
  pgVariants :: "'def ImagePublish list"

fun groupLoop ::
  "(string \<Rightarrow> nat option) \<Rightarrow> 'def publishGroup list \<Rightarrow> 'def ImagePublish list \<Rightarrow>
     runFail + 'def publishGroup list" where
  "groupLoop idx groups [] = Inr groups"
| "groupLoop idx groups (pub # pubs) =
     (case idx (ipImage pub) of
        Some i \<Rightarrow>
          (let grp = groups ! i in
           if ipPush pub \<noteq> pgPush grp \<or> ipInsecure pub \<noteq> pgInsecure grp \<or>
              ipExportDocker pub \<noteq> pgExportDocker grp
           then Inl ErrPublishSettingConflict
           else groupLoop idx (groups[i := grp\<lparr>pgVariants := pgVariants grp @ [pub]\<rparr>]) pubs)
      | None \<Rightarrow>
          groupLoop (idx(ipImage pub \<mapsto> length groups))
            (groups @ [\<lparr>pgImage = ipImage pub, pgPush = ipPush pub, pgInsecure = ipInsecure pub,
                        pgExportDocker = ipExportDocker pub, pgVariants = [pub]\<rparr>]) pubs)"

definition groupPublishes :: "'def ImagePublish list \<Rightarrow> runFail + 'def publishGroup list" where
  "groupPublishes pubs = groupLoop Map.empty [] pubs"

definition checkVariant ::
  "('def, 'ref) publishEnv \<Rightarrow> string set \<Rightarrow> 'def ImagePublish \<Rightarrow> runFail option" where
  "checkVariant env seen v =
     (if ipDefinition v = None then Some ErrNilDefinition
      else (case pePlatform env (ipPlatform v) of
              None \<Rightarrow> Some PlatformError
            | Some pid \<Rightarrow> failIf (pid \<in> seen) ErrDuplicatePlatform))"

text \<open>The normalised platform; the empty string where parsing fails, which ends the loop.\<close>

definition platformID :: "('def, 'ref) publishEnv \<Rightarrow> 'def ImagePublish \<Rightarrow> string" where
  "platformID env v = (case pePlatform env (ipPlatform v) of None \<Rightarrow> [] | Some pid \<Rightarrow> pid)"

definition validateVariants ::
  "('def, 'ref) publishEnv \<Rightarrow> 'def ImagePublish list \<Rightarrow> runFail option" where
  "validateVariants env variants = runSeen (checkVariant env) (platformID env) {} variants"

text \<open>The gateway function: one reference per platform, then the platform list as metadata.\<close>

definition buildVariant ::
  "('def, 'ref) publishEnv \<Rightarrow> 'def ImagePublish \<Rightarrow> runFail + string \<times> 'ref" where
  "buildVariant env v =
     (case pePlatform env (ipPlatform v) of
        None \<Rightarrow> Inl PlatformError
      | Some pid \<Rightarrow>
          (case ipDefinition v of
             None \<Rightarrow> Inl ErrNilDefinition
           | Some d \<Rightarrow> (case peVariant env d of None \<Rightarrow> Inl SolveFailed | Some ref \<Rightarrow> Inr (pid, ref))))"

definition multiPlatformBuildFunc ::
  "('def, 'ref) publishEnv \<Rightarrow> 'def ImagePublish list \<Rightarrow> runFail + (string \<times> 'ref) list" where
  "multiPlatformBuildFunc env variants =
     guardE (validateVariants env variants)
       (bindE (mapE (buildVariant env) variants)
          (\<lambda>refs. guardE (failIf (\<not> peMarshal env (map fst refs)) MarshalFailed) (Inr refs)))"

definition imageAttrs :: "string \<Rightarrow> bool \<Rightarrow> bool \<Rightarrow> (string, string) gomap" where
  "imageAttrs img push insecure =
     [(''name'', img)] @ (if push then [(''push'', ''true'')] else []) @
     (if insecure then [(''registry.insecure'', ''true'')] else [])"

definition solveMultiPlatformPublish ::
  "('def, 'ref) publishEnv \<Rightarrow> 'def publishGroup \<Rightarrow> runFail option" where
  "solveMultiPlatformPublish env grp =
     (case multiPlatformBuildFunc env (pgVariants grp) of
        Inl e \<Rightarrow> Some e
      | Inr refs \<Rightarrow>
          failIf (\<not> peBuild env refs
                      \<lparr>eeType = ExporterImage, eeAttrs = imageAttrs (pgImage grp) (pgPush grp) (pgInsecure grp),
                       eeOutputDir = []\<rparr>) SolveFailed)"

definition solveImagePublish ::
  "('def, 'ref) publishEnv \<Rightarrow> 'def ImagePublish \<Rightarrow> runFail option" where
  "solveImagePublish env pub =
     (case ipDefinition pub of
        None \<Rightarrow> Some ErrNilDefinition
      | Some d \<Rightarrow>
          failIf (\<not> peSolve env d
                      \<lparr>eeType = ExporterImage, eeAttrs = imageAttrs (ipImage pub) (ipPush pub) (ipInsecure pub),
                       eeOutputDir = []\<rparr>) SolveFailed)"

definition solveImageExportDocker ::
  "('def, 'ref) publishEnv \<Rightarrow> 'def ImagePublish \<Rightarrow> runFail option" where
  "solveImageExportDocker env pub =
     (case ipDefinition pub of
        None \<Rightarrow> Some ErrNilDefinition
      | Some d \<Rightarrow>
          peWait env
            (someErr (failIf (\<not> peLoadImage env (ipImage pub)) LoadFailed) @
             someErr (failIf (\<not> peSolve env d
                        \<lparr>eeType = ExporterDocker, eeAttrs = [(''name'', ipImage pub)], eeOutputDir = []\<rparr>)
                        SolveFailed)))"

text \<open>The dispatch of \<^verbatim>\<open>runPublishes\<close> on the size of a group and its flags.\<close>

definition publishTask :: "('def, 'ref) publishEnv \<Rightarrow> 'def publishGroup \<Rightarrow> runFail option" where
  "publishTask env grp =
     (case pgVariants grp of
        [pub] \<Rightarrow>
          if ipPush pub \<and> ipExportDocker pub then
            peWait env (someErr (solveImagePublish env pub) @ someErr (solveImageExportDocker env pub))
          else if ipExportDocker pub then solveImageExportDocker env pub
          else solveImagePublish env pub
      | _ \<Rightarrow> solveMultiPlatformPublish env grp)"

definition runPublishes :: "('def, 'ref) publishEnv \<Rightarrow> 'def ImagePublish list \<Rightarrow> runFail option" where
  "runPublishes env pubs =
     (if pubs = [] then None
      else (case groupPublishes pubs of
              Inl e \<Rightarrow> Some e
            | Inr groups \<Rightarrow>
                if \<exists>grp\<in>set groups. length (pgVariants grp) > 1 \<and> pgExportDocker grp
                then Some ErrExportDockerMultiPlatform
                else peWait env (concat (map (\<lambda>grp. someErr (publishTask env grp)) groups))))"

section \<open>Run\<close>

definition filterSuccessful ::
  "('a \<Rightarrow> string) \<Rightarrow> ('ast, 'def) dag \<Rightarrow> (string \<Rightarrow> nodeResult) \<Rightarrow> 'a list \<Rightarrow> 'a list" where
  "filterSuccessful jobName nodes res items =
     filter (\<lambda>x. map_of nodes (jobName x) = None \<or>
                 resErr (res (jobName x)) = None \<and> \<not> resSkipped (res (jobName x))) items"

record ('ast, 'def) RunInput =
  riSolver :: bool
  riSender :: bool
  riRuntime :: bool
  riJobs :: "('ast, 'def) RunnerJob list"
  riParallelism :: int
  riFailFast :: bool
  riExports :: "'def RunnerExport list"
  riPublishes :: "'def ImagePublish list"
  riWhenCtx :: "Context option"

text \<open>
  Everything around \<^verbatim>\<open>Run\<close>: CEL, the order in which Go walks the node map, the semaphore, the
  environment of the nodes, whether the caller may cancel, which error the group of
  goroutines reports, and the exporting side.
\<close>

record ('ast, 'def, 'ref) world =
  wdCel :: "'ast Cel"
  wdOrder :: "('ast, 'def) dag \<Rightarrow> string list"
  wdGrant :: "int \<Rightarrow> nat \<Rightarrow> bool"
  wdEnv :: "string \<Rightarrow> bool \<Rightarrow> nodeEnv"
  wdCancel :: bool
  wdFirst :: "nodeErr list \<Rightarrow> nodeErr option"
  wdPublish :: "('def, 'ref) publishEnv"

definition runCfg ::
  "('ast, 'def, 'ref) world \<Rightarrow> ('ast, 'def) RunInput \<Rightarrow> ('ast, 'def) dag \<Rightarrow> ('ast, 'def) runConfig" where
  "runCfg wd inp nodes =
     \<lparr>rcCel = wdCel wd, rcNodes = nodes, rcLimit = semLimit (riParallelism inp) (length (riJobs inp)),
      rcGrant = wdGrant wd, rcWhenCtx = riWhenCtx inp, rcEnv = wdEnv wd,
      rcFailFast = riFailFast inp, rcParentCancel = wdCancel wd\<rparr>"

text \<open>The result: the joined errors (none is success), and what was exported and published.\<close>

record 'def runResult =
  rrErrors :: "runFail list"
  rrExports :: "'def RunnerExport list"
  rrPublishes :: "'def ImagePublish list"

definition failRun :: "runFail list \<Rightarrow> 'def runResult" where
  "failRun es = \<lparr>rrErrors = es, rrExports = [], rrPublishes = []\<rparr>"

text \<open>What follows \<^verbatim>\<open>Wait\<close>.\<close>

definition finishRun ::
  "('ast, 'def, 'ref) world \<Rightarrow> ('ast, 'def) RunInput \<Rightarrow> ('ast, 'def) dag \<Rightarrow> dagState \<Rightarrow> 'def runResult" where
  "finishRun wd inp nodes s =
     (if riFailFast inp \<and> wdFirst wd (errs s) \<noteq> None
      then failRun [NodeFail (the (wdFirst wd (errs s)))]
      else
        (let exports = filterSuccessful exJobName nodes (resultOf s) (riExports inp);
             publishes = filterSuccessful ipJobName nodes (resultOf s) (riPublishes inp);
             env = wdPublish wd in
         \<lparr>rrErrors = map NodeFail (errs s) @
            someErr (peWait env (concat (map (\<lambda>e. someErr (solveExport env e)) exports))) @
            someErr (runPublishes env publishes),
          rrExports = exports, rrPublishes = publishes\<rparr>))"

text \<open>\<open>evs\<close> is the schedule; the result is \<open>None\<close> when it is not a complete schedule.\<close>

definition Run ::
  "('ast, 'def, 'ref) world \<Rightarrow> ('ast, 'def) RunInput \<Rightarrow> event list \<Rightarrow> 'def runResult option" where
  "Run wd inp evs =
     (if \<not> riSolver inp then Some (failRun [ErrNilSolver])
      else if \<not> riSender inp then Some (failRun [ErrNilSender])
      else if \<not> riRuntime inp \<and> (\<exists>p\<in>set (riPublishes inp). ipExportDocker p)
        then Some (failRun [ErrNilRuntime])
      else if riJobs inp = [] then Some (failRun [])
      else (case buildDAG (wdOrder wd) (riJobs inp) of
              Inl e \<Rightarrow> Some (failRun [DagFail e])
            | Inr nodes \<Rightarrow>
                (case schedRun (runCfg wd inp nodes) evs (initState (runCfg wd inp nodes)) of
                   None \<Rightarrow> None
                 | Some s \<Rightarrow> if allReturned (runCfg wd inp nodes) s then Some (finishRun wd inp nodes s) else None)))"

section \<open>Groups of variants\<close>

definition settings :: "'def ImagePublish \<Rightarrow> bool \<times> bool \<times> bool" where
  "settings p = (ipPush p, ipInsecure p, ipExportDocker p)"

text \<open>The variants of an image, and the group they make.\<close>

abbreviation variantsOf :: "'def ImagePublish list \<Rightarrow> string \<Rightarrow> 'def ImagePublish list" where
  "variantsOf pubs img \<equiv> filter (\<lambda>p. ipImage p = img) pubs"

definition groupOf :: "'def ImagePublish list \<Rightarrow> string \<Rightarrow> 'def publishGroup" where
  "groupOf pubs img =
     (let p = hd (variantsOf pubs img) in
      \<lparr>pgImage = img, pgPush = ipPush p, pgInsecure = ipInsecure p, pgExportDocker = ipExportDocker p,
       pgVariants = variantsOf pubs img\<rparr>)"

definition imagesOf :: "'def ImagePublish list \<Rightarrow> string list" where
  "imagesOf pubs = dedupBy id {} (map ipImage pubs)"

definition agree :: "'def ImagePublish list \<Rightarrow> bool" where
  "agree pubs \<longleftrightarrow> (\<forall>p\<in>set pubs. \<forall>q\<in>set pubs. ipImage p = ipImage q \<longrightarrow> settings p = settings q)"

lemma imagesOf_snoc:
  "imagesOf (ps @ [p]) = (if ipImage p \<in> ipImage ` set ps then imagesOf ps else imagesOf ps @ [ipImage p])"
  by (simp add: imagesOf_def dedupBy_snoc)

lemma set_imagesOf [simp]: "set (imagesOf ps) = ipImage ` set ps"
  by (simp add: imagesOf_def)

lemma distinct_imagesOf [simp]: "distinct (imagesOf ps)"
  by (simp add: imagesOf_def)

lemma groupOf_other: "ipImage p \<noteq> img \<Longrightarrow> groupOf (ps @ [p]) img = groupOf ps img"
  by (simp add: groupOf_def)

lemma groupOf_same:
  "ipImage p \<in> ipImage ` set ps \<Longrightarrow>
     groupOf (ps @ [p]) (ipImage p) =
     (groupOf ps (ipImage p))\<lparr>pgVariants := pgVariants (groupOf ps (ipImage p)) @ [p]\<rparr>"
  by (auto simp: groupOf_def Let_def filter_empty_conv hd_append)

lemma groupOf_new: "ipImage p \<notin> ipImage ` set ps \<Longrightarrow>
    groupOf (ps @ [p]) (ipImage p) =
      \<lparr>pgImage = ipImage p, pgPush = ipPush p, pgInsecure = ipInsecure p,
       pgExportDocker = ipExportDocker p, pgVariants = [p]\<rparr>"
proof -
  assume "ipImage p \<notin> ipImage ` set ps"
  then have "variantsOf ps (ipImage p) = []" by (metis (mono_tags) filter_False image_eqI)
  then show ?thesis by (simp add: groupOf_def)
qed

lemma agreeD: "agree ps \<Longrightarrow> p \<in> set ps \<Longrightarrow> q \<in> set ps \<Longrightarrow> ipImage p = ipImage q \<Longrightarrow> settings p = settings q"
  unfolding agree_def by blast

lemma agree_last:
  assumes "agree ps"
  shows "agree (ps @ [p]) \<longleftrightarrow> (\<forall>q\<in>set ps. ipImage q = ipImage p \<longrightarrow> settings q = settings p)"
proof
  assume a: "agree (ps @ [p])"
  show "\<forall>q\<in>set ps. ipImage q = ipImage p \<longrightarrow> settings q = settings p"
  proof (intro ballI impI)
    fix q assume "q \<in> set ps" "ipImage q = ipImage p"
    then show "settings q = settings p" by (intro agreeD [OF a]) auto
  qed
next
  assume *: "\<forall>q\<in>set ps. ipImage q = ipImage p \<longrightarrow> settings q = settings p"
  show "agree (ps @ [p])" unfolding agree_def
  proof (intro ballI impI)
    fix x y assume "x \<in> set (ps @ [p])" "y \<in> set (ps @ [p])" and eq: "ipImage x = ipImage y"
    then consider "x \<in> set ps" "y \<in> set ps" | "x \<in> set ps" "y = p" | "x = p" "y \<in> set ps" | "x = p" "y = p"
      by auto
    then show "settings x = settings y"
    proof cases
      case 1
      with assms eq show ?thesis unfolding agree_def by blast
    qed (use * eq in auto)
  qed
qed

lemma agree_snoc:
  assumes "agree ps"
  shows "agree (ps @ [p]) \<longleftrightarrow>
    (ipImage p \<in> ipImage ` set ps \<longrightarrow> settings p = settings (hd (variantsOf ps (ipImage p))))"
proof (cases "ipImage p \<in> ipImage ` set ps")
  case True
  then obtain q where "q \<in> set ps" "ipImage q = ipImage p" by auto
  then have "variantsOf ps (ipImage p) \<noteq> []" by (auto simp: filter_empty_conv)
  then have "hd (variantsOf ps (ipImage p)) \<in> set (variantsOf ps (ipImage p))" by (rule hd_in_set)
  then have h: "hd (variantsOf ps (ipImage p)) \<in> set ps" "ipImage (hd (variantsOf ps (ipImage p))) = ipImage p"
    by auto
  let ?h = "hd (variantsOf ps (ipImage p))"
  have "agree (ps @ [p]) \<longleftrightarrow> (\<forall>q\<in>set ps. ipImage q = ipImage p \<longrightarrow> settings q = settings p)"
    by (rule agree_last [OF assms])
  also have "\<dots> \<longleftrightarrow> settings p = settings ?h"
  proof
    assume "\<forall>q\<in>set ps. ipImage q = ipImage p \<longrightarrow> settings q = settings p"
    then show "settings p = settings ?h" using h by simp
  next
    assume p: "settings p = settings ?h"
    have "settings q = settings ?h" if "q \<in> set ps" "ipImage q = ipImage p" for q
      using that h by (intro agreeD [OF assms]) simp_all
    then show "\<forall>q\<in>set ps. ipImage q = ipImage p \<longrightarrow> settings q = settings p" using p by simp
  qed
  finally show ?thesis using True by simp
next
  case False
  then have "\<forall>q\<in>set ps. ipImage q \<noteq> ipImage p" by (metis image_eqI)
  with False agree_last [OF assms] show ?thesis by simp
qed

text \<open>The index finds the group of an image.\<close>

lemma conflict_iff:
  "(ipPush q \<noteq> pgPush (groupOf ps img) \<or> ipInsecure q \<noteq> pgInsecure (groupOf ps img) \<or>
    ipExportDocker q \<noteq> pgExportDocker (groupOf ps img)) \<longleftrightarrow> settings q \<noteq> settings (hd (variantsOf ps img))"
  by (auto simp: settings_def groupOf_def Let_def)

definition idxOk :: "(string \<Rightarrow> nat option) \<Rightarrow> string list \<Rightarrow> bool" where
  "idxOk idx imgs \<longleftrightarrow> (\<forall>img i. idx img = Some i \<longleftrightarrow> i < length imgs \<and> imgs ! i = img)"

lemma groupLoop_spec:
  assumes "idxOk idx (imagesOf ps)" "agree ps"
  shows "groupLoop idx (map (groupOf ps) (imagesOf ps)) qs =
    (if agree (ps @ qs) then Inr (map (groupOf (ps @ qs)) (imagesOf (ps @ qs)))
     else Inl ErrPublishSettingConflict)"
  using assms
proof (induction qs arbitrary: ps idx)
  case (Cons q qs)
  have no: "\<not> agree (ps @ q # qs)" if "\<not> agree (ps @ [q])" using that by (auto simp: agree_def)
  show ?case
  proof (cases "idx (ipImage q)")
    case (Some i)
    with Cons.prems(1) have i: "i < length (imagesOf ps)" "imagesOf ps ! i = ipImage q"
      by (auto simp: idxOk_def)
    then have mem: "ipImage q \<in> ipImage ` set ps" using nth_mem [OF i(1)] by simp
    have upd: "(map (groupOf ps) (imagesOf ps))
        [i := (groupOf ps (ipImage q))\<lparr>pgVariants := pgVariants (groupOf ps (ipImage q)) @ [q]\<rparr>] =
        map (groupOf (ps @ [q])) (imagesOf (ps @ [q]))"
    proof (rule nth_equalityI)
      fix k assume "k < length ((map (groupOf ps) (imagesOf ps))
        [i := (groupOf ps (ipImage q))\<lparr>pgVariants := pgVariants (groupOf ps (ipImage q)) @ [q]\<rparr>])"
      then have k: "k < length (imagesOf ps)" by simp
      have "k = i \<longleftrightarrow> imagesOf ps ! k = ipImage q"
        using i k distinct_imagesOf [of ps] by (metis nth_eq_iff_index_eq)
      then show "((map (groupOf ps) (imagesOf ps))
          [i := (groupOf ps (ipImage q))\<lparr>pgVariants := pgVariants (groupOf ps (ipImage q)) @ [q]\<rparr>]) ! k =
          map (groupOf (ps @ [q])) (imagesOf (ps @ [q])) ! k"
        using k i mem groupOf_same [OF mem] groupOf_other [of q "imagesOf ps ! k" ps]
        by (auto simp: imagesOf_snoc nth_list_update)
    qed (simp add: imagesOf_snoc mem)
    have iff: "agree (ps @ [q]) \<longleftrightarrow> settings q = settings (hd (variantsOf ps (ipImage q)))"
      using agree_snoc [OF Cons.prems(2), of q] mem by simp
    show ?thesis
    proof (cases "agree (ps @ [q])")
      case True
      have "idxOk idx (imagesOf (ps @ [q]))" using Cons.prems(1) mem by (simp add: imagesOf_snoc)
      from Cons.IH [OF this True] Some i upd True iff conflict_iff [of q ps "ipImage q"] show ?thesis
        by (simp add: Let_def)
    next
      case False
      then have "\<not> agree (ps @ q # qs)" by (rule no)
      with False Some i iff conflict_iff [of q ps "ipImage q"] show ?thesis by (auto simp: Let_def)
    qed
  next
    case None
    have new: "ipImage q \<notin> ipImage ` set ps"
    proof
      assume "ipImage q \<in> ipImage ` set ps"
      then have "ipImage q \<in> set (imagesOf ps)" by simp
      then obtain i where "i < length (imagesOf ps)" "imagesOf ps ! i = ipImage q"
        by (metis in_set_conv_nth)
      with Cons.prems(1) have "idx (ipImage q) = Some i" by (simp only: idxOk_def)
      with None show False by simp
    qed
    have "map (groupOf (ps @ [q])) (imagesOf ps) = map (groupOf ps) (imagesOf ps)"
      using new by (intro map_cong) (auto simp: groupOf_other image_iff)
    then have upd: "map (groupOf (ps @ [q])) (imagesOf (ps @ [q])) = map (groupOf ps) (imagesOf ps) @
        [\<lparr>pgImage = ipImage q, pgPush = ipPush q, pgInsecure = ipInsecure q,
          pgExportDocker = ipExportDocker q, pgVariants = [q]\<rparr>]"
      using new by (simp add: imagesOf_snoc groupOf_new)
    have "imagesOf ps ! i \<noteq> ipImage q" if "i < length (imagesOf ps)" for i
      using nth_mem [OF that] new by auto
    then have "idxOk (idx(ipImage q \<mapsto> length (imagesOf ps))) (imagesOf (ps @ [q]))"
      using Cons.prems(1) new by (auto simp: idxOk_def imagesOf_snoc nth_append less_Suc_eq)
    moreover have "agree (ps @ [q])" using agree_snoc [OF Cons.prems(2), of q] new by simp
    ultimately have "groupLoop (idx(ipImage q \<mapsto> length (imagesOf ps)))
        (map (groupOf (ps @ [q])) (imagesOf (ps @ [q]))) qs =
        (if agree ((ps @ [q]) @ qs) then Inr (map (groupOf ((ps @ [q]) @ qs)) (imagesOf ((ps @ [q]) @ qs)))
         else Inl ErrPublishSettingConflict)"
      by (rule Cons.IH)
    with None upd show ?thesis by simp
  qed
qed (simp_all)

text \<open>Image publishes are grouped by image reference, in the order of first appearance; a
  group has exactly the publishes of its image, in order, with the settings they all
  share. A conflict is reported exactly when two publishes of one image differ in push,
  insecure or export-docker.\<close>

theorem groupPublishes_spec:
  "groupPublishes pubs =
     (if \<forall>p\<in>set pubs. \<forall>q\<in>set pubs. ipImage p = ipImage q \<longrightarrow>
           (ipPush p, ipInsecure p, ipExportDocker p) = (ipPush q, ipInsecure q, ipExportDocker q)
      then Inr (map (groupOf pubs) (dedupBy id {} (map ipImage pubs)))
      else Inl ErrPublishSettingConflict)"
proof -
  have "idxOk Map.empty (imagesOf ([] :: 'a ImagePublish list))" "agree ([] :: 'a ImagePublish list)"
    by (simp_all add: idxOk_def imagesOf_def agree_def)
  from groupLoop_spec [OF this, of pubs] show ?thesis
    unfolding groupPublishes_def imagesOf_def agree_def settings_def
    by (simp only: append_Nil list.map dedupBy.simps)
qed

definition samplePub :: "string \<Rightarrow> string \<Rightarrow> bool \<Rightarrow> nat ImagePublish" where
  "samplePub job img push =
     \<lparr>ipDefinition = Some 0, ipJobName = job, ipImage = img, ipPush = push, ipInsecure = False,
      ipExportDocker = False, ipPlatform = job\<rparr>"

theorem groupPublishes_spec_witness:
  "groupPublishes [samplePub ''a'' ''x'' True, samplePub ''b'' ''y'' True, samplePub ''c'' ''x'' True] =
     Inr (map (groupOf [samplePub ''a'' ''x'' True, samplePub ''b'' ''y'' True, samplePub ''c'' ''x'' True])
            [''x'', ''y''])"
  by (subst groupPublishes_spec) (simp add: samplePub_def)

section \<open>Variants\<close>

interpretation variants: dedup_loop "checkVariant env" "platformID env"
  "\<lambda>v. ipDefinition v \<noteq> None \<and> pePlatform env (ipPlatform v) \<noteq> None" for env
  by unfold_locales (auto simp: checkVariant_def platformID_def split: option.splits)

lemma buildVariant_total:
  assumes "validateVariants env vs = None" "v \<in> set vs"
  shows "buildVariant env v =
    (case peVariant env (the (ipDefinition v)) of None \<Rightarrow> Inl SolveFailed | Some ref \<Rightarrow> Inr (platformID env v, ref))"
  using assms variants.run_accepts [of env vs]
  by (auto simp: validateVariants_def buildVariant_def platformID_def split: option.splits)

text \<open>A multi-platform image. The gateway function succeeds exactly when every variant has a
  definition and a known platform, no two normalise to the same platform, every solve
  succeeds and the metadata can be written; the result then holds one reference per
  variant, under pairwise distinct platforms, in the order of the variants.\<close>

theorem multiPlatformBuildFunc_spec:
  "multiPlatformBuildFunc env vs = Inr refs \<longleftrightarrow>
     (\<forall>v\<in>set vs. ipDefinition v \<noteq> None \<and> pePlatform env (ipPlatform v) \<noteq> None) \<and>
     distinct (map (platformID env) vs) \<and>
     list_all2 (\<lambda>v r. fst r = platformID env v \<and> peVariant env (the (ipDefinition v)) = Some (snd r)) vs refs \<and>
     peMarshal env (map (platformID env) vs)"
proof (cases "validateVariants env vs")
  case (Some e)
  then show ?thesis
    using variants.run_accepts [of env vs] by (auto simp: multiPlatformBuildFunc_def validateVariants_def)
next
  case None
  have "list_all2 (\<lambda>v r. buildVariant env v = Inr r) vs refs \<longleftrightarrow>
      list_all2 (\<lambda>v r. fst r = platformID env v \<and> peVariant env (the (ipDefinition v)) = Some (snd r)) vs refs"
    by (rule list.rel_cong) (auto simp: buildVariant_total [OF None] split: option.splits)
  moreover have "map fst refs = map (platformID env) vs"
    if "list_all2 (\<lambda>v r. fst r = platformID env v \<and> peVariant env (the (ipDefinition v)) = Some (snd r)) vs refs"
    using that by (induction rule: list_all2_induct) auto
  ultimately show ?thesis
    using None variants.run_accepts [of env vs]
    by (auto simp: multiPlatformBuildFunc_def validateVariants_def mapE_Inr)
qed

definition sampleEnv :: "(nat, nat) publishEnv" where
  "sampleEnv =
     \<lparr>peSolve = (\<lambda>_ _. True), peVariant = Some, peMarshal = (\<lambda>_. True), peBuild = (\<lambda>_ _. True),
      peLoadImage = (\<lambda>_. True), pePlatform = Some, peWait = (\<lambda>es. case es of [] \<Rightarrow> None | e # _ \<Rightarrow> Some e)\<rparr>"

theorem multiPlatformBuildFunc_spec_witness:
  "multiPlatformBuildFunc sampleEnv [samplePub ''amd64'' ''x'' True, samplePub ''arm64'' ''x'' True] =
     Inr [(''amd64'', 0), (''arm64'', 0)]"
  by (subst multiPlatformBuildFunc_spec) (simp add: sampleEnv_def samplePub_def platformID_def)

section \<open>The whole run\<close>

lemma filterSuccessful_sound:
  "x \<in> set (filterSuccessful f nodes res xs) \<longleftrightarrow>
     x \<in> set xs \<and> (f x \<in> fst ` set nodes \<longrightarrow> succeeded (res (f x)))"
  by (auto simp: filterSuccessful_def succeeded_def map_of_eq_None_iff)

lemma no_Some_iff: "{e. \<exists>n\<in>A. f n = Some e} = {} \<longleftrightarrow> (\<forall>n\<in>A. f n = None)"
  by (auto intro: option_eqI)

lemma errgroup_None: "errgroupLaw w \<Longrightarrow> w es = None \<longleftrightarrow> es = []"
  by (simp add: errgroupLaw_def)

lemma someErr_Nil [simp]: "someErr x = [] \<longleftrightarrow> x = None"
  by (simp split: option.split)

text \<open>The inputs that pass the checks at the top of \<^verbatim>\<open>Run\<close>.\<close>

definition inputOk :: "('ast, 'def) RunInput \<Rightarrow> bool" where
  "inputOk inp \<longleftrightarrow> riSolver inp \<and> riSender inp \<and> riJobs inp \<noteq> [] \<and>
     (riRuntime inp \<or> (\<forall>p\<in>set (riPublishes inp). \<not> ipExportDocker p))"

lemma Run_ok:
  assumes "inputOk inp" "buildDAG (wdOrder wd) (riJobs inp) = Inr nodes"
  shows "Run wd inp evs = Some r \<longleftrightarrow>
    (\<exists>s. schedRun (runCfg wd inp nodes) evs (initState (runCfg wd inp nodes)) = Some s \<and>
         allReturned (runCfg wd inp nodes) s \<and> r = finishRun wd inp nodes s)"
  using assms by (auto simp: Run_def inputOk_def split: option.splits if_splits)

lemma runCfg_simps [simp]:
  "rcNodes (runCfg wd inp nodes) = nodes" "rcGrant (runCfg wd inp nodes) = wdGrant wd"
  "rcLimit (runCfg wd inp nodes) = semLimit (riParallelism inp) (length (riJobs inp))"
  by (simp_all add: runCfg_def)

lemma semLimit_pos: "riJobs inp \<noteq> [] \<Longrightarrow> 1 \<le> semLimit p (length (riJobs inp))"
  by (cases "riJobs inp") (auto simp: semLimit_def)

text \<open>C12: \<^verbatim>\<open>Run\<close> as a whole, for valid input and every complete schedule. It returns no error
  exactly when no job failed and the exports and publishes of the successful jobs all
  went through. Nothing is exported or published for a job that failed or was skipped,
  and nothing at all when a fail-fast run has an error.\<close>

theorem Run_outcome:
  assumes "inputOk inp" "buildDAG (wdOrder wd) (riJobs inp) = Inr nodes"
    and "errgroupLaw (wdFirst wd)" "errgroupLaw (peWait (wdPublish wd))"
    and "schedRun (runCfg wd inp nodes) evs (initState (runCfg wd inp nodes)) = Some s"
    and "Run wd inp evs = Some r"
  shows "(rrErrors r = [] \<longleftrightarrow>
      (\<forall>n\<in>fst ` set nodes. resErr (resultOf s n) = None) \<and>
      (\<forall>e\<in>set (filterSuccessful exJobName nodes (resultOf s) (riExports inp)). solveExport (wdPublish wd) e = None) \<and>
      runPublishes (wdPublish wd) (filterSuccessful ipJobName nodes (resultOf s) (riPublishes inp)) = None) \<and>
    (\<forall>e\<in>set (rrExports r). exJobName e \<in> fst ` set nodes \<longrightarrow> succeeded (resultOf s (exJobName e))) \<and>
    (\<forall>p\<in>set (rrPublishes r). ipJobName p \<in> fst ` set nodes \<longrightarrow> succeeded (resultOf s (ipJobName p))) \<and>
    (riFailFast inp \<and> (\<exists>n\<in>fst ` set nodes. resErr (resultOf s n) \<noteq> None) \<longrightarrow>
      rrExports r = [] \<and> rrPublishes r = [])"
proof -
  let ?cfg = "runCfg wd inp nodes"
  from assms(1,2,5,6) have ret: "allReturned ?cfg s" and r: "r = finishRun wd inp nodes s"
    by (auto simp: Run_ok)
  have "reachable ?cfg s" by (rule schedRun_reachable [OF reachable.start assms(5)])
  from reachable_errs [OF this] ret
  have "set (errs s) = {e. \<exists>n\<in>fst ` set nodes. resErr (resultOf s n) = Some e}"
    by (simp add: allReturned_def)
  then have errs: "errs s = [] \<longleftrightarrow> (\<forall>n\<in>fst ` set nodes. resErr (resultOf s n) = None)"
    using no_Some_iff [of "fst ` set nodes" "\<lambda>n. resErr (resultOf s n)"] set_empty [of "errs s"] by (simp only:)
  have ff: "wdFirst wd (errs s) = None \<longleftrightarrow> errs s = []" by (rule errgroup_None [OF assms(3)])
  show ?thesis
    unfolding r finishRun_def Let_def failRun_def errs [symmetric]
    using ff errs by (auto simp: errgroup_None [OF assms(4)] filterSuccessful_sound)
qed

definition sampleInput :: "(string, nat) RunInput" where
  "sampleInput =
     \<lparr>riSolver = True, riSender = True, riRuntime = False,
      riJobs = [plainJob ''a'' [], plainJob ''b'' [''a'']], riParallelism = 1, riFailFast = False,
      riExports = [\<lparr>exDefinition = Some 0, exJobName = ''b'', exLocal = ''out/f'', exDir = False\<rparr>],
      riPublishes = [], riWhenCtx = None\<rparr>"

definition sampleWorld :: "(string, nat, nat) world" where
  "sampleWorld =
     \<lparr>wdCel = sampleCel, wdOrder = gokeys, wdGrant = (\<lambda>limit held. int held < limit),
      wdEnv = (\<lambda>_ _. sampleNodeEnv), wdCancel = False,
      wdFirst = (\<lambda>es. case es of [] \<Rightarrow> None | e # _ \<Rightarrow> Some e), wdPublish = sampleEnv\<rparr>"

lemma first_errgroupLaw: "errgroupLaw (\<lambda>es. case es of [] \<Rightarrow> None | e # _ \<Rightarrow> Some e)"
  by (auto simp: errgroupLaw_def split: list.splits)

lemma sample_inputOk: "inputOk sampleInput"
  by (simp add: inputOk_def sampleInput_def)

lemma sample_buildDAG: "buildDAG (wdOrder sampleWorld) (riJobs sampleInput) = Inr (rcNodes sampleCfg)"
  by code_simp

lemma sample_runCfg: "runCfg sampleWorld sampleInput (rcNodes sampleCfg) = sampleCfg"
  by (simp add: runCfg_def sampleWorld_def sampleInput_def sampleCfg_def numeral_2_eq_2)

lemma sample_cfg_run: "k \<in> {8, 11} \<Longrightarrow> schedRun (runCfg sampleWorld sampleInput (rcNodes sampleCfg)) (take k sampleEvents)
    (initState (runCfg sampleWorld sampleInput (rcNodes sampleCfg))) = Some (sampleState k)"
  unfolding sample_runCfg by (rule sample_run)

theorem Run_outcome_witness:
  "\<exists>r. Run sampleWorld sampleInput (take 11 sampleEvents) = Some r \<and> map exJobName (rrExports r) = [''b''] \<and>
       succeeded (resultOf (sampleState 11) ''b'')"
proof -
  have "map_option (\<lambda>r. map exJobName (rrExports r)) (Run sampleWorld sampleInput (take 11 sampleEvents)) = Some [''b'']"
    by code_simp
  then obtain r where r: "Run sampleWorld sampleInput (take 11 sampleEvents) = Some r"
    "map exJobName (rrExports r) = [''b'']" by auto
  have laws: "errgroupLaw (wdFirst sampleWorld)" "errgroupLaw (peWait (wdPublish sampleWorld))"
    using first_errgroupLaw by (simp_all add: sampleWorld_def sampleEnv_def)
  have "''b'' \<in> fst ` set (rcNodes sampleCfg)" by (simp add: sample_keys)
  moreover have "\<exists>e\<in>set (rrExports r). exJobName e = ''b''" using r(2) by auto
  moreover have "\<forall>e\<in>set (rrExports r). exJobName e \<in> fst ` set (rcNodes sampleCfg) \<longrightarrow>
      succeeded (resultOf (sampleState 11) (exJobName e))"
    by (rule Run_outcome [OF sample_inputOk sample_buildDAG laws sample_cfg_run r(1), THEN conjunct2, THEN conjunct1]) simp
  ultimately have "succeeded (resultOf (sampleState 11) ''b'')" by (elim bexE) metis
  then show ?thesis using r by (intro exI [of _ r] conjI)
qed

text \<open>\<^verbatim>\<open>Run\<close> always comes to an end: on valid input with an accepted graph there is a complete
  schedule, every partial schedule can be completed, and no schedule is longer than five
  events per job plus one per dependency and one cancellation.\<close>

theorem Run_returns:
  assumes "inputOk inp" "mapOrder (wdOrder wd)" "buildDAG (wdOrder wd) (riJobs inp) = Inr nodes"
    and "\<forall>limit held. wdGrant wd limit held \<longleftrightarrow> int held < limit"
    and "schedRun (runCfg wd inp nodes) evs (initState (runCfg wd inp nodes)) = Some s"
  shows "(\<exists>evs' r. Run wd inp (evs @ evs') = Some r) \<and>
    length evs \<le> (\<Sum>n\<in>fst ` set nodes. length (nodeDeps nodes n) + 5) + 1"
proof -
  let ?cfg = "runCfg wd inp nodes"
  have dag: "dagOk (rcNodes ?cfg)" using buildDAG_Inr(1) [OF assms(2,3)] by simp
  have sem: "semaphoreLaw ?cfg" using assms(4) by (simp add: semaphoreLaw_def)
  have lim: "1 \<le> rcLimit ?cfg" using assms(1) semLimit_pos [of inp] by (simp add: inputOk_def)
  have "reachable ?cfg s" by (rule schedRun_reachable [OF reachable.start assms(5)])
  from run_completes [OF dag sem lim this] obtain evs' s' where
    "schedRun ?cfg evs' s = Some s'" "allReturned ?cfg s'" by blast
  then have "Run wd inp (evs @ evs') = Some (finishRun wd inp nodes s')"
    using assms(1,3,5) by (auto simp: Run_ok schedRun_append)
  moreover have "length evs \<le> (\<Sum>n\<in>fst ` set nodes. length (nodeDeps nodes n) + 5) + 1"
    using schedRun_workLeft [OF assms(5)] by (simp add: workLeft_def initState_def)
  ultimately show ?thesis by blast
qed

theorem Run_returns_witness:
  "\<exists>evs' r. Run sampleWorld sampleInput (take 8 sampleEvents @ evs') = Some r"
proof -
  have "mapOrder (wdOrder sampleWorld)" "\<forall>limit held. wdGrant sampleWorld limit held \<longleftrightarrow> int held < limit"
    by (simp_all add: sampleWorld_def mapOrder_keys)
  from Run_returns [OF sample_inputOk this(1) sample_buildDAG this(2) sample_cfg_run, of 8] show ?thesis by simp
qed

end
