(* ===== verification/Solve_Status.thy ===== *)
theory Solve_Status
  imports Go_Maps "HOL-Library.Multiset"
begin

text \<open>
  What happens to BuildKit's status stream on its way to the display:
  \<^verbatim>\<open>internal/runner/redact.go\<close> (secret values), \<^verbatim>\<open>internal/cache/stats.go\<close> (the cache
  collector), \<^verbatim>\<open>internal/runner/status.go\<close> (the goroutines between them) and
  \<^verbatim>\<open>internal/runner/output.go\<close> (the output file of a job). Log data are byte lists, times
  are nanoseconds. Pointers to elements are values; a nil vertex is \<open>None\<close>.
\<close>

section \<open>Status messages\<close>

record Vertex =
  vDigest :: string
  vName :: string
  vStarted :: "int option"
  vCompleted :: "int option"
  vCached :: bool
  vError :: string

record VertexLog =
  lgVertex :: string
  lgData :: string

record VertexWarning =
  wnShort :: string
  wnDetail :: "string list"

record SolveStatus =
  ssVertexes :: "Vertex option list"
  ssLogs :: "VertexLog list"
  ssWarnings :: "VertexWarning list"

section \<open>Redaction (redact.go)\<close>

definition redactMask :: string where
  "redactMask = ''***''"

text \<open>
  \<^verbatim>\<open>slices.SortFunc\<close> is not stable and the map is walked in any order: the sorting function
  is an argument, of which \<open>sortLaw\<close> is what the library promises.
\<close>

definition sortLaw :: "(string list \<Rightarrow> string list) \<Rightarrow> bool" where
  "sortLaw srt \<longleftrightarrow>
     (\<forall>xs. mset (srt xs) = mset xs \<and> sorted_wrt (\<lambda>a b. length b \<le> length a) (srt xs))"

definition sortedSecretValues ::
  "(string list \<Rightarrow> string list) \<Rightarrow> (string, string) gomap \<Rightarrow> string list" where
  "sortedSecretValues srt secrets = srt (filter (\<lambda>v. v \<noteq> []) (map snd secrets))"

definition redactBytes :: "string \<Rightarrow> string list \<Rightarrow> string" where
  "redactBytes dat secrets = fold (\<lambda>v d. ReplaceAll d v redactMask) secrets dat"

definition redactString :: "string \<Rightarrow> string list \<Rightarrow> string" where
  "redactString s secrets = fold (\<lambda>v d. ReplaceAll d v redactMask) secrets s"

text \<open>A nil vertex is dereferenced by the loop over the vertexes: that is a panic (\<open>None\<close>).\<close>

definition redactVertexes :: "string list \<Rightarrow> Vertex option list \<Rightarrow> Vertex option list option" where
  "redactVertexes vals vs =
     (if None \<in> set vs then None
      else Some (map (map_option (\<lambda>v. if vError v \<noteq> [] then v\<lparr>vError := redactString (vError v) vals\<rparr> else v)) vs))"

definition redactStatus ::
  "(string list \<Rightarrow> string list) \<Rightarrow> SolveStatus \<Rightarrow> (string, string) gomap \<Rightarrow> SolveStatus option" where
  "redactStatus srt status secrets =
     (if secrets = [] then Some status
      else
        (let vals = sortedSecretValues srt secrets in
         case redactVertexes vals (ssVertexes status) of
           None \<Rightarrow> None
         | Some vs \<Rightarrow>
             Some (status
               \<lparr>ssLogs := map (\<lambda>l. l\<lparr>lgData := redactBytes (lgData l) vals\<rparr>) (ssLogs status),
                ssVertexes := vs,
                ssWarnings := map (\<lambda>w. w\<lparr>wnShort := redactBytes (wnShort w) vals,
                                          wnDetail := map (\<lambda>d. redactBytes d vals) (wnDetail w)\<rparr>)
                                (ssWarnings status)\<rparr>)))"

section \<open>The cache collector (stats.go)\<close>

record VertexStat =
  vsName :: string
  vsCached :: bool
  vsDuration :: int

record Collector =
  colOrder :: "string list"
  colStats :: "(string, VertexStat list) gomap"
  colSeen :: "string \<Rightarrow> string set"

text \<open>\<^verbatim>\<open>time.Time.Sub\<close> saturates.\<close>

definition timeSub :: "int \<Rightarrow> int \<Rightarrow> int" where
  "timeSub t u = max (- MaxInt - 1) (min MaxInt (t - u))"

definition NewCollector :: Collector where
  "NewCollector = \<lparr>colOrder = [], colStats = [], colSeen = (\<lambda>_. {})\<rparr>"

definition observeVertex :: "string \<Rightarrow> Vertex option \<Rightarrow> Collector \<Rightarrow> Collector" where
  "observeVertex job ov c =
     (case ov of
        None \<Rightarrow> c
      | Some v \<Rightarrow>
          (case (vStarted v, vCompleted v) of
             (Some t0, Some t1) \<Rightarrow>
               if vDigest v = [] \<or> vDigest v \<in> colSeen c job then c
               else c\<lparr>colSeen := (colSeen c)(job := insert (vDigest v) (colSeen c job)),
                      colOrder := (if map_of (colStats c) job = None then colOrder c @ [job] else colOrder c),
                      colStats := mput job (mgetList (colStats c) job @
                        [\<lparr>vsName = vName v, vsCached = vCached v, vsDuration = timeSub t1 t0\<rparr>]) (colStats c)\<rparr>
           | _ \<Rightarrow> c))"

definition Observe :: "string \<Rightarrow> SolveStatus option \<Rightarrow> Collector \<Rightarrow> Collector" where
  "Observe job status c =
     (case status of None \<Rightarrow> c | Some st \<Rightarrow> fold (observeVertex job) (ssVertexes st) c)"

record JobReport =
  jrName :: string
  jrTotal :: int
  jrCached :: int
  jrDuration :: int

definition jobReport :: "Collector \<Rightarrow> string \<Rightarrow> JobReport" where
  "jobReport c name =
     (let stats = mgetList (colStats c) name in
      \<lparr>jrName = name, jrTotal = int (length stats),
       jrCached = int (length (filter vsCached stats)),
       jrDuration = fold (\<lambda>st d. wrap64 (d + vsDuration st)) stats 0\<rparr>)"

definition Report :: "Collector \<Rightarrow> JobReport list" where
  "Report c = map (jobReport c) (colOrder c)"

text \<open>\<^verbatim>\<open>HitRate\<close> as the pair of the two counters it divides.\<close>

definition hitCounts :: "JobReport list \<Rightarrow> int \<times> int" where
  "hitCounts r = (sum_list (map jrCached r), sum_list (map jrTotal r))"

section \<open>The goroutines of a status session (status.go)\<close>

text \<open>
  The forwarding goroutine of \<^verbatim>\<open>teeStatus\<close>: it receives a status (possibly nil) and sends it
  on, or finds the context cancelled while sending; or it finds the source closed or the
  context cancelled while receiving.
\<close>

datatype teeEvent = Recv "SolveStatus option" | RecvNoSend SolveStatus | SrcClosed | CtxDone

record teeState =
  tsOut :: "SolveStatus list"
  tsCollector :: "Collector option"
  tsObserved :: "SolveStatus list"

definition teeStatusOne ::
  "(string list \<Rightarrow> string list) \<Rightarrow> (string, string) gomap \<Rightarrow> string \<Rightarrow> bool \<Rightarrow> SolveStatus \<Rightarrow> teeState \<Rightarrow>
     teeState option" where
  "teeStatusOne srt secrets job send st ts =
     map_option (\<lambda>st'. ts\<lparr>tsCollector := map_option (Observe job (Some st')) (tsCollector ts),
                           tsObserved := tsObserved ts @ [st'],
                           tsOut := (if send then tsOut ts @ [st'] else tsOut ts)\<rparr>)
       (redactStatus srt st secrets)"

fun teeStatus ::
  "(string list \<Rightarrow> string list) \<Rightarrow> (string, string) gomap \<Rightarrow> string \<Rightarrow> teeEvent list \<Rightarrow> teeState \<Rightarrow>
     teeState option" where
  "teeStatus srt secrets job [] ts = Some ts"
| "teeStatus srt secrets job (Recv None # es) ts = teeStatus srt secrets job es ts"
| "teeStatus srt secrets job (Recv (Some st) # es) ts =
     Option.bind (teeStatusOne srt secrets job True st ts) (teeStatus srt secrets job es)"
| "teeStatus srt secrets job (RecvNoSend st # es) ts = teeStatusOne srt secrets job False st ts"
| "teeStatus srt secrets job (SrcClosed # es) ts = Some ts"
| "teeStatus srt secrets job (CtxDone # es) ts = Some ts"

text \<open>The goroutine of \<^verbatim>\<open>bridgeStatus\<close>: \<open>None\<close> is a finished context, or a closed channel.\<close>

datatype bridgeMsg = JobStatusMsg string SolveStatus | JobDoneMsg string

fun bridgeStatus :: "string \<Rightarrow> SolveStatus option list \<Rightarrow> bridgeMsg list" where
  "bridgeStatus name [] = [JobDoneMsg name]"
| "bridgeStatus name (None # es) = [JobDoneMsg name]"
| "bridgeStatus name (Some st # es) = JobStatusMsg name st # bridgeStatus name es"

section \<open>The output file of a job (output.go, solve.go)\<close>

definition parseOutputLine :: "string \<Rightarrow> (string, string) gomap \<Rightarrow> (string, string) gomap" where
  "parseOutputLine raw m =
     (let line = TrimSpace raw in
      if line = [] then m
      else (case cutAt (CHR ''='') line of
              None \<Rightarrow> m
            | Some (key, val) \<Rightarrow> if key = [] then m else mput key val m))"

definition parseOutputLines :: "string \<Rightarrow> (string, string) gomap" where
  "parseOutputLines content = fold parseOutputLine (splitOn (CHR 0x0A) content) []"

text \<open>The result of reading a file: its content, that it does not exist, or another error.\<close>

datatype readResult = ReadData string | ReadNotFound | ReadError

definition extractRefOutputs :: "readResult \<Rightarrow> (string, string) gomap option" where
  "extractRefOutputs r =
     (case r of ReadData s \<Rightarrow> Some (parseOutputLines s) | ReadNotFound \<Rightarrow> Some [] | ReadError \<Rightarrow> None)"

text \<open>\<^verbatim>\<open>extractOutputs\<close>: the temporary directory and the solve may fail first.\<close>

definition extractOutputs :: "bool \<Rightarrow> bool \<Rightarrow> readResult \<Rightarrow> (string, string) gomap option" where
  "extractOutputs tempOk solveOk r =
     (if \<not> tempOk \<or> \<not> solveOk then None
      else (case r of ReadData s \<Rightarrow> Some (parseOutputLines s) | ReadNotFound \<Rightarrow> Some [] | ReadError \<Rightarrow> None))"

section \<open>Replacement hides what it replaces\<close>

lemma prefix_replacer:
  "prefix v (replacer ps s) \<Longrightarrow> (\<forall>(old, new)\<in>set ps. new \<noteq> [] \<and> set new \<inter> set v = {}) \<Longrightarrow> prefix v s"
proof (induction ps s arbitrary: v rule: replacer.induct)
  case (2 ps c s)
  show ?case
  proof (cases v)
    case (Cons x v')
    show ?thesis
    proof (cases "matchAt ps (c # s)")
      case None
      with 2(1) [OF None, of v'] 2(3,4) Cons show ?thesis by (auto simp: replacer_none)
    next
      case (Some on)
      obtain old new where on: "on = (old, new)" by (cases on)
      with matchAt_Some [of ps "c # s"] Some 2(4) have "new \<noteq> []" "x \<notin> set new" using Cons by fastforce+
      then have "\<not> prefix v (new @ replacer ps (drop (length old) (c # s)))"
        unfolding Cons by (cases new) auto
      with 2(3) Some on show ?thesis by (simp add: replacer.simps(2))
    qed
  qed simp
qed (simp add: prefix_def)

lemma sublist_disjoint_append:
  assumes "sublist v (xs @ ys)" "set xs \<inter> set v = {}"
  shows "sublist v ys"
proof (cases v)
  case (Cons x v')
  have "\<not> sublist v xs" using assms(2) Cons by (auto dest: set_mono_sublist)
  moreover have "v1 = []" if "v = v1 @ v2" "suffix v1 xs" for v1 v2
    using assms(2) that by (cases v1) (auto dest: set_mono_suffix)
  moreover from assms(1) have "sublist v xs \<or> sublist v ys \<or>
      (\<exists>v1 v2. v = v1 @ v2 \<and> suffix v1 xs \<and> prefix v2 ys)"
    by (simp add: sublist_append)
  ultimately show ?thesis by (metis append_Nil prefix_imp_sublist)
qed simp

lemma sublist_replacer:
  "sublist v (replacer ps s) \<Longrightarrow> (\<forall>(old, new)\<in>set ps. new \<noteq> [] \<and> set new \<inter> set v = {}) \<Longrightarrow> sublist v s"
proof (induction ps s rule: replacer.induct)
  case (2 ps c s)
  show ?case
  proof (cases "matchAt ps (c # s)")
    case None
    then have "prefix v (replacer ps (c # s)) \<or> sublist v (replacer ps s)"
      using 2(3) by (simp add: replacer_none sublist_Cons_right)
    then show ?thesis
      using prefix_replacer 2(1) [OF None] 2(4) by (auto simp: sublist_Cons_right)
  next
    case (Some on)
    obtain old new where on: "on = (old, new)" by (cases on)
    with matchAt_Some [of ps "c # s"] Some have "(old, new) \<in> set ps" by blast
    with 2(4) have "set new \<inter> set v = {}" by auto
    moreover have "sublist v (new @ replacer ps (drop (length old) (c # s)))"
      using 2(3) Some on by (simp add: replacer.simps(2))
    ultimately have "sublist v (replacer ps (drop (length old) (c # s)))"
      by (metis sublist_disjoint_append)
    with 2(2) [OF Some on [symmetric]] 2(4) have "sublist v (drop (length old) (c # s))" by blast
    then show ?thesis by (meson sublist_drop sublist_order.order_trans)
  qed
qed simp

lemma ReplaceAll_hides:
  assumes "v \<noteq> []" "new \<noteq> []" "set new \<inter> set v = {}"
  shows "\<not> sublist v (ReplaceAll s v new)"
proof -
  have "ps = [(v, new)] \<longrightarrow> \<not> sublist v (replacer ps s)" for ps
  proof (induction ps s rule: replacer.induct)
    case (2 ps c s)
    show ?case
    proof (intro impI notI)
      assume ps: "ps = [(v, new)]" and sub: "sublist v (replacer ps (c # s))"
      show False
      proof (cases "matchAt ps (c # s)")
        case None
        then have "prefix v (replacer ps (c # s)) \<or> sublist v (replacer ps s)"
          using sub by (simp add: replacer_none sublist_Cons_right)
        then have "prefix v (c # s)" using prefix_replacer [of v ps] 2(1) [OF None] ps assms by auto
        then show False using None ps assms(1) by simp
      next
        case (Some on)
        then have "on = (v, new)" using ps by (auto split: if_splits)
        with sub Some 2(2) [OF Some] ps assms(3) show False
          by (auto simp: replacer.simps(2) dest: sublist_disjoint_append)
      qed
    qed
  qed (use assms in simp)
  then show ?thesis by (simp add: ReplaceAll_def)
qed

lemma redact_hides:
  assumes "v \<in> set vals" "v \<noteq> []" "CHR ''*'' \<notin> set v"
  shows "\<not> sublist v (redactBytes dat vals)"
proof -
  have keep: "\<not> sublist v (redactBytes d ws)" if "\<not> sublist v d" for d ws
    using that
  proof (induction ws arbitrary: d)
    case (Cons w ws)
    have "\<not> sublist v (ReplaceAll d w redactMask)"
      using Cons.prems assms(3) sublist_replacer [of v "[(w, redactMask)]" d]
      by (auto simp: ReplaceAll_def redactMask_def)
    from Cons.IH [OF this] show ?case by (simp add: redactBytes_def)
  qed (simp add: redactBytes_def)
  from assms(1) obtain us ws where vals: "vals = us @ v # ws" by (auto dest: split_list)
  have "\<not> sublist v (ReplaceAll (redactBytes dat us) v redactMask)"
    using assms by (intro ReplaceAll_hides) (auto simp: redactMask_def)
  from keep [OF this, of ws] show ?thesis by (simp add: vals redactBytes_def)
qed

section \<open>Redacted sessions\<close>

definition hidden :: "string \<Rightarrow> SolveStatus \<Rightarrow> bool" where
  "hidden v st \<longleftrightarrow>
     (\<forall>l\<in>set (ssLogs st). \<not> sublist v (lgData l)) \<and>
     (\<forall>ov\<in>set (ssVertexes st). \<forall>x. ov = Some x \<longrightarrow> \<not> sublist v (vError x)) \<and>
     (\<forall>w\<in>set (ssWarnings st). \<not> sublist v (wnShort w) \<and> (\<forall>d\<in>set (wnDetail w). \<not> sublist v d))"

lemma sortedSecretValues_set:
  assumes "sortLaw srt"
  shows "set (sortedSecretValues srt secrets) = {v \<in> snd ` set secrets. v \<noteq> []}"
proof -
  have "mset (srt xs) = mset xs" for xs using assms by (simp add: sortLaw_def)
  then have "set (srt xs) = set xs" for xs by (metis set_mset_mset)
  then show ?thesis by (auto simp: sortedSecretValues_def)
qed

lemma redactStatus_hidden:
  assumes "sortLaw srt" "(k, v) \<in> set secrets" "v \<noteq> []" "CHR ''*'' \<notin> set v"
    and "redactStatus srt st secrets = Some st'"
  shows "hidden v st'"
proof -
  let ?vals = "sortedSecretValues srt secrets"
  have v: "v \<in> set ?vals"
    using assms(2,3) by (auto simp: sortedSecretValues_set [OF assms(1)] intro: rev_image_eqI)
  have hide: "\<not> sublist v (redactBytes d ?vals)" for d by (rule redact_hides [OF v assms(3,4)])
  then have hide': "\<not> sublist v (redactString d ?vals)" for d by (simp add: redactBytes_def redactString_def)
  have "secrets \<noteq> []" using assms(2) by auto
  then show ?thesis
    using assms(3,5) hide hide'
    by (auto simp: redactStatus_def redactVertexes_def hidden_def Let_def map_option_case
          split: if_splits option.splits)
qed

lemma teeStatus_hidden:
  "teeStatus srt secrets job es ts = Some ts' \<Longrightarrow> sortLaw srt \<Longrightarrow> (k, v) \<in> set secrets \<Longrightarrow> v \<noteq> [] \<Longrightarrow>
     CHR ''*'' \<notin> set v \<Longrightarrow> \<forall>st\<in>set (tsOut ts) \<union> set (tsObserved ts). hidden v st \<Longrightarrow>
     \<forall>st\<in>set (tsOut ts') \<union> set (tsObserved ts'). hidden v st"
proof (induction srt secrets job es ts rule: teeStatus.induct)
  case (3 srt secrets job st es ts)
  then obtain ts1 where "teeStatusOne srt secrets job True st ts = Some ts1"
    "teeStatus srt secrets job es ts1 = Some ts'" by (auto simp: bind_eq_Some_conv)
  moreover have "\<forall>st\<in>set (tsOut ts1) \<union> set (tsObserved ts1). hidden v st"
    using calculation(1) 3(7) redactStatus_hidden [OF 3(3-6)] by (auto simp: teeStatusOne_def)
  ultimately show ?case using 3(1) [of ts1] 3(3-6) by blast
next
  case (4 srt secrets job st es ts)
  then show ?case using redactStatus_hidden [OF 4(2-5)] by (auto simp: teeStatusOne_def)
qed auto

lemma bridgeStatus_msgs:
  "set (bridgeStatus name es) \<subseteq> insert (JobDoneMsg name) (JobStatusMsg name ` {st. Some st \<in> set es})"
  by (induction name es rule: bridgeStatus.induct) auto

text \<open>No secret reaches the display. For a secret value that is not empty and has no
  asterisk (the mask is made of them), whatever the order of equally long values: no log
  line, vertex error or warning that leaves the redacting goroutine contains it, be it for
  the display or for the cache collector and the tracer; and however the stream ends, the
  display gets exactly one completion message, the last.\<close>

theorem session_redacts:
  assumes "sortLaw srt" "(k, v) \<in> set secrets" "v \<noteq> []" "CHR ''*'' \<notin> set v"
    and "teeStatus srt secrets job es \<lparr>tsOut = [], tsCollector = col, tsObserved = []\<rparr> = Some ts"
    and "msgs = bridgeStatus name (map Some (tsOut ts))"
  shows "(\<forall>st\<in>set (tsObserved ts). hidden v st) \<and>
    (\<forall>st. JobStatusMsg name st \<in> set msgs \<longrightarrow> hidden v st) \<and>
    last msgs = JobDoneMsg name \<and> count_list msgs (JobDoneMsg name) = 1"
proof -
  have "\<forall>st\<in>set (tsOut ts) \<union> set (tsObserved ts). hidden v st"
    by (rule teeStatus_hidden [OF assms(5,1-4)]) simp
  moreover have "last (bridgeStatus name xs) = JobDoneMsg name \<and>
      count_list (bridgeStatus name xs) (JobDoneMsg name) = 1 \<and> bridgeStatus name xs \<noteq> []" for xs
    by (induction name xs rule: bridgeStatus.induct) auto
  ultimately show ?thesis
    using bridgeStatus_msgs [of name "map Some (tsOut ts)"] unfolding assms(6) by auto
qed

definition lengthSort :: "string list \<Rightarrow> string list" where
  "lengthSort xs = sort_key (\<lambda>v. - int (length v)) xs"

lemma lengthSort_law: "sortLaw lengthSort"
proof -
  have "sorted_wrt (\<lambda>a b. length b \<le> length a) (lengthSort xs)" for xs
    using sorted_sort_key [of "\<lambda>v. - int (length v)" xs]
    by (simp add: lengthSort_def sorted_map)
  then show ?thesis by (simp add: sortLaw_def lengthSort_def)
qed

definition leakyStatus :: SolveStatus where
  "leakyStatus = \<lparr>ssVertexes = [], ssLogs = [\<lparr>lgVertex = ''v'', lgData = ''tok=abcd!''\<rparr>], ssWarnings = []\<rparr>"

theorem session_redacts_witness:
  "\<exists>ts. teeStatus lengthSort [(''A'', ''ab''), (''B'', ''abcd'')] ''j'' [Recv (Some leakyStatus), SrcClosed]
          \<lparr>tsOut = [], tsCollector = None, tsObserved = []\<rparr> = Some ts \<and>
     map (map lgData \<circ> ssLogs) (tsOut ts) = [[''tok=***!'']] \<and> (\<forall>st\<in>set (tsObserved ts). hidden ''abcd'' st)"
proof -
  let ?sec = "[(''A'', ''ab''), (''B'', ''abcd'')]"
  let ?run = "teeStatus lengthSort ?sec ''j'' [Recv (Some leakyStatus), SrcClosed]
    \<lparr>tsOut = [], tsCollector = None, tsObserved = []\<rparr>"
  have "map_option (\<lambda>ts. map (map lgData \<circ> ssLogs) (tsOut ts)) ?run = Some [[''tok=***!'']]"
    by code_simp
  then obtain ts where ts: "?run = Some ts" "map (map lgData \<circ> ssLogs) (tsOut ts) = [[''tok=***!'']]"
    by auto
  from session_redacts [OF lengthSort_law _ _ _ ts(1) refl, of "''B''" "''abcd''"] ts show ?thesis by auto
qed

section \<open>Counting cached operations\<close>

text \<open>The digests of the completed vertexes a job has reported.\<close>

definition doneDigest :: "Vertex option \<Rightarrow> string option" where
  "doneDigest ov =
     (case ov of
        Some v \<Rightarrow> if vStarted v \<noteq> None \<and> vCompleted v \<noteq> None \<and> vDigest v \<noteq> [] then Some (vDigest v) else None
      | None \<Rightarrow> None)"

definition doneDigests :: "(string \<times> SolveStatus) list \<Rightarrow> string \<Rightarrow> string set" where
  "doneDigests tr job = {d. \<exists>st ov. (job, st) \<in> set tr \<and> ov \<in> set (ssVertexes st) \<and> doneDigest ov = Some d}"

definition observeAll :: "(string \<times> SolveStatus) list \<Rightarrow> Collector" where
  "observeAll tr = fold (\<lambda>(job, st). Observe job (Some st)) tr NewCollector"

text \<open>The collector agrees with a family \<open>D\<close> of digest sets.\<close>

definition counts :: "Collector \<Rightarrow> (string \<Rightarrow> string set) \<Rightarrow> bool" where
  "counts c D \<longleftrightarrow> colSeen c = D \<and> (\<forall>job. finite (D job)) \<and>
     (\<forall>job. length (mgetList (colStats c) job) = card (D job)) \<and>
     (\<forall>job. map_of (colStats c) job = None \<longleftrightarrow> D job = {}) \<and>
     distinct (colOrder c) \<and> set (colOrder c) = {job. D job \<noteq> {}}"

lemma observeVertex_seen:
  "doneDigest ov = None \<or> (\<exists>d. doneDigest ov = Some d \<and> d \<in> colSeen c job) \<Longrightarrow> observeVertex job ov c = c"
  by (auto simp: observeVertex_def doneDigest_def split: option.splits if_splits)

lemma observeVertex_counts:
  assumes "counts c D"
  shows "counts (observeVertex job ov c) (D(job := D job \<union> set_option (doneDigest ov)))"
proof (cases "\<exists>d. doneDigest ov = Some d \<and> d \<notin> D job")
  case False
  then have "D job \<union> set_option (doneDigest ov) = D job" by (cases "doneDigest ov") auto
  with False assms observeVertex_seen [of ov c job] show ?thesis
    by (cases "doneDigest ov") (auto simp: counts_def)
next
  case True
  then obtain d v t0 t1 where d: "doneDigest ov = Some d" "d \<notin> D job"
    and v: "ov = Some v" "vStarted v = Some t0" "vCompleted v = Some t1" "vDigest v = d" "d \<noteq> []"
    by (auto simp: doneDigest_def split: option.splits if_splits)
  with assms show ?thesis
    by (auto simp: counts_def observeVertex_def card_insert_if)
qed

lemma observe_counts:
  assumes "counts c D"
  shows "counts (fold (observeVertex job) ovs c)
    (D(job := D job \<union> {d. \<exists>ov\<in>set ovs. doneDigest ov = Some d}))"
  using assms
proof (induction ovs arbitrary: c D)
  case (Cons ov ovs)
  have "D job \<union> set_option (doneDigest ov) \<union> {d. \<exists>ov\<in>set ovs. doneDigest ov = Some d} =
      D job \<union> {d. \<exists>ov\<in>set (ov # ovs). doneDigest ov = Some d}"
    by (cases "doneDigest ov") auto
  with Cons.IH [OF observeVertex_counts [OF Cons.prems, of job ov]] show ?case
    by (simp add: fun_upd_def cong: if_cong)
qed simp

lemma observeAll_counts: "counts (observeAll tr) (doneDigests tr)"
proof (induction tr rule: rev_induct)
  case Nil
  then show ?case
    by (simp add: counts_def observeAll_def NewCollector_def doneDigests_def mgetList_def)
next
  case (snoc x tr)
  obtain job st where x: "x = (job, st)" by (cases x)
  have "(doneDigests tr)(job := doneDigests tr job \<union> {d. \<exists>ov\<in>set (ssVertexes st). doneDigest ov = Some d}) =
      doneDigests (tr @ [x])"
    by (auto simp: doneDigests_def x fun_eq_iff)
  with observe_counts [OF snoc, of job "ssVertexes st"] show ?case
    by (simp add: observeAll_def Observe_def x)
qed

text \<open>The cache report. After any sequence of status events of any jobs, the report has one
  line for each job with a completed vertex, in the order of first appearance; its total
  is the number of distinct digests, however often BuildKit repeated them, its hits are
  between 0 and the total, and repeating an event changes nothing.\<close>

theorem Report_counts:
  "map jrName (Report (observeAll tr)) = colOrder (observeAll tr) \<and>
   distinct (map jrName (Report (observeAll tr))) \<and>
   set (map jrName (Report (observeAll tr))) = {job. doneDigests tr job \<noteq> {}} \<and>
   (\<forall>r\<in>set (Report (observeAll tr)).
      jrTotal r = int (card (doneDigests tr (jrName r))) \<and> 0 \<le> jrCached r \<and> jrCached r \<le> jrTotal r) \<and>
   (\<forall>(job, st)\<in>set tr. Observe job (Some st) (observeAll tr) = observeAll tr)"
proof -
  have "map jrName (Report c) = colOrder c" for c by (simp add: Report_def jobReport_def Let_def comp_def)
  moreover have "fold (observeVertex job) ovs (observeAll tr) = observeAll tr"
    if "(job, st) \<in> set tr" "set ovs \<subseteq> set (ssVertexes st)" for job st ovs
    using that(2)
  proof (induction ovs)
    case (Cons ov ovs)
    have "doneDigest ov = None \<or> (\<exists>d. doneDigest ov = Some d \<and> d \<in> colSeen (observeAll tr) job)"
      using observeAll_counts [of tr] that(1) Cons.prems
      by (cases "doneDigest ov") (auto simp: counts_def doneDigests_def)
    with Cons show ?case by (simp add: observeVertex_seen)
  qed simp
  then have "\<forall>(job, st)\<in>set tr. Observe job (Some st) (observeAll tr) = observeAll tr"
    by (auto simp: Observe_def)
  ultimately show ?thesis
    using observeAll_counts [of tr] length_filter_le
    by (auto simp: counts_def Report_def jobReport_def Let_def) (metis length_filter_le)
qed

theorem Report_counts_witness:
  "\<exists>c. c = observeAll [(''j'', leakyStatus)] \<and> Observe ''j'' (Some leakyStatus) c = c"
  using Report_counts [of "[(''j'', leakyStatus)]"] by auto

section \<open>Output files\<close>

text \<open>A line that \<^verbatim>\<open>parseOutputLines\<close> keeps as it is.\<close>

definition outputLine :: "string \<times> string \<Rightarrow> string" where
  "outputLine kv = fst kv @ CHR ''='' # snd kv"

definition outputLineOk :: "string \<times> string \<Rightarrow> bool" where
  "outputLineOk kv \<longleftrightarrow>
     fst kv \<noteq> [] \<and> CHR ''='' \<notin> set (fst kv) \<and> CHR 0x0A \<notin> set (outputLine kv) \<and>
     TrimSpace (outputLine kv) = outputLine kv"

lemma parseOutputLine_ok: "outputLineOk (k, v) \<Longrightarrow> parseOutputLine (outputLine (k, v)) m = mput k v m"
  by (auto simp: parseOutputLine_def outputLineOk_def outputLine_def Let_def)

lemma parseOutputLine_wf: "wfmap m \<Longrightarrow> wfmap (parseOutputLine l m)"
  by (auto simp: parseOutputLine_def Let_def split: option.split)

lemma fold_parse_wf: "wfmap m \<Longrightarrow> wfmap (fold parseOutputLine ls m)"
  by (induction ls arbitrary: m) (simp_all add: parseOutputLine_wf)

lemma fold_parse_lines:
  "\<forall>kv\<in>set kvs. outputLineOk kv \<Longrightarrow>
     map_of (fold parseOutputLine (map outputLine kvs) m) = map_of m ++ map_of (rev kvs)"
proof (induction kvs arbitrary: m)
  case (Cons kv kvs)
  obtain k v where kv: "kv = (k, v)" by (cases kv)
  with Cons show ?case by (simp add: parseOutputLine_ok fun_eq_iff map_add_def split: option.split)
qed simp

text \<open>The output file. Lines \<^verbatim>\<open>KEY=VALUE\<close> with a non-empty key and no surrounding blanks
  read back as the map they were written from, the last line of a key winning; a trailing
  newline adds nothing. Whatever the file holds, the result has no duplicate and no empty
  key.\<close>

theorem parseOutputLines_roundtrip:
  assumes "\<forall>kv\<in>set kvs. outputLineOk kv" "kvs \<noteq> []"
  shows "map_of (parseOutputLines (joinWith [CHR 0x0A] (map outputLine kvs))) = map_of (rev kvs) \<and>
    map_of (parseOutputLines (joinWith [CHR 0x0A] (map outputLine kvs @ [[]]))) = map_of (rev kvs) \<and>
    (\<forall>content. wfmap (parseOutputLines content))"
proof -
  have split: "splitOn (CHR 0x0A) (joinWith [CHR 0x0A] (map outputLine kvs @ ls)) = map outputLine kvs @ ls"
    if "ls = [] \<or> ls = [[]]" for ls
    using assms that by (intro splitOn_joinWith) (auto simp: outputLineOk_def)
  have "parseOutputLine [] m = m" for m by (simp add: parseOutputLine_def)
  then show ?thesis
    using split [of "[]"] split [of "[[]]"] fold_parse_lines [OF assms(1), of "[]"] fold_parse_wf [of "[]"]
    by (simp add: parseOutputLines_def)
qed

theorem parseOutputLines_roundtrip_witness:
  "map_of (parseOutputLines (joinWith [CHR 0x0A] (map outputLine [(''A'', ''1''), (''B'', ''x=y''), (''A'', ''2'')]))) ''A''
     = Some ''2''"
proof -
  have ok: "\<forall>kv\<in>set [(''A'', ''1''), (''B'', ''x=y''), (''A'', ''2'')]. outputLineOk kv" by code_simp
  show ?thesis using parseOutputLines_roundtrip [OF ok] by simp
qed

end
