(* ===== verification/Kdl_Elements.thy ===== *)
theory Kdl_Elements
  imports Conditional Expand Go_Path
begin

text \<open>
  \<^verbatim>\<open>pkg/parser\<close>: \<^verbatim>\<open>nodes.go\<close>, \<^verbatim>\<open>helpers.go\<close>, \<^verbatim>\<open>elements.go\<close> and \<^verbatim>\<open>defaults.go\<close>, the
  leaf elements of a pipeline file. The KDL library's document is data (\<open>kdlNode\<close>); its
  parser, the file resolver, CEL and \<^verbatim>\<open>time.ParseDuration\<close> (which goes through floating
  point) are the argument \<open>parseEnv\<close>.
\<close>

section \<open>Documents\<close>

datatype kdlValue = KString string | KInt int | KBool bool | KOther

datatype kdlNode =
  Node (ndName: string) (ndArgs: "kdlValue list") (ndProps: "(string, kdlValue) gomap")
    (ndChildren: "kdlNode list")

datatype nodeKind =
    NJob | NStep | NDefaults | NMatrix | NMount | NCache | NImage | NRun | NWorkdir | NDependsOn
  | NPlatform | NInclude | NFragment | NParam | NEnv | NExport | NArtifact | NNoCache | NPublish
  | NWhen | NRetry | NTimeout | NShell | NSecret | NAllowFailure | NUnknown

definition nodeNames :: "(string \<times> nodeKind) list" where
  "nodeNames =
     [(''job'', NJob), (''step'', NStep), (''defaults'', NDefaults), (''matrix'', NMatrix),
      (''mount'', NMount), (''cache'', NCache), (''image'', NImage), (''run'', NRun),
      (''workdir'', NWorkdir), (''depends-on'', NDependsOn), (''platform'', NPlatform),
      (''include'', NInclude), (''fragment'', NFragment), (''param'', NParam), (''env'', NEnv),
      (''export'', NExport), (''artifact'', NArtifact), (''no-cache'', NNoCache),
      (''publish'', NPublish), (''when'', NWhen), (''retry'', NRetry), (''timeout'', NTimeout),
      (''shell'', NShell), (''secret'', NSecret), (''allow-failure'', NAllowFailure)]"

definition nodeType :: "kdlNode \<Rightarrow> nodeKind" where
  "nodeType n = (case map_of nodeNames (ndName n) of None \<Rightarrow> NUnknown | Some t \<Rightarrow> t)"

datatype parseErr =
    ErrUnknownNode | ErrMissingField | ErrDuplicateField | ErrExtraArgs | ErrTypeMismatch
  | ErrUnknownProp | ErrUnexpectedChildren | ErrAmbiguousFile | ErrEmptyInclude | ErrNilResolver
  | KdlError | ResolveError | DurationError | PipeErr err | WhenFail whenErr | OutOfFuel

text \<open>
  \<open>pxResolve source base\<close> is the content and the absolute path of an include, \<open>pxKdl\<close> the
  top-level nodes of a document.
\<close>

record 'ast parseEnv =
  pxCel :: "'ast Cel"
  pxDuration :: "string \<Rightarrow> int option"
  pxKdl :: "string \<Rightarrow> kdlNode list option"
  pxResolve :: "string \<Rightarrow> string \<Rightarrow> (string \<times> string) option"

section \<open>Arguments and properties (helpers.go)\<close>

definition coerceString :: "kdlValue \<Rightarrow> parseErr + string" where
  "coerceString v = (case v of KString s \<Rightarrow> Inr s | _ \<Rightarrow> Inl ErrTypeMismatch)"

text \<open>A number that does not fit Go's \<^verbatim>\<open>int\<close> is no value of that type.\<close>

definition coerceInt :: "kdlValue \<Rightarrow> parseErr + int" where
  "coerceInt v =
     (case v of
        KInt i \<Rightarrow> if in64 i then Inr i else Inl ErrTypeMismatch
      | _ \<Rightarrow> Inl ErrTypeMismatch)"

definition coerceBool :: "kdlValue \<Rightarrow> parseErr + bool" where
  "coerceBool v = (case v of KBool b \<Rightarrow> Inr b | _ \<Rightarrow> Inl ErrTypeMismatch)"

definition arg :: "(kdlValue \<Rightarrow> parseErr + 'a) \<Rightarrow> kdlNode \<Rightarrow> nat \<Rightarrow> parseErr + 'a" where
  "arg coerce node idx =
     (if idx \<ge> length (ndArgs node) then Inl ErrMissingField else coerce (ndArgs node ! idx))"

definition propOf :: "'a \<Rightarrow> (kdlValue \<Rightarrow> parseErr + 'a) \<Rightarrow> kdlNode \<Rightarrow> string \<Rightarrow> parseErr + 'a" where
  "propOf zero coerce node key =
     (case map_of (ndProps node) key of None \<Rightarrow> Inr zero | Some v \<Rightarrow> coerce v)"

abbreviation propString :: "kdlNode \<Rightarrow> string \<Rightarrow> parseErr + string" where
  "propString \<equiv> propOf [] coerceString"

abbreviation propBool :: "kdlNode \<Rightarrow> string \<Rightarrow> parseErr + bool" where
  "propBool \<equiv> propOf False coerceBool"

definition requireStringArg :: "kdlNode \<Rightarrow> parseErr + string" where
  "requireStringArg node = arg coerceString node 0"

definition stringArgs2 :: "kdlNode \<Rightarrow> parseErr + string \<times> string" where
  "stringArgs2 node =
     (if length (ndArgs node) < 2 then Inl ErrMissingField
      else if length (ndArgs node) > 2 then Inl ErrExtraArgs
      else bindE (arg coerceString node 0)
             (\<lambda>first. bindE (arg coerceString node 1) (\<lambda>second. Inr (first, second))))"

text \<open>\<^verbatim>\<open>setOnce\<close> compares the destination with the zero value of its type.\<close>

definition setOnce :: "'a \<Rightarrow> 'a \<Rightarrow> 'a \<Rightarrow> parseErr + 'a" where
  "setOnce zero dst val = (if dst \<noteq> zero then Inl ErrDuplicateField else Inr val)"

definition syntheticFilename :: string where "syntheticFilename = ''<string>''"
definition stdinFilename :: string where "stdinFilename = ''<stdin>''"

definition dirOf :: "string \<Rightarrow> string" where
  "dirOf filename =
     (if filename = syntheticFilename \<or> filename = stdinFilename then ''.'' else pathDir filename)"

definition trimSuffix :: "string \<Rightarrow> string \<Rightarrow> string" where
  "trimSuffix s suf = (if suffix suf s then take (length s - length suf) s else s)"

definition nameFromFilename :: "string \<Rightarrow> string" where
  "nameFromFilename filename =
     (if filename = syntheticFilename then []
      else if filename = stdinFilename then ''stdin''
      else trimSuffix (pathBase filename) ''.kdl'')"

section \<open>Elements (elements.go)\<close>

definition allStringArgs :: "kdlNode \<Rightarrow> parseErr + string list" where
  "allStringArgs node = mapE coerceString (ndArgs node)"

definition parseMatrix :: "kdlNode \<Rightarrow> parseErr + Matrix" where
  "parseMatrix node =
     bindE (mapE (\<lambda>child. bindE (allStringArgs child)
                    (\<lambda>vals. Inr \<lparr>dName = ndName child, dValues = vals\<rparr>)) (ndChildren node))
       (\<lambda>dims. (case ValidateMatrix (Some \<lparr>mDimensions = dims\<rparr>) of
                  Some e \<Rightarrow> Inl (PipeErr e) | None \<Rightarrow> Inr \<lparr>mDimensions = dims\<rparr>))"

definition parseEnvNode :: "kdlNode \<Rightarrow> parseErr + EnvVar" where
  "parseEnvNode node = bindE (stringArgs2 node) (\<lambda>kv. Inr \<lparr>eKey = fst kv, eValue = snd kv\<rparr>)"

definition parseMountNode :: "kdlNode \<Rightarrow> parseErr + Mount" where
  "parseMountNode node =
     bindE (stringArgs2 node) (\<lambda>m. bindE (propBool node ''readonly'')
       (\<lambda>ro. Inr \<lparr>mSource = fst m, mTarget = snd m, mReadOnly = ro\<rparr>))"

definition parseCacheNode :: "kdlNode \<Rightarrow> parseErr + Cache" where
  "parseCacheNode node = bindE (stringArgs2 node) (\<lambda>c. Inr \<lparr>cID = fst c, cTarget = snd c\<rparr>)"

definition tooManyArgs :: "kdlNode \<Rightarrow> parseErr option" where
  "tooManyArgs node = failIf (length (ndArgs node) > 1) ErrExtraArgs"

text \<open>A string property that must be present and non-empty.\<close>

definition requireProp :: "kdlNode \<Rightarrow> string \<Rightarrow> parseErr + string" where
  "requireProp node key =
     bindE (propString node key) (\<lambda>v. if v = [] then Inl ErrMissingField else Inr v)"

definition parseExportNode :: "kdlNode \<Rightarrow> parseErr + Export" where
  "parseExportNode node =
     guardE (tooManyArgs node)
       (bindE (requireStringArg node) (\<lambda>path. bindE (requireProp node ''local'')
          (\<lambda>loc. Inr \<lparr>xPath = path, xLocal = loc\<rparr>)))"

definition parseArtifactNode :: "kdlNode \<Rightarrow> parseErr + Artifact" where
  "parseArtifactNode node =
     guardE (tooManyArgs node)
       (bindE (requireStringArg node) (\<lambda>from. bindE (requireProp node ''source'')
          (\<lambda>source. bindE (requireProp node ''target'')
             (\<lambda>target. Inr \<lparr>aFrom = from, aSource = source, aTarget = target\<rparr>))))"

definition parsePublishNode :: "kdlNode \<Rightarrow> parseErr + Publish" where
  "parsePublishNode node =
     guardE (tooManyArgs node)
       (bindE (requireStringArg node) (\<lambda>img. bindE (propBool node ''push'')
          (\<lambda>push. bindE (propBool node ''insecure'')
             (\<lambda>insecure. Inr \<lparr>pubImage = img,
                               pubPush = (if map_of (ndProps node) ''push'' = None then True else push),
                               pubInsecure = insecure\<rparr>))))"

definition parseWhenNode :: "'ast parseEnv \<Rightarrow> kdlNode \<Rightarrow> parseErr + 'ast When" where
  "parseWhenNode px node =
     guardE (tooManyArgs node)
       (bindE (requireStringArg node)
          (\<lambda>raw. let expr = TrimSpace raw in
             if expr = [] then Inl ErrMissingField
             else (case NewWhen (pxCel px) expr of Inl e \<Rightarrow> Inl (WhenFail e) | Inr w \<Rightarrow> Inr w)))"

text \<open>A non-negative duration; the error names the sentinel for a negative one.\<close>

definition parseDuration :: "'ast parseEnv \<Rightarrow> cfgErr \<Rightarrow> string \<Rightarrow> parseErr + int" where
  "parseDuration px neg s =
     (case pxDuration px s of
        None \<Rightarrow> Inl DurationError
      | Some d \<Rightarrow> if d < 0 then Inl (PipeErr (Cfg neg)) else Inr d)"

definition retryField :: "'ast parseEnv \<Rightarrow> kdlNode \<Rightarrow> Retry \<Rightarrow> parseErr + Retry" where
  "retryField px child r =
     (if ndName child = ''attempts'' then
        guardE (tooManyArgs child)
          (bindE (arg coerceInt child 0)
             (\<lambda>v. if v < 1 then Inl (PipeErr (Cfg ErrInvalidRetryAttempts)) else Inr (r\<lparr>rAttempts := v\<rparr>)))
      else if ndName child = ''delay'' then
        guardE (tooManyArgs child)
          (bindE (requireStringArg child)
             (\<lambda>v. bindE (parseDuration px ErrNegativeDelay v) (\<lambda>d. Inr (r\<lparr>rDelay := d\<rparr>))))
      else if ndName child = ''backoff'' then
        guardE (tooManyArgs child)
          (bindE (requireStringArg child)
             (\<lambda>v. if v \<in> {BackoffNone, BackoffLinear, BackoffExponential} then Inr (r\<lparr>rBackoff := v\<rparr>)
                  else Inl (PipeErr (Cfg ErrInvalidBackoff))))
      else Inl ErrUnknownNode)"

text \<open>A loop over children that must not repeat a name.\<close>

fun onceLoop :: "(kdlNode \<Rightarrow> 'a \<Rightarrow> parseErr + 'a) \<Rightarrow> string set \<Rightarrow> kdlNode list \<Rightarrow> 'a \<Rightarrow> parseErr + 'a" where
  "onceLoop f seen [] x = Inr x"
| "onceLoop f seen (c # cs) x =
     (if ndName c \<in> seen then Inl ErrDuplicateField
      else bindE (f c x) (onceLoop f (insert (ndName c) seen) cs))"

definition parseRetryNode :: "'ast parseEnv \<Rightarrow> kdlNode \<Rightarrow> parseErr + Retry" where
  "parseRetryNode px node =
     (if ndArgs node \<noteq> [] then Inl ErrExtraArgs
      else onceLoop (retryField px) {} (ndChildren node)
             \<lparr>rAttempts = 1, rDelay = 0, rBackoff = BackoffNone\<rparr>)"

definition parseShellNode :: "kdlNode \<Rightarrow> parseErr + string list" where
  "parseShellNode node =
     (if ndArgs node = [] then Inl (PipeErr (Cfg ErrEmptyShell)) else allStringArgs node)"

definition secretDeclField :: "kdlNode \<Rightarrow> SecretDecl \<Rightarrow> parseErr + SecretDecl" where
  "secretDeclField child d =
     (if ndName child \<in> {''source'', ''var'', ''path'', ''cmd''} then
        guardE (tooManyArgs child)
          (if ndProps child \<noteq> [] then Inl ErrUnknownProp
           else bindE (requireStringArg child)
                  (\<lambda>v. Inr (if ndName child = ''source'' then d\<lparr>sdSource := v\<rparr>
                            else if ndName child = ''var'' then d\<lparr>sdVar := v\<rparr>
                            else if ndName child = ''path'' then d\<lparr>sdPath := v\<rparr>
                            else d\<lparr>sdCmd := v\<rparr>)))
      else Inl ErrUnknownNode)"

definition parseSecretDeclNode :: "kdlNode \<Rightarrow> parseErr + SecretDecl" where
  "parseSecretDeclNode node =
     bindE (requireStringArg node)
       (\<lambda>name. guardE (tooManyArgs node)
          (if ndProps node \<noteq> [] then Inl ErrUnknownProp
           else bindE (onceLoop secretDeclField {} (ndChildren node)
                         \<lparr>sdName = name, sdSource = [], sdVar = [], sdPath = [], sdCmd = []\<rparr>)
                  (\<lambda>d. if sdSource d = [] then Inl ErrMissingField else Inr d)))"

definition parseSecretRefNode :: "kdlNode \<Rightarrow> parseErr + SecretRef" where
  "parseSecretRefNode node =
     bindE (requireStringArg node)
       (\<lambda>name. guardE (tooManyArgs node)
          (if ndChildren node \<noteq> [] then Inl ErrUnexpectedChildren
           else bindE (propString node ''env'') (\<lambda>ev. bindE (propString node ''mount'')
             (\<lambda>mt. if \<exists>k\<in>set (sortedKeys (ndProps node)). k \<noteq> ''env'' \<and> k \<noteq> ''mount''
                   then Inl ErrUnknownProp
                   else Inr \<lparr>srName = name, srEnv = ev, srMount = mt\<rparr>))))"

section \<open>Defaults (defaults.go)\<close>

definition defaultsField :: "kdlNode \<Rightarrow> Defaults \<Rightarrow> parseErr + Defaults" where
  "defaultsField child d =
     (let nt = nodeType child in
      if nt = NImage then
        bindE (requireStringArg child) (\<lambda>v. bindE (setOnce [] (dfImage d) v) (\<lambda>v. Inr (d\<lparr>dfImage := v\<rparr>)))
      else if nt = NWorkdir then
        bindE (requireStringArg child) (\<lambda>v. bindE (setOnce [] (dfWorkdir d) v) (\<lambda>v. Inr (d\<lparr>dfWorkdir := v\<rparr>)))
      else if nt = NMount then bindE (parseMountNode child) (\<lambda>m. Inr (d\<lparr>dfMounts := dfMounts d @ [m]\<rparr>))
      else if nt = NEnv then bindE (parseEnvNode child) (\<lambda>e. Inr (d\<lparr>dfEnv := dfEnv d @ [e]\<rparr>))
      else if nt = NShell then
        (if dfShell d \<noteq> [] then Inl ErrDuplicateField
         else bindE (parseShellNode child) (\<lambda>sh. Inr (d\<lparr>dfShell := sh\<rparr>)))
      else Inl ErrUnknownNode)"

definition parseDefaults :: "kdlNode \<Rightarrow> parseErr + Defaults" where
  "parseDefaults node =
     (if ndArgs node \<noteq> [] then Inl ErrExtraArgs
      else foldE defaultsField (ndChildren node)
             \<lparr>dfImage = [], dfWorkdir = [], dfMounts = [], dfEnv = [], dfShell = []\<rparr>)"

end
