(* ===== verification/Kdl_Jobs.thy ===== *)
theory Kdl_Jobs
  imports Kdl_Elements
begin

text \<open>
  \<^verbatim>\<open>pkg/parser/job.go\<close>: jobs, steps and bare steps. The property of this theory is that the
  parser reads back every job as it was written, field by field.
\<close>

section \<open>Job fields\<close>

text \<open>Append to a slice, set a string once, set a pointer once.\<close>

definition putOnce :: "'a \<Rightarrow> 'a \<Rightarrow> parseErr + 'a \<Rightarrow> ('a \<Rightarrow> 'b) \<Rightarrow> parseErr + 'b" where
  "putOnce zero dst v put = bindE v (\<lambda>v. bindE (setOnce zero dst v) (\<lambda>v. Inr (put v)))"

definition flagOnce :: "kdlNode \<Rightarrow> bool \<Rightarrow> 'b \<Rightarrow> parseErr + 'b" where
  "flagOnce node flag result =
     (if ndArgs node \<noteq> [] then Inl ErrExtraArgs else if flag then Inl ErrDuplicateField else Inr result)"

definition parseTimeout :: "'ast parseEnv \<Rightarrow> kdlNode \<Rightarrow> nodeKind set \<Rightarrow> parseErr + int" where
  "parseTimeout px node seen =
     (if NTimeout \<in> seen then Inl ErrDuplicateField
      else bindE (requireStringArg node) (parseDuration px ErrNegativeTimeout))"

abbreviation somes :: "'e + 'a \<Rightarrow> 'e + 'a option" where
  "somes r \<equiv> bindE r (\<lambda>x. Inr (Some x))"

definition applyJobStepField ::
  "'ast parseEnv \<Rightarrow> kdlNode \<Rightarrow> 'ast Step \<times> nodeKind set \<Rightarrow> parseErr + 'ast Step \<times> nodeKind set" where
  "applyJobStepField px node st =
     (let s = fst st; seen = snd st; nt = nodeType node;
          keep = (\<lambda>r. bindE r (\<lambda>s'. Inr (s', seen))) in
      if nt = NRun then keep (bindE (requireStringArg node) (\<lambda>v. Inr (s\<lparr>sRun := sRun s @ [v]\<rparr>)))
      else if nt = NEnv then keep (bindE (parseEnvNode node) (\<lambda>e. Inr (s\<lparr>sEnv := sEnv s @ [e]\<rparr>)))
      else if nt = NWorkdir then
        keep (putOnce [] (sWorkdir s) (requireStringArg node) (\<lambda>v. s\<lparr>sWorkdir := v\<rparr>))
      else if nt = NMount then keep (bindE (parseMountNode node) (\<lambda>m. Inr (s\<lparr>sMounts := sMounts s @ [m]\<rparr>)))
      else if nt = NCache then keep (bindE (parseCacheNode node) (\<lambda>c. Inr (s\<lparr>sCaches := sCaches s @ [c]\<rparr>)))
      else if nt = NExport then
        keep (bindE (parseExportNode node) (\<lambda>e. Inr (s\<lparr>sExports := sExports s @ [e]\<rparr>)))
      else if nt = NArtifact then
        keep (bindE (parseArtifactNode node) (\<lambda>a. Inr (s\<lparr>sArtifacts := sArtifacts s @ [a]\<rparr>)))
      else if nt = NWhen then
        keep (bindE (parseWhenNode px node)
                (\<lambda>w. if wDeferred w then Inl (WhenFail ErrDeferredInStep)
                     else bindE (if sWhen s \<noteq> None then Inl ErrDuplicateField else Inr w)
                            (\<lambda>w. Inr (s\<lparr>sWhen := Some w\<rparr>))))
      else if nt = NTimeout then
        bindE (parseTimeout px node seen) (\<lambda>d. Inr (s\<lparr>sTimeout := d\<rparr>, insert NTimeout seen))
      else if nt = NShell then
        keep (if sShell s \<noteq> None then Inl ErrDuplicateField
              else bindE (parseShellNode node) (\<lambda>sh. Inr (s\<lparr>sShell := Some sh\<rparr>)))
      else if nt = NSecret then
        keep (bindE (parseSecretRefNode node) (\<lambda>r. Inr (s\<lparr>sSecrets := sSecrets s @ [r]\<rparr>)))
      else if nt = NNoCache then keep (flagOnce node (sNoCache s) (s\<lparr>sNoCache := True\<rparr>))
      else if nt = NAllowFailure then keep (flagOnce node (sAllowFailure s) (s\<lparr>sAllowFailure := True\<rparr>))
      else if nt = NRetry then
        keep (putOnce None (sRetry s) (somes (parseRetryNode px node)) (\<lambda>v. s\<lparr>sRetry := v\<rparr>))
      else Inl ErrUnknownNode)"

definition parseJobStep :: "'ast parseEnv \<Rightarrow> kdlNode \<Rightarrow> parseErr + 'ast Step" where
  "parseJobStep px node =
     (case requireStringArg node of
        Inl _ \<Rightarrow> Inl ErrMissingField
      | Inr name \<Rightarrow>
          bindE (foldE (applyJobStepField px) (ndChildren node) (zeroStep\<lparr>sName := name\<rparr>, {}))
            (\<lambda>st. Inr (fst st)))"

definition applyJobField ::
  "'ast parseEnv \<Rightarrow> kdlNode \<Rightarrow> 'ast Job \<times> nodeKind set \<Rightarrow> parseErr + 'ast Job \<times> nodeKind set" where
  "applyJobField px node st =
     (let j = fst st; seen = snd st; nt = nodeType node;
          keep = (\<lambda>r. bindE r (\<lambda>j'. Inr (j', seen))) in
      if nt = NImage then keep (putOnce [] (jImage j) (requireStringArg node) (\<lambda>v. j\<lparr>jImage := v\<rparr>))
      else if nt = NWorkdir then keep (putOnce [] (jWorkdir j) (requireStringArg node) (\<lambda>v. j\<lparr>jWorkdir := v\<rparr>))
      else if nt = NPlatform then
        keep (putOnce [] (jPlatform j) (requireStringArg node) (\<lambda>v. j\<lparr>jPlatform := v\<rparr>))
      else if nt = NDependsOn then
        keep (bindE (requireStringArg node) (\<lambda>v. Inr (j\<lparr>jDependsOn := jDependsOn j @ [v]\<rparr>)))
      else if nt = NRun then Inl ErrUnknownNode
      else if nt = NMount then keep (bindE (parseMountNode node) (\<lambda>m. Inr (j\<lparr>jMounts := jMounts j @ [m]\<rparr>)))
      else if nt = NCache then keep (bindE (parseCacheNode node) (\<lambda>c. Inr (j\<lparr>jCaches := jCaches j @ [c]\<rparr>)))
      else if nt = NEnv then keep (bindE (parseEnvNode node) (\<lambda>e. Inr (j\<lparr>jEnv := jEnv j @ [e]\<rparr>)))
      else if nt = NExport then
        keep (bindE (parseExportNode node) (\<lambda>e. Inr (j\<lparr>jExports := jExports j @ [e]\<rparr>)))
      else if nt = NArtifact then
        keep (bindE (parseArtifactNode node) (\<lambda>a. Inr (j\<lparr>jArtifacts := jArtifacts j @ [a]\<rparr>)))
      else if nt = NMatrix then
        keep (putOnce None (jMatrix j) (somes (parseMatrix node)) (\<lambda>v. j\<lparr>jMatrix := v\<rparr>))
      else if nt = NNoCache then keep (flagOnce node (jNoCache j) (j\<lparr>jNoCache := True\<rparr>))
      else if nt = NPublish then
        keep (putOnce None (jPublish j) (somes (parsePublishNode node)) (\<lambda>v. j\<lparr>jPublish := v\<rparr>))
      else if nt = NWhen then
        keep (bindE (parseWhenNode px node)
                (\<lambda>w. if jWhen j \<noteq> None then Inl ErrDuplicateField else Inr (j\<lparr>jWhen := Some w\<rparr>)))
      else if nt = NTimeout then
        bindE (parseTimeout px node seen) (\<lambda>d. Inr (j\<lparr>jTimeout := d\<rparr>, insert NTimeout seen))
      else if nt = NRetry then
        keep (putOnce None (jRetry j) (somes (parseRetryNode px node)) (\<lambda>v. j\<lparr>jRetry := v\<rparr>))
      else if nt = NShell then
        keep (if jShell j \<noteq> None then Inl ErrDuplicateField
              else bindE (parseShellNode node) (\<lambda>sh. Inr (j\<lparr>jShell := Some sh\<rparr>)))
      else if nt = NSecret then
        keep (bindE (parseSecretRefNode node) (\<lambda>r. Inr (j\<lparr>jSecrets := jSecrets j @ [r]\<rparr>)))
      else if nt = NStep then keep (bindE (parseJobStep px node) (\<lambda>s. Inr (j\<lparr>jSteps := jSteps j @ [s]\<rparr>)))
      else Inl ErrUnknownNode)"

definition parseJob :: "'ast parseEnv \<Rightarrow> kdlNode \<Rightarrow> parseErr + 'ast Job" where
  "parseJob px node =
     (case requireStringArg node of
        Inl _ \<Rightarrow> Inl ErrMissingField
      | Inr name \<Rightarrow>
          bindE (foldE (applyJobField px) (ndChildren node) (zeroJob\<lparr>jName := name\<rparr>, {}))
            (\<lambda>st. Inr (fst st)))"

text \<open>A bare step fills its step and its job at the same time.\<close>

definition bareStepField ::
  "'ast parseEnv \<Rightarrow> kdlNode \<Rightarrow> 'ast Step \<times> 'ast Job \<times> nodeKind set \<Rightarrow>
     parseErr + 'ast Step \<times> 'ast Job \<times> nodeKind set" where
  "bareStepField px child st =
     (let s = fst st; nt = nodeType child; keep = (\<lambda>r. bindE r (\<lambda>s'. Inr (s', snd st))) in
      if nt = NRun then keep (bindE (requireStringArg child) (\<lambda>v. Inr (s\<lparr>sRun := sRun s @ [v]\<rparr>)))
      else if nt = NAllowFailure then keep (flagOnce child (sAllowFailure s) (s\<lparr>sAllowFailure := True\<rparr>))
      else if nt = NRetry then
        keep (putOnce None (sRetry s) (somes (parseRetryNode px child)) (\<lambda>v. s\<lparr>sRetry := v\<rparr>))
      else if nt = NStep then Inl ErrUnknownNode
      else bindE (applyJobField px child (snd st)) (\<lambda>jst. Inr (s, jst)))"

definition parseBareStep :: "'ast parseEnv \<Rightarrow> kdlNode \<Rightarrow> parseErr + 'ast Job" where
  "parseBareStep px node =
     (case requireStringArg node of
        Inl _ \<Rightarrow> Inl ErrMissingField
      | Inr name \<Rightarrow>
          bindE (foldE (bareStepField px) (ndChildren node)
                   (zeroStep\<lparr>sName := name\<rparr>, zeroJob\<lparr>jName := name\<rparr>, {}))
            (\<lambda>st. Inr ((fst (snd st))\<lparr>jSteps := [fst st]\<rparr>)))"

section \<open>Writing elements\<close>

text \<open>The inverse direction: the node a careful writer produces for each element.\<close>

definition strNode :: "string \<Rightarrow> string \<Rightarrow> kdlNode" where
  "strNode name v = Node name [KString v] [] []"

definition flagNode :: "string \<Rightarrow> kdlNode" where
  "flagNode name = Node name [] [] []"

definition envNode :: "EnvVar \<Rightarrow> kdlNode" where
  "envNode e = Node ''env'' [KString (eKey e), KString (eValue e)] [] []"

definition mountNode :: "Mount \<Rightarrow> kdlNode" where
  "mountNode m = Node ''mount'' [KString (mSource m), KString (mTarget m)] [(''readonly'', KBool (mReadOnly m))] []"

definition cacheNode :: "Cache \<Rightarrow> kdlNode" where
  "cacheNode c = Node ''cache'' [KString (cID c), KString (cTarget c)] [] []"

definition exportNode :: "Export \<Rightarrow> kdlNode" where
  "exportNode e = Node ''export'' [KString (xPath e)] [(''local'', KString (xLocal e))] []"

definition artifactNode :: "Artifact \<Rightarrow> kdlNode" where
  "artifactNode a =
     Node ''artifact'' [KString (aFrom a)]
       [(''source'', KString (aSource a)), (''target'', KString (aTarget a))] []"

definition publishNode :: "Publish \<Rightarrow> kdlNode" where
  "publishNode p =
     Node ''publish'' [KString (pubImage p)]
       [(''push'', KBool (pubPush p)), (''insecure'', KBool (pubInsecure p))] []"

definition matrixNode :: "Matrix \<Rightarrow> kdlNode" where
  "matrixNode m =
     Node ''matrix'' [] [] (map (\<lambda>d. Node (dName d) (map KString (dValues d)) [] []) (mDimensions m))"

definition retryNode :: "(int \<Rightarrow> string) \<Rightarrow> Retry \<Rightarrow> kdlNode" where
  "retryNode dur r =
     Node ''retry'' [] []
       [Node ''attempts'' [KInt (rAttempts r)] [] [], strNode ''delay'' (dur (rDelay r)),
        strNode ''backoff'' (rBackoff r)]"

definition shellNode :: "string list \<Rightarrow> kdlNode" where
  "shellNode sh = Node ''shell'' (map KString sh) [] []"

definition secretRefNode :: "SecretRef \<Rightarrow> kdlNode" where
  "secretRefNode r =
     Node ''secret'' [KString (srName r)] [(''env'', KString (srEnv r)), (''mount'', KString (srMount r))] []"

text \<open>A string field that is written when it is not the zero value; an optional pointer.\<close>

definition strField :: "string \<Rightarrow> string \<Rightarrow> kdlNode list" where
  "strField name v = (if v = [] then [] else [strNode name v])"

definition optField :: "('a \<Rightarrow> kdlNode) \<Rightarrow> 'a option \<Rightarrow> kdlNode list" where
  "optField f v = (case v of None \<Rightarrow> [] | Some x \<Rightarrow> [f x])"

definition flagField :: "string \<Rightarrow> bool \<Rightarrow> kdlNode list" where
  "flagField name b = (if b then [flagNode name] else [])"

definition stepChildren :: "(int \<Rightarrow> string) \<Rightarrow> 'ast Step \<Rightarrow> kdlNode list" where
  "stepChildren dur s =
     map (strNode ''run'') (sRun s) @ map envNode (sEnv s) @ strField ''workdir'' (sWorkdir s) @
     map mountNode (sMounts s) @ map cacheNode (sCaches s) @ map exportNode (sExports s) @
     map artifactNode (sArtifacts s) @ optField (strNode ''when'' \<circ> wExpression) (sWhen s) @
     [strNode ''timeout'' (dur (sTimeout s))] @ optField shellNode (sShell s) @
     map secretRefNode (sSecrets s) @ flagField ''no-cache'' (sNoCache s) @
     flagField ''allow-failure'' (sAllowFailure s) @ optField (retryNode dur) (sRetry s)"

definition stepNode :: "(int \<Rightarrow> string) \<Rightarrow> 'ast Step \<Rightarrow> kdlNode" where
  "stepNode dur s = Node ''step'' [KString (sName s)] [] (stepChildren dur s)"

definition jobChildren :: "(int \<Rightarrow> string) \<Rightarrow> 'ast Job \<Rightarrow> kdlNode list" where
  "jobChildren dur j =
     strField ''image'' (jImage j) @ strField ''workdir'' (jWorkdir j) @
     strField ''platform'' (jPlatform j) @ map (strNode ''depends-on'') (jDependsOn j) @
     map mountNode (jMounts j) @ map cacheNode (jCaches j) @ map envNode (jEnv j) @
     map exportNode (jExports j) @ map artifactNode (jArtifacts j) @
     optField matrixNode (jMatrix j) @ flagField ''no-cache'' (jNoCache j) @
     optField publishNode (jPublish j) @ optField (strNode ''when'' \<circ> wExpression) (jWhen j) @
     [strNode ''timeout'' (dur (jTimeout j))] @ optField (retryNode dur) (jRetry j) @
     optField shellNode (jShell j) @ map secretRefNode (jSecrets j) @ map (stepNode dur) (jSteps j)"

definition jobNode :: "(int \<Rightarrow> string) \<Rightarrow> 'ast Job \<Rightarrow> kdlNode" where
  "jobNode dur j = Node ''job'' [KString (jName j)] [] (jobChildren dur j)"

section \<open>Elements read back\<close>

text \<open>
  What a written element must satisfy. Durations are 64-bit and printed so that they parse
  (\<^verbatim>\<open>time.ParseDuration\<close> reads the number of nanoseconds with the unit \<^verbatim>\<open>ns\<close> back), and conditions
  must be those that \<^verbatim>\<open>NewWhen\<close> makes of their own trimmed text.
\<close>

definition durRange :: "int \<Rightarrow> bool" where
  "durRange d \<longleftrightarrow> 0 \<le> d \<and> d \<le> MaxInt"

definition durBounded :: "'ast parseEnv \<Rightarrow> bool" where
  "durBounded px \<longleftrightarrow> (\<forall>s d. pxDuration px s = Some d \<longrightarrow> d \<le> MaxInt)"

definition durOk :: "'ast parseEnv \<Rightarrow> (int \<Rightarrow> string) \<Rightarrow> bool" where
  "durOk px dur \<longleftrightarrow> durBounded px \<and> (\<forall>d. durRange d \<longrightarrow> pxDuration px (dur d) = Some d)"

definition writtenWhenOk :: "'ast parseEnv \<Rightarrow> 'ast When \<Rightarrow> bool" where
  "writtenWhenOk px w \<longleftrightarrow> wExpression w \<noteq> [] \<and> TrimSpace (wExpression w) = wExpression w \<and>
     NewWhen (pxCel px) (wExpression w) = Inr w"

definition writtenRetryOk :: "Retry \<Rightarrow> bool" where
  "writtenRetryOk r \<longleftrightarrow> 1 \<le> rAttempts r \<and> rAttempts r \<le> MaxInt \<and> durRange (rDelay r) \<and>
     rBackoff r \<in> {BackoffNone, BackoffLinear, BackoffExponential}"

definition writtenStepOk :: "'ast parseEnv \<Rightarrow> 'ast Step \<Rightarrow> bool" where
  "writtenStepOk px s \<longleftrightarrow> (\<forall>e\<in>set (sExports s). xLocal e \<noteq> []) \<and>
     (\<forall>a\<in>set (sArtifacts s). aSource a \<noteq> [] \<and> aTarget a \<noteq> []) \<and>
     (\<forall>w. sWhen s = Some w \<longrightarrow> writtenWhenOk px w \<and> \<not> wDeferred w) \<and> durRange (sTimeout s) \<and> sShell s \<noteq> Some [] \<and>
     (\<forall>r. sRetry s = Some r \<longrightarrow> writtenRetryOk r)"

definition writtenJobOk :: "'ast parseEnv \<Rightarrow> 'ast Job \<Rightarrow> bool" where
  "writtenJobOk px j \<longleftrightarrow> (\<forall>e\<in>set (jExports j). xLocal e \<noteq> []) \<and>
     (\<forall>a\<in>set (jArtifacts j). aSource a \<noteq> [] \<and> aTarget a \<noteq> []) \<and>
     (\<forall>w. jWhen j = Some w \<longrightarrow> writtenWhenOk px w) \<and> durRange (jTimeout j) \<and> jShell j \<noteq> Some [] \<and>
     (\<forall>r. jRetry j = Some r \<longrightarrow> writtenRetryOk r) \<and>
     (\<forall>m. jMatrix j = Some m \<longrightarrow> ValidateMatrix (Some m) = None) \<and> jMatrixValues j = None \<and>
     (\<forall>s\<in>set (jSteps j). writtenStepOk px s)"

lemmas node_defs =
  strNode_def flagNode_def envNode_def mountNode_def cacheNode_def exportNode_def artifactNode_def
  publishNode_def matrixNode_def retryNode_def shellNode_def secretRefNode_def

lemmas read_defs =
  requireStringArg_def arg_def propOf_def coerceString_def coerceInt_def coerceBool_def stringArgs2_def
  tooManyArgs_def requireProp_def

lemma node_parts [simp]:
  "ndArgs (flagNode name) = []" "ndChildren (stepNode dur s) = stepChildren dur s"
  "ndChildren (jobNode dur j) = jobChildren dur j"
  "requireStringArg (stepNode dur s) = Inr (sName s)" "requireStringArg (jobNode dur j) = Inr (jName j)"
  by (simp_all add: flagNode_def stepNode_def jobNode_def requireStringArg_def arg_def coerceString_def)

lemma mapE_KString [simp]: "mapE coerceString (map KString xs) = Inr xs"
  by (induction xs) (simp_all add: coerceString_def)

lemma read_str [simp]: "requireStringArg (strNode name v) = Inr v"
  by (simp add: strNode_def read_defs)

lemma read_env [simp]: "parseEnvNode (envNode e) = Inr e"
  by (simp add: parseEnvNode_def envNode_def read_defs)

lemma read_mount [simp]: "parseMountNode (mountNode m) = Inr m"
  by (simp add: parseMountNode_def mountNode_def read_defs)

lemma read_cache [simp]: "parseCacheNode (cacheNode c) = Inr c"
  by (simp add: parseCacheNode_def cacheNode_def read_defs)

lemma read_export: "xLocal e \<noteq> [] \<Longrightarrow> parseExportNode (exportNode e) = Inr e"
  by (simp add: parseExportNode_def exportNode_def read_defs failIf_def)

lemma read_artifact: "aSource a \<noteq> [] \<Longrightarrow> aTarget a \<noteq> [] \<Longrightarrow> parseArtifactNode (artifactNode a) = Inr a"
  by (simp add: parseArtifactNode_def artifactNode_def read_defs failIf_def)

lemma read_publish [simp]: "parsePublishNode (publishNode p) = Inr p"
  by (simp add: parsePublishNode_def publishNode_def read_defs failIf_def)

lemma read_matrix: "ValidateMatrix (Some m) = None \<Longrightarrow> parseMatrix (matrixNode m) = Inr m"
proof -
  assume ok: "ValidateMatrix (Some m) = None"
  have "mapE (\<lambda>child. bindE (allStringArgs child) (\<lambda>vals. Inr \<lparr>dName = ndName child, dValues = vals\<rparr>))
      (map (\<lambda>d. Node (dName d) (map KString (dValues d)) [] []) ds) = Inr ds" for ds
    by (induction ds) (simp_all add: allStringArgs_def)
  with ok show ?thesis by (cases m) (simp add: parseMatrix_def matrixNode_def)
qed

lemma read_retry: "durOk px dur \<Longrightarrow> writtenRetryOk r \<Longrightarrow> parseRetryNode px (retryNode dur r) = Inr r"
  by (cases r) (auto simp: parseRetryNode_def retryNode_def retryField_def strNode_def read_defs
      parseDuration_def durOk_def durRange_def writtenRetryOk_def in64_def MaxInt_def failIf_def)

lemma read_shell: "sh \<noteq> [] \<Longrightarrow> parseShellNode (shellNode sh) = Inr sh"
  by (simp add: parseShellNode_def shellNode_def allStringArgs_def)

lemma read_secret [simp]: "parseSecretRefNode (secretRefNode r) = Inr r"
  by (simp add: parseSecretRefNode_def secretRefNode_def read_defs failIf_def sortedKeys_def)

lemma read_when: "writtenWhenOk px w \<Longrightarrow> parseWhenNode px (strNode ''when'' (wExpression w)) = Inr w"
  by (simp add: parseWhenNode_def writtenWhenOk_def Let_def) (simp add: strNode_def tooManyArgs_def failIf_def)

lemma read_timeout: "durOk px dur \<Longrightarrow> durRange d \<Longrightarrow> parseTimeout px (strNode ''timeout'' (dur d)) {} = Inr d"
  by (simp add: parseTimeout_def parseDuration_def durOk_def durRange_def)

text \<open>The dispatch on the written nodes.\<close>

lemma nodeType_strNode: "nodeType (strNode name v) = (case map_of nodeNames name of None \<Rightarrow> NUnknown | Some t \<Rightarrow> t)"
  by (simp add: nodeType_def strNode_def)

lemma nodeType_written [simp]:
  "nodeType (flagNode ''no-cache'') = NNoCache" "nodeType (flagNode ''allow-failure'') = NAllowFailure"
  "nodeType (envNode e) = NEnv" "nodeType (mountNode m) = NMount" "nodeType (cacheNode c) = NCache"
  "nodeType (exportNode x) = NExport" "nodeType (artifactNode a) = NArtifact"
  "nodeType (publishNode p) = NPublish" "nodeType (matrixNode mx) = NMatrix"
  "nodeType (retryNode dur r) = NRetry" "nodeType (shellNode sh) = NShell"
  "nodeType (secretRefNode sr) = NSecret" "nodeType (stepNode dur s) = NStep"
  by (simp_all add: nodeType_def node_defs stepNode_def nodeNames_def)

lemma nodeType_str [simp]:
  "nodeType (strNode ''run'' v) = NRun" "nodeType (strNode ''workdir'' v) = NWorkdir"
  "nodeType (strNode ''image'' v) = NImage" "nodeType (strNode ''platform'' v) = NPlatform"
  "nodeType (strNode ''depends-on'' v) = NDependsOn" "nodeType (strNode ''when'' v) = NWhen"
  "nodeType (strNode ''timeout'' v) = NTimeout"
  by (simp_all add: nodeType_strNode nodeNames_def)

section \<open>Jobs and steps read back\<close>

lemmas stepField_defs = applyJobStepField_def putOnce_def setOnce_def flagOnce_def

lemma step_segments:
  fixes px :: "'ast parseEnv" and s :: "'ast Step"
  shows "foldE (applyJobStepField px) (map (strNode ''run'') xs) (s, seen) =
           Inr (s\<lparr>sRun := sRun s @ xs\<rparr>, seen)"
    and "foldE (applyJobStepField px) (map envNode es) (s, seen) = Inr (s\<lparr>sEnv := sEnv s @ es\<rparr>, seen)"
    and "foldE (applyJobStepField px) (map mountNode ms) (s, seen) = Inr (s\<lparr>sMounts := sMounts s @ ms\<rparr>, seen)"
    and "foldE (applyJobStepField px) (map cacheNode cs) (s, seen) = Inr (s\<lparr>sCaches := sCaches s @ cs\<rparr>, seen)"
    and "foldE (applyJobStepField px) (map secretRefNode rs) (s, seen) =
           Inr (s\<lparr>sSecrets := sSecrets s @ rs\<rparr>, seen)"
  using foldE_collect [of xs "applyJobStepField px" "strNode ''run''" "\<lambda>acc. (s\<lparr>sRun := acc\<rparr>, seen)" "sRun s"]
    foldE_collect [of es "applyJobStepField px" envNode "\<lambda>acc. (s\<lparr>sEnv := acc\<rparr>, seen)" "sEnv s"]
    foldE_collect [of ms "applyJobStepField px" mountNode "\<lambda>acc. (s\<lparr>sMounts := acc\<rparr>, seen)" "sMounts s"]
    foldE_collect [of cs "applyJobStepField px" cacheNode "\<lambda>acc. (s\<lparr>sCaches := acc\<rparr>, seen)" "sCaches s"]
    foldE_collect [of rs "applyJobStepField px" secretRefNode "\<lambda>acc. (s\<lparr>sSecrets := acc\<rparr>, seen)" "sSecrets s"]
  by (simp_all add: applyJobStepField_def)

lemma step_exports:
  fixes s :: "'ast Step"
  assumes "\<forall>e\<in>set xs. xLocal e \<noteq> []"
  shows "foldE (applyJobStepField px) (map exportNode xs) (s, seen) =
           Inr (s\<lparr>sExports := sExports s @ xs\<rparr>, seen)"
  using foldE_collect [of xs "applyJobStepField px" exportNode "\<lambda>acc. (s\<lparr>sExports := acc\<rparr>, seen)" "sExports s"]
    assms
  by (simp add: applyJobStepField_def read_export)

lemma step_artifacts:
  fixes s :: "'ast Step"
  assumes "\<forall>a\<in>set xs. aSource a \<noteq> [] \<and> aTarget a \<noteq> []"
  shows "foldE (applyJobStepField px) (map artifactNode xs) (s, seen) =
           Inr (s\<lparr>sArtifacts := sArtifacts s @ xs\<rparr>, seen)"
  using foldE_collect [of xs "applyJobStepField px" artifactNode "\<lambda>acc. (s\<lparr>sArtifacts := acc\<rparr>, seen)"
      "sArtifacts s"] assms
  by (simp add: applyJobStepField_def read_artifact)

lemma step_once:
  fixes s :: "'ast Step"
  shows "sWorkdir s = [] \<Longrightarrow> foldE (applyJobStepField px) (strField ''workdir'' v) (s, seen) =
           Inr (s\<lparr>sWorkdir := v\<rparr>, seen)"
    and "\<not> sNoCache s \<Longrightarrow> foldE (applyJobStepField px) (flagField ''no-cache'' b) (s, seen) =
           Inr (s\<lparr>sNoCache := b\<rparr>, seen)"
    and "\<not> sAllowFailure s \<Longrightarrow> foldE (applyJobStepField px) (flagField ''allow-failure'' b) (s, seen) =
           Inr (s\<lparr>sAllowFailure := b\<rparr>, seen)"
    and "sShell s = None \<Longrightarrow> sh \<noteq> Some [] \<Longrightarrow>
           foldE (applyJobStepField px) (optField shellNode sh) (s, seen) = Inr (s\<lparr>sShell := sh\<rparr>, seen)"
    and "sWhen s = None \<Longrightarrow> \<forall>x. w = Some x \<longrightarrow> writtenWhenOk px x \<and> \<not> wDeferred x \<Longrightarrow>
           foldE (applyJobStepField px) (optField (strNode ''when'' \<circ> wExpression) w) (s, seen) =
             Inr (s\<lparr>sWhen := w\<rparr>, seen)"
    and "sRetry s = None \<Longrightarrow> durOk px dur \<Longrightarrow> \<forall>x. r = Some x \<longrightarrow> writtenRetryOk x \<Longrightarrow>
           foldE (applyJobStepField px) (optField (retryNode dur) r) (s, seen) = Inr (s\<lparr>sRetry := r\<rparr>, seen)"
    and "NTimeout \<notin> seen \<Longrightarrow> durOk px dur \<Longrightarrow> durRange d \<Longrightarrow>
           applyJobStepField px (strNode ''timeout'' (dur d)) (s, seen) =
             Inr (s\<lparr>sTimeout := d\<rparr>, insert NTimeout seen)"
  by (auto simp: stepField_defs strField_def flagField_def optField_def read_shell read_when
      read_retry parseTimeout_def parseDuration_def durOk_def durRange_def split: option.splits)

lemma read_step:
  assumes "durOk px dur" "writtenStepOk px s"
  shows "parseJobStep px (stepNode dur s) = Inr s"
  using assms
  by (cases s) (simp add: parseJobStep_def stepChildren_def writtenStepOk_def step_segments step_exports step_artifacts
      step_once zero_defs)

lemmas jobField_defs = applyJobField_def putOnce_def setOnce_def flagOnce_def

lemma job_segments:
  fixes px :: "'ast parseEnv" and j :: "'ast Job"
  shows "foldE (applyJobField px) (map (strNode ''depends-on'') xs) (j, seen) =
           Inr (j\<lparr>jDependsOn := jDependsOn j @ xs\<rparr>, seen)"
    and "foldE (applyJobField px) (map envNode es) (j, seen) = Inr (j\<lparr>jEnv := jEnv j @ es\<rparr>, seen)"
    and "foldE (applyJobField px) (map mountNode ms) (j, seen) = Inr (j\<lparr>jMounts := jMounts j @ ms\<rparr>, seen)"
    and "foldE (applyJobField px) (map cacheNode cs) (j, seen) = Inr (j\<lparr>jCaches := jCaches j @ cs\<rparr>, seen)"
    and "foldE (applyJobField px) (map secretRefNode rs) (j, seen) =
           Inr (j\<lparr>jSecrets := jSecrets j @ rs\<rparr>, seen)"
  using foldE_collect [of xs "applyJobField px" "strNode ''depends-on''" "\<lambda>acc. (j\<lparr>jDependsOn := acc\<rparr>, seen)"
      "jDependsOn j"]
    foldE_collect [of es "applyJobField px" envNode "\<lambda>acc. (j\<lparr>jEnv := acc\<rparr>, seen)" "jEnv j"]
    foldE_collect [of ms "applyJobField px" mountNode "\<lambda>acc. (j\<lparr>jMounts := acc\<rparr>, seen)" "jMounts j"]
    foldE_collect [of cs "applyJobField px" cacheNode "\<lambda>acc. (j\<lparr>jCaches := acc\<rparr>, seen)" "jCaches j"]
    foldE_collect [of rs "applyJobField px" secretRefNode "\<lambda>acc. (j\<lparr>jSecrets := acc\<rparr>, seen)" "jSecrets j"]
  by (simp_all add: applyJobField_def)

lemma job_exports:
  fixes j :: "'ast Job"
  assumes "\<forall>e\<in>set xs. xLocal e \<noteq> []"
  shows "foldE (applyJobField px) (map exportNode xs) (j, seen) =
           Inr (j\<lparr>jExports := jExports j @ xs\<rparr>, seen)"
  using foldE_collect [of xs "applyJobField px" exportNode "\<lambda>acc. (j\<lparr>jExports := acc\<rparr>, seen)" "jExports j"]
    assms
  by (simp add: applyJobField_def read_export)

lemma job_artifacts:
  fixes j :: "'ast Job"
  assumes "\<forall>a\<in>set xs. aSource a \<noteq> [] \<and> aTarget a \<noteq> []"
  shows "foldE (applyJobField px) (map artifactNode xs) (j, seen) =
           Inr (j\<lparr>jArtifacts := jArtifacts j @ xs\<rparr>, seen)"
  using foldE_collect [of xs "applyJobField px" artifactNode "\<lambda>acc. (j\<lparr>jArtifacts := acc\<rparr>, seen)"
      "jArtifacts j"] assms
  by (simp add: applyJobField_def read_artifact)

lemma job_steps:
  fixes j :: "'ast Job"
  assumes "durOk px dur" "\<forall>s\<in>set xs. writtenStepOk px s"
  shows "foldE (applyJobField px) (map (stepNode dur) xs) (j, seen) = Inr (j\<lparr>jSteps := jSteps j @ xs\<rparr>, seen)"
  using foldE_collect [of xs "applyJobField px" "stepNode dur" "\<lambda>acc. (j\<lparr>jSteps := acc\<rparr>, seen)" "jSteps j"]
    assms
  by (simp add: applyJobField_def read_step)

lemma job_once:
  fixes j :: "'ast Job"
  shows "jImage j = [] \<Longrightarrow> foldE (applyJobField px) (strField ''image'' v) (j, seen) = Inr (j\<lparr>jImage := v\<rparr>, seen)"
    and "jWorkdir j = [] \<Longrightarrow> foldE (applyJobField px) (strField ''workdir'' v) (j, seen) =
           Inr (j\<lparr>jWorkdir := v\<rparr>, seen)"
    and "jPlatform j = [] \<Longrightarrow> foldE (applyJobField px) (strField ''platform'' v) (j, seen) =
           Inr (j\<lparr>jPlatform := v\<rparr>, seen)"
    and "\<not> jNoCache j \<Longrightarrow> foldE (applyJobField px) (flagField ''no-cache'' b) (j, seen) =
           Inr (j\<lparr>jNoCache := b\<rparr>, seen)"
    and "jMatrix j = None \<Longrightarrow> \<forall>x. m = Some x \<longrightarrow> ValidateMatrix (Some x) = None \<Longrightarrow>
           foldE (applyJobField px) (optField matrixNode m) (j, seen) = Inr (j\<lparr>jMatrix := m\<rparr>, seen)"
    and "jPublish j = None \<Longrightarrow>
           foldE (applyJobField px) (optField publishNode p) (j, seen) = Inr (j\<lparr>jPublish := p\<rparr>, seen)"
    and "jShell j = None \<Longrightarrow> sh \<noteq> Some [] \<Longrightarrow>
           foldE (applyJobField px) (optField shellNode sh) (j, seen) = Inr (j\<lparr>jShell := sh\<rparr>, seen)"
    and "jWhen j = None \<Longrightarrow> \<forall>x. w = Some x \<longrightarrow> writtenWhenOk px x \<Longrightarrow>
           foldE (applyJobField px) (optField (strNode ''when'' \<circ> wExpression) w) (j, seen) =
             Inr (j\<lparr>jWhen := w\<rparr>, seen)"
    and "jRetry j = None \<Longrightarrow> durOk px dur \<Longrightarrow> \<forall>x. r = Some x \<longrightarrow> writtenRetryOk x \<Longrightarrow>
           foldE (applyJobField px) (optField (retryNode dur) r) (j, seen) = Inr (j\<lparr>jRetry := r\<rparr>, seen)"
    and "NTimeout \<notin> seen \<Longrightarrow> durOk px dur \<Longrightarrow> durRange d \<Longrightarrow>
           applyJobField px (strNode ''timeout'' (dur d)) (j, seen) =
             Inr (j\<lparr>jTimeout := d\<rparr>, insert NTimeout seen)"
  by (auto simp: jobField_defs strField_def flagField_def optField_def read_shell read_when
      read_retry read_matrix parseTimeout_def parseDuration_def durOk_def durRange_def split: option.splits)

lemma read_job:
  assumes "durOk px dur" "writtenJobOk px j"
  shows "parseJob px (jobNode dur j) = Inr j"
  using assms
  by (cases j) (simp add: parseJob_def jobChildren_def writtenJobOk_def job_segments job_exports job_artifacts job_steps
      job_once zero_defs)

section \<open>Every parsed job is well formed\<close>

lemma TrimSpace_idem [simp]: "TrimSpace (TrimSpace s) = TrimSpace s"
proof -
  define l r where "l = trimWith spaceSeqs s" and "r = trimWith (map rev spaceSeqs) (rev l)"
  have fix': "trimWith ws t = t" if "\<And>w. w \<in> set ws \<Longrightarrow> w \<noteq> [] \<Longrightarrow> \<not> prefix w t" for ws t
    using that by (subst trimWith.simps) (auto simp: find_Some_iff in_set_conv_nth split: option.split)
  have "prefix (rev r) l"
    using trimWith_suffix [of "map rev spaceSeqs" "rev l"] by (simp add: r_def suffix_to_prefix)
  then have "trimWith spaceSeqs (rev r) = rev r"
    using trimWith_stop [of _ spaceSeqs s] by (intro fix') (metis l_def prefix_order.trans)
  moreover have "trimWith (map rev spaceSeqs) r = r"
    using trimWith_stop [of _ "map rev spaceSeqs" "rev l"] by (intro fix') (metis r_def)
  moreover have "TrimSpace s = rev r" by (simp add: TrimSpace_def l_def r_def)
  ultimately show ?thesis by (simp add: TrimSpace_def)
qed

lemma parsed_when: "parseWhenNode px node = Inr w \<Longrightarrow> writtenWhenOk px w"
  by (auto simp: parseWhenNode_def writtenWhenOk_def Let_def NewWhen_def split: if_splits sum.splits option.splits)

lemma parsed_duration: "parseDuration px e v = Inr d \<Longrightarrow> durBounded px \<Longrightarrow> durRange d"
  by (auto simp: parseDuration_def durRange_def durBounded_def split: option.splits if_splits)

lemma parsed_int: "arg coerceInt node i = Inr v \<Longrightarrow> v \<le> MaxInt"
  by (auto simp: arg_def coerceInt_def in64_def MaxInt_def split: if_splits kdlValue.splits)

lemma durRange_0 [simp]: "durRange 0"
  by (simp add: durRange_def MaxInt_def)

lemma onceLoop_invariant:
  assumes "onceLoop f seen cs x = Inr y" "P x" "\<And>c x y. P x \<Longrightarrow> f c x = Inr y \<Longrightarrow> P y"
  shows "P y"
  using assms by (induction f seen cs x rule: onceLoop.induct) (auto split: if_splits)

lemma parsed_retry: "parseRetryNode px node = Inr r \<Longrightarrow> durBounded px \<Longrightarrow> writtenRetryOk r"
proof -
  assume dur: "durBounded px"
  assume "parseRetryNode px node = Inr r"
  then have "onceLoop (retryField px) {} (ndChildren node)
      \<lparr>rAttempts = 1, rDelay = 0, rBackoff = BackoffNone\<rparr> = Inr r"
    by (simp add: parseRetryNode_def split: if_splits)
  then show ?thesis
    by (rule onceLoop_invariant)
      (auto simp: writtenRetryOk_def retryField_def dur MaxInt_def [symmetric]
        split: if_splits dest: parsed_duration parsed_int, simp_all add: MaxInt_def)
qed

lemma parsed_shell: "parseShellNode node = Inr sh \<Longrightarrow> sh \<noteq> []"
  by (auto simp: parseShellNode_def allStringArgs_def split: if_splits dest: mapE_length)

lemma parsed_matrix: "parseMatrix node = Inr m \<Longrightarrow> ValidateMatrix (Some m) = None"
  by (auto simp: parseMatrix_def split: option.splits)

lemma parsed_export: "parseExportNode node = Inr e \<Longrightarrow> xLocal e \<noteq> []"
  by (auto simp: parseExportNode_def requireProp_def split: if_splits)

lemma parsed_artifact: "parseArtifactNode node = Inr a \<Longrightarrow> aSource a \<noteq> [] \<and> aTarget a \<noteq> []"
  by (auto simp: parseArtifactNode_def requireProp_def split: if_splits)

lemma parsed_timeout: "parseTimeout px node seen = Inr d \<Longrightarrow> durBounded px \<Longrightarrow> durRange d"
  by (auto simp: parseTimeout_def split: if_splits dest: parsed_duration)

lemmas parsed_elements = parsed_when parsed_retry parsed_shell parsed_matrix parsed_export parsed_artifact
  parsed_timeout

lemma zero_ok [simp]: "writtenStepOk px (zeroStep\<lparr>sName := name\<rparr>)" "writtenJobOk px (zeroJob\<lparr>jName := name\<rparr>)"
  by (simp_all add: writtenStepOk_def writtenJobOk_def zero_defs)

lemma applyJobStepField_ok:
  "writtenStepOk px s \<Longrightarrow> applyJobStepField px node (s, seen) = Inr (s', seen') \<Longrightarrow> durBounded px \<Longrightarrow> writtenStepOk px s'"
  by (auto simp: stepField_defs Let_def writtenStepOk_def split: if_splits dest: parsed_elements)

lemma parsed_step: "parseJobStep px node = Inr s \<Longrightarrow> durBounded px \<Longrightarrow> writtenStepOk px s"
proof -
  assume dur: "durBounded px"
  assume "parseJobStep px node = Inr s"
  then obtain name seen where
    "foldE (applyJobStepField px) (ndChildren node) (zeroStep\<lparr>sName := name\<rparr>, {}) = Inr (s, seen)"
    by (auto simp: parseJobStep_def split: sum.splits)
  then have "writtenStepOk px (fst (s, seen))"
    by (rule foldE_invariant) (auto dest: applyJobStepField_ok intro: dur)
  then show ?thesis by simp
qed

lemma applyJobField_ok:
  "writtenJobOk px j \<Longrightarrow> applyJobField px node (j, seen) = Inr (j', seen') \<Longrightarrow> durBounded px \<Longrightarrow> writtenJobOk px j'"
  by (auto simp: jobField_defs Let_def writtenJobOk_def split: if_splits dest: parsed_elements parsed_step)

lemma parsed_job: "parseJob px node = Inr j \<Longrightarrow> durBounded px \<Longrightarrow> writtenJobOk px j"
proof -
  assume dur: "durBounded px"
  assume "parseJob px node = Inr j"
  then obtain name seen where
    "foldE (applyJobField px) (ndChildren node) (zeroJob\<lparr>jName := name\<rparr>, {}) = Inr (j, seen)"
    by (auto simp: parseJob_def split: sum.splits)
  then have "writtenJobOk px (fst (j, seen))"
    by (rule foldE_invariant) (auto dest: applyJobField_ok intro: dur)
  then show ?thesis by simp
qed

text \<open>What a bare step's job keeps through every field: it has no steps of its own yet.\<close>

lemma applyJobField_keeps:
  "applyJobField px node (j, seen) = Inr (j', seen') \<Longrightarrow>
     jName j' = jName j \<and> (nodeType node \<noteq> NStep \<longrightarrow> jSteps j' = jSteps j)"
  by (auto simp: jobField_defs Let_def split: if_splits)

definition bareOk :: "'ast parseEnv \<Rightarrow> string \<Rightarrow> 'ast Step \<times> 'ast Job \<times> nodeKind set \<Rightarrow> bool" where
  "bareOk px name st \<longleftrightarrow> writtenJobOk px (fst (snd st)) \<and> jName (fst (snd st)) = name \<and>
     (\<exists>run retry allow. fst st = zeroStep\<lparr>sName := name, sRun := run, sRetry := retry, sAllowFailure := allow\<rparr> \<and>
        (\<forall>r. retry = Some r \<longrightarrow> writtenRetryOk r))"

lemma bareStepField_ok:
  assumes "bareOk px name st" "bareStepField px child st = Inr st'" "durBounded px"
  shows "bareOk px name st'"
proof -
  obtain s j seen where st: "st = (s, j, seen)" by (cases st)
  from assms(1) obtain run retry allow where
    s: "s = zeroStep\<lparr>sName := name, sRun := run, sRetry := retry, sAllowFailure := allow\<rparr>"
    and ok: "\<forall>r. retry = Some r \<longrightarrow> writtenRetryOk r" "writtenJobOk px j" "jName j = name"
    by (auto simp: bareOk_def st)
  have upd: "bareOk px name (s\<lparr>sRun := run'\<rparr>, j, seen)" "bareOk px name (s\<lparr>sAllowFailure := b\<rparr>, j, seen)"
    "(\<forall>r. retry' = Some r \<longrightarrow> writtenRetryOk r) \<Longrightarrow> bareOk px name (s\<lparr>sRetry := retry'\<rparr>, j, seen)"
    for run' b retry'
    using ok s by (auto simp: bareOk_def zero_defs)
  have job: "bareOk px name (s, j', seen')" if "applyJobField px child (j, seen) = Inr (j', seen')" for j' seen'
    using applyJobField_ok [OF ok(2) that assms(3)] applyJobField_keeps [OF that] ok s unfolding bareOk_def by auto
  from assms(2) show ?thesis
    by (auto simp: st bareStepField_def Let_def putOnce_def setOnce_def flagOnce_def upd job
        split: if_splits dest: parsed_retry [OF _ assms(3)] intro!: upd(3))
qed

section \<open>Errors of the elements\<close>

text \<open>No element reports the error that stands for exhausted fuel, and none panics.\<close>

definition stray :: "parseErr \<Rightarrow> bool" where
  "stray e \<longleftrightarrow> e = OutOfFuel \<or> e = PipeErr GoPanic"

lemma stray_simps [simp]: "stray OutOfFuel" "stray (PipeErr GoPanic)"
  by (simp_all add: stray_def)

lemma onceLoop_Inl: "onceLoop f seen cs x = Inl e \<Longrightarrow> e = ErrDuplicateField \<or> (\<exists>c\<in>set cs. \<exists>y. f c y = Inl e)"
  by (induction f seen cs x rule: onceLoop.induct) (auto simp: bindE_Inl split: if_splits)

lemmas err_iff = bindE_Inl guardE_Inl

lemma coerce_fuel [simp]:
  "stray e \<Longrightarrow> coerceString v \<noteq> Inl e" "stray e \<Longrightarrow> coerceInt v \<noteq> Inl e" "stray e \<Longrightarrow> coerceBool v \<noteq> Inl e"
  by (cases v; auto simp: stray_def coerceString_def coerceInt_def coerceBool_def)+

lemma ValidateMatrix_runs [simp]: "ValidateMatrix m \<noteq> Some GoPanic"
proof -
  have "checkDims seen n ds \<noteq> Some GoPanic" for seen n ds
    by (induction seen n ds rule: checkDims.induct) (auto simp: orErr_Some failIf_def Let_def split: if_splits)
  then show ?thesis by (auto simp: ValidateMatrix_def orErr_Some failIf_def split: option.splits if_splits)
qed

lemma arg_fuel [simp]:
  "stray e \<Longrightarrow> requireStringArg node \<noteq> Inl e" "stray e \<Longrightarrow> propString node key \<noteq> Inl e"
  "stray e \<Longrightarrow> propBool node key \<noteq> Inl e" "stray e \<Longrightarrow> stringArgs2 node \<noteq> Inl e" "stray e \<Longrightarrow> allStringArgs node \<noteq> Inl e"
  "stray e \<Longrightarrow> tooManyArgs node \<noteq> Some e" "stray e \<Longrightarrow> requireProp node key \<noteq> Inl e"
  by (auto simp: stray_def requireStringArg_def arg_def propOf_def stringArgs2_def allStringArgs_def tooManyArgs_def
      requireProp_def err_iff split: option.splits if_splits dest!: mapE_Inl)

lemma element_fuel [simp]:
  "stray e \<Longrightarrow> parseEnvNode node \<noteq> Inl e" "stray e \<Longrightarrow> parseMountNode node \<noteq> Inl e"
  "stray e \<Longrightarrow> parseCacheNode node \<noteq> Inl e" "stray e \<Longrightarrow> parseExportNode node \<noteq> Inl e"
  "stray e \<Longrightarrow> parseArtifactNode node \<noteq> Inl e" "stray e \<Longrightarrow> parsePublishNode node \<noteq> Inl e"
  "stray e \<Longrightarrow> parseWhenNode px node \<noteq> Inl e" "stray e \<Longrightarrow> parseDuration px neg v \<noteq> Inl e"
  "stray e \<Longrightarrow> parseShellNode node \<noteq> Inl e" "stray e \<Longrightarrow> parseSecretRefNode node \<noteq> Inl e"
  "stray e \<Longrightarrow> parseMatrix node \<noteq> Inl e" "stray e \<Longrightarrow> parseTimeout px node seen \<noteq> Inl e"
  by (auto simp: stray_def parseEnvNode_def parseMountNode_def parseCacheNode_def parseExportNode_def parseArtifactNode_def
      parsePublishNode_def parseWhenNode_def parseDuration_def parseShellNode_def parseSecretRefNode_def
      parseMatrix_def parseTimeout_def err_iff Let_def split: option.splits sum.splits if_splits dest!: mapE_Inl)

lemma retry_fuel [simp]: "stray e \<Longrightarrow> parseRetryNode px node \<noteq> Inl e"
  by (auto simp: stray_def parseRetryNode_def retryField_def arg_def err_iff split: if_splits dest!: onceLoop_Inl)

lemma step_fuel [simp]: "stray e \<Longrightarrow> parseJobStep px node \<noteq> Inl e"
  by (auto simp: stray_def parseJobStep_def stepField_defs Let_def err_iff split: if_splits sum.splits dest!: foldE_Inl)

lemma jobField_fuel [simp]: "stray e \<Longrightarrow> applyJobField px node st \<noteq> Inl e"
  by (auto simp: stray_def jobField_defs Let_def err_iff split: if_splits)

lemma job_fuel [simp]: "stray e \<Longrightarrow> parseJob px node \<noteq> Inl e" "stray e \<Longrightarrow> parseBareStep px node \<noteq> Inl e"
  by (auto simp: stray_def parseJob_def parseBareStep_def bareStepField_def putOnce_def setOnce_def flagOnce_def Let_def
      err_iff split: if_splits sum.splits dest!: foldE_Inl)

section \<open>Properties\<close>

text \<open>C23: the parser of jobs and a writer of job nodes are inverse. The jobs that \<^verbatim>\<open>parseJob\<close>
  returns are exactly those with a timeout between zero and the greatest 64-bit number, a valid
  retry policy (its attempts and delay in that range), matrix, shell and conditions, complete exports and artifacts, and steps of the same kind that do not wait for
  outputs; and each of them is read back unchanged, every field and the order of every
  list included, from the node written for it.\<close>

theorem parseJob_roundtrip:
  assumes "durOk px dur"
  shows "(writtenJobOk px j \<longleftrightarrow> (\<exists>node. parseJob px node = Inr j)) \<and>
    (writtenJobOk px j \<longrightarrow> parseJob px (jobNode dur j) = Inr j)"
  using read_job [OF assms] parsed_job assms by (auto simp: durOk_def)

text \<open>The sugar for bare steps. A top-level \<^verbatim>\<open>step\<close> becomes a well-formed job of the same name
  with exactly one step of that name; commands, retries and \<^verbatim>\<open>allow-failure\<close> belong to the
  step and everything else to the job, so the step has no environment, mounts, condition,
  timeout or secrets of its own.\<close>

theorem parseBareStep_desugars:
  assumes "parseBareStep px node = Inr j" "durBounded px"
  shows "writtenJobOk px j \<and> requireStringArg node = Inr (jName j) \<and>
    (\<exists>run retry allow. jSteps j =
       [zeroStep\<lparr>sName := jName j, sRun := run, sRetry := retry, sAllowFailure := allow\<rparr>])"
proof -
  from assms(1) obtain name s j0 seen where name: "requireStringArg node = Inr name"
    and fold: "foldE (bareStepField px) (ndChildren node)
      (zeroStep\<lparr>sName := name\<rparr>, zeroJob\<lparr>jName := name\<rparr>, {}) = Inr (s, j0, seen)"
    and j: "j = j0\<lparr>jSteps := [s]\<rparr>"
    by (auto simp: parseBareStep_def split: sum.splits)
  from fold have "bareOk px name (s, j0, seen)"
  proof (rule foldE_invariant)
    show "bareOk px name (zeroStep\<lparr>sName := name\<rparr>, zeroJob\<lparr>jName := name\<rparr>, {})"
      unfolding bareOk_def
      by (intro conjI exI [of _ "[]"] exI [of _ None] exI [of _ False]) (simp_all add: zero_defs writtenJobOk_def)
  qed (rule bareStepField_ok [OF _ _ assms(2)])
  then show ?thesis
    using name j by (auto simp: bareOk_def writtenJobOk_def writtenStepOk_def zero_defs)
qed

text \<open>A parse environment in which durations are written in unary.\<close>

definition unaryEnv :: "string parseEnv" where
  "unaryEnv =
     \<lparr>pxCel = sampleCel, pxDuration = (\<lambda>s. if int (length s) \<le> MaxInt then Some (int (length s)) else None), pxKdl = (\<lambda>s. Some []),
      pxResolve = (\<lambda>s b. None)\<rparr>"

definition unary :: "int \<Rightarrow> string" where
  "unary d = replicate (nat d) (CHR ''s'')"

definition writtenJob :: "string Job" where
  "writtenJob =
     zeroJob\<lparr>jName := ''build'', jImage := ''alpine'', jTimeout := 3, jDependsOn := [''a'', ''b''],
       jRetry := Some \<lparr>rAttempts = 2, rDelay = 1, rBackoff = BackoffLinear\<rparr>,
       jSteps := [zeroStep\<lparr>sName := ''make'', sRun := [''make'', ''test'']\<rparr>]\<rparr>"

theorem parseJob_roundtrip_witness: "parseJob unaryEnv (jobNode unary writtenJob) = Inr writtenJob"
proof -
  have "durOk unaryEnv unary" by (simp add: durOk_def durBounded_def durRange_def unaryEnv_def unary_def)
  moreover have "writtenJobOk unaryEnv writtenJob"
    by (simp add: writtenJobOk_def writtenJob_def zero_defs writtenRetryOk_def writtenStepOk_def durRange_def MaxInt_def)
  ultimately show ?thesis using parseJob_roundtrip [of unaryEnv unary writtenJob] by blast
qed

definition bareNode :: kdlNode where
  "bareNode = Node ''step'' [KString ''lint''] [] [strNode ''image'' ''alpine'', strNode ''run'' ''lint'']"

theorem parseBareStep_desugars_witness:
  "\<exists>j. parseBareStep unaryEnv bareNode = Inr j \<and> jImage j = ''alpine'' \<and> jName j = ''lint'' \<and>
     (\<exists>run retry allow. jSteps j =
        [zeroStep\<lparr>sName := jName j, sRun := run, sRetry := retry, sAllowFailure := allow\<rparr>])"
proof -
  obtain j where j: "parseBareStep unaryEnv bareNode = Inr j" "jImage j = ''alpine''" "jName j = ''lint''"
    by (simp add: parseBareStep_def bareNode_def bareStepField_def applyJobField_def putOnce_def setOnce_def
        requireStringArg_def arg_def coerceString_def nodeType_def nodeNames_def strNode_def zero_defs)
  moreover have "durBounded unaryEnv" by (simp add: durBounded_def unaryEnv_def)
  ultimately show ?thesis using parseBareStep_desugars [of unaryEnv bareNode j] by blast
qed

end
