(* ===== verification/Kdl_Include.thy ===== *)
theory Kdl_Include
  imports Kdl_Jobs Merge
begin

text \<open>
  \<^verbatim>\<open>pkg/parser/include.go\<close>: includes of fragments and pipeline files. The functions call each
  other recursively through \<^verbatim>\<open>resolveInclude\<close>; the recursive call is an argument here (a
  \<open>resolver\<close>), and \<open>resolveInclude\<close> ties the knot with fuel. The state of the includes
  is generic in the functions that only pass it on.
\<close>

section \<open>The state of the includes\<close>

definition maxIncludeDepth :: nat where
  "maxIncludeDepth = 64"

record 'ast includeState =
  isAncestors :: "string list"
  isAncestorSet :: "string set"
  isCache :: "string \<rightharpoonup> 'ast Fragment"
  isAliases :: "(string, string list) gomap"

definition newIncludeState :: "'ast includeState" where
  "newIncludeState = \<lparr>isAncestors = [], isAncestorSet = {}, isCache = Map.empty, isAliases = []\<rparr>"

abbreviation modlE :: "modErr \<Rightarrow> parseErr" where
  "modlE e \<equiv> PipeErr (Modl e)"

definition push :: "string \<Rightarrow> 'ast includeState \<Rightarrow> parseErr + 'ast includeState" where
  "push absPath s =
     (if absPath \<in> isAncestorSet s then Inl (modlE ErrCircularInclude)
      else if length (isAncestors s) \<ge> maxIncludeDepth then Inl (modlE ErrIncludeDepth)
      else Inr (s\<lparr>isAncestors := isAncestors s @ [absPath],
                  isAncestorSet := insert absPath (isAncestorSet s)\<rparr>))"

text \<open>\<^verbatim>\<open>pop\<close> runs only after a successful \<^verbatim>\<open>push\<close>, so the stack is not empty.\<close>

definition pop :: "'ast includeState \<Rightarrow> 'ast includeState" where
  "pop s = s\<lparr>isAncestors := butlast (isAncestors s),
             isAncestorSet := isAncestorSet s - {last (isAncestors s)}\<rparr>"

definition registerAlias ::
  "string \<Rightarrow> string list \<Rightarrow> 'ast includeState \<Rightarrow> parseErr + 'ast includeState" where
  "registerAlias alias terminals s =
     (if map_of (isAliases s) alias \<noteq> None then Inl (modlE ErrDuplicateAlias)
      else Inr (s\<lparr>isAliases := mput alias terminals (isAliases s)\<rparr>))"

text \<open>\<^verbatim>\<open>url.QueryEscape\<close> and \<^verbatim>\<open>url.Values.Encode\<close>.\<close>

definition unreserved :: "char \<Rightarrow> bool" where
  "unreserved c \<longleftrightarrow> (CHR ''a'' \<le> c \<and> c \<le> CHR ''z'') \<or> (CHR ''A'' \<le> c \<and> c \<le> CHR ''Z'') \<or>
     (CHR ''0'' \<le> c \<and> c \<le> CHR ''9'') \<or> c \<in> set ''-_.~''"

definition hexDigit :: "nat \<Rightarrow> char" where
  "hexDigit n = ''0123456789ABCDEF'' ! n"

definition escapeByte :: "char \<Rightarrow> string" where
  "escapeByte c =
     (if unreserved c then [c] else if c = CHR '' '' then ''+''
      else [CHR ''%'', hexDigit (of_char c div 16), hexDigit (of_char c mod 16)])"

definition QueryEscape :: "string \<Rightarrow> string" where
  "QueryEscape s = concat (map escapeByte s)"

definition EncodeValues :: "(string, string) gomap \<Rightarrow> string" where
  "EncodeValues vals =
     joinWith ''&'' (map (\<lambda>k. QueryEscape k @ ''='' @ QueryEscape (mgetStr vals k)) (sortedKeys vals))"

definition cacheKey :: "string \<Rightarrow> (string, string) gomap \<Rightarrow> string" where
  "cacheKey absPath params = (if params = [] then absPath else absPath @ ''?'' @ EncodeValues params)"

record includeDirective =
  idSource :: string
  idAlias :: string
  idOnConflict :: ConflictStrategy
  idParams :: "(string, string) gomap"

record 'ast groupCollector =
  gcInline :: "'ast Job list"
  gcGroups :: "'ast JobGroup list"
  gcOrigin :: string

definition newGroupCollector :: "string \<Rightarrow> 'ast groupCollector" where
  "newGroupCollector origin = \<lparr>gcInline = [], gcGroups = [], gcOrigin = origin\<rparr>"

definition addJob :: "'ast Job \<Rightarrow> 'ast groupCollector \<Rightarrow> 'ast groupCollector" where
  "addJob j gc = gc\<lparr>gcInline := gcInline gc @ [j]\<rparr>"

definition flush :: "'ast groupCollector \<Rightarrow> 'ast groupCollector" where
  "flush gc =
     (if gcInline gc \<noteq> []
      then gc\<lparr>gcGroups := gcGroups gc @
                [\<lparr>gJobs = gcInline gc, gOrigin = gcOrigin gc, gOnConflict = ConflictError\<rparr>],
              gcInline := []\<rparr>
      else gc)"

definition addInclude ::
  "'ast Job list \<Rightarrow> includeDirective \<Rightarrow> 'ast groupCollector \<Rightarrow> 'ast groupCollector" where
  "addInclude jobs inc gc =
     (let gc = flush gc in
      gc\<lparr>gcGroups := gcGroups gc @
           [\<lparr>gJobs = jobs, gOrigin = idSource inc, gOnConflict = idOnConflict inc\<rparr>]\<rparr>)"

definition pipeE :: "err + 'a \<Rightarrow> parseErr + 'a" where
  "pipeE r = (case r of Inl e \<Rightarrow> Inl (PipeErr e) | Inr x \<Rightarrow> Inr x)"

definition gcMerge :: "'ast groupCollector \<Rightarrow> parseErr + 'ast Job list" where
  "gcMerge gc = pipeE (MergeJobs (gcGroups (flush gc)))"

section \<open>Include directives\<close>

definition parseConflictStrategy :: "string \<Rightarrow> parseErr + ConflictStrategy" where
  "parseConflictStrategy s =
     (let v = ToLower (TrimSpace s) in
      if v = [] \<or> v = ''error'' then Inr ConflictError
      else if v = ''skip'' then Inr ConflictSkip
      else Inl (modlE ErrInvalidConflict))"

fun includeParams :: "kdlNode list \<Rightarrow> (string, string) gomap \<Rightarrow> parseErr + (string, string) gomap" where
  "includeParams [] params = Inr params"
| "includeParams (child # cs) params =
     (if map_of params (ndName child) \<noteq> None then Inl ErrDuplicateField
      else bindE (requireStringArg child) (\<lambda>v. includeParams cs (mput (ndName child) v params)))"

definition parseIncludeNode :: "kdlNode \<Rightarrow> parseErr + includeDirective" where
  "parseIncludeNode node =
     bindE (requireStringArg node) (\<lambda>source.
     bindE (propString node ''as'') (\<lambda>alias.
     bindE (propString node ''on-conflict'') (\<lambda>conflictStr.
     bindE (parseConflictStrategy conflictStr) (\<lambda>conflict.
       if \<exists>k\<in>set (gokeys (ndProps node)). k \<noteq> ''as'' \<and> k \<noteq> ''on-conflict'' then Inl ErrUnknownProp
       else bindE (includeParams (ndChildren node) []) (\<lambda>params.
              Inr \<lparr>idSource = source, idAlias = alias, idOnConflict = conflict, idParams = params\<rparr>)))))"

type_synonym ('ast, 's) resolver =
  "includeDirective \<Rightarrow> string \<Rightarrow> 's \<Rightarrow> parseErr + 'ast Job list \<times> includeDirective \<times> 's"

definition resolveChildInclude ::
  "('ast, 's) resolver \<Rightarrow> kdlNode \<Rightarrow> string \<Rightarrow> 's \<Rightarrow> parseErr + 'ast Job list \<times> includeDirective \<times> 's" where
  "resolveChildInclude res child filename st =
     bindE (parseIncludeNode child) (\<lambda>inc. res inc filename st)"

section \<open>Fragments\<close>

definition parseParamNode :: "kdlNode \<Rightarrow> parseErr + ParamDef" where
  "parseParamNode node =
     bindE (requireStringArg node) (\<lambda>name. bindE (propString node ''default'') (\<lambda>def.
       Inr (if map_of (ndProps node) ''default'' \<noteq> None
            then \<lparr>pdName = name, pdDefault = def, pdRequired = False\<rparr>
            else \<lparr>pdName = name, pdDefault = [], pdRequired = True\<rparr>)))"

definition checkDuplicateParam :: "ParamDef list \<Rightarrow> string \<Rightarrow> parseErr option" where
  "checkDuplicateParam defs name = failIf (name \<in> pdName ` set defs) (modlE ErrDuplicateParam)"

text \<open>Jobs, bare steps and includes are collected alike in fragments and files.\<close>

definition collectChild ::
  "'ast parseEnv \<Rightarrow> ('ast, 's) resolver \<Rightarrow> string \<Rightarrow> kdlNode \<Rightarrow> 'ast groupCollector \<times> 's \<Rightarrow>
     parseErr + 'ast groupCollector \<times> 's" where
  "collectChild px res filename child g =
     (let nt = nodeType child in
      if nt = NStep then bindE (parseBareStep px child) (\<lambda>j. Inr (addJob j (fst g), snd g))
      else if nt = NJob then bindE (parseJob px child) (\<lambda>j. Inr (addJob j (fst g), snd g))
      else if nt = NInclude then
        bindE (resolveChildInclude res child filename (snd g))
          (\<lambda>r. Inr (addInclude (fst r) (fst (snd r)) (fst g), snd (snd r)))
      else Inl ErrUnknownNode)"

definition fragmentChild ::
  "'ast parseEnv \<Rightarrow> ('ast, 's) resolver \<Rightarrow> string \<Rightarrow> kdlNode \<Rightarrow>
     ParamDef list \<times> 'ast groupCollector \<times> 's \<Rightarrow> parseErr + ParamDef list \<times> 'ast groupCollector \<times> 's" where
  "fragmentChild px res filename child st =
     (if nodeType child = NParam then
        bindE (parseParamNode child) (\<lambda>pd.
          guardE (checkDuplicateParam (fst st) (pdName pd)) (Inr (fst st @ [pd], snd st)))
      else bindE (collectChild px res filename child (snd st)) (\<lambda>g. Inr (fst st, g)))"

definition parseFragmentNode ::
  "'ast parseEnv \<Rightarrow> ('ast, 's) resolver \<Rightarrow> kdlNode \<Rightarrow> string \<Rightarrow> 's \<Rightarrow> parseErr + 'ast Fragment \<times> 's" where
  "parseFragmentNode px res node filename st =
     bindE (requireStringArg node) (\<lambda>name.
     bindE (foldE (fragmentChild px res filename) (ndChildren node) ([], newGroupCollector filename, st))
       (\<lambda>r. bindE (gcMerge (fst (snd r)))
          (\<lambda>merged. Inr (\<lparr>fName = name, fParams = fst r, fJobs = merged\<rparr>, snd (snd r)))))"

section \<open>Included files\<close>

fun classifyNodes :: "kdlNode list \<Rightarrow> kdlNode option \<Rightarrow> bool \<Rightarrow> parseErr + kdlNode option \<times> bool" where
  "classifyNodes [] frag hasChildren = Inr (frag, hasChildren)"
| "classifyNodes (node # nodes) frag hasChildren =
     (let nt = nodeType node in
      if nt = NFragment then
        (if frag \<noteq> None then Inl ErrAmbiguousFile else classifyNodes nodes (Some node) hasChildren)
      else if nt \<in> {NJob, NStep, NDefaults, NMatrix, NEnv, NSecret, NInclude}
      then classifyNodes nodes frag True
      else Inl ErrUnknownNode)"

text \<open>The loop of \<^verbatim>\<open>includePipelineFile\<close>; ignored nodes only log a warning.\<close>

definition pipelineFileChild ::
  "'ast parseEnv \<Rightarrow> ('ast, 's) resolver \<Rightarrow> string \<Rightarrow> kdlNode \<Rightarrow> 'ast groupCollector \<times> 's \<Rightarrow>
     parseErr + 'ast groupCollector \<times> 's" where
  "pipelineFileChild px res absPath node g =
     (if nodeType node \<in> {NMatrix, NEnv, NDefaults, NSecret} then Inr g
      else collectChild px res absPath node g)"

definition pipelineFileJobs ::
  "'ast parseEnv \<Rightarrow> ('ast, 's) resolver \<Rightarrow> kdlNode list \<Rightarrow> string \<Rightarrow> 's \<Rightarrow> parseErr + 'ast Job list \<times> 's" where
  "pipelineFileJobs px res nodes absPath st =
     bindE (foldE (pipelineFileChild px res absPath) nodes (newGroupCollector absPath, st))
       (\<lambda>g. bindE (gcMerge (fst g)) (\<lambda>jobs. Inr (jobs, snd g)))"

definition cachePut :: "string \<Rightarrow> 'ast Fragment \<Rightarrow> 'ast includeState \<Rightarrow> 'ast includeState" where
  "cachePut key frag st = st\<lparr>isCache := (isCache st)(key \<mapsto> frag)\<rparr>"

definition includeFragment ::
  "'ast parseEnv \<Rightarrow> ('ast, 'ast includeState) resolver \<Rightarrow> kdlNode \<Rightarrow> string \<Rightarrow> (string, string) gomap \<Rightarrow>
     'ast includeState \<Rightarrow> parseErr + string \<times> 'ast Job list \<times> 'ast includeState" where
  "includeFragment px res node absPath params st =
     bindE (parseFragmentNode px res node absPath st) (\<lambda>(frag, st).
     bindE (pipeE (ResolveParams (fParams frag) params)) (\<lambda>resolved.
       let jobs = SubstituteParams (fJobs frag) resolved in
       Inr (fName frag, jobs,
            cachePut (cacheKey absPath params) \<lparr>fName = fName frag, fParams = fParams frag, fJobs = jobs\<rparr> st)))"

definition includePipelineFile ::
  "'ast parseEnv \<Rightarrow> ('ast, 'ast includeState) resolver \<Rightarrow> kdlNode list \<Rightarrow> string \<Rightarrow> (string, string) gomap \<Rightarrow>
     'ast includeState \<Rightarrow> parseErr + string \<times> 'ast Job list \<times> 'ast includeState" where
  "includePipelineFile px res nodes absPath params st =
     (let name = nameFromFilename absPath in
      if params \<noteq> [] then Inl (modlE ErrPipelineNoParams)
      else bindE (pipelineFileJobs px res nodes absPath st) (\<lambda>(jobs, st).
             Inr (name, jobs, cachePut (cacheKey absPath params) \<lparr>fName = name, fParams = [], fJobs = jobs\<rparr> st)))"

definition parseIncludedFile ::
  "'ast parseEnv \<Rightarrow> ('ast, 'ast includeState) resolver \<Rightarrow> string \<Rightarrow> string \<Rightarrow> (string, string) gomap \<Rightarrow>
     'ast includeState \<Rightarrow> parseErr + string \<times> 'ast Job list \<times> 'ast includeState" where
  "parseIncludedFile px res content absPath params st =
     (case pxKdl px content of
        None \<Rightarrow> Inl KdlError
      | Some nodes \<Rightarrow>
          bindE (classifyNodes nodes None False) (\<lambda>(frag, hasChildren).
            (case frag of
               Some node \<Rightarrow> if hasChildren then Inl ErrAmbiguousFile
                            else includeFragment px res node absPath params st
             | None \<Rightarrow> if hasChildren then includePipelineFile px res nodes absPath params st
                       else Inl ErrEmptyInclude)))"

section \<open>Resolving an include\<close>

text \<open>The tail of \<^verbatim>\<open>resolveInclude\<close>: default alias, registration, and the deferred \<^verbatim>\<open>pop\<close>.\<close>

definition finishInclude ::
  "includeDirective \<Rightarrow> string \<Rightarrow> 'ast Job list \<Rightarrow> 'ast includeState \<Rightarrow>
     parseErr + 'ast Job list \<times> includeDirective \<times> 'ast includeState" where
  "finishInclude inc name jobs st =
     (let inc = (if idAlias inc = [] then inc\<lparr>idAlias := name\<rparr> else inc) in
      bindE (registerAlias (idAlias inc) (TerminalJobs jobs) st) (\<lambda>st. Inr (jobs, inc, pop st)))"

definition resolveIncludeBody ::
  "'ast parseEnv \<Rightarrow> ('ast, 'ast includeState) resolver \<Rightarrow> ('ast, 'ast includeState) resolver" where
  "resolveIncludeBody px res inc fromFile st =
     (case pxResolve px (idSource inc) (dirOf fromFile) of
        None \<Rightarrow> Inl ResolveError
      | Some (content, absPath) \<Rightarrow>
          bindE (push absPath st) (\<lambda>st.
            (case isCache st (cacheKey absPath (idParams inc)) of
               Some cached \<Rightarrow> finishInclude inc (fName cached) (fJobs cached) st
             | None \<Rightarrow>
                 bindE (parseIncludedFile px res content absPath (idParams inc) st)
                   (\<lambda>(name, jobs, st). finishInclude inc name jobs st))))"

primrec resolveInclude :: "'ast parseEnv \<Rightarrow> nat \<Rightarrow> ('ast, 'ast includeState) resolver" where
  "resolveInclude px 0 = (\<lambda>inc fromFile st. Inl OutOfFuel)"
| "resolveInclude px (Suc n) = resolveIncludeBody px (resolveInclude px n)"

end
