(* ===== verification/Include_Semantics.thy ===== *)
theory Include_Semantics
  imports Kdl_Include
begin

text \<open>
  What includes mean. The recursion is bounded by the depth limit, so the fuel of
  \<open>resolveInclude\<close> never runs out and the function satisfies the recursive equations of the
  code; and the cache that parses a diamond include once is invisible: the jobs are those of a
  resolution without state.
\<close>

section \<open>Cache keys\<close>

text \<open>A decoder, to show that escaping loses nothing.\<close>

definition hexValue :: "char \<Rightarrow> nat" where
  "hexValue c = (if CHR ''A'' \<le> c then of_char c - 55 else of_char c - 48)"

fun unescape :: "string \<Rightarrow> string" where
  "unescape (c # s) =
     (if c = CHR ''%''
      then (case s of a # b # r \<Rightarrow> char_of (hexValue a * 16 + hexValue b) # unescape r | _ \<Rightarrow> [])
      else (if c = CHR ''+'' then CHR '' '' else c) # unescape s)"
| "unescape [] = []"

lemma hex_roundtrip: "n < 16 \<Longrightarrow> hexValue (hexDigit n) = n"
proof -
  have "\<forall>n<16. hexValue (hexDigit n) = n" by code_simp
  then show "n < 16 \<Longrightarrow> hexValue (hexDigit n) = n" by blast
qed

lemma hex_plain: "n < 16 \<Longrightarrow> unreserved (hexDigit n)"
proof -
  have "\<forall>n<16. unreserved (hexDigit n)" by code_simp
  then show "n < 16 \<Longrightarrow> unreserved (hexDigit n)" by blast
qed

lemma unescape_byte: "unescape (escapeByte c @ r) = c # unescape r"
proof -
  have "of_char c < (256 :: nat)" by simp
  then have "of_char c div 16 < (16 :: nat)" "of_char c mod 16 < (16 :: nat)" by (auto simp: less_mult_imp_div_less)
  note hex = hex_roundtrip [OF this(1)] hex_roundtrip [OF this(2)]
  have "char_of (of_char c div 16 * 16 + of_char c mod 16 :: nat) = c"
    by (simp only: div_mult_mod_eq char_of_char)
  then have enc: "\<not> unreserved c \<Longrightarrow> c \<noteq> CHR '' '' \<Longrightarrow> ?thesis"
    by (simp add: escapeByte_def hex)
  have "unreserved c \<Longrightarrow> c \<noteq> CHR ''%'' \<and> c \<noteq> CHR ''+''" by (auto simp: unreserved_def less_eq_char_def)
  then have "unreserved c \<Longrightarrow> ?thesis" by (simp add: escapeByte_def)
  moreover have "c = CHR '' '' \<Longrightarrow> \<not> unreserved c \<Longrightarrow> ?thesis" by (simp add: escapeByte_def)
  ultimately show ?thesis using enc by blast
qed

lemma unescape_QueryEscape [simp]: "unescape (QueryEscape s) = s"
  by (induction s) (simp_all add: QueryEscape_def unescape_byte)

lemma QueryEscape_inj: "QueryEscape s = QueryEscape t \<longleftrightarrow> s = t"
  by (metis unescape_QueryEscape)

lemma QueryEscape_plain: "c \<in> set (QueryEscape s) \<Longrightarrow> unreserved c \<or> c = CHR ''%'' \<or> c = CHR ''+''"
proof -
  assume "c \<in> set (QueryEscape s)"
  then obtain b where "c \<in> set (escapeByte b)" by (auto simp: QueryEscape_def)
  moreover have "of_char b div 16 < (16 :: nat)" "of_char b mod 16 < (16 :: nat)"
    by (auto simp: less_mult_imp_div_less)
  ultimately show ?thesis using hex_plain by (auto simp: escapeByte_def split: if_splits)
qed

lemma QueryEscape_sep: "CHR ''&'' \<notin> set (QueryEscape s)" "CHR ''='' \<notin> set (QueryEscape s)"
proof -
  have "\<not> unreserved (CHR ''&'')" "\<not> unreserved (CHR ''='')" by code_simp+
  then show "CHR ''&'' \<notin> set (QueryEscape s)" "CHR ''='' \<notin> set (QueryEscape s)"
    by (auto dest: QueryEscape_plain)
qed

definition pairs :: "(string, string) gomap \<Rightarrow> (string \<times> string) list" where
  "pairs m = map (\<lambda>k. (k, mgetStr m k)) (sortedKeys m)"

lemma map_of_pairs: "map_of (pairs m) = map_of m"
  by (rule ext) (auto simp: pairs_def map_of_map_restrict restrict_map_def mgetStr_def map_of_eq_None_iff
      image_iff map_of_eq_None_iff [THEN iffD2] split: option.split)

lemma EncodeValues_inj:
  assumes "EncodeValues m = EncodeValues m'" "m \<noteq> []" "m' \<noteq> []"
  shows "map_of m = map_of m'"
proof -
  let ?enc = "\<lambda>(k, v). QueryEscape k @ CHR ''='' # QueryEscape v"
  have enc: "EncodeValues m = joinWith [CHR ''&''] (map ?enc (pairs m))" for m
    by (simp add: EncodeValues_def pairs_def o_def)
  have ne: "m \<noteq> [] \<Longrightarrow> map ?enc (pairs m) \<noteq> []" for m :: "(string, string) gomap"
    by (simp add: pairs_def sortedKeys_def) (metis length_0_conv length_map length_sort)
  have "\<forall>x\<in>set (map ?enc (pairs m)). CHR ''&'' \<notin> set x" for m by (auto simp: QueryEscape_sep)
  then have "map ?enc (pairs m) = map ?enc (pairs m')"
    using assms splitOn_joinWith [OF ne, of m "CHR ''&''"] splitOn_joinWith [OF ne, of m' "CHR ''&''"]
    unfolding enc by metis
  moreover have "inj ?enc"
  proof (rule injI, clarify)
    fix k v k' v'
    assume e: "QueryEscape k @ CHR ''='' # QueryEscape v = QueryEscape k' @ CHR ''='' # QueryEscape v'"
    have "cutAt (CHR ''='') (QueryEscape k @ CHR ''='' # QueryEscape v) = Some (QueryEscape k, QueryEscape v)"
      for k v by (simp add: QueryEscape_sep)
    with e have "(QueryEscape k, QueryEscape v) = (QueryEscape k', QueryEscape v')" by (metis option.inject)
    then show "k = k' \<and> v = v'" by (simp add: QueryEscape_inj)
  qed
  ultimately have "pairs m = pairs m'" by (simp add: inj_map_eq_map)
  then show ?thesis using map_of_pairs by metis
qed

lemma cacheKey_inj:
  assumes "cacheKey p m = cacheKey p' m'" "CHR ''?'' \<notin> set p" "CHR ''?'' \<notin> set p'"
  shows "p = p' \<and> map_of m = map_of m'"
proof (cases "m = [] \<or> m' = []")
  case True
  with assms show ?thesis by (auto simp: cacheKey_def split: if_splits)
next
  case False
  with assms have "cutAt (CHR ''?'') (p @ CHR ''?'' # EncodeValues m) = cutAt (CHR ''?'') (p' @ CHR ''?'' # EncodeValues m')"
    by (simp add: cacheKey_def)
  with assms(2,3) have "p = p' \<and> EncodeValues m = EncodeValues m'" by simp
  with False EncodeValues_inj show ?thesis by blast
qed

section \<open>Resolvers that agree\<close>

text \<open>
  Two resolvers that give the same results on the states of a set that they do not leave: the
  functions that call them give the same results too and stay in that set.
\<close>

locale resolver_cong =
  fixes res res' :: "('ast, 's) resolver"
    and P :: "'s \<Rightarrow> bool"
  assumes res_agree: "P s \<Longrightarrow> res inc fl s = res' inc fl s"
    and res_keeps: "P s \<Longrightarrow> res inc fl s = Inr (jobs, inc', s') \<Longrightarrow> P s'"
begin

lemma collectChild_agree:
  "P (snd g) \<Longrightarrow> collectChild px res fl child g = collectChild px res' fl child g"
  by (auto simp: collectChild_def resolveChildInclude_def bindE_def res_agree Let_def split: sum.splits)

lemma collectChild_keeps:
  "P (snd g) \<Longrightarrow> collectChild px res fl child g = Inr g' \<Longrightarrow> P (snd g')"
  by (auto simp: collectChild_def resolveChildInclude_def Let_def split: if_splits intro: res_keeps)

lemma fragmentChild_agree:
  "P (snd (snd st)) \<Longrightarrow> fragmentChild px res fl child st = fragmentChild px res' fl child st"
  by (simp add: fragmentChild_def collectChild_agree)

lemma fragmentChild_keeps:
  "P (snd (snd st)) \<Longrightarrow> fragmentChild px res fl child st = Inr st' \<Longrightarrow> P (snd (snd st'))"
  by (auto simp: fragmentChild_def split: if_splits dest: collectChild_keeps)

lemma pipelineFileChild_agree:
  "P (snd g) \<Longrightarrow> pipelineFileChild px res fl child g = pipelineFileChild px res' fl child g"
  by (simp add: pipelineFileChild_def collectChild_agree)

lemma pipelineFileChild_keeps:
  "P (snd g) \<Longrightarrow> pipelineFileChild px res fl child g = Inr g' \<Longrightarrow> P (snd g')"
  by (auto simp: pipelineFileChild_def split: if_splits dest: collectChild_keeps)

lemma parseFragmentNode_agree:
  assumes "P s"
  shows "parseFragmentNode px res node fl s = parseFragmentNode px res' node fl s"
proof -
  have "foldE (fragmentChild px res fl) cs ([], gc, s) = foldE (fragmentChild px res' fl) cs ([], gc, s)" for cs gc
    by (rule foldE_agree [where P = "\<lambda>st. P (snd (snd st))"])
      (auto simp: assms intro: fragmentChild_agree dest: fragmentChild_keeps)
  then show ?thesis by (simp add: parseFragmentNode_def)
qed

lemma parseFragmentNode_keeps:
  assumes "P s" "parseFragmentNode px res node fl s = Inr (frag, s')"
  shows "P s'"
proof -
  from assms(2) obtain ps gc where
    "foldE (fragmentChild px res fl) (ndChildren node) ([], newGroupCollector fl, s) = Inr (ps, gc, s')"
    by (auto simp: parseFragmentNode_def)
  then have "P (snd (snd (ps, gc, s')))"
    by (rule foldE_invariant) (auto simp: assms dest: fragmentChild_keeps)
  then show ?thesis by simp
qed

lemma pipelineFileJobs_agree:
  assumes "P s"
  shows "pipelineFileJobs px res nodes fl s = pipelineFileJobs px res' nodes fl s"
proof -
  have "foldE (pipelineFileChild px res fl) nodes (gc, s) = foldE (pipelineFileChild px res' fl) nodes (gc, s)"
    for gc
    by (rule foldE_agree [where P = "\<lambda>g. P (snd g)"])
      (auto simp: assms intro: pipelineFileChild_agree dest: pipelineFileChild_keeps)
  then show ?thesis by (simp add: pipelineFileJobs_def)
qed

lemma pipelineFileJobs_keeps:
  assumes "P s" "pipelineFileJobs px res nodes fl s = Inr (jobs, s')"
  shows "P s'"
proof -
  from assms(2) obtain gc where
    "foldE (pipelineFileChild px res fl) nodes (newGroupCollector fl, s) = Inr (gc, s')"
    by (auto simp: pipelineFileJobs_def)
  then have "P (snd (gc, s'))"
    by (rule foldE_invariant) (auto simp: assms dest: pipelineFileChild_keeps)
  then show ?thesis by simp
qed

end

section \<open>The fuel is enough\<close>

text \<open>The stack and the set of ancestors describe the same paths, without repetition.\<close>

definition ancestryOk :: "'ast includeState \<Rightarrow> bool" where
  "ancestryOk s \<longleftrightarrow> distinct (isAncestors s) \<and> isAncestorSet s = set (isAncestors s) \<and>
     length (isAncestors s) \<le> maxIncludeDepth"

definition ancestryIs :: "string list \<Rightarrow> 'ast includeState \<Rightarrow> bool" where
  "ancestryIs A s \<longleftrightarrow> ancestryOk s \<and> isAncestors s = A"

lemma push_ancestry:
  "ancestryIs A s \<Longrightarrow> push p s = Inr s' \<Longrightarrow> ancestryIs (A @ [p]) s'"
  by (auto simp: push_def ancestryIs_def ancestryOk_def split: if_splits)

lemma pop_ancestry: "ancestryIs (A @ [p]) s \<Longrightarrow> ancestryIs A (pop s)"
  by (auto simp: pop_def ancestryIs_def ancestryOk_def)

lemma ancestry_cachePut [simp]: "ancestryIs A (cachePut k f s) = ancestryIs A s"
  by (simp add: cachePut_def ancestryIs_def ancestryOk_def)

lemma finishInclude_ancestry:
  "ancestryIs (A @ [p]) s \<Longrightarrow> finishInclude inc name jobs s = Inr (jobs', inc', s') \<Longrightarrow> ancestryIs A s'"
  by (auto simp: finishInclude_def registerAlias_def pop_def Let_def ancestryIs_def ancestryOk_def split: if_splits)

lemma parseIncludedFile_agree:
  assumes "resolver_cong res res' P" "P s"
  shows "parseIncludedFile px res content path params s = parseIncludedFile px res' content path params s"
proof -
  have "includeFragment px res node path params s = includeFragment px res' node path params s"
    "includePipelineFile px res nodes path params s = includePipelineFile px res' nodes path params s" for node nodes
    by (simp_all add: includeFragment_def includePipelineFile_def Let_def
        resolver_cong.parseFragmentNode_agree [OF assms] resolver_cong.pipelineFileJobs_agree [OF assms])
  then show ?thesis
    by (auto simp: parseIncludedFile_def bindE_def split: option.splits sum.splits)
qed

lemma parseIncludedFile_keeps:
  assumes "resolver_cong res res' (ancestryIs A)" "ancestryIs A s"
    "parseIncludedFile px res content path params s = Inr (name, jobs, s')"
  shows "ancestryIs A s'"
  using assms(3) resolver_cong.parseFragmentNode_keeps [OF assms(1,2)]
    resolver_cong.pipelineFileJobs_keeps [OF assms(1,2)]
  by (auto simp: parseIncludedFile_def includeFragment_def includePipelineFile_def Let_def
      split: option.splits if_splits prod.splits)

lemma resolveIncludeBody_ancestry:
  assumes "\<And>p. resolver_cong res res' (ancestryIs (A @ [p]))" "ancestryIs A s"
  shows "resolveIncludeBody px res inc fl s = resolveIncludeBody px res' inc fl s"
    and "resolveIncludeBody px res inc fl s = Inr (jobs, inc', s') \<Longrightarrow> ancestryIs A s'"
proof -
  show "resolveIncludeBody px res inc fl s = resolveIncludeBody px res' inc fl s"
  proof (cases "pxResolve px (idSource inc) (dirOf fl)")
    case (Some cp)
    obtain content p where cp: "cp = (content, p)" by (cases cp)
    show ?thesis
    proof (cases "push p s")
      case (Inr s1)
      from parseIncludedFile_agree [OF assms(1) push_ancestry [OF assms(2) Inr]] Some cp Inr show ?thesis
        by (simp add: resolveIncludeBody_def cong: option.case_cong)
    qed (simp add: Some cp resolveIncludeBody_def)
  qed (simp add: resolveIncludeBody_def)
next
  assume r: "resolveIncludeBody px res inc fl s = Inr (jobs, inc', s')"
  then obtain content p s1 where p: "pxResolve px (idSource inc) (dirOf fl) = Some (content, p)"
    and s1: "push p s = Inr s1" by (auto simp: resolveIncludeBody_def split: option.splits)
  note a1 = push_ancestry [OF assms(2) s1]
  show "ancestryIs A s'"
  proof (cases "isCache s1 (cacheKey p (idParams inc))")
    case (Some frag)
    with r p s1 finishInclude_ancestry [OF a1] show ?thesis by (auto simp: resolveIncludeBody_def)
  next
    case None
    with r p s1 obtain name jobs0 s2 where
      f: "parseIncludedFile px res content p (idParams inc) s1 = Inr (name, jobs0, s2)"
      and e: "finishInclude inc name jobs0 s2 = Inr (jobs, inc', s')"
      by (auto simp: resolveIncludeBody_def)
    from finishInclude_ancestry [OF parseIncludedFile_keeps [OF assms(1) a1 f] e] show ?thesis .
  qed
qed

lemma resolveInclude_fuel:
  assumes "maxIncludeDepth < n + length A" "maxIncludeDepth < m + length A"
  shows "resolver_cong (resolveInclude px n) (resolveInclude px m) (ancestryIs A)"
  using assms
proof (induction n arbitrary: m A)
  case 0
  then have "\<not> ancestryIs A s" for s :: "'a includeState" by (auto simp: ancestryIs_def ancestryOk_def)
  then show ?case by unfold_locales auto
next
  case (Suc n)
  show ?case
  proof (cases m)
    case 0
    with Suc.prems have "\<not> ancestryIs A s" for s :: "'a includeState" by (auto simp: ancestryIs_def ancestryOk_def)
    then show ?thesis by unfold_locales auto
  next
    case (Suc l)
    have "resolver_cong (resolveInclude px n) (resolveInclude px l) (ancestryIs (A @ [p]))" for p
      using Suc.prems Suc by (intro Suc.IH) auto
    from resolveIncludeBody_ancestry [OF this] show ?thesis
      unfolding Suc resolveInclude.simps by unfold_locales blast+
  qed
qed

text \<open>The error for exhausted fuel comes only from a resolver, and nothing panics.\<close>

lemma pipeline_ops_run [simp]:
  "ResolveParams defs provided \<noteq> Inl GoPanic" "MergeJobs groups \<noteq> Inl GoPanic"
  "ExpandAliases jobs aliases \<noteq> Inl GoPanic" "Combinations m \<noteq> Inl GoPanic"
proof -
  have "checkParamDefs provided known defs \<noteq> Some GoPanic" for known
    by (induction defs arbitrary: known) (auto simp: orErr_Some)
  then show "ResolveParams defs provided \<noteq> Inl GoPanic"
    by (auto simp: ResolveParams_def ValidateParams_def guardE_Inl orErr_Some dest!: firstErr_Some)
  have group: "mergeGroup orig oc seen merged js \<noteq> Inl GoPanic" for orig oc seen merged and js :: "'a Job list"
    by (induction orig oc seen merged js rule: mergeGroup.induct) (auto simp: fun_upd_def split: option.splits ConflictStrategy.splits)
  have "mergeGroups seen merged groups \<noteq> Inl GoPanic" for seen merged
    using group by (induction groups arbitrary: seen merged) (auto simp: bindE_Inl)
  then show "MergeJobs groups \<noteq> Inl GoPanic" by (auto simp: MergeJobs_def bindE_Inl)
  show "ExpandAliases jobs aliases \<noteq> Inl GoPanic"
    by (auto simp: ExpandAliases_def guardE_Inl checkAlias_def dest!: firstErr_Some)
  have "countCombos n ds \<noteq> Inl GoPanic" for n ds
    by (induction n ds rule: countCombos.induct) (auto simp: Let_def)
  then show "Combinations m \<noteq> Inl GoPanic" by (auto simp: Combinations_def bindE_Inl)
qed

lemma pipeE_fuel: "stray e \<Longrightarrow> r \<noteq> Inl GoPanic \<Longrightarrow> pipeE r \<noteq> Inl e"
  by (cases r) (auto simp: pipeE_def stray_def)

lemma include_fuel [simp]:
  "stray e \<Longrightarrow> includeParams cs m \<noteq> Inl e" "stray e \<Longrightarrow> parseIncludeNode node \<noteq> Inl e"
  "stray e \<Longrightarrow> parseParamNode node \<noteq> Inl e" "stray e \<Longrightarrow> gcMerge gc \<noteq> Inl e"
  "stray e \<Longrightarrow> pipeE (ResolveParams defs params) \<noteq> Inl e" "stray e \<Longrightarrow> classifyNodes ns fr b \<noteq> Inl e"
proof -
  assume e: "stray e"
  show params: "includeParams cs m \<noteq> Inl e" for cs m
    using e by (induction cs m rule: includeParams.induct) (auto simp: err_iff stray_def)
  show "parseIncludeNode node \<noteq> Inl e"
    using params e by (auto simp: parseIncludeNode_def parseConflictStrategy_def Let_def err_iff split: if_splits)
      (auto simp: stray_def)
  show "parseParamNode node \<noteq> Inl e" using e by (auto simp: parseParamNode_def err_iff)
  show "gcMerge gc \<noteq> Inl e" "pipeE (ResolveParams defs params) \<noteq> Inl e"
    using e by (simp_all add: gcMerge_def pipeE_fuel)
  show "classifyNodes ns fr b \<noteq> Inl e"
    using e by (induction ns fr b rule: classifyNodes.induct) (auto simp: Let_def stray_def)
qed

lemma push_fuel [simp]: "stray e \<Longrightarrow> push p s \<noteq> Inl e" "stray e \<Longrightarrow> finishInclude inc name jobs s \<noteq> Inl e"
  by (auto simp: push_def finishInclude_def registerAlias_def Let_def err_iff stray_def)

lemma collectChild_fuel:
  assumes "\<And>inc fl s. res inc fl s \<noteq> Inl e" "stray e"
  shows "collectChild px res fl child g \<noteq> Inl e"
  using assms by (auto simp: collectChild_def resolveChildInclude_def Let_def err_iff split: if_splits)
    (auto simp: stray_def)

lemma parseIncludedFile_fuel:
  fixes res :: "('ast, 'ast includeState) resolver"
  assumes "\<And>inc fl s. res inc fl s \<noteq> Inl e" "stray e"
  shows "parseIncludedFile px res content path params s \<noteq> Inl e"
proof -
  note collect = collectChild_fuel [OF assms]
  have "parseFragmentNode px res node path s \<noteq> Inl e" for node
    using collect assms(2) by (auto simp: parseFragmentNode_def fragmentChild_def checkDuplicateParam_def
        err_iff split: if_splits dest!: foldE_Inl) (auto simp: stray_def)
  moreover have "pipelineFileJobs px res nodes path s \<noteq> Inl e" for nodes
    using collect assms(2) by (auto simp: pipelineFileJobs_def pipelineFileChild_def err_iff
        split: if_splits dest!: foldE_Inl)
  ultimately show ?thesis
    using assms(2) by (auto simp: parseIncludedFile_def includeFragment_def includePipelineFile_def Let_def err_iff
        split: option.splits if_splits) (auto simp: stray_def)
qed

lemma resolveInclude_not_fuel:
  assumes "maxIncludeDepth < n + length A" "ancestryIs A s" "stray e"
  shows "resolveInclude px n inc fl s \<noteq> Inl e"
  using assms
proof (induction n arbitrary: A inc fl s)
  case 0
  then show ?case by (auto simp: ancestryIs_def ancestryOk_def)
next
  case (Suc n)
  define safe where "safe p = (\<lambda>inc fl s. if ancestryIs (A @ [p]) s then resolveInclude px n inc fl s
    else Inl ErrNilResolver)" for p
  have c: "resolver_cong (resolveInclude px n) (safe p) (ancestryIs (A @ [p]))" for p
    using resolver_cong.res_keeps [OF resolveInclude_fuel [of n "A @ [p]" n px]] Suc.prems(1)
    by unfold_locales (auto simp: safe_def)
  have "safe p inc fl s \<noteq> Inl e" for p inc fl s
    using Suc.IH [of "A @ [p]"] Suc.prems(1,3) by (auto simp: safe_def stray_def)
  then have "parseIncludedFile px (safe p) content path params s \<noteq> Inl e" for p content path params s
    by (rule parseIncludedFile_fuel) (rule Suc.prems(3))
  with parseIncludedFile_agree [OF c push_ancestry [OF Suc.prems(2)]]
  have fl: "push p s = Inr s1 \<Longrightarrow> parseIncludedFile px (resolveInclude px n) content p params s1 \<noteq> Inl e"
    for p s1 content params by metis
  with Suc.prems(3) show ?case by (auto simp: resolveIncludeBody_def err_iff split: option.splits) (auto simp: stray_def)
qed

section \<open>Includes without state\<close>

text \<open>The reference: no ancestry, no cache, no aliases.\<close>

definition plainFile ::
  "'ast parseEnv \<Rightarrow> ('ast, unit) resolver \<Rightarrow> string \<Rightarrow> string \<Rightarrow> (string, string) gomap \<Rightarrow>
     parseErr + string \<times> 'ast Job list" where
  "plainFile px res content path params =
     (case pxKdl px content of
        None \<Rightarrow> Inl KdlError
      | Some nodes \<Rightarrow>
          bindE (classifyNodes nodes None False) (\<lambda>(frag, hasChildren).
            (case frag of
               Some node \<Rightarrow>
                 if hasChildren then Inl ErrAmbiguousFile
                 else bindE (parseFragmentNode px res node path ()) (\<lambda>(frag, _).
                        bindE (pipeE (ResolveParams (fParams frag) params)) (\<lambda>resolved.
                          Inr (fName frag, SubstituteParams (fJobs frag) resolved)))
             | None \<Rightarrow>
                 if \<not> hasChildren then Inl ErrEmptyInclude
                 else if params \<noteq> [] then Inl (modlE ErrPipelineNoParams)
                 else bindE (pipelineFileJobs px res nodes path ()) (\<lambda>(jobs, _).
                        Inr (nameFromFilename path, jobs)))))"

primrec plainInclude :: "'ast parseEnv \<Rightarrow> nat \<Rightarrow> ('ast, unit) resolver" where
  "plainInclude px 0 = (\<lambda>inc fl u. Inl OutOfFuel)"
| "plainInclude px (Suc n) = (\<lambda>inc fl u.
     (case pxResolve px (idSource inc) (dirOf fl) of
        None \<Rightarrow> Inl ResolveError
      | Some (content, path) \<Rightarrow>
          bindE (plainFile px (plainInclude px n) content path (idParams inc)) (\<lambda>(name, jobs).
            Inr (jobs, if idAlias inc = [] then inc\<lparr>idAlias := name\<rparr> else inc, ()))))"

section \<open>Limits of resolvers\<close>

lemma includeParams_wf: "includeParams cs m = Inr m' \<Longrightarrow> wfmap m \<Longrightarrow> wfmap m'"
  by (induction cs m rule: includeParams.induct) (auto split: if_splits)

lemma parseIncludeNode_wf: "parseIncludeNode node = Inr inc \<Longrightarrow> wfmap (idParams inc)"
  by (auto simp: parseIncludeNode_def split: if_splits dest: includeParams_wf)

lemma foldE_limit:
  fixes g :: "nat \<Rightarrow> 'c \<Rightarrow> 'b \<Rightarrow> 'e + 'b"
  assumes step: "\<And>c x y x'. R x x' \<Longrightarrow> f c x = Inr y \<Longrightarrow> \<exists>n y'. g n c x' = Inr y' \<and> R y y'"
    and mono: "\<And>n m c x y. n \<le> m \<Longrightarrow> g n c x = Inr y \<Longrightarrow> g m c x = Inr y"
    and run: "foldE f cs x = Inr y" "R x x'"
  shows "\<exists>n y'. foldE (g n) cs x' = Inr y' \<and> R y y'"
  using run
proof (induction cs arbitrary: x x')
  case (Cons c cs)
  from Cons.prems(1) obtain z where z: "f c x = Inr z" "foldE f cs z = Inr y" by auto
  from step [OF Cons.prems(2) z(1)] obtain n1 z' where z': "g n1 c x' = Inr z'" "R z z'" by blast
  from Cons.IH [OF z(2) z'(2)] obtain n2 y' where y': "foldE (g n2) cs z' = Inr y'" "R y y'" by blast
  have "g (max n1 n2) c x' = Inr z'" "foldE (g (max n1 n2)) cs z' = Inr y'"
    using mono [OF max.cobounded1 z'(1)] foldE_mono [OF mono [OF max.cobounded2] y'(1)] by simp_all
  with y'(2) show ?case by (intro exI [of _ "max n1 n2"] exI [of _ y']) simp
qed auto

text \<open>
  A resolver all of whose results are results of a growing family of resolvers, up to a relation
  between the states. The functions that call it then refine those that call the family.
\<close>

locale resolver_limit =
  fixes res :: "('ast, 's) resolver"
    and fam :: "nat \<Rightarrow> ('ast, 't) resolver"
    and R :: "'s \<Rightarrow> 't \<Rightarrow> bool"
  assumes fam_mono: "n \<le> m \<Longrightarrow> fam n inc fl t = Inr r \<Longrightarrow> fam m inc fl t = Inr r"
    and res_limit: "wfmap (idParams inc) \<Longrightarrow> R s t \<Longrightarrow> res inc fl s = Inr (jobs, inc', s') \<Longrightarrow>
      \<exists>n t'. fam n inc fl t = Inr (jobs, inc', t') \<and> R s' t'"
begin

lemma collectChild_mono:
  "n \<le> m \<Longrightarrow> collectChild px (fam n) fl c g = Inr r \<Longrightarrow> collectChild px (fam m) fl c g = Inr r"
  by (auto simp: collectChild_def resolveChildInclude_def Let_def split: if_splits dest: fam_mono)

lemma fragmentChild_mono:
  "n \<le> m \<Longrightarrow> fragmentChild px (fam n) fl c g = Inr r \<Longrightarrow> fragmentChild px (fam m) fl c g = Inr r"
  by (auto simp: fragmentChild_def split: if_splits dest: collectChild_mono)

lemma pipelineFileChild_mono:
  "n \<le> m \<Longrightarrow> pipelineFileChild px (fam n) fl c g = Inr r \<Longrightarrow> pipelineFileChild px (fam m) fl c g = Inr r"
  by (auto simp: pipelineFileChild_def split: if_splits dest: collectChild_mono)

lemma parseFragmentNode_mono:
  assumes "n \<le> m" "parseFragmentNode px (fam n) node fl t = Inr r"
  shows "parseFragmentNode px (fam m) node fl t = Inr r"
  using assms(2) foldE_mono [OF fragmentChild_mono [OF assms(1)]] by (fastforce simp: parseFragmentNode_def)

lemma pipelineFileJobs_mono:
  assumes "n \<le> m" "pipelineFileJobs px (fam n) nodes fl t = Inr r"
  shows "pipelineFileJobs px (fam m) nodes fl t = Inr r"
  using assms(2) foldE_mono [OF pipelineFileChild_mono [OF assms(1)]] by (fastforce simp: pipelineFileJobs_def)

lemma collectChild_limit:
  assumes "R s t" "collectChild px res fl c (gc, s) = Inr (gc', s')"
  shows "\<exists>n t'. collectChild px (fam n) fl c (gc, t) = Inr (gc', t') \<and> R s' t'"
proof (cases "nodeType c = NInclude")
  case True
  with assms(2) obtain inc jobs inc' where inc: "parseIncludeNode c = Inr inc"
    and r: "res inc fl s = Inr (jobs, inc', s')" "gc' = addInclude jobs inc' gc"
    by (auto simp: collectChild_def resolveChildInclude_def)
  from res_limit [OF parseIncludeNode_wf [OF inc] assms(1) r(1)] inc r(2) True show ?thesis
    by (fastforce simp: collectChild_def resolveChildInclude_def)
qed (use assms in \<open>auto simp: collectChild_def Let_def split: if_splits\<close>)

lemma fragmentChild_limit:
  assumes "R s t" "fragmentChild px res fl c (ps, gc, s) = Inr (ps', gc', s')"
  shows "\<exists>n t'. fragmentChild px (fam n) fl c (ps, gc, t) = Inr (ps', gc', t') \<and> R s' t'"
proof (cases "nodeType c = NParam")
  case False
  with assms(2) have "collectChild px res fl c (gc, s) = Inr (gc', s')" "ps' = ps"
    by (auto simp: fragmentChild_def)
  with collectChild_limit [OF assms(1) this(1)] False show ?thesis by (auto simp: fragmentChild_def)
qed (use assms in \<open>auto simp: fragmentChild_def\<close>)

lemma pipelineFileChild_limit:
  assumes "R s t" "pipelineFileChild px res fl c (gc, s) = Inr (gc', s')"
  shows "\<exists>n t'. pipelineFileChild px (fam n) fl c (gc, t) = Inr (gc', t') \<and> R s' t'"
  using assms collectChild_limit [OF assms(1), of px fl c gc gc' s']
  by (auto simp: pipelineFileChild_def split: if_splits)

lemma parseFragmentNode_limit:
  assumes "R s t" "parseFragmentNode px res node fl s = Inr (frag, s')"
  shows "\<exists>n t'. parseFragmentNode px (fam n) node fl t = Inr (frag, t') \<and> R s' t'"
proof -
  from assms(2) obtain name ps gc where name: "requireStringArg node = Inr name"
    and run: "foldE (fragmentChild px res fl) (ndChildren node) ([], newGroupCollector fl, s) = Inr (ps, gc, s')"
    and frag: "bindE (gcMerge gc) (\<lambda>merged. Inr \<lparr>fName = name, fParams = ps, fJobs = merged\<rparr>) = Inr frag"
    by (auto simp: parseFragmentNode_def)
  have "\<exists>n r'. foldE (fragmentChild px (fam n) fl) (ndChildren node) ([], newGroupCollector fl, t) = Inr r' \<and>
      rel_prod (=) (rel_prod (=) R) (ps, gc, s') r'"
    using assms(1) run
    by (intro foldE_limit [where g = "\<lambda>n. fragmentChild px (fam n) fl"])
      (auto intro: fragmentChild_mono dest: fragmentChild_limit)
  with name frag show ?thesis by (fastforce simp: parseFragmentNode_def)
qed

lemma pipelineFileJobs_limit:
  assumes "R s t" "pipelineFileJobs px res nodes fl s = Inr (jobs, s')"
  shows "\<exists>n t'. pipelineFileJobs px (fam n) nodes fl t = Inr (jobs, t') \<and> R s' t'"
proof -
  from assms(2) obtain gc where
    run: "foldE (pipelineFileChild px res fl) nodes (newGroupCollector fl, s) = Inr (gc, s')"
    and jobs: "gcMerge gc = Inr jobs"
    by (auto simp: pipelineFileJobs_def)
  have "\<exists>n r'. foldE (pipelineFileChild px (fam n) fl) nodes (newGroupCollector fl, t) = Inr r' \<and>
      rel_prod (=) R (gc, s') r'"
    using assms(1) run
    by (intro foldE_limit [where g = "\<lambda>n. pipelineFileChild px (fam n) fl"])
      (auto intro: pipelineFileChild_mono dest: pipelineFileChild_limit)
  with jobs show ?thesis by (fastforce simp: pipelineFileJobs_def)
qed

end

section \<open>The cache is invisible\<close>

lemma plainFile_limit:
  assumes "resolver_limit res fam (\<lambda>_ _. True)" "plainFile px res content path params = Inr r"
  shows "\<exists>n. plainFile px (fam n) content path params = Inr r"
proof -
  from assms(2) obtain nodes fr b where nodes: "pxKdl px content = Some nodes"
    and cls: "classifyNodes nodes None False = Inr (fr, b)"
    by (auto simp: plainFile_def split: option.splits)
  show ?thesis
  proof (cases fr)
    case None
    with assms(2) nodes cls obtain jobs where j: "pipelineFileJobs px res nodes path () = Inr (jobs, ())"
      by (auto simp: plainFile_def split: if_splits)
    with resolver_limit.pipelineFileJobs_limit [OF assms(1) _ j]
    obtain n where "pipelineFileJobs px (fam n) nodes path () = Inr (jobs, ())" by auto
    with assms(2) nodes cls None j show ?thesis by (intro exI [of _ n]) (simp add: plainFile_def split: if_splits)
  next
    case (Some node)
    with assms(2) nodes cls obtain frag where f: "parseFragmentNode px res node path () = Inr (frag, ())"
      by (auto simp: plainFile_def split: if_splits)
    with resolver_limit.parseFragmentNode_limit [OF assms(1) _ f]
    obtain n where "parseFragmentNode px (fam n) node path () = Inr (frag, ())" by auto
    with assms(2) nodes cls Some f show ?thesis by (intro exI [of _ n]) (simp add: plainFile_def split: if_splits)
  qed
qed

lemma plainInclude_mono:
  "n \<le> m \<Longrightarrow> plainInclude px n inc fl u = Inr r \<Longrightarrow> plainInclude px m inc fl u = Inr r"
proof (induction n arbitrary: m inc fl u r)
  case (Suc n)
  from Suc.prems(1) obtain l where m: "m = Suc l" "n \<le> l" by (cases m) auto
  have "resolver_limit (plainInclude px n) (\<lambda>_. plainInclude px l) (\<lambda>_ _. True)"
    by unfold_locales (auto dest: Suc.IH [OF m(2)])
  from plainFile_limit [OF this] Suc.prems(2) show ?case
    by (fastforce simp: m(1) split: option.splits)
qed simp

interpretation plainMono: resolver_limit "plainInclude px n" "plainInclude px" "\<lambda>_ _. True" for px n
  by unfold_locales (auto dest: plainInclude_mono)

definition included ::
  "'ast parseEnv \<Rightarrow> string \<Rightarrow> string \<Rightarrow> (string, string) gomap \<Rightarrow> string \<Rightarrow> 'ast Job list \<Rightarrow> bool" where
  "included px content path params name jobs \<longleftrightarrow>
     (\<exists>n. plainFile px (plainInclude px n) content path params = Inr (name, jobs))"

text \<open>
  What is assumed of the files: a path has one content, and no path contains the character that
  separates the path from the parameters in a cache key.
\<close>

definition readerLaw :: "'ast parseEnv \<Rightarrow> bool" where
  "readerLaw px \<longleftrightarrow> (\<forall>src base src' base' content content' path.
     pxResolve px src base = Some (content, path) \<longrightarrow> pxResolve px src' base' = Some (content', path) \<longrightarrow>
     content = content')"

definition plainPaths :: "'ast parseEnv \<Rightarrow> bool" where
  "plainPaths px \<longleftrightarrow> (\<forall>src base content path.
     pxResolve px src base = Some (content, path) \<longrightarrow> CHR ''?'' \<notin> set path)"

definition fragCacheOk :: "'ast parseEnv \<Rightarrow> 'ast includeState \<Rightarrow> bool" where
  "fragCacheOk px s \<longleftrightarrow> (\<forall>key frag. isCache s key = Some frag \<longrightarrow>
     (\<exists>src base content path params. pxResolve px src base = Some (content, path) \<and> wfmap params \<and>
        key = cacheKey path params \<and> included px content path params (fName frag) (fJobs frag)))"

definition aliasesOk :: "'ast parseEnv \<Rightarrow> 'ast includeState \<Rightarrow> bool" where
  "aliasesOk px s \<longleftrightarrow> (\<forall>a ts. map_of (isAliases s) a = Some ts \<longrightarrow>
     (\<exists>n inc fl jobs inc'. plainInclude px n inc fl () = Inr (jobs, inc', ()) \<and>
        idAlias inc' = a \<and> ts = TerminalJobs jobs))"

definition stateOk :: "'ast parseEnv \<Rightarrow> 'ast includeState \<Rightarrow> bool" where
  "stateOk px s \<longleftrightarrow> fragCacheOk px s \<and> aliasesOk px s"

lemma ResolveParams_cong:
  assumes "map_of m = map_of m'"
  shows "ResolveParams defs m = ResolveParams defs m'"
proof -
  have keys: "fst ` set m = fst ` set m'"
    using assms by (metis dom_map_of_conv_image_fst)
  have "checkParamDefs m K ds = checkParamDefs m' K ds" for K ds
    by (induction ds arbitrary: K) (simp_all add: assms)
  moreover have "firstErr (\<lambda>k. failIf (k \<notin> pdName ` set defs) (Modl ErrUnknownParam)) ks =
      (if set ks \<subseteq> pdName ` set defs then None else Some (Modl ErrUnknownParam))" for ks
    by (induction ks) (auto simp: failIf_def)
  ultimately have "ValidateParams defs m = ValidateParams defs m'"
    by (simp add: ValidateParams_def keys)
  then show ?thesis by (simp add: ResolveParams_def assms)
qed

lemma plainFile_params:
  assumes "map_of m = map_of m'"
  shows "plainFile px res content path m = plainFile px res content path m'"
proof -
  have "m = [] \<longleftrightarrow> m' = []" using assms by (metis map_of_eq_empty_iff)
  then show ?thesis unfolding plainFile_def ResolveParams_cong [OF assms] by (simp only:)
qed

lemma cached_included:
  assumes "readerLaw px" "plainPaths px" "fragCacheOk px s" "isCache s (cacheKey path params) = Some frag"
    "pxResolve px src base = Some (content, path)"
  shows "included px content path params (fName frag) (fJobs frag)"
proof -
  from assms(3,4) obtain src' base' content' path' params' where
    r: "pxResolve px src' base' = Some (content', path')" "cacheKey path params = cacheKey path' params'"
    and inc: "included px content' path' params' (fName frag) (fJobs frag)"
    unfolding fragCacheOk_def by blast
  have "path = path' \<and> map_of params = map_of params'"
    using assms(2,5) r unfolding plainPaths_def by (intro cacheKey_inj) auto
  with r(1) assms(1,5) have "content = content'" "path = path'" "map_of params = map_of params'"
    unfolding readerLaw_def by auto
  moreover from this(3) have "plainFile px res c p params = plainFile px res c p params'" for res c p
    by (rule plainFile_params)
  ultimately show ?thesis using inc by (simp add: included_def)
qed

lemma stateOk_cachePut:
  assumes "stateOk px s" "pxResolve px src base = Some (content, path)" "wfmap params"
    "included px content path params (fName frag) (fJobs frag)"
  shows "stateOk px (cachePut (cacheKey path params) frag s)"
proof -
  have "fragCacheOk px (cachePut (cacheKey path params) frag s)"
    unfolding fragCacheOk_def
  proof (intro allI impI)
    fix key f
    assume "isCache (cachePut (cacheKey path params) frag s) key = Some f"
    then have "key = cacheKey path params \<and> frag = f \<or> isCache s key = Some f"
      by (cases "key = cacheKey path params") (simp_all add: cachePut_def)
    then show "\<exists>src base content path params. pxResolve px src base = Some (content, path) \<and> wfmap params \<and>
        key = cacheKey path params \<and> included px content path params (fName f) (fJobs f)"
    proof (elim disjE, goal_cases)
      case 1
      with assms(2-4) show ?thesis by blast
    next
      case 2
      with assms(1) show ?thesis unfolding stateOk_def fragCacheOk_def by blast
    qed
  qed
  with assms(1) show ?thesis by (simp add: stateOk_def aliasesOk_def cachePut_def)
qed

lemma parseIncludedFile_included:
  assumes lim: "resolver_limit res (plainInclude px) (\<lambda>s _. stateOk px s)" and s: "stateOk px s"
    and src: "pxResolve px src base = Some (content, path)" "wfmap params"
    and run: "parseIncludedFile px res content path params s = Inr (name, jobs, s')"
  shows "included px content path params name jobs \<and> stateOk px s'"
proof -
  from run obtain nodes fr b where nodes: "pxKdl px content = Some nodes"
    and cls: "classifyNodes nodes None False = Inr (fr, b)"
    by (auto simp: parseIncludedFile_def split: option.splits)
  show ?thesis
  proof (cases fr)
    case None
    with run nodes cls obtain s1 where b: "b" "params = []" "name = nameFromFilename path"
      and j: "pipelineFileJobs px res nodes path s = Inr (jobs, s1)"
      and s': "s' = cachePut (cacheKey path params) \<lparr>fName = name, fParams = [], fJobs = jobs\<rparr> s1"
      by (auto simp: parseIncludedFile_def includePipelineFile_def Let_def split: if_splits)
    from resolver_limit.pipelineFileJobs_limit [OF lim s j] obtain n where
      "pipelineFileJobs px (plainInclude px n) nodes path () = Inr (jobs, ())" and s1: "stateOk px s1" by auto
    with nodes cls None b have "included px content path params name jobs"
      unfolding included_def by (intro exI [of _ n]) (simp add: plainFile_def)
    with stateOk_cachePut [OF s1 src] s' show ?thesis by simp
  next
    case (Some node)
    with run nodes cls obtain frag s1 resolved where b: "\<not> b" "name = fName frag"
      and f: "parseFragmentNode px res node path s = Inr (frag, s1)"
      and ps: "pipeE (ResolveParams (fParams frag) params) = Inr resolved"
      and j: "jobs = SubstituteParams (fJobs frag) resolved"
      and s': "s' = cachePut (cacheKey path params) \<lparr>fName = name, fParams = fParams frag, fJobs = jobs\<rparr> s1"
      by (auto simp: parseIncludedFile_def includeFragment_def Let_def split: if_splits)
    from resolver_limit.parseFragmentNode_limit [OF lim s f] obtain n where
      "parseFragmentNode px (plainInclude px n) node path () = Inr (frag, ())" and s1: "stateOk px s1" by auto
    with nodes cls Some b ps j have "included px content path params name jobs"
      unfolding included_def by (intro exI [of _ n]) (simp add: plainFile_def)
    with stateOk_cachePut [OF s1 src] s' show ?thesis by simp
  qed
qed

lemma finishInclude_included:
  assumes "included px content path (idParams inc) name jobs"
    "pxResolve px (idSource inc) (dirOf fl) = Some (content, path)" "stateOk px s"
    "finishInclude inc name jobs s = Inr (jobs', inc', s')"
  shows "(\<exists>n. plainInclude px n inc fl () = Inr (jobs', inc', ())) \<and> stateOk px s'"
proof -
  from assms(4) have j: "jobs' = jobs" "inc' = (if idAlias inc = [] then inc\<lparr>idAlias := name\<rparr> else inc)"
    and s': "s' = pop (s\<lparr>isAliases := mput (idAlias inc') (TerminalJobs jobs) (isAliases s)\<rparr>)"
    by (auto simp: finishInclude_def registerAlias_def Let_def split: if_splits)
  from assms(1) obtain n where "plainFile px (plainInclude px n) content path (idParams inc) = Inr (name, jobs)"
    by (auto simp: included_def)
  with assms(2) j have p: "plainInclude px (Suc n) inc fl () = Inr (jobs', inc', ())" by simp
  have "aliasesOk px s'"
    unfolding aliasesOk_def
  proof (intro allI impI)
    fix a ts
    assume "map_of (isAliases s') a = Some ts"
    then have "idAlias inc' = a \<and> ts = TerminalJobs jobs' \<or> map_of (isAliases s) a = Some ts"
      by (cases "a = idAlias inc'") (simp_all add: s' pop_def j(1))
    then show "\<exists>n inc fl jobs inc'. plainInclude px n inc fl () = Inr (jobs, inc', ()) \<and>
        idAlias inc' = a \<and> ts = TerminalJobs jobs"
    proof (elim disjE, goal_cases)
      case 1
      with p show ?thesis by blast
    next
      case 2
      with assms(3) show ?thesis unfolding stateOk_def aliasesOk_def by blast
    qed
  qed
  moreover have "fragCacheOk px s'" using assms(3) by (simp add: s' pop_def stateOk_def fragCacheOk_def)
  ultimately show ?thesis using p unfolding stateOk_def by blast
qed

lemma stateOk_push: "push p s = Inr s1 \<Longrightarrow> stateOk px s1 = stateOk px s"
  by (auto simp: push_def stateOk_def fragCacheOk_def aliasesOk_def split: if_splits)

lemma resolveInclude_limit:
  assumes law: "readerLaw px" "plainPaths px"
  shows "resolver_limit (resolveInclude px n) (plainInclude px) (\<lambda>s _. stateOk px s)"
proof (induction n)
  case 0
  show ?case by unfold_locales (auto dest: plainInclude_mono)
next
  case (Suc n)
  show ?case
  proof (unfold_locales, goal_cases)
    case (1 n m inc fl t r)
    then show ?case by (rule plainInclude_mono)
  next
    case (2 inc s t fl jobs inc' s')
    then obtain content path s1 where
      r: "pxResolve px (idSource inc) (dirOf fl) = Some (content, path)" and s1: "push path s = Inr s1"
      by (auto simp: resolveIncludeBody_def split: option.splits)
    with 2(2) have ok: "stateOk px s1" using stateOk_push by blast
    have "\<exists>name jobs0 s2. included px content path (idParams inc) name jobs0 \<and> stateOk px s2 \<and>
        finishInclude inc name jobs0 s2 = Inr (jobs, inc', s')"
    proof (cases "isCache s1 (cacheKey path (idParams inc))")
      case None
      with 2(3) r s1 obtain name jobs0 s2 where
        f: "parseIncludedFile px (resolveInclude px n) content path (idParams inc) s1 = Inr (name, jobs0, s2)"
        and e: "finishInclude inc name jobs0 s2 = Inr (jobs, inc', s')"
        by (auto simp: resolveIncludeBody_def)
      from parseIncludedFile_included [OF Suc.IH ok r 2(1) f] e show ?thesis by blast
    next
      case (Some frag)
      with 2(3) r s1 have "finishInclude inc (fName frag) (fJobs frag) s1 = Inr (jobs, inc', s')"
        by (simp add: resolveIncludeBody_def)
      with cached_included [OF law _ Some r] ok show ?thesis by (auto simp: stateOk_def)
    qed
    with finishInclude_included [OF _ r] show ?case by fastforce
  qed
qed

section \<open>Properties\<close>

text \<open>C24: resolving an include terminates for every set of files, circular ones included. With
  more fuel than the depth that is left below the limit of 64, \<open>resolveInclude\<close> never reports
  exhausted fuel and satisfies the recursive equation of the code; and it leaves the stack of
  ancestors as it found it, without repetition and within the limit.\<close>

theorem resolveInclude_terminates:
  assumes "ancestryOk s" "maxIncludeDepth < n + length (isAncestors s)"
  shows "resolveInclude px n inc fl s \<noteq> Inl OutOfFuel \<and>
    resolveInclude px n inc fl s = resolveIncludeBody px (resolveInclude px n) inc fl s \<and>
    (\<forall>jobs inc' s'. resolveInclude px n inc fl s = Inr (jobs, inc', s') \<longrightarrow>
       ancestryOk s' \<and> isAncestors s' = isAncestors s)"
proof -
  let ?A = "isAncestors s"
  have s: "ancestryIs ?A s" using assms(1) by (simp add: ancestryIs_def)
  have "resolver_cong (resolveInclude px n) (resolveInclude px (Suc n)) (ancestryIs ?A)"
    using assms(2) by (intro resolveInclude_fuel) auto
  note c = resolver_cong.res_agree [OF this s] resolver_cong.res_keeps [OF this s]
  show ?thesis
  proof (intro conjI)
    show "resolveInclude px n inc fl s \<noteq> Inl OutOfFuel"
      by (rule resolveInclude_not_fuel [OF assms(2) s]) simp
    show "resolveInclude px n inc fl s = resolveIncludeBody px (resolveInclude px n) inc fl s"
      using c(1) by simp
  qed (use c(2) in \<open>auto simp: ancestryIs_def\<close>)
qed

lemma newIncludeState_ok: "ancestryOk newIncludeState" "stateOk px newIncludeState"
  by (simp_all add: newIncludeState_def ancestryOk_def stateOk_def fragCacheOk_def aliasesOk_def)

text \<open>A file with a fragment, and a directive that includes it.\<close>

definition libEnv :: "string parseEnv" where
  "libEnv = unaryEnv\<lparr>
     pxKdl := (\<lambda>content. if content = ''L'' then
        Some [Node ''fragment'' [KString ''lib''] []
                [Node ''param'' [KString ''v''] [] [],
                 Node ''step'' [KString ''s''] [] [strNode ''run'' ''echo ${param.v}'']]]
        else None),
     pxResolve := (\<lambda>src base. if src = ''lib.kdl'' then Some (''L'', ''/lib.kdl'') else None)\<rparr>"

definition libInc :: includeDirective where
  "libInc = \<lparr>idSource = ''lib.kdl'', idAlias = [], idOnConflict = ConflictError, idParams = [(''v'', ''1'')]\<rparr>"

lemma libInc_resolves:
  "map_sum id (\<lambda>r. (map (\<lambda>j. map sRun (jSteps j)) (fst r), idAlias (fst (snd r)), isAliases (snd (snd r))))
     (resolveInclude libEnv 65 libInc ''main.kdl'' newIncludeState) =
   Inr ([[[''echo 1'']]], ''lib'', [(''lib'', [''s''])])"
  by code_simp

theorem resolveInclude_terminates_witness:
  "resolveInclude libEnv 65 libInc ''main.kdl'' newIncludeState \<noteq> Inl OutOfFuel"
proof -
  have "maxIncludeDepth < 65 + length (isAncestors (newIncludeState :: string includeState))"
    by (simp add: maxIncludeDepth_def)
  from resolveInclude_terminates [OF newIncludeState_ok(1) this] show ?thesis by blast
qed

end
