(* ===== verification/Kdl_Parser.thy ===== *)
theory Kdl_Parser
  imports Include_Semantics Validate Expand_Graph
begin

text \<open>
  \<^verbatim>\<open>pkg/parser/parser.go\<close> and \<^verbatim>\<open>resolver.go\<close>: from a file to a validated pipeline. This is where
  the components of \<^verbatim>\<open>pkg/pipeline\<close> are composed: merge, aliases, defaults, matrix expansion
  and validation.
\<close>

section \<open>Resolvers (resolver.go)\<close>

datatype resolveErr = ErrNilStdin | ErrNilInner | AbsFailed | OpenFailed

text \<open>
  A resolver returns the content of the source and its absolute path. The content of standard
  input is what the reader still holds when the source is opened.
\<close>

type_synonym Resolver = "string \<Rightarrow> string \<Rightarrow> resolveErr + string \<times> string"

definition StdinResolver_Resolve :: "string option \<Rightarrow> Resolver option \<Rightarrow> Resolver" where
  "StdinResolver_Resolve stdin inner source base =
     (if source = ''-'' then
        (case stdin of None \<Rightarrow> Inl ErrNilStdin | Some content \<Rightarrow> Inr (content, stdinFilename))
      else (case inner of None \<Rightarrow> Inl ErrNilInner | Some r \<Rightarrow> r source base))"

text \<open>\<^verbatim>\<open>filepath.Abs\<close> asks for the working directory only for relative paths.\<close>

definition filepathAbs :: "string option \<Rightarrow> string \<Rightarrow> string option" where
  "filepathAbs cwd path =
     (if pathIsAbs path then Some (pathClean path) else map_option (\<lambda>wd. pathJoin [wd, path]) cwd)"

definition FileResolver_Resolve :: "string option \<Rightarrow> (string \<Rightarrow> string option) \<Rightarrow> Resolver" where
  "FileResolver_Resolve cwd fs source base =
     (let path = (if pathIsAbs source then source else pathJoin [base, source]) in
      (case filepathAbs cwd path of
         None \<Rightarrow> Inl AbsFailed
       | Some full \<Rightarrow>
           (case fs full of None \<Rightarrow> Inl OpenFailed | Some content \<Rightarrow> Inr (content, full))))"

section \<open>Pipeline files\<close>

record pipelineAcc =
  paMatrix :: "Matrix option"
  paDefaults :: "Defaults option"
  paEnv :: "EnvVar list"
  paSecrets :: "SecretDecl list"

definition zeroAcc :: pipelineAcc where
  "zeroAcc = \<lparr>paMatrix = None, paDefaults = None, paEnv = [], paSecrets = []\<rparr>"

text \<open>Steps, jobs and includes go to the collector, as in \<open>collectChild\<close>.\<close>

definition parsePipelineChild ::
  "'ast parseEnv \<Rightarrow> ('ast, 's) resolver \<Rightarrow> string \<Rightarrow> kdlNode \<Rightarrow> pipelineAcc \<times> 'ast groupCollector \<times> 's \<Rightarrow>
     parseErr + pipelineAcc \<times> 'ast groupCollector \<times> 's" where
  "parsePipelineChild px res filename child st =
     (let nt = nodeType child; acc = fst st; keep = (\<lambda>r. bindE r (\<lambda>acc. Inr (acc, snd st))) in
      if nt = NDefaults then
        keep (if paDefaults acc \<noteq> None then Inl ErrDuplicateField
              else bindE (parseDefaults child) (\<lambda>d. Inr (acc\<lparr>paDefaults := Some d\<rparr>)))
      else if nt = NMatrix then
        keep (putOnce None (paMatrix acc) (somes (parseMatrix child)) (\<lambda>m. acc\<lparr>paMatrix := m\<rparr>))
      else if nt = NEnv then
        keep (bindE (parseEnvNode child) (\<lambda>ev. Inr (acc\<lparr>paEnv := paEnv acc @ [ev]\<rparr>)))
      else if nt = NSecret then
        keep (bindE (parseSecretDeclNode child) (\<lambda>sd. Inr (acc\<lparr>paSecrets := paSecrets acc @ [sd]\<rparr>)))
      else bindE (collectChild px res filename child (snd st)) (\<lambda>g. Inr (acc, g)))"

text \<open>The loop of \<^verbatim>\<open>parse\<close> with the final merge.\<close>

definition parseNodes ::
  "'ast parseEnv \<Rightarrow> ('ast, 's) resolver \<Rightarrow> kdlNode list \<Rightarrow> string \<Rightarrow> 's \<Rightarrow>
     parseErr + 'ast Job list \<times> pipelineAcc \<times> 's" where
  "parseNodes px res nodes filename st =
     bindE (foldE (parsePipelineChild px res filename) nodes (zeroAcc, newGroupCollector filename, st))
       (\<lambda>r. bindE (gcMerge (fst (snd r))) (\<lambda>merged. Inr (merged, fst r, snd (snd r))))"

record 'ast finalizePipelineInput =
  fiName :: string
  fiJobs :: "'ast Job list"
  fiEnv :: "EnvVar list"
  fiSecrets :: "SecretDecl list"
  fiMatrix :: "Matrix option"
  fiDefaults :: "Defaults option"
  fiAliases :: "(string, string list) gomap"

text \<open>\<^verbatim>\<open>Validate\<close> works through a pointer to the pipeline, which is what is returned.\<close>

definition finalizePipeline :: "'ast Cel \<Rightarrow> 'ast finalizePipelineInput \<Rightarrow> parseErr + 'ast Pipeline" where
  "finalizePipeline cel inp =
     bindE (pipeE (ExpandAliases (fiJobs inp) (fiAliases inp))) (\<lambda>jobs.
       let jobs = ApplyDefaults jobs (fiDefaults inp);
           pl = \<lparr>pName = fiName inp, pJobs = jobs, pEnv = fiEnv inp, pSecrets = fiSecrets inp,
                 pMatrix = fiMatrix inp, pDefaults = fiDefaults inp, pTopoOrder = None\<rparr>
       in bindE (pipeE (Expand pl)) (\<lambda>pl.
            (case Validate cel (Some pl) of
               (_, Inl e) \<Rightarrow> Inl (PipeErr e)
             | (None, Inr _) \<Rightarrow> Inl (PipeErr GoPanic)
             | (Some pl, Inr _) \<Rightarrow> Inr pl)))"

section \<open>Parsing\<close>

text \<open>The fuel of the includes is one more than the deepest stack the code allows.\<close>

definition withResolver :: "'ast parseEnv \<Rightarrow> Resolver \<Rightarrow> 'ast parseEnv" where
  "withResolver px r = px\<lparr>pxResolve := (\<lambda>src base. case r src base of Inl _ \<Rightarrow> None | Inr x \<Rightarrow> Some x)\<rparr>"

definition parse :: "'ast parseEnv \<Rightarrow> Resolver option \<Rightarrow> string \<Rightarrow> string \<Rightarrow> parseErr + 'ast Pipeline" where
  "parse px resolver content filename =
     (case resolver of
        None \<Rightarrow> Inl ErrNilResolver
      | Some r \<Rightarrow>
          let px = withResolver px r in
          (case pxKdl px content of
             None \<Rightarrow> Inl KdlError
           | Some nodes \<Rightarrow>
               bindE (parseNodes px (resolveInclude px (Suc maxIncludeDepth)) nodes filename newIncludeState)
                 (\<lambda>(merged, acc, state).
                    finalizePipeline (pxCel px)
                      \<lparr>fiName = nameFromFilename filename, fiJobs = merged, fiEnv = paEnv acc,
                       fiSecrets = paSecrets acc, fiMatrix = paMatrix acc, fiDefaults = paDefaults acc,
                       fiAliases = isAliases state\<rparr>)))"

definition ParseFile :: "'ast parseEnv \<Rightarrow> Resolver option \<Rightarrow> string \<Rightarrow> parseErr + 'ast Pipeline" where
  "ParseFile px resolver path =
     (case resolver of
        None \<Rightarrow> Inl ErrNilResolver
      | Some r \<Rightarrow>
          (case r path [] of
             Inl _ \<Rightarrow> Inl ResolveError
           | Inr (content, resolved) \<Rightarrow> parse px resolver content resolved))"

definition ParseString :: "'ast parseEnv \<Rightarrow> Resolver option \<Rightarrow> string \<Rightarrow> parseErr + 'ast Pipeline" where
  "ParseString px resolver content = parse px resolver content syntheticFilename"

section \<open>Includes of the main file\<close>

lemma defaults_fuel [simp]: "stray e \<Longrightarrow> parseDefaults node \<noteq> Inl e" "stray e \<Longrightarrow> parseSecretDeclNode node \<noteq> Inl e"
  by (auto simp: parseDefaults_def defaultsField_def parseSecretDeclNode_def secretDeclField_def setOnce_def Let_def
      err_iff split: if_splits dest!: foldE_Inl onceLoop_Inl) (auto simp: stray_def)

lemma parseNodes_safe:
  assumes "\<And>inc fl s. res inc fl s \<noteq> Inl e" "stray e"
  shows "parseNodes px res nodes fl s \<noteq> Inl e"
  using collectChild_fuel [OF assms] assms(2)
  by (auto simp: parseNodes_def parsePipelineChild_def putOnce_def setOnce_def Let_def err_iff
      split: if_splits dest!: foldE_Inl) (auto simp: stray_def)

context resolver_cong
begin

lemma parsePipelineChild_agree:
  "P (snd (snd st)) \<Longrightarrow> parsePipelineChild px res fl c st = parsePipelineChild px res' fl c st"
  by (simp add: parsePipelineChild_def collectChild_agree Let_def)

lemma parsePipelineChild_keeps:
  "P (snd (snd st)) \<Longrightarrow> parsePipelineChild px res fl c st = Inr st' \<Longrightarrow> P (snd (snd st'))"
  by (auto simp: parsePipelineChild_def Let_def split: if_splits dest: collectChild_keeps)

lemma parseNodes_agree:
  assumes "P s"
  shows "parseNodes px res nodes fl s = parseNodes px res' nodes fl s"
proof -
  have "foldE (parsePipelineChild px res fl) nodes (zeroAcc, gc, s) =
      foldE (parsePipelineChild px res' fl) nodes (zeroAcc, gc, s)" for gc
    by (rule foldE_agree [where P = "\<lambda>st. P (snd (snd st))"])
      (auto simp: assms intro: parsePipelineChild_agree dest: parsePipelineChild_keeps)
  then show ?thesis by (simp add: parseNodes_def)
qed

end

context resolver_limit
begin

lemma parsePipelineChild_mono:
  "n \<le> m \<Longrightarrow> parsePipelineChild px (fam n) fl c st = Inr r \<Longrightarrow> parsePipelineChild px (fam m) fl c st = Inr r"
  by (auto simp: parsePipelineChild_def Let_def split: if_splits dest: collectChild_mono)

lemma parsePipelineChild_limit:
  assumes "R s t" "parsePipelineChild px res fl c (acc, gc, s) = Inr (acc', gc', s')"
  shows "\<exists>n t'. parsePipelineChild px (fam n) fl c (acc, gc, t) = Inr (acc', gc', t') \<and> R s' t'"
proof (cases "nodeType c \<in> {NDefaults, NMatrix, NEnv, NSecret}")
  case False
  with assms(2) have "collectChild px res fl c (gc, s) = Inr (gc', s')" "acc' = acc"
    by (auto simp: parsePipelineChild_def)
  with collectChild_limit [OF assms(1) this(1)] False show ?thesis by (auto simp: parsePipelineChild_def)
qed (use assms in \<open>auto simp: parsePipelineChild_def\<close>)

lemma parseNodes_limit:
  assumes "R s t" "parseNodes px res nodes fl s = Inr (jobs, acc, s')"
  shows "\<exists>n t'. parseNodes px (fam n) nodes fl t = Inr (jobs, acc, t') \<and> R s' t'"
proof -
  from assms(2) obtain gc where
    run: "foldE (parsePipelineChild px res fl) nodes (zeroAcc, newGroupCollector fl, s) = Inr (acc, gc, s')"
    and jobs: "gcMerge gc = Inr jobs"
    by (auto simp: parseNodes_def)
  have "\<exists>n r'. foldE (parsePipelineChild px (fam n) fl) nodes (zeroAcc, newGroupCollector fl, t) = Inr r' \<and>
      rel_prod (=) (rel_prod (=) R) (acc, gc, s') r'"
    using assms(1) run
    by (intro foldE_limit [where g = "\<lambda>n. parsePipelineChild px (fam n) fl"])
      (auto intro: parsePipelineChild_mono dest: parsePipelineChild_limit)
  with jobs show ?thesis by (fastforce simp: parseNodes_def)
qed

end

text \<open>The two contracts hold of the resolver that the parser runs.\<close>

interpretation ancestry: resolver_cong "resolveInclude px (Suc maxIncludeDepth)"
    "resolveInclude px (Suc maxIncludeDepth)" "ancestryIs []" for px
  by (intro resolveInclude_fuel) simp_all

lemma new_ancestry: "ancestryIs [] newIncludeState"
  by (simp add: ancestryIs_def ancestryOk_def newIncludeState_def)

lemma parseNodes_fuel:
  assumes "stray e"
  shows "parseNodes px (resolveInclude px (Suc maxIncludeDepth)) nodes fl newIncludeState \<noteq> Inl e"
proof -
  let ?res = "resolveInclude px (Suc maxIncludeDepth)"
  define safe where "safe = (\<lambda>inc fl s. if ancestryIs [] s then ?res inc fl s else Inl ErrNilResolver)"
  have "resolver_cong ?res safe (ancestryIs [])"
    by unfold_locales (auto simp: safe_def simp del: resolveInclude.simps dest: ancestry.res_keeps)
  then have "parseNodes px ?res nodes fl newIncludeState = parseNodes px safe nodes fl newIncludeState"
    by (rule resolver_cong.parseNodes_agree) (rule new_ancestry)
  moreover have "safe inc fl s \<noteq> Inl e" for inc fl s
    using resolveInclude_not_fuel [of "Suc maxIncludeDepth" "[]" s e px] assms by (auto simp: safe_def stray_def)
  then have "parseNodes px safe nodes fl newIncludeState \<noteq> Inl e" by (rule parseNodes_safe) (rule assms)
  ultimately show ?thesis by simp
qed

section \<open>Parsed pipelines are valid\<close>

text \<open>What the runner relies on: a dependency graph without cycle or unknown name, an execution
  order for it, and conditions that carry their parse trees.\<close>

definition runnable :: "'ast Cel \<Rightarrow> 'ast Pipeline \<Rightarrow> bool" where
  "runnable cel pl \<longleftrightarrow> pJobs pl \<noteq> [] \<and> distinct (jobNames (pJobs pl)) \<and> depsOk (pJobs pl) \<and>
     (\<forall>j\<in>set (pJobs pl). jobReady cel j) \<and>
     (\<exists>order. pTopoOrder pl = Some order \<and> distinct order \<and> set order = {..<length (pJobs pl)} \<and>
        (\<forall>i<length (pJobs pl). \<forall>k<length (pJobs pl).
           jName (pJobs pl ! k) \<in> set (jDependsOn (pJobs pl ! i)) \<longrightarrow> before order k i))"

lemma Validate_runnable:
  assumes "Validate cel (Some p) = (Some pl, Inr order)"
  shows "runnable cel pl \<and> pName pl = pName p \<and> pEnv pl = pEnv p \<and> pSecrets pl = pSecrets p"
proof -
  from assms obtain jobs where ne: "pJobs p \<noteq> []"
    and v: "validateJobs cel (secretDeclSet (pSecrets p)) 0 Map.empty (pJobs p) = (jobs, Inr (nameIndex (pJobs p)))"
    and d: "distinct (jobNames (pJobs p))" and t: "topoSort jobs (nameIndex (pJobs p)) = Inr order"
    and pl: "pl = p\<lparr>pJobs := jobs, pTopoOrder := Some order\<rparr>"
    by (auto simp: Validate_Inr)
  note g = validateJobs_graph [OF v]
  from t g have ts: "topoSort jobs (nameIndex jobs) = Inr order" by simp
  note o = topoSort_order [OF this]
  have d': "distinct (jobNames jobs)" using d g(2) by simp
  have "before order k i" if "i < length jobs" "k < length jobs" "jName (jobs ! k) \<in> set (jDependsOn (jobs ! i))"
    for i k using that d' by (intro o(3)) (subst jobEdge_iff, simp_all)
  moreover have "depsOk jobs" using topoSort_Inr [OF d'] ts by blast
  moreover have "jobs \<noteq> []" using ne g(5) by auto
  ultimately show ?thesis
    using d' o(1,2) validateJobs_ready [OF v] by (auto simp: runnable_def pl)
qed

lemma Expand_frame: "Expand p = Inr q \<Longrightarrow> pName q = pName p \<and> pEnv q = pEnv p"
  by (auto simp: Expand_def expandPipeline_def expandJobs_def Let_def split: if_splits option.splits sum.splits)

lemma finalizePipeline_runnable:
  assumes "finalizePipeline cel inp = Inr pl"
  shows "runnable cel pl \<and> pName pl = fiName inp \<and> pEnv pl = fiEnv inp"
proof -
  from assms obtain p q order where e: "Expand p = Inr q" and p: "pName p = fiName inp" "pEnv p = fiEnv inp"
    and v: "Validate cel (Some q) = (Some pl, Inr order)"
    by (auto simp: finalizePipeline_def pipeE_def Let_def split: sum.splits option.splits prod.splits)
  from Validate_runnable [OF v] Expand_frame [OF e] p show ?thesis by simp
qed

text \<open>A pipeline stays in place through validation, so the result is never nil.\<close>

lemma Validate_pointer: "Validate cel (Some p) \<noteq> (None, r)"
  by (auto simp: Validate_def Let_def split: prod.splits sum.splits option.splits if_splits)

lemma Expand_runs: "Expand p \<noteq> Inl GoPanic"
proof -
  have [simp]: "jobVariants j \<noteq> Inl GoPanic" for j :: "'a Job"
    by (auto simp: jobVariants_def err_iff split: option.splits)
  have [simp]: "variantsLoop em ex js \<noteq> Inl GoPanic" for em ex and js :: "'a Job list"
    by (induction em ex js rule: variantsLoop.induct) (auto simp: err_iff)
  have "checkDimCollisions m js \<noteq> Some GoPanic" for m and js :: "'a Job list"
    by (auto simp: checkDimCollisions_def Let_def split: option.splits dest!: firstErr_Some)
  then show ?thesis
    by (auto simp: Expand_def expandPipeline_def expandJobs_def err_iff split: option.splits)
qed

lemma finalizePipeline_fuel [simp]: "stray e \<Longrightarrow> finalizePipeline cel inp \<noteq> Inl e"
  by (auto simp: finalizePipeline_def Let_def err_iff pipeE_fuel Expand_runs Validate_pointer
      split: prod.splits sum.splits option.splits) (auto simp: stray_def dest: Validate_errors(1))

text \<open>C8: the parser always returns. For every resolver, circular files included, \<^verbatim>\<open>parse\<close> ends
  with a pipeline or with one of the errors of the code: it neither runs out of the fuel of its
  includes nor panics. A pipeline it returns can be run:
  it has jobs with distinct names, every dependency names a job, there is no cycle, the stored
  order puts every job after its dependencies, every condition carries the parse tree of its
  expression, and no step condition waits for outputs.\<close>

theorem parse_runnable:
  "parse px resolver content filename \<noteq> Inl OutOfFuel \<and>
   parse px resolver content filename \<noteq> Inl (PipeErr GoPanic) \<and>
   (\<forall>pl. parse px resolver content filename = Inr pl \<longrightarrow>
      runnable (pxCel px) pl \<and> pName pl = nameFromFilename filename)"
proof (cases resolver)
  case (Some r)
  have "parse px resolver content filename \<noteq> Inl e" if "stray e" for e
    using parseNodes_fuel [OF that] that by (auto simp: parse_def Some Let_def err_iff simp del: resolveInclude.simps
        split: option.splits) (auto simp: stray_def)
  from this [of OutOfFuel] this [of "PipeErr GoPanic"]
  have "parse px resolver content filename \<noteq> Inl OutOfFuel \<and> parse px resolver content filename \<noteq> Inl (PipeErr GoPanic)"
    by simp
  moreover have "runnable (pxCel px) pl \<and> pName pl = nameFromFilename filename"
    if "parse px resolver content filename = Inr pl" for pl
  proof -
    from that obtain inp where "finalizePipeline (pxCel px) inp = Inr pl" "fiName inp = nameFromFilename filename"
      by (auto simp: parse_def Some Let_def withResolver_def simp del: resolveInclude.simps split: option.splits)
    with finalizePipeline_runnable show ?thesis by metis
  qed
  ultimately show ?thesis by blast
qed (simp add: parse_def)

text \<open>C11: diamond includes and their cache do not change what a file means. When every path has
  one content and no path contains a question mark, the jobs, environment, secrets, matrix and
  defaults that the main loop of \<^verbatim>\<open>parse\<close> collects are those of the resolution without state,
  and every alias stands for the terminal jobs of an include of that name.\<close>

theorem includes_transparent:
  assumes "readerLaw px" "plainPaths px"
    "parseNodes px (resolveInclude px (Suc maxIncludeDepth)) nodes filename newIncludeState = Inr (jobs, acc, st)"
  shows "(\<exists>n. parseNodes px (plainInclude px n) nodes filename () = Inr (jobs, acc, ())) \<and> aliasesOk px st"
  using resolver_limit.parseNodes_limit [OF resolveInclude_limit [OF assms(1,2)] newIncludeState_ok(2) assms(3)]
  by (auto simp: stateOk_def)

lemma map_sum_Inr: "map_sum f g x = Inr y \<longleftrightarrow> (\<exists>a. x = Inr a \<and> y = g a)"
  by (cases x) auto

definition mainEnv :: "string parseEnv" where
  "mainEnv = unaryEnv\<lparr>pxKdl := (\<lambda>content. Some
     [Node ''job'' [KString ''test''] [] [strNode ''image'' ''go'', strNode ''depends-on'' ''build'',
        Node ''step'' [KString ''t''] [] [strNode ''run'' ''go test'']],
      Node ''step'' [KString ''build''] [] [strNode ''image'' ''go'', strNode ''run'' ''go build'']])\<rparr>"

lemma main_parses:
  "map_sum id (\<lambda>pl. (pName pl, map jName (pJobs pl), pTopoOrder pl))
     (parse mainEnv (Some (\<lambda>src base. Inl OpenFailed)) [] ''/x/ci.kdl'') =
   Inr (''ci'', [''test'', ''build''], Some [1, 0])"
  by code_simp

theorem parse_runnable_witness:
  "\<exists>pl. parse mainEnv (Some (\<lambda>src base. Inl OpenFailed)) [] ''/x/ci.kdl'' = Inr pl \<and> runnable sampleCel pl"
proof -
  from main_parses obtain pl where "parse mainEnv (Some (\<lambda>src base. Inl OpenFailed)) [] ''/x/ci.kdl'' = Inr pl"
    unfolding map_sum_Inr by blast
  moreover have "pxCel mainEnv = sampleCel" by (simp add: mainEnv_def unaryEnv_def)
  ultimately show ?thesis
    using parse_runnable [of mainEnv "Some (\<lambda>src base. Inl OpenFailed)" "[]" "''/x/ci.kdl''"] by auto
qed

text \<open>A file that includes the same fragment twice.\<close>

definition includeNode :: "string \<Rightarrow> string \<Rightarrow> string \<Rightarrow> (string \<times> string) list \<Rightarrow> kdlNode" where
  "includeNode source alias onConflict params =
     Node ''include'' [KString source] [(''as'', KString alias), (''on-conflict'', KString onConflict)]
       (map (\<lambda>(k, v). strNode k v) params)"

definition diamondNodes :: "kdlNode list" where
  "diamondNodes = [includeNode ''lib.kdl'' ''a'' ''error'' [(''v'', ''1'')],
                   includeNode ''lib.kdl'' ''b'' ''Skip'' [(''v'', ''1'')]]"

definition collected :: "'ast Job list \<times> pipelineAcc \<times> 's \<Rightarrow> string list list list" where
  "collected r = map (\<lambda>j. map sRun (jSteps j)) (fst r)"

lemma diamond_parses:
  "map_sum id collected
     (parseNodes libEnv (resolveInclude libEnv (Suc maxIncludeDepth)) diamondNodes ''main.kdl'' newIncludeState) =
   Inr [[[''echo 1'']]]"
  by code_simp

theorem includes_transparent_witness:
  "\<exists>n r. parseNodes libEnv (plainInclude libEnv n) diamondNodes ''main.kdl'' () = Inr r \<and>
     collected r = [[[''echo 1'']]]"
proof -
  have "readerLaw libEnv" "plainPaths libEnv" by (simp_all add: readerLaw_def plainPaths_def libEnv_def)
  moreover obtain jobs acc st where
    "parseNodes libEnv (resolveInclude libEnv (Suc maxIncludeDepth)) diamondNodes ''main.kdl'' newIncludeState =
       Inr (jobs, acc, st)" "collected (jobs, acc, ()) = [[[''echo 1'']]]"
    using diamond_parses by (auto simp: map_sum_Inr collected_def simp del: resolveInclude.simps)
  ultimately show ?thesis using includes_transparent [of libEnv] by blast
qed

text \<open>A file whose name looks like another file with a parameter.\<close>

definition clashEnv :: "string parseEnv" where
  "clashEnv = unaryEnv\<lparr>
     pxKdl := (\<lambda>content.
        if content = ''A'' then Some [Node ''job'' [KString ''one''] [] []]
        else if content = ''B'' then
          Some [Node ''fragment'' [KString ''f''] []
                  [Node ''param'' [KString ''x''] [] [], Node ''job'' [KString ''two''] [] []]]
        else None),
     pxResolve := (\<lambda>src base. if src = ''a?x=1'' then Some (''A'', ''/a?x=1'')
                              else if src = ''a'' then Some (''B'', ''/a'') else None)\<rparr>"

definition clashNodes :: "kdlNode list" where
  "clashNodes = [includeNode ''a?x=1'' ''p'' ''error'' [], includeNode ''a'' ''q'' ''skip'' [(''x'', ''1'')]]"

text \<open>The key of the include cache is ambiguous. A file whose name ends like an encoded
  parameter list has the key of another file with those parameters; the second include then
  returns the jobs of the first file, and the jobs of the included fragment are lost.\<close>

theorem include_key_collision:
  "cacheKey ''/a?x=1'' [] = cacheKey ''/a'' [(''x'', ''1'')] \<and>
   map_sum id (\<lambda>r. map jName (fst r))
     (parseNodes clashEnv (resolveInclude clashEnv (Suc maxIncludeDepth)) clashNodes ''main.kdl'' newIncludeState) =
     Inr [''one''] \<and>
   map_sum id (\<lambda>r. map jName (fst r)) (parseNodes clashEnv (plainInclude clashEnv 2) clashNodes ''main.kdl'' ()) =
     Inr [''one'', ''two'']"
  by (intro conjI; code_simp)

end
