(* ===== verification/Builder.thy ===== *)
theory Builder
  imports Validate Go_Path
begin

text \<open>
  \<^verbatim>\<open>internal/builder/builder.go\<close>: from a pipeline to the calls of the LLB client library. That
  library records the calls made on a state until the state is marshalled, so a state is the
  term of its calls here. Marshalling, the platform parser and the printing of a floating-point
  number of seconds are the argument \<open>builderEnv\<close>.
\<close>

section \<open>Recorded LLB calls\<close>

datatype imageOpt = WithMetaResolver | ImageIgnoreCache | LlbPlatform string

datatype localOpt = SharedKeyHint string | ExcludePatterns "string list"

datatype mountOpt = SourcePath string | Readonly | AsPersistentCacheDir string

text \<open>\<open>LRun\<close> is \<^verbatim>\<open>st.Run(opts...).Root()\<close>, \<open>LRunMount\<close> is \<^verbatim>\<open>st.Run(opts...).GetMount(target)\<close>.\<close>

datatype llbState =
    LScratch
  | LImage string "imageOpt list"
  | LLocal string "localOpt list"
  | LDir llbState string
  | LAddEnv llbState string string
  | LFile llbState fileOp
  | LRun llbState "runOpt list"
  | LRunMount llbState "runOpt list" string
and fileOp = Mkdir string nat | Mkfile string nat | Copy llbState string string
and runOpt =
    Args "string list"
  | WithCustomName string
  | AddMount string llbState "mountOpt list"
  | SecretAsEnv string string
  | SecretAsFile string string
  | RunIgnoreCache

datatype buildErr =
    ErrMissingDepState | PlatformError | MarshalError | InvalidExportPath | BuildErr err

record 'def builderEnv =
  bePlatform :: "string \<Rightarrow> string option"
  beMarshal :: "llbState \<Rightarrow> 'def option"
  beSeconds :: "int \<Rightarrow> string"

record CmdInfo =
  ciUserCmd :: string
  ciFullCmd :: string

record 'def LocalExport =
  leDefinition :: 'def
  leJobName :: string
  leLocal :: string
  leDir :: bool

record 'def ImageExport =
  ieDefinition :: 'def
  ieJobName :: string
  iePublish :: Publish
  iePlatform :: string

record StepDef =
  stName :: string
  stRetry :: "Retry option"
  stAllowFailure :: bool
  stTimeouts :: "(string, int) gomap"
  stCmdInfos :: "(string, CmdInfo) gomap"
  stBuild :: "llbState \<Rightarrow> int \<Rightarrow> buildErr + llbState"

record 'def jobResult =
  jrDef :: 'def
  jrState :: llbState
  jrStepTimeouts :: "(string, int) gomap"
  jrCmdInfos :: "(string, CmdInfo) gomap"
  jrStepDefs :: "StepDef list option"
  jrBaseState :: llbState

record 'def buildResult =
  brDefinitions :: "'def list"
  brJobNames :: "string list"
  brExports :: "'def LocalExport list"
  brImageExports :: "'def ImageExport list"
  brOutputDefs :: "string \<rightharpoonup> 'def"
  brStepTimeouts :: "string \<rightharpoonup> (string, int) gomap"
  brCmdInfos :: "string \<rightharpoonup> (string, CmdInfo) gomap"
  brSecretDecls :: "SecretDecl list"
  brStepDefs :: "string \<rightharpoonup> StepDef list"
  brBaseStates :: "string \<rightharpoonup> llbState"

record BuildOpts =
  boNoCache :: bool
  boNoCacheFilter :: "string set"
  boExcludePatterns :: "string list"
  boMetaResolver :: bool
  boExposeDeps :: bool

record jobOpts =
  joImgOpts :: "imageOpt list"
  joRunOpts :: "runOpt list"
  joExcludePatterns :: "string list"
  joPipelineEnv :: "EnvVar list"
  joExposeDeps :: bool
  joGlobalNoCache :: bool
  joNoCacheFilter :: "string set"

section \<open>Steps\<close>

record stepSharedCtx =
  scJobName :: string
  scPreamble :: string
  scDepStates :: "string \<rightharpoonup> llbState"
  scDepMounts :: "runOpt list"
  scJobMountOpts :: "runOpt list"
  scBaseRunOpts :: "runOpt list"
  scJobShell :: "string list option"
  scLocalOpts :: "localOpt list"
  scJobNoCached :: bool
  scJobSecrets :: "SecretRef list"

record stepBuildResult =
  sbState :: llbState
  sbTimeouts :: "(string, int) gomap"
  sbCmdInfos :: "(string, CmdInfo) gomap"

definition defaultShell :: "string list" where
  "defaultShell = [''/bin/sh'', ''-c'']"

definition shellArgs :: "string list option \<Rightarrow> string list" where
  "shellArgs s = (case s of None \<Rightarrow> [] | Some xs \<Rightarrow> xs)"

definition resolveShell :: "string list option \<Rightarrow> string list option \<Rightarrow> string list" where
  "resolveShell jobShell stepShell =
     (if shellArgs stepShell \<noteq> [] then shellArgs stepShell
      else if shellArgs jobShell \<noteq> [] then shellArgs jobShell
      else defaultShell)"

text \<open>A closing quote, an escaped quote and an opening quote for each quote.\<close>

abbreviation quote :: char where
  "quote \<equiv> CHR 0x27"

definition singleQuote :: "string \<Rightarrow> string" where
  "singleQuote s = [quote] @ ReplaceAll s [quote] [quote, CHR 0x5C, quote, quote] @ [quote]"

definition buildMountRunOpts :: "Mount list \<Rightarrow> Cache list \<Rightarrow> localOpt list \<Rightarrow> runOpt list" where
  "buildMountRunOpts mounts caches localOpts =
     map (\<lambda>m. AddMount (mTarget m) (LLocal ''context'' localOpts)
                (SourcePath (mSource m) # (if mReadOnly m then [Readonly] else []))) mounts @
     map (\<lambda>c. AddMount (cTarget c) LScratch [AsPersistentCacheDir (cID c)]) caches"

definition secretRefToRunOpt :: "SecretRef \<Rightarrow> runOpt" where
  "secretRefToRunOpt ref =
     (if srEnv ref \<noteq> [] then SecretAsEnv (srName ref) (srEnv ref)
      else SecretAsFile (srMount ref) (srName ref))"

definition buildSecretRunOpts :: "SecretRef list \<Rightarrow> SecretRef list \<Rightarrow> runOpt list" where
  "buildSecretRunOpts jobSecrets stepSecrets = map secretRefToRunOpt (jobSecrets @ stepSecrets)"

definition copyArtifact ::
  "(string \<rightharpoonup> llbState) \<Rightarrow> Artifact \<Rightarrow> llbState \<Rightarrow> buildErr + llbState" where
  "copyArtifact depStates art st =
     (case depStates (aFrom art) of
        None \<Rightarrow> Inl ErrMissingDepState
      | Some depSt \<Rightarrow> Inr (LFile st (Copy depSt (aSource art) (aTarget art))))"

definition addEnvs :: "EnvVar list \<Rightarrow> llbState \<Rightarrow> llbState" where
  "addEnvs es st = fold (\<lambda>e st. LAddEnv st (eKey e) (eValue e)) es st"

definition setDir :: "string \<Rightarrow> llbState \<Rightarrow> llbState" where
  "setDir d st = (if d = [] then st else LDir st d)"

definition shellCommand :: "string \<Rightarrow> int \<Rightarrow> string \<Rightarrow> string" where
  "shellCommand preamble retryAttempt cmd =
     preamble @
     (if retryAttempt > 0 then ''CICADA_RETRY_ATTEMPT='' @ Itoa retryAttempt @ '' '' @ cmd else cmd)"

definition innerShell :: "string list \<Rightarrow> string" where
  "innerShell shell = joinWith '' '' (map singleQuote shell)"

definition wrapTimeout :: "string \<Rightarrow> string list \<Rightarrow> string \<Rightarrow> string" where
  "wrapTimeout secs shell shellCmd =
     ''timeout -s KILL '' @ secs @ '' '' @ innerShell shell @ '' '' @ singleQuote shellCmd @ ''; exit $?''"

definition runArgs :: "'def builderEnv \<Rightarrow> 'ast Step \<Rightarrow> string list \<Rightarrow> string \<Rightarrow> string list" where
  "runArgs be step shell shellCmd =
     shell @ [if sTimeout step > 0 then wrapTimeout (beSeconds be (sTimeout step)) shell shellCmd else shellCmd]"

definition vertexName :: "stepSharedCtx \<Rightarrow> 'ast Step \<Rightarrow> string \<Rightarrow> string" where
  "vertexName shared step cmd = scJobName shared @ ''/'' @ sName step @ ''/'' @ cmd"

definition stepRunOpts ::
  "'def builderEnv \<Rightarrow> 'ast Step \<Rightarrow> stepSharedCtx \<Rightarrow> int \<Rightarrow> string \<Rightarrow> runOpt list" where
  "stepRunOpts be step shared retryAttempt cmd =
     (let shell = resolveShell (scJobShell shared) (sShell step) in
      scBaseRunOpts shared @
      [Args (runArgs be step shell (shellCommand (scPreamble shared) retryAttempt cmd)),
       WithCustomName (vertexName shared step cmd)] @
      scDepMounts shared @ scJobMountOpts shared @
      buildMountRunOpts (sMounts step) (sCaches step) (scLocalOpts shared) @
      buildSecretRunOpts (scJobSecrets shared) (sSecrets step) @
      (if sNoCache step \<and> \<not> scJobNoCached shared then [RunIgnoreCache] else []))"

definition runCommand ::
  "'def builderEnv \<Rightarrow> 'ast Step \<Rightarrow> stepSharedCtx \<Rightarrow> int \<Rightarrow> string \<Rightarrow> stepBuildResult \<Rightarrow>
     buildErr + stepBuildResult" where
  "runCommand be step shared retryAttempt cmd r =
     (if TrimSpace cmd = [] then Inl (BuildErr (Val ErrEmptyRunCommand))
      else
        let vertex = vertexName shared step cmd;
            shellCmd = shellCommand (scPreamble shared) retryAttempt cmd
        in Inr \<lparr>sbState = LRun (sbState r) (stepRunOpts be step shared retryAttempt cmd),
                sbTimeouts = (if sTimeout step > 0 then mput vertex (sTimeout step) (sbTimeouts r) else sbTimeouts r),
                sbCmdInfos = mput vertex \<lparr>ciUserCmd = cmd, ciFullCmd = shellCmd\<rparr> (sbCmdInfos r)\<rparr>)"

definition buildStepOps ::
  "'def builderEnv \<Rightarrow> llbState \<Rightarrow> 'ast Step \<Rightarrow> int \<Rightarrow> stepSharedCtx \<Rightarrow> buildErr + stepBuildResult" where
  "buildStepOps be base step retryAttempt shared =
     bindE (foldE (copyArtifact (scDepStates shared)) (sArtifacts step) base) (\<lambda>st.
       let st = addEnvs (sEnv step) (setDir (sWorkdir step) st) in
       if sRun step = [] then Inl (BuildErr (Val ErrMissingRun))
       else foldE (runCommand be step shared retryAttempt) (sRun step)
              \<lparr>sbState = st, sbTimeouts = [], sbCmdInfos = []\<rparr>)"

section \<open>Jobs\<close>

definition collectExports :: "'ast Job \<Rightarrow> Export list" where
  "collectExports job = jExports job @ concat (map sExports (jSteps job))"

fun validOrderFrom :: "nat list \<Rightarrow> nat \<Rightarrow> nat set \<Rightarrow> bool" where
  "validOrderFrom [] n seen = True"
| "validOrderFrom (idx # order) n seen =
     (if idx \<ge> n \<or> idx \<in> seen then False else validOrderFrom order n (insert idx seen))"

definition validOrder :: "nat list \<Rightarrow> nat \<Rightarrow> bool" where
  "validOrder order n = (length order = n \<and> validOrderFrom order n {})"

definition jobCacheOpts :: "'ast Job \<Rightarrow> jobOpts \<Rightarrow> imageOpt list \<times> runOpt list" where
  "jobCacheOpts job opts =
     (if \<not> joGlobalNoCache opts \<and> (jName job \<in> joNoCacheFilter opts \<or> jNoCache job)
      then (joImgOpts opts @ [ImageIgnoreCache], joRunOpts opts @ [RunIgnoreCache])
      else (joImgOpts opts, joRunOpts opts))"

definition jobNeedsStepControl :: "'ast Job \<Rightarrow> bool" where
  "jobNeedsStepControl job \<longleftrightarrow> (\<exists>s\<in>set (jSteps job). sRetry s \<noteq> None \<or> sAllowFailure s)"

definition depMount ::
  "(string \<rightharpoonup> llbState) \<Rightarrow> bool \<Rightarrow> string \<Rightarrow> runOpt list \<Rightarrow> buildErr + runOpt list" where
  "depMount depStates exposeDeps dep opts =
     (case depStates dep of
        None \<Rightarrow> Inl ErrMissingDepState
      | Some depSt \<Rightarrow>
          Inr (opts @ [AddMount (''/cicada/deps/'' @ dep) depSt [SourcePath ''/cicada'', Readonly]] @
               (if exposeDeps then [AddMount (''/deps/'' @ dep) depSt [Readonly]] else [])))"

definition depMountOpts ::
  "'ast Job \<Rightarrow> (string \<rightharpoonup> llbState) \<Rightarrow> bool \<Rightarrow> buildErr + runOpt list" where
  "depMountOpts job depStates exposeDeps = foldE (depMount depStates exposeDeps) (jDependsOn job) []"

text \<open>The run that copies the exported path onto a scratch mount, for a cleaned path.\<close>

definition exportState :: "llbState \<Rightarrow> string \<Rightarrow> string \<Rightarrow> llbState" where
  "exportState execState containerPath cleaned =
     (let (src, dest) = (if suffix ''/'' containerPath then (cleaned @ ''/.'', ''/cicada/export/'')
                         else (cleaned, ''/cicada/export/'' @ pathBase cleaned))
      in LRunMount execState
           [Args [''cp'', ''-a'', src, dest], AddMount ''/cicada/export'' LScratch [],
            WithCustomName (''export:'' @ cleaned)] ''/cicada/export'')"

definition buildExportDef :: "'def builderEnv \<Rightarrow> llbState \<Rightarrow> string \<Rightarrow> buildErr + 'def" where
  "buildExportDef be execState containerPath =
     (let cleaned = pathClean containerPath in
      if cleaned = ''.'' \<or> cleaned = ''/'' then Inl InvalidExportPath
      else (case beMarshal be (exportState execState containerPath cleaned) of
              None \<Rightarrow> Inl MarshalError | Some d \<Rightarrow> Inr d))"

definition depPreamble :: string where
  "depPreamble =
     ''for __f in /cicada/deps/*/output; do [ -f '' @ [CHR 0x22] @ ''$__f'' @ [CHR 0x22] @
     '' ] && { set -a; . '' @ [CHR 0x22] @ ''$__f'' @ [CHR 0x22] @ ''; set +a; }; done'' @ [CHR 0x0A]"

text \<open>The state before the first step.\<close>

definition jobBaseState ::
  "'def builderEnv \<Rightarrow> 'ast Job \<Rightarrow> (string \<rightharpoonup> llbState) \<Rightarrow> jobOpts \<Rightarrow> buildErr + llbState" where
  "jobBaseState be job depStates opts =
     bindE (if jPlatform job = [] then Inr (fst (jobCacheOpts job opts))
            else (case bePlatform be (jPlatform job) of
                    None \<Rightarrow> Inl PlatformError
                  | Some plat \<Rightarrow> Inr (fst (jobCacheOpts job opts) @ [LlbPlatform plat]))) (\<lambda>imgOpts.
       let st = setDir (jWorkdir job) (LImage (jImage job) imgOpts);
           st = addEnvs (jEnv job) (addEnvs (joPipelineEnv opts) st);
           st = LFile (LFile st (Mkdir ''/cicada'' 0x1ED)) (Mkfile ''/cicada/output'' 0x1A4);
           st = LAddEnv st ''CICADA_OUTPUT'' ''/cicada/output''
       in foldE (copyArtifact depStates) (jArtifacts job) st)"

definition sharedCtx ::
  "'ast Job \<Rightarrow> (string \<rightharpoonup> llbState) \<Rightarrow> jobOpts \<Rightarrow> runOpt list \<Rightarrow> stepSharedCtx" where
  "sharedCtx job depStates opts depMounts =
     (let localOpts = SharedKeyHint ''context'' #
            (if joExcludePatterns opts \<noteq> [] then [ExcludePatterns (joExcludePatterns opts)] else [])
      in \<lparr>scJobName = jName job, scPreamble = (if jDependsOn job \<noteq> [] then depPreamble else []),
          scDepStates = depStates, scDepMounts = depMounts,
          scJobMountOpts = buildMountRunOpts (jMounts job) (jCaches job) localOpts,
          scBaseRunOpts = snd (jobCacheOpts job opts), scJobShell = jShell job, scLocalOpts = localOpts,
          scJobNoCached = (joGlobalNoCache opts \<or> jNoCache job \<or> jName job \<in> joNoCacheFilter opts),
          scJobSecrets = jSecrets job\<rparr>)"

definition stepDefOf :: "'def builderEnv \<Rightarrow> stepSharedCtx \<Rightarrow> 'ast Step \<Rightarrow> stepBuildResult \<Rightarrow> StepDef" where
  "stepDefOf be shared step r =
     \<lparr>stName = sName step, stRetry = sRetry step, stAllowFailure = sAllowFailure step,
      stTimeouts = sbTimeouts r, stCmdInfos = sbCmdInfos r,
      stBuild = (\<lambda>base retryAttempt.
        bindE (buildStepOps be base step retryAttempt shared) (\<lambda>r. Inr (sbState r)))\<rparr>"

text \<open>The loop over the steps: the state, the merged maps and the step definitions so far.\<close>

definition buildStep ::
  "'def builderEnv \<Rightarrow> stepSharedCtx \<Rightarrow> 'ast Step \<Rightarrow> stepBuildResult \<times> StepDef list \<Rightarrow>
     buildErr + stepBuildResult \<times> StepDef list" where
  "buildStep be shared step acc =
     bindE (buildStepOps be (sbState (fst acc)) step 0 shared) (\<lambda>r.
       Inr (\<lparr>sbState = sbState r,
             sbTimeouts = mapsCopy (sbTimeouts (fst acc)) (sbTimeouts r),
             sbCmdInfos = mapsCopy (sbCmdInfos (fst acc)) (sbCmdInfos r)\<rparr>,
            snd acc @ [stepDefOf be shared step r]))"

definition buildJob ::
  "'def builderEnv \<Rightarrow> 'ast Job \<Rightarrow> (string \<rightharpoonup> llbState) \<Rightarrow> jobOpts \<Rightarrow> buildErr + 'def jobResult" where
  "buildJob be job depStates opts =
     bindE (jobBaseState be job depStates opts) (\<lambda>base.
     bindE (depMountOpts job depStates (joExposeDeps opts)) (\<lambda>depMounts.
     bindE (foldE (buildStep be (sharedCtx job depStates opts depMounts)) (jSteps job)
              (\<lparr>sbState = base, sbTimeouts = [], sbCmdInfos = []\<rparr>, [])) (\<lambda>acc.
       (case beMarshal be (sbState (fst acc)) of
          None \<Rightarrow> Inl MarshalError
        | Some d \<Rightarrow>
            Inr \<lparr>jrDef = d, jrState = sbState (fst acc), jrStepTimeouts = sbTimeouts (fst acc),
                 jrCmdInfos = sbCmdInfos (fst acc),
                 jrStepDefs = (if jobNeedsStepControl job then Some (snd acc) else None),
                 jrBaseState = (if jobNeedsStepControl job then base else LScratch)\<rparr>))))"

section \<open>Pipelines\<close>

definition appendExport ::
  "'def builderEnv \<Rightarrow> 'ast Job \<Rightarrow> llbState \<Rightarrow> Export \<Rightarrow> 'def buildResult \<Rightarrow> buildErr + 'def buildResult" where
  "appendExport be job st ex res =
     bindE (buildExportDef be st (xPath ex)) (\<lambda>d.
       Inr (res\<lparr>brExports := brExports res @
         [\<lparr>leDefinition = d, leJobName = jName job, leLocal = xLocal ex, leDir = suffix ''/'' (xPath ex)\<rparr>]\<rparr>))"

definition appendJob ::
  "'def builderEnv \<Rightarrow> jobOpts \<Rightarrow> 'ast Job \<Rightarrow> (string \<rightharpoonup> llbState) \<times> 'def buildResult \<Rightarrow>
     buildErr + (string \<rightharpoonup> llbState) \<times> 'def buildResult" where
  "appendJob be jo job sr =
     (let states = fst sr; res = snd sr in
      bindE (buildJob be job states jo) (\<lambda>jr.
        let name = jName job;
            res = res\<lparr>brDefinitions := brDefinitions res @ [jrDef jr],
                      brJobNames := brJobNames res @ [name],
                      brStepTimeouts := (brStepTimeouts res)(name \<mapsto> jrStepTimeouts jr),
                      brCmdInfos := (brCmdInfos res)(name \<mapsto> jrCmdInfos jr)\<rparr>;
            res = (case jrStepDefs jr of
                     None \<Rightarrow> res
                   | Some sds \<Rightarrow> res\<lparr>brStepDefs := (brStepDefs res)(name \<mapsto> sds),
                                     brBaseStates := (brBaseStates res)(name \<mapsto> jrBaseState jr)\<rparr>)
        in bindE (buildExportDef be (jrState jr) ''/cicada/output'') (\<lambda>outputDef.
           bindE (foldE (appendExport be job (jrState jr)) (collectExports job)
                    (res\<lparr>brOutputDefs := (brOutputDefs res)(name \<mapsto> outputDef)\<rparr>)) (\<lambda>res.
             Inr (states(name \<mapsto> jrState jr),
                  (case jPublish job of
                     None \<Rightarrow> res
                   | Some pub \<Rightarrow> res\<lparr>brImageExports := brImageExports res @
                       [\<lparr>ieDefinition = jrDef jr, ieJobName = name, iePublish = pub, iePlatform = jPlatform job\<rparr>]\<rparr>))))))"

definition emptyResult :: "SecretDecl list \<Rightarrow> 'def buildResult" where
  "emptyResult secrets =
     \<lparr>brDefinitions = [], brJobNames = [], brExports = [], brImageExports = [], brOutputDefs = Map.empty,
      brStepTimeouts = Map.empty, brCmdInfos = Map.empty, brSecretDecls = secrets,
      brStepDefs = Map.empty, brBaseStates = Map.empty\<rparr>"

definition jobOptsOf :: "BuildOpts \<Rightarrow> EnvVar list \<Rightarrow> jobOpts" where
  "jobOptsOf opts penv =
     \<lparr>joImgOpts = (if boMetaResolver opts then [WithMetaResolver] else []) @
                  (if boNoCache opts then [ImageIgnoreCache] else []),
      joRunOpts = (if boNoCache opts then [RunIgnoreCache] else []),
      joExcludePatterns = boExcludePatterns opts, joPipelineEnv = penv, joExposeDeps = boExposeDeps opts,
      joGlobalNoCache = boNoCache opts, joNoCacheFilter = boNoCacheFilter opts\<rparr>"

text \<open>\<^verbatim>\<open>TopoOrder\<close> is used when it is a permutation; otherwise the pipeline is validated, which
  may also fill the caches of its conditions.\<close>

definition orderOf :: "'ast Cel \<Rightarrow> 'ast Pipeline \<Rightarrow> buildErr + 'ast Pipeline \<times> nat list" where
  "orderOf cel p =
     (let order = (case pTopoOrder p of None \<Rightarrow> [] | Some ord \<Rightarrow> ord) in
      if validOrder order (length (pJobs p)) then Inr (p, order)
      else (case Validate cel (Some p) of
              (_, Inl e) \<Rightarrow> Inl (BuildErr e)
            | (None, Inr ord) \<Rightarrow> Inr (p, ord)
            | (Some q, Inr ord) \<Rightarrow> Inr (q, ord)))"

definition Build :: "'ast Cel \<Rightarrow> 'def builderEnv \<Rightarrow> 'ast Pipeline \<Rightarrow> BuildOpts \<Rightarrow> buildErr + 'def buildResult" where
  "Build cel be p opts =
     bindE (orderOf cel p) (\<lambda>(p, order).
     bindE (foldE (\<lambda>idx. appendJob be (jobOptsOf opts (pEnv p)) (pJobs p ! idx)) order
              (Map.empty, emptyResult (pSecrets p))) (\<lambda>sr. Inr (snd sr)))"

end
