(* ===== verification/Builder_Laws.thy ===== *)
theory Builder_Laws
  imports Builder Merge "HOL-Library.Multiset"
begin

text \<open>
  What the builder guarantees: a validated pipeline builds, a job run step by step is the job run
  at once, the quoting of the timeout wrapper is sound, caching is switched off exactly where it
  was asked for, and which environment a command sees.
\<close>

section \<open>Shell quoting\<close>

text \<open>
  Splitting of a simple command into words by the rules of POSIX sections 2.2 and 2.3, as far as
  the wrapper needs them: blanks, single quotes, backslashes and the end of the command at a
  semicolon. Every other character with a meaning to the shell gives no result.
\<close>

abbreviation backslash :: char where
  "backslash \<equiv> CHR 0x5C"

definition shPlain :: "char \<Rightarrow> bool" where
  "shPlain c \<longleftrightarrow> (CHR ''a'' \<le> c \<and> c \<le> CHR ''z'') \<or> (CHR ''A'' \<le> c \<and> c \<le> CHR ''Z'') \<or>
     (CHR ''0'' \<le> c \<and> c \<le> CHR ''9'') \<or> c \<in> set ''-_./''"

fun shLex :: "bool \<Rightarrow> bool \<Rightarrow> string \<Rightarrow> string \<Rightarrow> (string list \<times> string) option" where
  "shLex quoted inWord w [] = (if quoted then None else Some (if inWord then [w] else [], []))"
| "shLex True inWord w (c # s) = (if c = quote then shLex False True w s else shLex True True (w @ [c]) s)"
| "shLex False inWord w (c # s) =
     (if c = quote then shLex True True w s
      else if c = backslash then (case s of [] \<Rightarrow> None | d # t \<Rightarrow> shLex False True (w @ [d]) t)
      else if c = CHR '' '' then
        (if inWord then map_option (apfst (Cons w)) (shLex False False [] s) else shLex False False [] s)
      else if c = CHR '';'' then Some (if inWord then [w] else [], c # s)
      else if shPlain c then shLex False True (w @ [c]) s
      else None)"

definition shCommand :: "string \<Rightarrow> (string list \<times> string) option" where
  "shCommand s = shLex False False [] s"

lemma ReplaceAll_quote:
  "ReplaceAll [] [q] new = []"
  "ReplaceAll (c # s) [q] new = (if c = q then new else [c]) @ ReplaceAll s [q] new"
  by (simp_all add: ReplaceAll_def replacer.simps(2))

lemma shLex_escaped:
  "shLex True True w (ReplaceAll s [quote] [quote, backslash, quote, quote] @ quote # t) =
     shLex False True (w @ s) t"
  by (induction s arbitrary: w) (simp_all add: ReplaceAll_quote)

lemma shLex_singleQuote: "shLex False inWord w (singleQuote s @ t) = shLex False True (w @ s) t"
  by (simp add: singleQuote_def shLex_escaped)

lemma shPlain_not_special: "shPlain c \<Longrightarrow> c \<noteq> quote \<and> c \<noteq> backslash \<and> c \<noteq> CHR '' '' \<and> c \<noteq> CHR '';''"
  by (auto simp: shPlain_def less_eq_char_def)

lemma shLex_plain:
  "\<forall>c\<in>set p. shPlain c \<Longrightarrow> shLex False True w (p @ t) = shLex False True (w @ p) t"
  by (induction p arbitrary: w) (auto dest: shPlain_not_special)

lemma shLex_word:
  assumes "p \<noteq> []" "\<forall>c\<in>set p. shPlain c"
  shows "shLex False False [] (p @ CHR '' '' # t) = map_option (apfst (Cons p)) (shLex False False [] t)"
proof -
  obtain c p' where p: "p = c # p'" using assms(1) by (cases p) auto
  with assms(2) shPlain_not_special [of c] have "shLex False False [] (p @ CHR '' '' # t) =
      shLex False True [c] (p' @ CHR '' '' # t)" by simp
  also have "\<dots> = shLex False True p (CHR '' '' # t)" using assms(2) by (simp add: p shLex_plain)
  finally show ?thesis by simp
qed

lemma shLex_innerShell:
  "shLex False False [] (innerShell shell @ '' '' @ t) =
     map_option (apfst (\<lambda>ws. shell @ ws)) (shLex False False [] t)" if "shell \<noteq> []"
  using that
proof (induction shell rule: induct_list012)
  case (2 x)
  then show ?case by (simp add: innerShell_def shLex_singleQuote)
next
  case (3 x y zs)
  then show ?case
    by (simp add: innerShell_def shLex_singleQuote option.map_comp o_def apfst_def map_prod_def split_def)
qed simp

text \<open>C21: a step with a timeout runs what the same step without timeout runs. The shell that
  gets the wrapped command splits it into \<^verbatim>\<open>timeout -s KILL\<close>, the seconds, the words of the
  step's shell and the command as one last word, for every shell and every command, with
  quotes, newlines, dollar signs or semicolons in them; what is left is \<^verbatim>\<open>; exit $?\<close>.\<close>

theorem wrapTimeout_words:
  assumes "secs \<noteq> []" "\<forall>c\<in>set secs. shPlain c" "shell \<noteq> []"
  shows "shCommand (wrapTimeout secs shell cmd) =
    Some ([''timeout'', ''-s'', ''KILL'', secs] @ shell @ [cmd], ''; exit $?'')"
proof -
  have words: "shLex False False [] (''timeout -s KILL '' @ t) =
      map_option (apfst (\<lambda>ws. [''timeout'', ''-s'', ''KILL''] @ ws)) (shLex False False [] t)" for t
    using shLex_word [of "''timeout''" "''-s KILL '' @ t"] shLex_word [of "''-s''" "''KILL '' @ t"]
      shLex_word [of "''KILL''" t]
    by (simp add: shPlain_def less_eq_char_def option.map_comp o_def apfst_def map_prod_def split_def)
  have "shLex False False [] (singleQuote cmd @ ''; exit $?'') = Some ([cmd], ''; exit $?'')"
    by (simp add: shLex_singleQuote)
  moreover have "wrapTimeout secs shell cmd =
      ''timeout -s KILL '' @ (secs @ CHR '' '' # (innerShell shell @ '' '' @ (singleQuote cmd @ ''; exit $?'')))"
    by (simp add: wrapTimeout_def)
  ultimately show ?thesis
    unfolding shCommand_def
    by (simp only: words shLex_word [OF assms(1,2)] shLex_innerShell [OF assms(3)]) simp
qed

theorem wrapTimeout_words_witness:
  "shCommand (wrapTimeout ''1.5'' [''/bin/sh'', ''-c''] (''echo '' @ [quote] @ ''a; b'' @ [quote])) =
     Some ([''timeout'', ''-s'', ''KILL'', ''1.5'', ''/bin/sh'', ''-c'', ''echo '' @ [quote] @ ''a; b'' @ [quote]],
           ''; exit $?'')"
  using wrapTimeout_words [of "''1.5''" "[''/bin/sh'', ''-c'']" "''echo '' @ [quote] @ ''a; b'' @ [quote]"]
  by (simp add: shPlain_def less_eq_char_def)

section \<open>Step by step\<close>

definition runSteps :: "StepDef list \<Rightarrow> llbState \<Rightarrow> buildErr + llbState" where
  "runSteps sds = foldE (\<lambda>sd st. stBuild sd st 0) sds"

lemma buildStep_Inr:
  "buildStep be shared s acc = Inr acc1 \<Longrightarrow>
     \<exists>r. buildStepOps be (sbState (fst acc)) s 0 shared = Inr r \<and> sbState (fst acc1) = sbState r \<and>
       snd acc1 = snd acc @ [stepDefOf be shared s r]"
  by (auto simp: buildStep_def)

lemma buildSteps_chain:
  "foldE (buildStep be shared) steps (acc, ds) = Inr (acc', ds') \<Longrightarrow>
     \<exists>new. ds' = ds @ new \<and> map stName new = map sName steps \<and>
       runSteps new (sbState acc) = Inr (sbState acc')"
proof (induction steps arbitrary: acc ds)
  case (Cons s steps)
  then obtain r acc1 where r: "buildStepOps be (sbState acc) s 0 shared = Inr r"
    and acc1: "sbState acc1 = sbState r"
      "foldE (buildStep be shared) steps (acc1, ds @ [stepDefOf be shared s r]) = Inr (acc', ds')"
    by (fastforce dest: buildStep_Inr)
  from Cons.IH [OF acc1(2)] obtain new where
    "ds' = (ds @ [stepDefOf be shared s r]) @ new" "map stName new = map sName steps"
    "runSteps new (sbState acc1) = Inr (sbState acc')" by blast
  with r acc1(1) show ?case
    by (intro exI [of _ "stepDefOf be shared s r # new"]) (simp add: stepDefOf_def runSteps_def)
qed (simp add: runSteps_def)

text \<open>C20: step-controlled execution is the same execution. When a job has a step with a retry
  policy or an allowed failure, the builder returns one definition per step; running their
  first attempts one after the other from the base state gives exactly the state whose
  definition the job would be solved with at once.\<close>

theorem stepDefs_equiv:
  assumes "buildJob be job depStates opts = Inr jr"
  shows "case jrStepDefs jr of
      None \<Rightarrow> \<forall>s\<in>set (jSteps job). sRetry s = None \<and> \<not> sAllowFailure s
    | Some sds \<Rightarrow> map stName sds = map sName (jSteps job) \<and>
        runSteps sds (jrBaseState jr) = Inr (jrState jr) \<and> beMarshal be (jrState jr) = Some (jrDef jr)"
proof (cases "jobNeedsStepControl job")
  case True
  from assms obtain base depMounts acc ds d where
    "foldE (buildStep be (sharedCtx job depStates opts depMounts)) (jSteps job)
       (\<lparr>sbState = base, sbTimeouts = [], sbCmdInfos = []\<rparr>, []) = Inr (acc, ds)"
    and "beMarshal be (sbState acc) = Some d"
    and "jrStepDefs jr = Some ds" "jrBaseState jr = base" "jrState jr = sbState acc" "jrDef jr = d"
    using True by (auto simp: buildJob_def split: option.splits)
  with buildSteps_chain [OF this(1)] show ?thesis by auto
next
  case False
  with assms have "jrStepDefs jr = None" by (auto simp: buildJob_def split: option.splits)
  with False show ?thesis by (auto simp: jobNeedsStepControl_def)
qed

section \<open>Caching\<close>

definition cacheOffs :: "runOpt list \<Rightarrow> nat" where
  "cacheOffs opts = length (filter (\<lambda>opt. opt = RunIgnoreCache) opts)"

lemma cacheOffs_simps [simp]:
  "cacheOffs [] = 0" "cacheOffs (xs @ ys) = cacheOffs xs + cacheOffs ys"
  "cacheOffs (RunIgnoreCache # xs) = Suc (cacheOffs xs)"
  "opt \<noteq> RunIgnoreCache \<Longrightarrow> cacheOffs (opt # xs) = cacheOffs xs"
  by (simp_all add: cacheOffs_def)

lemma cacheOffs_none: "RunIgnoreCache \<notin> set xs \<Longrightarrow> cacheOffs xs = 0"
  by (auto simp: cacheOffs_def filter_empty_conv)

lemma mounts_cacheOffs [simp]: "cacheOffs (buildMountRunOpts ms cs los) = 0" "cacheOffs (buildSecretRunOpts js ss) = 0"
  by (auto intro!: cacheOffs_none simp: buildMountRunOpts_def buildSecretRunOpts_def secretRefToRunOpt_def
      split: if_splits)

lemma depMountOpts_cacheOffs: "depMountOpts job depStates expose = Inr opts \<Longrightarrow> cacheOffs opts = 0"
  unfolding depMountOpts_def
  by (erule foldE_invariant) (auto simp: depMount_def split: option.splits if_splits)

text \<open>Caching is off exactly where it was switched off. Every command of a step is run with
  one \<^verbatim>\<open>IgnoreCache\<close> option when the build, the filter of job names, the job or the step asks
  for it, and with none otherwise; the option is never given twice.\<close>

theorem step_cache_control:
  assumes "depMountOpts job depStates expose = Inr depMounts"
  shows "cacheOffs (stepRunOpts be step (sharedCtx job depStates (jobOptsOf opts penv) depMounts) attempt cmd) =
    (if boNoCache opts \<or> jName job \<in> boNoCacheFilter opts \<or> jNoCache job \<or> sNoCache step then 1 else 0)"
  using depMountOpts_cacheOffs [OF assms]
  by (auto simp: stepRunOpts_def sharedCtx_def jobOptsOf_def jobCacheOpts_def Let_def)

section \<open>Environments\<close>

text \<open>
  What is used of the library's states: \<^verbatim>\<open>AddEnv\<close> sets a variable, and the other calls, the root
  of a run included, keep the environment of the state they were called on.
\<close>

locale llb_env =
  fixes stateEnv :: "llbState \<Rightarrow> string \<rightharpoonup> string"
  assumes env_add: "stateEnv (LAddEnv st k v) = (stateEnv st)(k \<mapsto> v)"
    and env_dir: "stateEnv (LDir st d) = stateEnv st"
    and env_file: "stateEnv (LFile st f) = stateEnv st"
    and env_run: "stateEnv (LRun st opts) = stateEnv st"
begin

lemma env_addEnvs: "stateEnv (addEnvs es st) = stateEnv st ++ envOf es"
  unfolding addEnvs_def by (induction es arbitrary: st) (simp_all add: env_add)

lemma env_setDir: "stateEnv (setDir d st) = stateEnv st"
  by (simp add: setDir_def env_dir)

lemma env_artifacts: "foldE (copyArtifact ds) arts st = Inr st' \<Longrightarrow> stateEnv st' = stateEnv st"
  by (erule foldE_invariant [where P = "\<lambda>s. stateEnv s = stateEnv st"])
    (auto simp: copyArtifact_def env_file split: option.splits)

lemma env_commands:
  "foldE (runCommand be step shared attempt) cmds r = Inr r' \<Longrightarrow> stateEnv (sbState r') = stateEnv (sbState r)"
  by (erule foldE_invariant [where P = "\<lambda>s. stateEnv (sbState s) = stateEnv (sbState r)"])
    (auto simp: runCommand_def env_run Let_def split: if_splits)

lemma env_step:
  assumes "buildStepOps be base step attempt shared = Inr r"
  shows "stateEnv (sbState r) = stateEnv base ++ envOf (sEnv step)"
  using assms env_artifacts env_commands
  by (fastforce simp: buildStepOps_def env_addEnvs env_setDir Let_def split: if_splits)

lemma env_steps:
  "foldE (buildStep be shared) steps acc = Inr acc' \<Longrightarrow>
     stateEnv (sbState (fst acc')) = stateEnv (sbState (fst acc)) ++ envOf (concat (map sEnv steps))"
proof (induction steps arbitrary: acc)
  case (Cons s steps)
  then obtain r acc1 where "buildStepOps be (sbState (fst acc)) s 0 shared = Inr r"
    "sbState (fst acc1) = sbState r" "foldE (buildStep be shared) steps acc1 = Inr acc'"
    by (fastforce dest: buildStep_Inr)
  with Cons.IH [of acc1] env_step [OF this(1)] show ?case by simp
qed simp

lemma env_base:
  assumes "jobBaseState be job depStates opts = Inr base"
  shows "\<exists>imgOpts. stateEnv base =
    (stateEnv (LImage (jImage job) imgOpts) ++ envOf (joPipelineEnv opts) ++ envOf (jEnv job))
      (''CICADA_OUTPUT'' \<mapsto> ''/cicada/output'')"
  using assms
  by (auto simp: jobBaseState_def Let_def env_add env_file env_addEnvs env_setDir dest!: env_artifacts
      split: if_splits option.splits)

end

text \<open>The environment of the recorded calls.\<close>

fun recordedEnv :: "llbState \<Rightarrow> string \<rightharpoonup> string" where
  "recordedEnv (LAddEnv st k v) = (recordedEnv st)(k \<mapsto> v)"
| "recordedEnv (LDir st d) = recordedEnv st"
| "recordedEnv (LFile st f) = recordedEnv st"
| "recordedEnv (LRun st opts) = recordedEnv st"
| "recordedEnv st = Map.empty"

interpretation recorded: llb_env recordedEnv
  by unfold_locales simp_all

text \<open>
  The environment after the first steps of a job. The variables of these steps are all still set,
  and they replace \<^verbatim>\<open>CICADA_OUTPUT\<close> too.
\<close>

lemma job_state_env:
  assumes "llb_env stateEnv" "jobBaseState be job depStates opts = Inr base"
    "foldE (buildStep be shared) steps (r0, ds) = Inr (r, ds')" "sbState r0 = base"
  shows "\<exists>imgOpts. stateEnv (sbState r) =
    (stateEnv (LImage (jImage job) imgOpts) ++ envOf (joPipelineEnv opts) ++ envOf (jEnv job))
      (''CICADA_OUTPUT'' \<mapsto> ''/cicada/output'') ++ envOf (concat (map sEnv steps))"
  using llb_env.env_base [OF assms(1,2)] llb_env.env_steps [OF assms(1,3)] assms(4) by auto


section \<open>Validated pipelines build\<close>

definition stepBuildable :: "string set \<Rightarrow> 'ast Step \<Rightarrow> bool" where
  "stepBuildable deps s \<longleftrightarrow> aFrom ` set (sArtifacts s) \<subseteq> deps \<and> sRun s \<noteq> [] \<and>
     (\<forall>c\<in>set (sRun s). TrimSpace c \<noteq> [])"

definition jobBuildable :: "'ast Job \<Rightarrow> bool" where
  "jobBuildable j \<longleftrightarrow> aFrom ` set (jArtifacts j) \<subseteq> set (jDependsOn j) \<and>
     (\<forall>s\<in>set (jSteps j). stepBuildable (set (jDependsOn j)) s)"

lemma foldE_total:
  assumes "\<And>c x. c \<in> set cs \<Longrightarrow> \<exists>y. f c x = Inr y"
  shows "\<exists>y. foldE f cs x = Inr y"
  using assms
proof (induction cs arbitrary: x)
  case (Cons c cs)
  from Cons.prems [of c x] obtain y where "f c x = Inr y" by auto
  with Cons show ?case by simp
qed simp

lemma copyArtifact_total: "aFrom a \<in> dom ds \<Longrightarrow> \<exists>st'. copyArtifact ds a st = Inr st'"
  by (auto simp: copyArtifact_def)

lemma buildStepOps_total:
  assumes "stepBuildable (dom (scDepStates shared)) s"
  shows "\<exists>r. buildStepOps be base s attempt shared = Inr r"
proof -
  obtain st where st: "foldE (copyArtifact (scDepStates shared)) (sArtifacts s) base = Inr st"
    using foldE_total [of "sArtifacts s" "copyArtifact (scDepStates shared)" base] assms copyArtifact_total
    unfolding stepBuildable_def by blast
  have "\<exists>r. foldE (runCommand be s shared attempt) (sRun s) r0 = Inr r" for r0
    using assms by (intro foldE_total) (simp add: stepBuildable_def runCommand_def Let_def)
  with st assms show ?thesis by (simp add: buildStepOps_def stepBuildable_def)
qed

lemma buildJob_total:
  assumes "jobBuildable j" "set (jDependsOn j) \<subseteq> dom states"
    "jPlatform j = [] \<or> bePlatform be (jPlatform j) \<noteq> None" "\<And>st. beMarshal be st \<noteq> None"
  shows "\<exists>jr. buildJob be j states jo = Inr jr"
proof -
  have "\<exists>st'. foldE (copyArtifact states) (jArtifacts j) st = Inr st'" for st
    using assms(1,2) by (intro foldE_total copyArtifact_total) (auto simp: jobBuildable_def)
  then obtain base where base: "jobBaseState be j states jo = Inr base"
    using assms(3) by (cases "jPlatform j = []") (fastforce simp: jobBaseState_def Let_def)+
  have "\<exists>opts. depMountOpts j states expose = Inr opts" for expose
    unfolding depMountOpts_def using assms(2) by (intro foldE_total) (auto simp: depMount_def)
  then obtain mounts where mounts: "depMountOpts j states (joExposeDeps jo) = Inr mounts" by blast
  have "stepBuildable (dom (scDepStates (sharedCtx j states jo mounts))) s" if "s \<in> set (jSteps j)" for s
    using that assms(1,2)
    by (simp add: jobBuildable_def stepBuildable_def sharedCtx_def Let_def) (meson subset_trans)
  then have "\<exists>acc'. foldE (buildStep be (sharedCtx j states jo mounts)) (jSteps j) acc = Inr acc'" for acc
    by (intro foldE_total) (use buildStepOps_total in \<open>fastforce simp: buildStep_def\<close>)
  then obtain acc where "foldE (buildStep be (sharedCtx j states jo mounts)) (jSteps j)
      (\<lparr>sbState = base, sbTimeouts = [], sbCmdInfos = []\<rparr>, []) = Inr acc" by blast
  with base mounts assms(4) [of "sbState (fst acc)"] show ?thesis by (auto simp: buildJob_def)
qed

lemma buildExportDef_total:
  "pathClean path \<notin> {''.'', ''/''} \<Longrightarrow> (\<And>st. beMarshal be st \<noteq> None) \<Longrightarrow> \<exists>d. buildExportDef be st path = Inr d"
  by (auto simp: buildExportDef_def Let_def split: option.splits)

text \<open>What a state of a job runs: its image, and the names of its vertices in order.\<close>

fun stateImage :: "llbState \<Rightarrow> string option" where
  "stateImage (LImage img opts) = Some img"
| "stateImage (LDir st d) = stateImage st"
| "stateImage (LAddEnv st k v) = stateImage st"
| "stateImage (LFile st f) = stateImage st"
| "stateImage (LRun st opts) = stateImage st"
| "stateImage st = None"

definition customNames :: "runOpt list \<Rightarrow> string list" where
  "customNames opts = concat (map (\<lambda>r. case r of WithCustomName n \<Rightarrow> [n] | _ \<Rightarrow> []) opts)"

fun stateVertices :: "llbState \<Rightarrow> string list" where
  "stateVertices (LRun st opts) = stateVertices st @ customNames opts"
| "stateVertices (LDir st d) = stateVertices st"
| "stateVertices (LAddEnv st k v) = stateVertices st"
| "stateVertices (LFile st f) = stateVertices st"
| "stateVertices st = []"

definition jobVertices :: "'ast Job \<Rightarrow> string list" where
  "jobVertices j = concat (map (\<lambda>s. map (\<lambda>c. jName j @ ''/'' @ sName s @ ''/'' @ c) (sRun s)) (jSteps j))"

lemma customNames_simps [simp]:
  "customNames [] = []" "customNames (xs @ ys) = customNames xs @ customNames ys"
  "customNames (WithCustomName n # xs) = n # customNames xs" "customNames (Args as # xs) = customNames xs"
  "customNames (AddMount t st os # xs) = customNames xs" "customNames (RunIgnoreCache # xs) = customNames xs"
  by (simp_all add: customNames_def)

lemma customNames_none: "(\<And>n. WithCustomName n \<notin> set xs) \<Longrightarrow> customNames xs = []"
  by (induction xs) (auto simp: customNames_def split: runOpt.splits)

lemma depMountOpts_names: "depMountOpts job depStates expose = Inr opts \<Longrightarrow> customNames opts = []"
  unfolding depMountOpts_def
  by (erule foldE_invariant) (auto simp: depMount_def split: option.splits if_splits)

lemma stepRunOpts_names:
  assumes "depMountOpts j states expose = Inr mounts" "customNames (joRunOpts jo) = []"
  shows "customNames (stepRunOpts be step (sharedCtx j states jo mounts) n cmd) = [jName j @ ''/'' @ sName step @ ''/'' @ cmd]"
proof -
  have mount: "customNames (buildMountRunOpts ms cs los) = []" "customNames (buildSecretRunOpts js ss) = []" for ms cs los js ss
    by (rule customNames_none, auto simp: buildMountRunOpts_def buildSecretRunOpts_def secretRefToRunOpt_def)+
  have "customNames (snd (jobCacheOpts j jo)) = []" using assms(2) by (simp add: jobCacheOpts_def)
  then show ?thesis
    using depMountOpts_names [OF assms(1)]
    by (simp add: stepRunOpts_def sharedCtx_def vertexName_def Let_def mount)
qed

lemma addEnvs_runs [simp]: "stateImage (addEnvs es st) = stateImage st" "stateVertices (addEnvs es st) = stateVertices st"
  unfolding addEnvs_def by (induction es arbitrary: st) simp_all

lemma setDir_runs [simp]: "stateImage (setDir d st) = stateImage st" "stateVertices (setDir d st) = stateVertices st"
  by (simp_all add: setDir_def)

lemma artifacts_runs: "foldE (copyArtifact ds) arts st = Inr st' \<Longrightarrow> stateImage st' = stateImage st \<and> stateVertices st' = stateVertices st"
  by (erule foldE_invariant [where P = "\<lambda>s. stateImage s = stateImage st \<and> stateVertices s = stateVertices st"])
    (auto simp: copyArtifact_def split: option.splits)

lemma buildJob_runs:
  assumes "buildJob be j states jo = Inr jr" "customNames (joRunOpts jo) = []"
  shows "stateImage (jrState jr) = Some (jImage j) \<and> stateVertices (jrState jr) = jobVertices j \<and>
    beMarshal be (jrState jr) = Some (jrDef jr)"
proof -
  from assms(1) obtain base mounts acc ds where base: "jobBaseState be j states jo = Inr base"
    and mounts: "depMountOpts j states (joExposeDeps jo) = Inr mounts"
    and run: "foldE (buildStep be (sharedCtx j states jo mounts)) (jSteps j)
       (\<lparr>sbState = base, sbTimeouts = [], sbCmdInfos = []\<rparr>, []) = Inr (acc, ds)"
    and jr: "jrState jr = sbState acc" "beMarshal be (sbState acc) = Some (jrDef jr)"
    by (auto simp: buildJob_def split: option.splits)
  have start: "stateImage base = Some (jImage j)" "stateVertices base = []"
    using base by (auto simp: jobBaseState_def Let_def split: if_splits option.splits dest!: artifacts_runs)
  let ?shared = "sharedCtx j states jo mounts"
  note names = stepRunOpts_names [OF mounts assms(2), of be]
  have cmds: "stateImage (sbState r') = stateImage (sbState r) \<and> stateVertices (sbState r') =
      stateVertices (sbState r) @ map (\<lambda>c. jName j @ ''/'' @ sName s @ ''/'' @ c) cs"
    if "foldE (runCommand be s ?shared n) cs r = Inr r'" for s n cs r r'
    using that by (induction cs arbitrary: r) (auto simp: runCommand_def names Let_def split: if_splits)
  have step: "stateImage (sbState r) = stateImage st \<and> stateVertices (sbState r) =
      stateVertices st @ map (\<lambda>c. jName j @ ''/'' @ sName s @ ''/'' @ c) (sRun s)"
    if "buildStepOps be st s n ?shared = Inr r" for s n st r
    using that by (auto simp: buildStepOps_def Let_def split: if_splits dest!: artifacts_runs cmds)
  have "stateImage (sbState (fst a')) = stateImage (sbState (fst a)) \<and> stateVertices (sbState (fst a')) =
      stateVertices (sbState (fst a)) @ concat (map (\<lambda>s. map (\<lambda>c. jName j @ ''/'' @ sName s @ ''/'' @ c) (sRun s)) steps)"
    if "foldE (buildStep be ?shared) steps a = Inr a'" for steps a a'
    using that by (induction steps arbitrary: a) (auto dest!: buildStep_Inr dest: step)
  from this [OF run] start jr show ?thesis by (simp add: jobVertices_def)
qed

text \<open>What the builder needs of a job besides its dependencies.\<close>

definition jobBuilds :: "'def builderEnv \<Rightarrow> 'ast Job \<Rightarrow> bool" where
  "jobBuilds be j \<longleftrightarrow> jobBuildable j \<and> (jPlatform j = [] \<or> bePlatform be (jPlatform j) \<noteq> None) \<and>
     (\<forall>x\<in>set (collectExports j). pathClean (xPath x) \<notin> {''.'', ''/''})"

text \<open>The definition of an export: a copy of the cleaned path, off a state, onto a mount of its own.
  A path with a trailing slash stands for the content of the directory.\<close>

definition exportedFrom :: "'def builderEnv \<Rightarrow> llbState \<Rightarrow> string \<Rightarrow> 'def \<Rightarrow> bool" where
  "exportedFrom be st path d \<longleftrightarrow> (\<exists>opts. beMarshal be (LRunMount st
     (Args (if suffix ''/'' path then [''cp'', ''-a'', pathClean path @ ''/.'', ''/cicada/export/'']
            else [''cp'', ''-a'', pathClean path, ''/cicada/export/'' @ pathBase (pathClean path)]) #
      AddMount ''/cicada/export'' LScratch [] # opts) ''/cicada/export'') = Some d)"

lemma buildExportDef_exported: "buildExportDef be st path = Inr d \<Longrightarrow> exportedFrom be st path d"
  by (auto simp: buildExportDef_def exportState_def exportedFrom_def Let_def split: if_splits option.splits)

text \<open>
  What has been built for a list of jobs: there is a state for each of them, built on the states
  of the jobs before it, that starts from the job's image and runs the commands of its steps in
  order; the definitions, outputs, exports and images are those of these states.
\<close>

definition jobExports :: "'ast Job list \<Rightarrow> ('ast Job \<times> Export) list" where
  "jobExports jobs = concat (map (\<lambda>j. map (Pair j) (collectExports j)) jobs)"

definition jobPublishes :: "'ast Job list \<Rightarrow> ('ast Job \<times> Publish) list" where
  "jobPublishes jobs = concat (map (\<lambda>j. case jPublish j of None \<Rightarrow> [] | Some pub \<Rightarrow> [(j, pub)]) jobs)"

definition builtJob :: "'def builderEnv \<Rightarrow> jobOpts \<Rightarrow> (string \<rightharpoonup> llbState) \<Rightarrow> 'ast Job \<Rightarrow> 'def \<Rightarrow> llbState \<Rightarrow> bool" where
  "builtJob be jo earlier j d st \<longleftrightarrow>
     (\<exists>jr. buildJob be j earlier jo = Inr jr \<and> jrState jr = st \<and> jrDef jr = d) \<and>
     beMarshal be st = Some d \<and> stateImage st = Some (jImage j) \<and> stateVertices st = jobVertices j"

definition builtWith :: "'def builderEnv \<Rightarrow> jobOpts \<Rightarrow> (string \<rightharpoonup> llbState) \<Rightarrow> 'ast Job list \<Rightarrow> 'def buildResult \<Rightarrow> bool" where
  "builtWith be jo states jobs res \<longleftrightarrow>
     brJobNames res = map jName jobs \<and> length (brDefinitions res) = length jobs \<and>
     (\<forall>i<length jobs. \<exists>st. states (jName (jobs ! i)) = Some st \<and>
        builtJob be jo (states |` (jName ` set (take i jobs))) (jobs ! i) (brDefinitions res ! i) st) \<and>
     dom (brOutputDefs res) = jName ` set jobs \<and>
     (\<forall>n d. brOutputDefs res n = Some d \<longrightarrow> exportedFrom be (the (states n)) ''/cicada/output'' d) \<and>
     list_all2 (\<lambda>(j, x) e. leJobName e = jName j \<and> leLocal e = xLocal x \<and> leDir e = suffix ''/'' (xPath x) \<and>
        exportedFrom be (the (states (jName j))) (xPath x) (leDefinition e)) (jobExports jobs) (brExports res) \<and>
     list_all2 (\<lambda>(j, pub) e. ieJobName e = jName j \<and> iePublish e = pub \<and> iePlatform e = jPlatform j \<and>
        beMarshal be (the (states (jName j))) = Some (ieDefinition e)) (jobPublishes jobs) (brImageExports res)"

definition built :: "'def builderEnv \<Rightarrow> jobOpts \<Rightarrow> 'ast Job list \<Rightarrow> 'def buildResult \<Rightarrow> bool" where
  "built be jo jobs res \<longleftrightarrow> (\<exists>states. dom states = jName ` set jobs \<and> builtWith be jo states jobs res)"

lemma exports_built:
  assumes "foldE (appendExport be j st) xs res = Inr res'"
  shows "\<exists>es. res' = res\<lparr>brExports := brExports res @ es\<rparr> \<and>
    list_all2 (\<lambda>x e. leJobName e = jName j \<and> leLocal e = xLocal x \<and> leDir e = suffix ''/'' (xPath x) \<and>
      exportedFrom be st (xPath x) (leDefinition e)) xs es"
  using assms
proof (induction xs arbitrary: res)
  case (Cons x xs)
  from Cons.prems obtain d where d: "buildExportDef be st (xPath x) = Inr d"
    and run: "foldE (appendExport be j st) xs (res\<lparr>brExports := brExports res @
         [\<lparr>leDefinition = d, leJobName = jName j, leLocal = xLocal x, leDir = suffix ''/'' (xPath x)\<rparr>]\<rparr>) = Inr res'"
    by (auto simp: appendExport_def [of be j st x])
  from Cons.IH [OF run] obtain es where "res' = res\<lparr>brExports := brExports res @
      \<lparr>leDefinition = d, leJobName = jName j, leLocal = xLocal x, leDir = suffix ''/'' (xPath x)\<rparr> # es\<rparr>"
    "list_all2 (\<lambda>x e. leJobName e = jName j \<and> leLocal e = xLocal x \<and> leDir e = suffix ''/'' (xPath x) \<and>
      exportedFrom be st (xPath x) (leDefinition e)) xs es" by auto
  with buildExportDef_exported [OF d] show ?case
    by (intro exI [of _ "\<lparr>leDefinition = d, leJobName = jName j, leLocal = xLocal x, leDir = suffix ''/'' (xPath x)\<rparr> # es"]) simp
qed (intro exI [of _ "[]"], simp)

text \<open>One more job: the states of the others stay, so what was built for them stays built.\<close>

lemma builtWith_snoc:
  assumes "builtWith be jo states js res" "dom states = jName ` set js" "jName j \<notin> dom states"
    and "builtJob be jo states j d st" "exportedFrom be st ''/cicada/output'' out"
    and "list_all2 (\<lambda>x e. leJobName e = jName j \<and> leLocal e = xLocal x \<and> leDir e = suffix ''/'' (xPath x) \<and>
      exportedFrom be st (xPath x) (leDefinition e)) (collectExports j) es"
    and "brJobNames res' = brJobNames res @ [jName j]" "brDefinitions res' = brDefinitions res @ [d]"
    and "brOutputDefs res' = (brOutputDefs res)(jName j \<mapsto> out)" "brExports res' = brExports res @ es"
    and "brImageExports res' = brImageExports res @ (case jPublish j of None \<Rightarrow> [] | Some pub \<Rightarrow>
      [\<lparr>ieDefinition = d, ieJobName = jName j, iePublish = pub, iePlatform = jPlatform j\<rparr>])"
  shows "builtWith be jo (states(jName j \<mapsto> st)) (js @ [j]) res'"
proof -
  let ?S = "states(jName j \<mapsto> st)"
  have old: "jName k \<noteq> jName j" if "k \<in> set js" for k using that assms(2,3) by (metis imageI)
  have keep: "?S |` (jName ` set (take i js)) = states |` (jName ` set (take i js))" for i
  proof -
    have "jName j \<notin> jName ` set (take i js)" using assms(2,3) by (auto dest: in_set_takeD)
    then show ?thesis by (auto simp: restrict_map_def fun_eq_iff)
  qed
  have all: "?S |` (jName ` set js) = states"
    unfolding assms(2) [symmetric] by (rule ext) (use assms(3) in \<open>auto simp: restrict_map_def domIff\<close>)
  have jobs: "\<exists>st'. ?S (jName ((js @ [j]) ! i)) = Some st' \<and> builtJob be jo (?S |` (jName ` set (take i (js @ [j]))))
      ((js @ [j]) ! i) (brDefinitions res' ! i) st'" if "i < length (js @ [j])" for i
  proof (cases "i = length js")
    case True
    with assms(1,4,8) show ?thesis by (simp add: all builtWith_def nth_append del: restrict_fun_upd)
  next
    case False
    with that have i: "i < length js" by simp
    with assms(1) obtain st' where st': "states (jName (js ! i)) = Some st'"
      "builtJob be jo (states |` (jName ` set (take i js))) (js ! i) (brDefinitions res ! i) st'"
      unfolding builtWith_def by blast
    moreover have "length (brDefinitions res) = length js" using assms(1) by (simp add: builtWith_def)
    ultimately show ?thesis
      using i old [OF nth_mem [OF i]] by (simp add: assms(8) nth_append keep del: restrict_fun_upd)
  qed
  have known: "k \<in> set js" if "(k, x) \<in> set (jobExports js) \<or> (k, pub) \<in> set (jobPublishes js)" for k x pub
    using that by (auto simp: jobExports_def jobPublishes_def split: option.splits)
  have exports: "list_all2 (\<lambda>(j, x) e. leJobName e = jName j \<and> leLocal e = xLocal x \<and> leDir e = suffix ''/'' (xPath x) \<and>
      exportedFrom be (the (?S (jName j))) (xPath x) (leDefinition e)) (jobExports (js @ [j])) (brExports res')"
  proof -
    have "jobExports (js @ [j]) = jobExports js @ map (Pair j) (collectExports j)" by (simp add: jobExports_def)
    moreover have "list_all2 (\<lambda>(j, x) e. leJobName e = jName j \<and> leLocal e = xLocal x \<and> leDir e = suffix ''/'' (xPath x) \<and>
      exportedFrom be (the (?S (jName j))) (xPath x) (leDefinition e)) (jobExports js) (brExports res)"
      using assms(1) known old unfolding builtWith_def by (elim conjE) (erule list.rel_mono_strong, fastforce)
    moreover have "list_all2 (\<lambda>(j, x) e. leJobName e = jName j \<and> leLocal e = xLocal x \<and> leDir e = suffix ''/'' (xPath x) \<and>
      exportedFrom be (the (?S (jName j))) (xPath x) (leDefinition e)) (map (Pair j) (collectExports j)) es"
      using assms(6) by (simp add: list_all2_map1)
    ultimately show ?thesis by (simp add: assms(10) list_all2_appendI)
  qed
  have images: "list_all2 (\<lambda>(j, pub) e. ieJobName e = jName j \<and> iePublish e = pub \<and> iePlatform e = jPlatform j \<and>
        beMarshal be (the (?S (jName j))) = Some (ieDefinition e)) (jobPublishes (js @ [j])) (brImageExports res')"
  proof -
    have "list_all2 (\<lambda>(j, pub) e. ieJobName e = jName j \<and> iePublish e = pub \<and> iePlatform e = jPlatform j \<and>
        beMarshal be (the (?S (jName j))) = Some (ieDefinition e)) (jobPublishes js) (brImageExports res)"
      using assms(1) known old unfolding builtWith_def by (elim conjE) (erule list.rel_mono_strong, fastforce)
    then show ?thesis
      using assms(4) by (simp add: assms(11) jobPublishes_def builtJob_def list_all2_appendI split: option.splits)
  qed
  have outs: "dom (brOutputDefs res') = jName ` set (js @ [j])"
    "\<forall>n d. brOutputDefs res' n = Some d \<longrightarrow> exportedFrom be (the (?S n)) ''/cicada/output'' d"
    using assms(1,5) by (auto simp: assms(9) builtWith_def)
  from assms(1) have lens: "brJobNames res' = map jName (js @ [j])" "length (brDefinitions res') = length (js @ [j])"
    by (simp_all add: assms(7,8) builtWith_def)
  show ?thesis unfolding builtWith_def using lens jobs outs exports images by blast
qed

lemma appendJob_total:
  assumes "jobBuilds be j" "set (jDependsOn j) \<subseteq> dom states" "\<And>st. beMarshal be st \<noteq> None" "builtWith be jo states js res"
    "dom states = jName ` set js" "jName j \<notin> dom states" "customNames (joRunOpts jo) = []"
  shows "\<exists>st res'. appendJob be jo j (states, res) = Inr (states(jName j \<mapsto> st), res') \<and>
    builtWith be jo (states(jName j \<mapsto> st)) (js @ [j]) res'"
proof -
  obtain jr where jr: "buildJob be j states jo = Inr jr"
    using buildJob_total [OF _ assms(2) _ assms(3), where jo = jo] assms(1) by (auto simp: jobBuilds_def)
  have job: "builtJob be jo states j (jrDef jr) (jrState jr)"
    using jr buildJob_runs [OF jr assms(7)] by (simp add: builtJob_def)
  have out: "pathClean ''/cicada/output'' \<notin> {''.'', ''/''}" by code_simp
  obtain d where d: "buildExportDef be (jrState jr) ''/cicada/output'' = Inr d"
    using buildExportDef_total [OF out assms(3)] by blast
  have "\<exists>r'. foldE (appendExport be j (jrState jr)) (collectExports j) r = Inr r'" for r
    using assms(1) buildExportDef_total [OF _ assms(3)]
    by (intro foldE_total) (fastforce simp: appendExport_def jobBuilds_def)
  then obtain f where f: "\<And>r. foldE (appendExport be j (jrState jr)) (collectExports j) r = Inr (f r)" by metis
  define res1 where "res1 = res\<lparr>brDefinitions := brDefinitions res @ [jrDef jr], brJobNames := brJobNames res @ [jName j],
     brStepTimeouts := (brStepTimeouts res)(jName j \<mapsto> jrStepTimeouts jr),
     brCmdInfos := (brCmdInfos res)(jName j \<mapsto> jrCmdInfos jr)\<rparr>"
  define res2 where "res2 = (case jrStepDefs jr of None \<Rightarrow> res1 | Some sds \<Rightarrow>
      res1\<lparr>brStepDefs := (brStepDefs res1)(jName j \<mapsto> sds), brBaseStates := (brBaseStates res1)(jName j \<mapsto> jrBaseState jr)\<rparr>)"
  define mid where "mid = res2\<lparr>brOutputDefs := (brOutputDefs res2)(jName j \<mapsto> d)\<rparr>"
  define final where "final = (case jPublish j of None \<Rightarrow> f mid | Some pub \<Rightarrow>
      (f mid)\<lparr>brImageExports := brImageExports (f mid) @
        [\<lparr>ieDefinition = jrDef jr, ieJobName = jName j, iePublish = pub, iePlatform = jPlatform j\<rparr>]\<rparr>)"
  have run: "appendJob be jo j (states, res) = Inr (states(jName j \<mapsto> jrState jr), final)"
    unfolding appendJob_def by (simp only: fst_conv snd_conv jr bindE_simps Let_def d f final_def mid_def res2_def res1_def)
  from exports_built [OF f [of mid]] obtain es where es: "f mid = mid\<lparr>brExports := brExports mid @ es\<rparr>"
    "list_all2 (\<lambda>x e. leJobName e = jName j \<and> leLocal e = xLocal x \<and> leDir e = suffix ''/'' (xPath x) \<and>
      exportedFrom be (jrState jr) (xPath x) (leDefinition e)) (collectExports j) es" by blast
  have mid: "brJobNames mid = brJobNames res @ [jName j]" "brDefinitions mid = brDefinitions res @ [jrDef jr]"
    "brOutputDefs mid = (brOutputDefs res)(jName j \<mapsto> d)" "brExports mid = brExports res"
    "brImageExports mid = brImageExports res"
    by (cases "jrStepDefs jr"; simp add: mid_def res2_def res1_def)+
  have frame: "brJobNames final = brJobNames res @ [jName j]" "brDefinitions final = brDefinitions res @ [jrDef jr]"
    "brOutputDefs final = (brOutputDefs res)(jName j \<mapsto> d)" "brExports final = brExports res @ es"
    "brImageExports final = brImageExports res @ (case jPublish j of None \<Rightarrow> [] | Some pub \<Rightarrow>
      [\<lparr>ieDefinition = jrDef jr, ieJobName = jName j, iePublish = pub, iePlatform = jPlatform j\<rparr>])"
    by (cases "jPublish j"; simp add: final_def es(1) mid)+
  from builtWith_snoc [OF assms(4,5,6) job buildExportDef_exported [OF d] es(2) frame] run show ?thesis by blast
qed

text \<open>The loop over the order: every prefix has built the jobs it lists.\<close>

lemma build_prefix:
  assumes "\<And>j. j \<in> set js \<Longrightarrow> jobBuilds be j" "\<And>st. beMarshal be st \<noteq> None"
    "\<And>us j vs. js = us @ j # vs \<Longrightarrow> set (jDependsOn j) \<subseteq> jName ` set us"
    "distinct (map jName js)" "customNames (joRunOpts jo) = []"
  shows "\<exists>states res. foldE (appendJob be jo) js (Map.empty, emptyResult secrets) = Inr (states, res) \<and>
    dom states = jName ` set js \<and> builtWith be jo states js res"
  using assms(1,3,4)
proof (induction js rule: rev_induct)
  case (snoc j js)
  have "js = us @ k # vs \<Longrightarrow> set (jDependsOn k) \<subseteq> jName ` set us" for us k vs
    using snoc.prems(2) [of us k "vs @ [j]"] by simp
  with snoc.IH snoc.prems(1,3) obtain states res where
    run: "foldE (appendJob be jo) js (Map.empty, emptyResult secrets) = Inr (states, res)"
    and inv: "dom states = jName ` set js" "builtWith be jo states js res" by force
  have deps: "set (jDependsOn j) \<subseteq> dom states" using snoc.prems(2) [of js j "[]"] inv(1) by simp
  have "jobBuilds be j" "jName j \<notin> dom states" using snoc.prems(1,3) inv(1) by auto
  from appendJob_total [OF this(1) deps assms(2) inv(2,1) this(2) assms(5)] run inv(1) show ?case by auto
qed (simp add: emptyResult_def builtWith_def jobExports_def jobPublishes_def)

lemma before_split: "before xs k i \<Longrightarrow> xs = us @ i # vs \<Longrightarrow> distinct xs \<Longrightarrow> k \<in> set us"
  by (auto simp: before_def append_eq_append_conv2 Cons_eq_append_conv append_eq_Cons_conv)

lemma jobOk_buildable: "jobOk cel declared j \<Longrightarrow> jobBuildable j"
  by (auto simp: jobOk_def stepOk_def artifactsOk_def artifactOk_def jobBuildable_def stepBuildable_def)

lemma erase_buildable: "eraseJob j = eraseJob k \<Longrightarrow> jobBuildable j = jobBuildable k"
proof -
  assume e: "eraseJob j = eraseJob k"
  have "jArtifacts (eraseJob j) = jArtifacts (eraseJob k)" "jDependsOn (eraseJob j) = jDependsOn (eraseJob k)"
    "jSteps (eraseJob j) = jSteps (eraseJob k)" using e by simp_all
  then have f: "jArtifacts j = jArtifacts k" "jDependsOn j = jDependsOn k"
    "map eraseStep (jSteps j) = map eraseStep (jSteps k)" by (simp_all add: eraseJob_def)
  have "stepBuildable D s = stepBuildable D (eraseStep s)" for D and s :: "'a Step"
    by (simp add: stepBuildable_def eraseStep_def)
  then have all: "(\<forall>s\<in>set (jSteps x). stepBuildable D s) \<longleftrightarrow> list_all (stepBuildable D) (map eraseStep (jSteps x))"
    for x :: "'a Job" and D by (simp add: list_all_iff)
  show ?thesis unfolding jobBuildable_def all f ..
qed

lemma validOrder_iff: "validOrder order n \<longleftrightarrow> length order = n \<and> distinct order \<and> set order \<subseteq> {..<n}"
proof -
  have "validOrderFrom order n seen \<longleftrightarrow> distinct order \<and> set order \<subseteq> {..<n} \<and> set order \<inter> seen = {}" for seen
    by (induction order n seen rule: validOrderFrom.induct) auto
  then show ?thesis by (simp add: validOrder_def)
qed

lemma Validate_topo:
  assumes "Validate cel (Some p) = (Some pl, Inr order)"
  shows "pTopoOrder pl = Some order \<and> distinct order \<and> set order = {..<length (pJobs pl)} \<and>
    (\<forall>us i vs. order = us @ i # vs \<longrightarrow> set (jDependsOn (pJobs pl ! i)) \<subseteq> jName ` set (map ((!) (pJobs pl)) us))"
proof -
  from assms obtain jobs where pl: "pJobs pl = jobs" "pTopoOrder pl = Some order"
    and v: "validateJobs cel (secretDeclSet (pSecrets p)) 0 Map.empty (pJobs p) = (jobs, Inr (nameIndex (pJobs p)))"
    and d: "distinct (jobNames (pJobs p))" and t: "topoSort jobs (nameIndex (pJobs p)) = Inr order"
    by (auto simp: Validate_Inr)
  note g = validateJobs_graph [OF v]
  from t g have ts: "topoSort jobs (nameIndex jobs) = Inr order" by simp
  note o = topoSort_order [OF ts]
  have d': "distinct (jobNames jobs)" using d g(2) by simp
  have known: "set (jDependsOn (jobs ! i)) \<subseteq> set (jobNames jobs)" if "i < length jobs" for i
    using topoSort_Inr [OF d'] ts that unfolding depsOk_def by (meson nth_mem)
  have "set (jDependsOn (jobs ! i)) \<subseteq> jName ` set (map ((!) jobs) us)" if ord: "order = us @ i # vs" for us i vs
  proof
    fix n
    assume n: "n \<in> set (jDependsOn (jobs ! i))"
    from ord o(2) have i: "i < length jobs" by auto
    have "n \<in> jName ` set jobs" using known [OF i] n by (auto simp: jobNames_def)
    then obtain k where k: "k < length jobs" "n = jName (jobs ! k)" by (metis imageE in_set_conv_nth)
    with n i d' have "before order k i" by (intro o(3)) (simp add: jobEdge_iff)
    then have "k \<in> set us" using ord o(1) by (rule before_split)
    with k show "n \<in> jName ` set (map ((!) jobs) us)" by auto
  qed
  with pl o show ?thesis by simp
qed

lemma Validate_buildable:
  assumes "Validate cel (Some p) = (Some pl, Inr order)" "j \<in> set (pJobs pl)"
  shows "jobBuildable j"
proof -
  from assms(1) obtain jobs where jobs: "pJobs pl = jobs"
    "validateJobs cel (secretDeclSet (pSecrets p)) 0 Map.empty (pJobs p) = (jobs, Inr (nameIndex (pJobs p)))"
    and ok: "\<forall>j\<in>set (pJobs p). jobOk cel (secretDeclSet (pSecrets p)) j"
    by (auto simp: Validate_Inr)
  from validateJobs_erase [of cel "secretDeclSet (pSecrets p)" 0 Map.empty "pJobs p"] jobs
  have e: "map eraseJob jobs = map eraseJob (pJobs p)" by simp
  from assms(2) jobs(1) obtain i where i: "i < length jobs" "j = jobs ! i" by (auto simp: in_set_conv_nth)
  with arg_cong [OF e, of "\<lambda>xs. xs ! i"] arg_cong [OF e, of length]
  have "eraseJob j = eraseJob (pJobs p ! i)" "i < length (pJobs p)" by auto
  with ok jobOk_buildable erase_buildable show ?thesis by (metis nth_mem)
qed

lemma Validate_distinct: "Validate cel (Some p) = (Some pl, Inr order) \<Longrightarrow> distinct (jobNames (pJobs pl))"
  by (auto simp: Validate_Inr dest: validateJobs_graph)

lemma Build_of_valid:
  assumes "Validate cel (Some p) = (Some pl, Inr order)"
    "\<forall>j\<in>set (pJobs pl). jPlatform j = [] \<or> bePlatform be (jPlatform j) \<noteq> None" "\<forall>st. beMarshal be st \<noteq> None"
    "\<forall>j\<in>set (pJobs pl). \<forall>x\<in>set (collectExports j). pathClean (xPath x) \<notin> {''.'', ''/''}"
    and q: "orderOf cel q = Inr (pl, order)"
  shows "\<exists>res. Build cel be q opts = Inr res \<and> built be (jobOptsOf opts (pEnv pl)) (map ((!) (pJobs pl)) order) res \<and>
    mset order = mset [0..<length (pJobs pl)]"
proof -
  let ?jobs = "pJobs pl"
  from Validate_topo [OF assms(1)] have o: "pTopoOrder pl = Some order" "distinct order" "set order = {..<length ?jobs}"
    and b: "\<And>us i vs. order = us @ i # vs \<Longrightarrow> set (jDependsOn (?jobs ! i)) \<subseteq> jName ` set (map ((!) ?jobs) us)"
    by auto
  have js: "set (map ((!) ?jobs) order) = set ?jobs" by (auto simp: o(3) in_set_conv_nth)
  have "\<exists>states res. foldE (appendJob be (jobOptsOf opts (pEnv pl))) (map ((!) ?jobs) order)
      (Map.empty, emptyResult (pSecrets pl)) = Inr (states, res) \<and>
      dom states = jName ` set (map ((!) ?jobs) order) \<and> builtWith be (jobOptsOf opts (pEnv pl)) states (map ((!) ?jobs) order) res"
  proof (rule build_prefix)
    show "jobBuilds be j" if "j \<in> set (map ((!) ?jobs) order)" for j
      using that assms(2,4) Validate_buildable [OF assms(1)] unfolding js jobBuilds_def by blast
    show "set (jDependsOn j) \<subseteq> jName ` set us" if "map ((!) ?jobs) order = us @ j # vs" for us j vs
    proof -
      from that obtain us' i vs' where "order = us' @ i # vs'" "us = map ((!) ?jobs) us'" "j = ?jobs ! i"
        by (auto simp: map_eq_append_conv map_eq_Cons_conv)
      with b [OF this(1)] show ?thesis by simp
    qed
    have "inj_on (\<lambda>i. jName (?jobs ! i)) {..<length ?jobs}"
      using Validate_distinct [OF assms(1)] by (auto simp: inj_on_def jobNames_def distinct_conv_nth)
    then show "distinct (map jName (map ((!) ?jobs) order))" using o(2,3) by (simp add: distinct_map comp_def)
  qed (use assms(3) in \<open>simp_all add: jobOptsOf_def customNames_def\<close>)
  moreover have "foldE (\<lambda>idx. appendJob be jo (?jobs ! idx)) order x = foldE (appendJob be jo) (map ((!) ?jobs) order) x"
    for jo x by (induction order arbitrary: x) (simp_all add: bindE_def split: sum.splits)
  moreover have "mset order = mset [0..<length ?jobs]"
    using o(2,3) by (metis distinct_upt lessThan_atLeast0 set_eq_iff_mset_eq_distinct set_upt)
  ultimately show ?thesis by (auto simp: Build_def q built_def)
qed

lemma orderOf_valid:
  assumes "Validate cel (Some p) = (Some pl, Inr order)"
  shows "orderOf cel pl = Inr (pl, order)"
proof -
  from Validate_topo [OF assms] have o: "pTopoOrder pl = Some order" "distinct order" "set order = {..<length (pJobs pl)}"
    by auto
  then have "length order = length (pJobs pl)" by (metis card_lessThan distinct_card)
  with o show ?thesis by (auto simp: orderOf_def validOrder_iff)
qed

text \<open>C10: what \<^verbatim>\<open>Validate\<close> accepts, \<^verbatim>\<open>Build\<close> builds. After a successful validation the builder uses
  the stored order, finds the state of every dependency and artifact source, and succeeds
  whenever the platforms parse, states can be marshalled and no export path cleans to the
  root. Each job gets a state that starts from its image and runs the commands of its steps in
  order, built on the states of the jobs before it. The definitions are those of these states,
  one for each job in the stored order; the output definition of a job copies its output file
  off its state; and each export of the jobs and their steps, in that order, copies the path it
  names off the state of its job, to the local path it names. A published image is the state
  of its job.\<close>

theorem Build_validated:
  assumes "Validate cel (Some p) = (Some pl, Inr order)"
    "\<forall>j\<in>set (pJobs pl). jPlatform j = [] \<or> bePlatform be (jPlatform j) \<noteq> None" "\<forall>st. beMarshal be st \<noteq> None"
    "\<forall>j\<in>set (pJobs pl). \<forall>x\<in>set (collectExports j). pathClean (xPath x) \<notin> {''.'', ''/''}"
  shows "\<exists>res. Build cel be pl opts = Inr res \<and> built be (jobOptsOf opts (pEnv pl)) (map ((!) (pJobs pl)) order) res \<and>
    mset order = mset [0..<length (pJobs pl)]"
  by (rule Build_of_valid [OF assms orderOf_valid [OF assms(1)]])

section \<open>Examples\<close>

definition sampleBuilder :: "llbState builderEnv" where
  "sampleBuilder = \<lparr>bePlatform = Some, beMarshal = Some, beSeconds = (\<lambda>d. ''1'')\<rparr>"

definition plainOpts :: BuildOpts where
  "plainOpts = \<lparr>boNoCache = False, boNoCacheFilter = {}, boExcludePatterns = [], boMetaResolver = False,
                boExposeDeps = False\<rparr>"

theorem Build_validated_witness:
  "\<exists>pl res. Validate sampleCel (Some samplePipeline) = (Some pl, Inr [1, 0]) \<and>
     Build sampleCel sampleBuilder pl plainOpts = Inr res \<and> brJobNames res = map (\<lambda>i. jName (pJobs pl ! i)) [1, 0]"
proof -
  from sample_valid obtain q where "Validate sampleCel (Some samplePipeline) = (q, Inr [1, 0])"
    by (metis prod.collapse)
  moreover from this obtain pl where "q = Some pl" by (auto simp: Validate_Inr)
  ultimately have v: "Validate sampleCel (Some samplePipeline) = (Some pl, Inr [1, 0])" by simp
  have "map_option (\<lambda>pl. concat (map collectExports (pJobs pl))) (fst (Validate sampleCel (Some samplePipeline))) = Some []"
    by code_simp
  with v have "\<forall>j\<in>set (pJobs pl). collectExports j = []" by auto
  with Build_validated [OF v, where be = sampleBuilder and opts = plainOpts] v show ?thesis
    by (auto simp: sampleBuilder_def built_def builtWith_def)
qed

definition retryJobSample :: "unit Job" where
  "retryJobSample = zeroJob\<lparr>jName := ''j'', jImage := ''alpine'', jSteps :=
     [zeroStep\<lparr>sName := ''a'', sRun := [''x''], sEnv := [\<lparr>eKey = ''CICADA_OUTPUT'', eValue = ''/tmp/o''\<rparr>]\<rparr>,
      zeroStep\<lparr>sName := ''b'', sRun := [''y''], sAllowFailure := True\<rparr>]\<rparr>"

lemma retryJobSample_builds:
  "map_sum id (\<lambda>jr. (map_option (map stName) (jrStepDefs jr), recordedEnv (jrState jr) ''CICADA_OUTPUT''))
     (buildJob sampleBuilder retryJobSample Map.empty (jobOptsOf plainOpts [])) =
   Inr (Some [''a'', ''b''], Some ''/tmp/o'')"
  by code_simp

theorem stepDefs_equiv_witness:
  "\<exists>jr sds. buildJob sampleBuilder retryJobSample Map.empty (jobOptsOf plainOpts []) = Inr jr \<and>
     jrStepDefs jr = Some sds \<and> runSteps sds (jrBaseState jr) = Inr (jrState jr)"
proof -
  from retryJobSample_builds obtain jr sds where
    "buildJob sampleBuilder retryJobSample Map.empty (jobOptsOf plainOpts []) = Inr jr" "jrStepDefs jr = Some sds"
    by (cases "buildJob sampleBuilder retryJobSample Map.empty (jobOptsOf plainOpts [])") auto
  with stepDefs_equiv [OF this(1)] show ?thesis by auto
qed

theorem step_cache_control_witness:
  "cacheOffs (stepRunOpts sampleBuilder (zeroStep\<lparr>sNoCache := True\<rparr> :: unit Step)
     (sharedCtx retryJobSample Map.empty (jobOptsOf (plainOpts\<lparr>boNoCache := True\<rparr>) []) []) 0 ''x'') = 1"
proof -
  have "depMountOpts retryJobSample Map.empty False = Inr []" by code_simp
  from step_cache_control [OF this, of sampleBuilder "zeroStep\<lparr>sNoCache := True\<rparr>" "plainOpts\<lparr>boNoCache := True\<rparr>" "[]" 0 "''x''"]
  show ?thesis by (simp add: plainOpts_def)
qed

lemma TrimSpace_x: "TrimSpace ''x'' = ''x''" "TrimSpace ''y'' = ''y''"
  by code_simp+

definition envJobSample :: "unit Job" where
  "envJobSample = zeroJob\<lparr>jName := ''j'', jImage := ''alpine'', jEnv := [\<lparr>eKey = ''MODE'', eValue = ''job''\<rparr>],
     jSteps := [zeroStep\<lparr>sName := ''a'', sRun := [''x'']\<rparr>,
       zeroStep\<lparr>sName := ''b'', sRun := [''y''], sEnv := [\<lparr>eKey = ''LEVEL'', eValue = ''2''\<rparr>]\<rparr>]\<rparr>"


end
