(* ===== verification/File_Sync.thy ===== *)
theory File_Sync
  imports Go_Maps Go_Path
begin

text \<open>
  \<^verbatim>\<open>internal/filesync\<close>: the persistent cache of file hashes and the file-system wrapper that fills
  it during a walk. The walk of the wrapped file system, its files, JSON, SHA-256 and the disk
  are arguments.
\<close>

section \<open>The hash cache (cache.go)\<close>

definition cacheVersion :: int where
  "cacheVersion = 1"

record cacheEntry =
  ceSize :: int
  ceModTime :: int
  ceHash :: string

record cacheFile =
  cfVersion :: int
  cfEntries :: "(string, cacheEntry) gomap option"

record HashCache =
  hcEntries :: "(string, cacheEntry) gomap"
  hcPath :: string

text \<open>The calls of \<^verbatim>\<open>Save\<close> that touch the disk, each of which may fail.\<close>

datatype ioStep = MkdirAll | CreateTemp | WriteTmp | SyncTmp | CloseTmp | RenameTmp | RemoveTmp

datatype cacheErr = ErrCacheCorrupt | ReadFailed | MarshalFailed | IoFailed ioStep | AbsFailed | NoCacheDir

text \<open>
  \<open>hexSha\<close> is \<^verbatim>\<open>hex.EncodeToString\<close> of the SHA-256 digest, \<open>absOf\<close> is \<^verbatim>\<open>filepath.Abs\<close> and
  \<open>cacheDir\<close> is \<^verbatim>\<open>os.UserCacheDir\<close>.
\<close>

definition CachePath ::
  "(string \<Rightarrow> string) \<Rightarrow> (string \<Rightarrow> string option) \<Rightarrow> string option \<Rightarrow> string \<Rightarrow> cacheErr + string" where
  "CachePath hexSha absOf cacheDir workdir =
     (case absOf workdir of
        None \<Rightarrow> Inl AbsFailed
      | Some full \<Rightarrow>
          (case cacheDir of
             None \<Rightarrow> Inl NoCacheDir
           | Some base \<Rightarrow> Inr (pathJoin [base, ''cicada'', ''sync'', hexSha full @ ''.json''])))"

definition NewHashCache :: "string \<Rightarrow> HashCache" where
  "NewHashCache filePath = \<lparr>hcEntries = [], hcPath = filePath\<rparr>"

text \<open>What \<^verbatim>\<open>os.ReadFile\<close> finds at the path of the cache, and JSON decoding.\<close>

datatype diskFile = NoFile | Unreadable | Content string

definition Load :: "(string \<Rightarrow> cacheFile option) \<Rightarrow> diskFile \<Rightarrow> HashCache \<Rightarrow> HashCache \<times> cacheErr option" where
  "Load decode disk c =
     (case disk of
        NoFile \<Rightarrow> (c, None)
      | Unreadable \<Rightarrow> (c, Some ReadFailed)
      | Content data \<Rightarrow>
          (case decode data of
             None \<Rightarrow> (c, Some ErrCacheCorrupt)
           | Some f \<Rightarrow>
               if cfVersion f \<noteq> cacheVersion then (c, Some ErrCacheCorrupt)
               else (c\<lparr>hcEntries := (case cfEntries f of None \<Rightarrow> [] | Some es \<Rightarrow> es)\<rparr>, None)))"

text \<open>
  The disk as \<^verbatim>\<open>Save\<close> sees it: the file at the path of the cache, and how many temporary files
  of earlier calls are left beside it. \<open>io\<close> says which of the calls succeed.
\<close>

record diskState =
  dsTarget :: diskFile
  dsTemps :: nat

definition Save ::
  "(cacheFile \<Rightarrow> string option) \<Rightarrow> (ioStep \<Rightarrow> bool) \<Rightarrow> diskState \<Rightarrow> HashCache \<Rightarrow>
   diskState \<times> cacheErr option" where
  "Save encode io disk c =
     (case encode \<lparr>cfVersion = cacheVersion, cfEntries = Some (mapsCopy [] (hcEntries c))\<rparr> of
        None \<Rightarrow> (disk, Some MarshalFailed)
      | Some data \<Rightarrow>
          if \<not> io MkdirAll then (disk, Some (IoFailed MkdirAll))
          else if \<not> io CreateTemp then (disk, Some (IoFailed CreateTemp))
          else
            let removed = (if io RemoveTmp then disk else disk\<lparr>dsTemps := dsTemps disk + 1\<rparr>)
            in if \<not> io WriteTmp then (removed, Some (IoFailed WriteTmp))
               else if \<not> io SyncTmp then (removed, Some (IoFailed SyncTmp))
               else if \<not> io CloseTmp then (removed, Some (IoFailed CloseTmp))
               else if \<not> io RenameTmp then (removed, Some (IoFailed RenameTmp))
               else (disk\<lparr>dsTarget := Content data\<rparr>, None))"

definition Lookup :: "string \<Rightarrow> int \<Rightarrow> int \<Rightarrow> HashCache \<Rightarrow> string option" where
  "Lookup path mtime sz c =
     (case map_of (hcEntries c) path of
        None \<Rightarrow> None
      | Some e \<Rightarrow> if ceModTime e \<noteq> mtime \<or> ceSize e \<noteq> sz then None else Some (ceHash e))"

definition Update :: "string \<Rightarrow> int \<Rightarrow> int \<Rightarrow> string \<Rightarrow> HashCache \<Rightarrow> HashCache" where
  "Update path mtime sz hash c =
     c\<lparr>hcEntries := mput path \<lparr>ceSize = sz, ceModTime = mtime, ceHash = hash\<rparr> (hcEntries c)\<rparr>"

definition Prune :: "string set \<Rightarrow> HashCache \<Rightarrow> HashCache" where
  "Prune seen c = c\<lparr>hcEntries := filter (\<lambda>(path, _). path \<in> seen) (hcEntries c)\<rparr>"

section \<open>The interface of the cache\<close>

text \<open>What the walk relies on, for any store of hashes.\<close>

locale hash_store =
  fixes lookup :: "string \<Rightarrow> int \<Rightarrow> int \<Rightarrow> 'c \<Rightarrow> string option"
    and update :: "string \<Rightarrow> int \<Rightarrow> int \<Rightarrow> string \<Rightarrow> 'c \<Rightarrow> 'c"
    and prune :: "string set \<Rightarrow> 'c \<Rightarrow> 'c"
    and inv :: "'c \<Rightarrow> bool"
  assumes lookup_update: "inv c \<Longrightarrow> lookup p t n (update p' t' n' h c) =
      (if p = p' then (if t = t' \<and> n = n' then Some h else None) else lookup p t n c)"
    and lookup_prune: "inv c \<Longrightarrow> lookup p t n (prune S c) = (if p \<in> S then lookup p t n c else None)"
    and inv_update: "inv c \<Longrightarrow> inv (update p t n h c)"
    and inv_prune: "inv c \<Longrightarrow> inv (prune S c)"
begin

text \<open>A store is sound for a function from path, time and size to hashes.\<close>

definition sound :: "(string \<Rightarrow> int \<Rightarrow> int \<Rightarrow> string) \<Rightarrow> 'c \<Rightarrow> bool" where
  "sound H c \<longleftrightarrow> inv c \<and> (\<forall>p t n h. lookup p t n c = Some h \<longrightarrow> h = H p t n)"

lemma sound_update: "sound H c \<Longrightarrow> sound H (update p t n (H p t n) c)"
  by (auto simp: sound_def lookup_update inv_update split: if_splits)

lemma sound_prune: "sound H c \<Longrightarrow> sound H (prune S c)"
  by (auto simp: sound_def lookup_prune inv_prune split: if_splits)

end

lemma map_of_filter_keys: "map_of (filter (\<lambda>(p, _). p \<in> S) m) k = (if k \<in> S then map_of m k else None)"
  by (induction m) auto

interpretation store: hash_store Lookup Update Prune "\<lambda>c. wfmap (hcEntries c)"
proof
  fix c :: HashCache and S
  assume "wfmap (hcEntries c)"
  then show "wfmap (hcEntries (Prune S c))" by (auto simp: Prune_def wfmap_def split_def)
qed (auto simp: Lookup_def Update_def Prune_def map_of_filter_keys split: option.splits)

section \<open>The walk (hashfs.go)\<close>

text \<open>
  A call of the walk's callback: the path, whether the wrapped callback \<^verbatim>\<open>fn\<close> failed, whether the
  walk reported an error for the entry, and the entry. \<open>deStat\<close> is the modification time and
  the size, when \<^verbatim>\<open>Info\<close> succeeds and has the expected type.
\<close>

record dirEntry =
  deRegular :: bool
  deStat :: "(int \<times> int) option"

record walkCall =
  wcPath :: string
  wcFnErr :: bool
  wcWalkErr :: bool
  wcEntry :: "dirEntry option"

record syncMetrics =
  smFilesWalked :: int
  smFilesHashed :: int
  smCacheHits :: int

record walkState =
  wsCache :: "HashCache option"
  wsMetrics :: syncMetrics
  wsSeen :: "string set"

text \<open>\<open>hashOf path\<close> is the hash of the opened file, or \<open>None\<close> when opening or reading fails.\<close>

definition hashEntry :: "(string \<Rightarrow> string option) \<Rightarrow> string \<Rightarrow> dirEntry \<Rightarrow> walkState \<Rightarrow> walkState" where
  "hashEntry hashOf path d s =
     (case wsCache s of
        None \<Rightarrow> s
      | Some c \<Rightarrow>
          (case deStat d of
             None \<Rightarrow> s
           | Some (mtime, sz) \<Rightarrow>
               (case Lookup path mtime sz c of
                  Some _ \<Rightarrow> s\<lparr>wsMetrics := (wsMetrics s)\<lparr>smCacheHits := smCacheHits (wsMetrics s) + 1\<rparr>\<rparr>
                | None \<Rightarrow>
                    (case hashOf path of
                       None \<Rightarrow> s
                     | Some hash \<Rightarrow>
                         s\<lparr>wsCache := Some (Update path mtime sz hash c),
                           wsMetrics := (wsMetrics s)\<lparr>smFilesHashed := smFilesHashed (wsMetrics s) + 1\<rparr>\<rparr>))))"

definition walkStep :: "(string \<Rightarrow> string option) \<Rightarrow> walkCall \<Rightarrow> walkState \<Rightarrow> walkState" where
  "walkStep hashOf w s =
     (if wcFnErr w then s
      else (case wcEntry w of
              None \<Rightarrow> s
            | Some d \<Rightarrow>
                if \<not> wcWalkErr w \<and> deRegular d
                then hashEntry hashOf (wcPath w) d
                       (s\<lparr>wsMetrics := (wsMetrics s)\<lparr>smFilesWalked := smFilesWalked (wsMetrics s) + 1\<rparr>,
                          wsSeen := insert (wcPath w) (wsSeen s)\<rparr>)
                else s))"

text \<open>
  \<^verbatim>\<open>Walk\<close>: \<open>calls\<close> are the callbacks the inner walk makes and \<open>failed\<close> whether it returns an
  error. Errors of loading and saving are only logged; \<open>wrSaveErr\<close> is the one of saving.
\<close>

record walkResult =
  wrCache :: "HashCache option"
  wrDisk :: diskState
  wrSaveErr :: "cacheErr option"
  wrSent :: "syncMetrics option"

record walkEnv =
  weDecode :: "string \<Rightarrow> cacheFile option"
  weEncode :: "cacheFile \<Rightarrow> string option"
  weIo :: "ioStep \<Rightarrow> bool"
  weHashOf :: "string \<Rightarrow> string option"
  weSender :: bool

definition zeroMetrics :: syncMetrics where
  "zeroMetrics = \<lparr>smFilesWalked = 0, smFilesHashed = 0, smCacheHits = 0\<rparr>"

definition walkStart :: "HashCache option \<Rightarrow> walkState" where
  "walkStart c = \<lparr>wsCache = c, wsMetrics = zeroMetrics, wsSeen = {}\<rparr>"

definition Walk :: "walkEnv \<Rightarrow> HashCache option \<Rightarrow> diskState \<Rightarrow> walkCall list \<Rightarrow> bool \<Rightarrow> walkResult" where
  "Walk env cache disk calls failed =
     (let loaded = map_option (\<lambda>c. fst (Load (weDecode env) (dsTarget disk) c)) cache;
          s = fold (walkStep (weHashOf env)) calls (walkStart loaded);
          pruned = (if failed then wsCache s else map_option (Prune (wsSeen s)) (wsCache s));
          saved = (case pruned of None \<Rightarrow> (disk, None) | Some c \<Rightarrow> Save (weEncode env) (weIo env) disk c)
      in \<lparr>wrCache = pruned,
          wrDisk = fst saved,
          wrSaveErr = snd saved,
          wrSent = (if weSender env \<and> \<not> failed then Some (wsMetrics s) else None)\<rparr>)"

section \<open>Saving is atomic\<close>

lemma Save_atomic:
  assumes "Save encode io disk c = (disk', err)"
  shows "err \<noteq> None \<Longrightarrow> dsTarget disk' = dsTarget disk"
    and "err = None \<Longrightarrow>
      \<exists>data. encode \<lparr>cfVersion = cacheVersion, cfEntries = Some (mapsCopy [] (hcEntries c))\<rparr> = Some data
           \<and> dsTarget disk' = Content data"
    and "io RemoveTmp \<or> err = None \<Longrightarrow> dsTemps disk' = dsTemps disk"
  using assms by (auto simp: Save_def Let_def split: option.splits if_splits)

section \<open>What a walk leaves in the cache\<close>

text \<open>The calls that reach \<^verbatim>\<open>hashEntry\<close>, and those of them whose file is or can be hashed.\<close>

definition isVisit :: "walkCall \<Rightarrow> bool" where
  "isVisit w \<longleftrightarrow> \<not> wcFnErr w \<and> \<not> wcWalkErr w \<and> (case wcEntry w of None \<Rightarrow> False | Some d \<Rightarrow> deRegular d)"

abbreviation regVisits :: "walkCall list \<Rightarrow> walkCall list" where
  "regVisits \<equiv> filter isVisit"

definition visitStat :: "walkCall \<Rightarrow> (int \<times> int) option" where
  "visitStat w = Option.bind (wcEntry w) deStat"

definition known :: "(string \<Rightarrow> string option) \<Rightarrow> HashCache \<Rightarrow> walkCall \<Rightarrow> bool" where
  "known hashOf c w = (case visitStat w of None \<Rightarrow> False
     | Some (t, n) \<Rightarrow> Lookup (wcPath w) t n c \<noteq> None \<or> hashOf (wcPath w) \<noteq> None)"

text \<open>
  The key of an entry stands for the content: \<open>H\<close> gives the hash of a file from its path,
  modification time and size, and the files read during the walk agree with it.
\<close>

definition statDetermines ::
  "(string \<Rightarrow> int \<Rightarrow> int \<Rightarrow> string) \<Rightarrow> (string \<Rightarrow> string option) \<Rightarrow> walkCall list \<Rightarrow> bool" where
  "statDetermines H hashOf calls \<longleftrightarrow>
     (\<forall>w\<in>set (regVisits calls). \<forall>t n h. visitStat w = Some (t, n) \<longrightarrow> hashOf (wcPath w) = Some h \<longrightarrow>
        h = H (wcPath w) t n)"

text \<open>One call: what it does to the cache, the counters and the set of paths.\<close>

lemma walkStep_skip: "\<not> isVisit w \<Longrightarrow> walkStep hashOf w s = s"
  by (auto simp: walkStep_def isVisit_def split: option.splits if_splits)

definition visited :: "(string \<Rightarrow> string option) \<Rightarrow> walkCall \<Rightarrow> HashCache \<Rightarrow> HashCache" where
  "visited hashOf w c = (case visitStat w of None \<Rightarrow> c
     | Some (t, n) \<Rightarrow> (case (Lookup (wcPath w) t n c, hashOf (wcPath w)) of
         (None, Some h) \<Rightarrow> Update (wcPath w) t n h c | _ \<Rightarrow> c))"

definition isHit :: "walkCall \<Rightarrow> HashCache \<Rightarrow> bool" where
  "isHit w c = (case visitStat w of None \<Rightarrow> False | Some (t, n) \<Rightarrow> Lookup (wcPath w) t n c \<noteq> None)"

lemma walkStep_visit:
  assumes "isVisit w" "wsCache s = Some c"
  shows "walkStep hashOf w s =
     \<lparr>wsCache = Some (visited hashOf w c),
      wsMetrics = \<lparr>smFilesWalked = smFilesWalked (wsMetrics s) + 1,
        smFilesHashed = smFilesHashed (wsMetrics s) + of_bool (known hashOf c w \<and> \<not> isHit w c),
        smCacheHits = smCacheHits (wsMetrics s) + of_bool (isHit w c)\<rparr>,
      wsSeen = insert (wcPath w) (wsSeen s)\<rparr>"
  using assms
  by (auto simp: isVisit_def walkStep_def hashEntry_def visited_def isHit_def known_def visitStat_def split: option.splits)

lemma visited_other: "p \<noteq> wcPath w \<Longrightarrow> wfmap (hcEntries c) \<Longrightarrow> Lookup p t n (visited hashOf w c) = Lookup p t n c"
  by (auto simp: visited_def store.lookup_update split: option.splits)

lemma visited_wf: "wfmap (hcEntries c) \<Longrightarrow> wfmap (hcEntries (visited hashOf w c))"
  using store.inv_update by (auto simp: visited_def split: option.splits)

lemma visited_self:
  "wfmap (hcEntries c) \<Longrightarrow> visitStat w = Some (t, n) \<Longrightarrow>
   Lookup (wcPath w) t n (visited hashOf w c) =
     (case Lookup (wcPath w) t n c of Some h \<Rightarrow> Some h | None \<Rightarrow> hashOf (wcPath w))"
  by (auto simp: visited_def store.lookup_update split: option.splits)

lemma known_isHit:
  "isHit w c \<Longrightarrow> known hashOf c w"
  "wfmap (hcEntries c) \<Longrightarrow> isHit w (visited hashOf w c) = known hashOf c w"
  by (auto simp: isHit_def known_def visited_self split: option.splits)

lemma isHit_other: "wcPath v \<noteq> wcPath w \<Longrightarrow> wfmap (hcEntries c) \<Longrightarrow> isHit v (visited hashOf w c) = isHit v c"
  by (auto simp: isHit_def visited_other split: option.splits)

lemma known_other: "wcPath v \<noteq> wcPath w \<Longrightarrow> wfmap (hcEntries c) \<Longrightarrow> known hashOf (visited hashOf w c) v = known hashOf c v"
  by (auto simp: known_def visited_other split: option.splits)

text \<open>
  All calls. The cache is the fold of the visits; with distinct paths each visit sees the
  entry that the walk started with.
\<close>

definition countBy :: "('a \<Rightarrow> bool) \<Rightarrow> 'a list \<Rightarrow> int" where
  "countBy P xs = int (length (filter P xs))"

lemma countBy_simps [simp]: "countBy P [] = 0" "countBy P (x # xs) = of_bool (P x) + countBy P xs"
  by (simp_all add: countBy_def)

lemma countBy_cong: "(\<And>x. x \<in> set xs \<Longrightarrow> P x = Q x) \<Longrightarrow> countBy P xs = countBy Q xs"
  by (simp add: countBy_def cong: filter_cong)

lemma walk_cache:
  "wsCache s = Some c \<Longrightarrow>
   wsCache (fold (walkStep hashOf) calls s) = Some (fold (visited hashOf) (regVisits calls) c)
   \<and> wsSeen (fold (walkStep hashOf) calls s) = wsSeen s \<union> wcPath ` set (regVisits calls)"
proof (induction calls arbitrary: s c)
  case (Cons w calls)
  then show ?case
    by (cases "isVisit w") (auto simp: walkStep_skip walkStep_visit)
qed simp

lemma fold_visited_other:
  "p \<notin> wcPath ` set vs \<Longrightarrow> wfmap (hcEntries c) \<Longrightarrow>
   wfmap (hcEntries (fold (visited hashOf) vs c)) \<and>
   Lookup p t n (fold (visited hashOf) vs c) = Lookup p t n c"
  by (induction vs arbitrary: c) (auto simp: visited_other visited_wf)

lemma fold_visited_wf: "wfmap (hcEntries c) \<Longrightarrow> wfmap (hcEntries (fold (visited hashOf) vs c))"
  by (induction vs arbitrary: c) (auto simp: visited_wf)

lemma fold_visited_self:
  assumes "distinct (map wcPath vs)" "w \<in> set vs" "wfmap (hcEntries c)" "visitStat w = Some (t, n)"
  shows "Lookup (wcPath w) t n (fold (visited hashOf) vs c) =
     (case Lookup (wcPath w) t n c of Some h \<Rightarrow> Some h | None \<Rightarrow> hashOf (wcPath w))"
  using assms
proof (induction vs arbitrary: c)
  case (Cons v vs)
  show ?case
  proof (cases "w = v")
    case True
    then show ?thesis
      using Cons.prems by (auto simp: fold_visited_other visited_wf visited_self)
  next
    case False
    with Cons.prems have "w \<in> set vs" "wcPath v \<notin> wcPath ` set vs" by auto
    then have "wcPath w \<noteq> wcPath v" by (metis imageI)
    with False Cons.prems Cons.IH [of "visited hashOf v c"] show ?thesis
      by (simp add: visited_wf visited_other)
  qed
qed simp

lemma walk_metrics:
  assumes "wsCache s = Some c" "wfmap (hcEntries c)" "distinct (map wcPath (regVisits calls))"
  shows "wsMetrics (fold (walkStep hashOf) calls s) =
     \<lparr>smFilesWalked = smFilesWalked (wsMetrics s) + int (length (regVisits calls)),
      smFilesHashed = smFilesHashed (wsMetrics s) + countBy (\<lambda>w. known hashOf c w \<and> \<not> isHit w c) (regVisits calls),
      smCacheHits = smCacheHits (wsMetrics s) + countBy (\<lambda>w. isHit w c) (regVisits calls)\<rparr>"
  using assms
proof (induction calls arbitrary: s c)
  case (Cons w calls)
  show ?case
  proof (cases "isVisit w")
    case False
    with Cons show ?thesis by (simp add: walkStep_skip)
  next
    case w: True
    have ds: "distinct (map wcPath (regVisits calls))" and ni: "wcPath w \<notin> wcPath ` set (regVisits calls)"
      using Cons.prems(3) w by auto
    have same: "isHit v (visited hashOf w c) = isHit v c" "known hashOf (visited hashOf w c) v = known hashOf c v"
      if "v \<in> set (regVisits calls)" for v
      using that ni Cons.prems(2) isHit_other [of v w c] known_other [of v w c] by (metis imageI)+
    have counts: "countBy (\<lambda>v. isHit v (visited hashOf w c)) (regVisits calls) = countBy (\<lambda>v. isHit v c) (regVisits calls)"
      "countBy (\<lambda>v. known hashOf (visited hashOf w c) v \<and> \<not> isHit v (visited hashOf w c)) (regVisits calls) =
       countBy (\<lambda>v. known hashOf c v \<and> \<not> isHit v c) (regVisits calls)"
      using same by (auto intro!: countBy_cong)
    note step = walkStep_visit [OF w Cons.prems(1), of hashOf]
    have "wsCache (walkStep hashOf w s) = Some (visited hashOf w c)" by (simp add: step)
    note IH = Cons.IH [OF this visited_wf [OF Cons.prems(2)] ds]
    show ?thesis
      using w by (simp add: IH) (simp add: step counts)
  qed
qed (cases "wsMetrics s", simp)

lemma walk_no_cache:
  "wsCache s = None \<Longrightarrow> wsCache (fold (walkStep hashOf) calls s) = None
   \<and> smFilesHashed (wsMetrics (fold (walkStep hashOf) calls s)) = smFilesHashed (wsMetrics s)"
proof (induction calls arbitrary: s)
  case (Cons w calls)
  have "wsCache (walkStep hashOf w s) = None \<and> smFilesHashed (wsMetrics (walkStep hashOf w s)) = smFilesHashed (wsMetrics s)"
    using Cons.prems by (auto simp: walkStep_def hashEntry_def split: option.splits)
  with Cons.IH [of "walkStep hashOf w s"] show ?case by simp
qed simp

text \<open>
  JSON carries the cache: decoding what was encoded gives the version and the same entries,
  for paths that JSON strings can carry (\<open>ok\<close>).
\<close>

definition jsonLaw ::
  "(string \<Rightarrow> bool) \<Rightarrow> (cacheFile \<Rightarrow> string option) \<Rightarrow> (string \<Rightarrow> cacheFile option) \<Rightarrow> bool" where
  "jsonLaw ok encode decode \<longleftrightarrow>
     (\<forall>v m data. wfmap m \<longrightarrow> list_all ok (gokeys m) \<longrightarrow>
        encode \<lparr>cfVersion = v, cfEntries = Some m\<rparr> = Some data \<longrightarrow>
        (\<exists>m'. decode data = Some \<lparr>cfVersion = v, cfEntries = Some m'\<rparr> \<and> wfmap m' \<and> map_of m' = map_of m))"

lemma Lookup_map_of: "map_of (hcEntries c) = map_of (hcEntries c') \<Longrightarrow> Lookup p t n c = Lookup p t n c'"
  by (simp add: Lookup_def)

lemma Save_Load:
  assumes "jsonLaw ok encode decode" "wfmap (hcEntries c)" "list_all ok (gokeys (hcEntries c))"
    and "Save encode io disk c = (disk', None)"
  shows "\<exists>c'. Load decode (dsTarget disk') (NewHashCache path) = (c', None) \<and> wfmap (hcEntries c')
     \<and> map_of (hcEntries c') = map_of (hcEntries c)"
proof -
  obtain data where "encode \<lparr>cfVersion = cacheVersion, cfEntries = Some (hcEntries c)\<rparr> = Some data"
    "dsTarget disk' = Content data"
    using Save_atomic(2) [OF assms(4)] by (auto simp: mapsCopy_Nil [OF assms(2)])
  with assms(1-3) show ?thesis
    unfolding jsonLaw_def by (fastforce simp: Load_def)
qed

lemma Prune_keys: "set (gokeys (hcEntries (Prune S c))) \<subseteq> S"
  by (auto simp: Prune_def)

lemma Walk_parts:
  fixes c0 :: HashCache and calls :: "walkCall list"
  assumes "fst (Load (weDecode env) (dsTarget disk) c) = c0"
  defines "c1 \<equiv> Prune (wcPath ` set (regVisits calls)) (fold (visited (weHashOf env)) (regVisits calls) c0)"
  shows "wrCache (Walk env (Some c) disk calls False) = Some c1"
    and "(wrDisk (Walk env (Some c) disk calls False), wrSaveErr (Walk env (Some c) disk calls False)) =
      Save (weEncode env) (weIo env) disk c1"
    and "wrSent (Walk env (Some c) disk calls False) =
      (if weSender env then Some (wsMetrics (fold (walkStep (weHashOf env)) calls (walkStart (Some c0)))) else None)"
  using assms walk_cache [of "walkStart (Some c0)" c0 "weHashOf env" calls]
  by (simp_all add: Walk_def Let_def walkStart_def)

text \<open>C26: a walk that succeeds leaves the cache current. With a cache that was sound when
  loaded (every hash it returns for a path, time and size is the hash of that file) and
  files whose content is determined by path, time and size, the cache is sound again; it
  has entries only for regular files met in this walk; and it knows the hash of every one
  of them whose hash was known or could be read. Otherwise it knows none for it.\<close>

theorem Walk_caches_current:
  assumes "fst (Load (weDecode env) (dsTarget disk) c) = c0" "store.sound H c0"
    and "distinct (map wcPath (regVisits calls))" "statDetermines H (weHashOf env) calls"
  shows "\<exists>c'. wrCache (Walk env (Some c) disk calls False) = Some c'
    \<and> store.sound H c'
    \<and> set (gokeys (hcEntries c')) \<subseteq> wcPath ` set (regVisits calls)
    \<and> (\<forall>w\<in>set (regVisits calls). \<forall>t n. visitStat w = Some (t, n) \<longrightarrow>
         Lookup (wcPath w) t n c' = (if known (weHashOf env) c0 w then Some (H (wcPath w) t n) else None))"
proof -
  let ?vs = "regVisits calls" and ?h = "weHashOf env"
  let ?c1 = "fold (visited ?h) ?vs c0"
  have wf: "wfmap (hcEntries c0)" and old: "Lookup p t n c0 = Some h \<Longrightarrow> h = H p t n" for p t n h
    using assms(2) by (auto simp: store.sound_def)
  have det: "?h (wcPath w) = Some h \<Longrightarrow> h = H (wcPath w) t n"
    if "w \<in> set ?vs" "visitStat w = Some (t, n)" for w t n h
    using assms(4) that by (auto simp: statDetermines_def)
  have step: "store.sound H (visited ?h w c)" if sc: "store.sound H c" and wv: "w \<in> set ?vs" for w c
  proof (cases "visited ?h w c = c")
    case False
    then obtain t n where "visitStat w = Some (t, n)" "visited ?h w c = Update (wcPath w) t n (H (wcPath w) t n) c"
      using det [OF wv] by (auto simp: visited_def split: option.splits)
    with store.sound_update [OF sc] show ?thesis by simp
  qed (simp add: sc)
  have "store.sound H (fold (visited ?h) vs c)" if "store.sound H c" "set vs \<subseteq> set ?vs" for vs c
    using that by (induction vs arbitrary: c) (simp_all add: step del: set_filter)
  with assms(2) have s1: "store.sound H ?c1" by blast
  have knows: "Lookup (wcPath w) t n (Prune (wcPath ` set ?vs) ?c1) =
      (if known ?h c0 w then Some (H (wcPath w) t n) else None)"
    if "w \<in> set ?vs" "visitStat w = Some (t, n)" for w t n
    using that det [OF that] old fold_visited_self [OF assms(3) that(1) wf that(2), of ?h]
      store.lookup_prune [OF fold_visited_wf [OF wf, of ?h ?vs], of "wcPath w" t n "wcPath ` set ?vs"]
    by (auto simp: known_def split: option.splits)
  show ?thesis
    using Walk_parts(1) [OF assms(1)] store.sound_prune [OF s1] Prune_keys knows by blast
qed

text \<open>Walking again costs no hashing. When a walk succeeded and saved its cache, a later
  walk of the same unchanged files by a new process, with an empty cache and this disk,
  hashes nothing: it finds in the cache every file whose hash the first walk had or
  computed, and counts the same number of files.\<close>

theorem rewalk_hashes_nothing:
  assumes "jsonLaw ok (weEncode env) (weDecode env)" "weSender env"
    and "fst (Load (weDecode env) (dsTarget disk) c) = c0" "wfmap (hcEntries c0)"
    and "distinct (map wcPath (regVisits calls))" "list_all (\<lambda>w. ok (wcPath w)) (regVisits calls)"
    and "wrSaveErr (Walk env (Some c) disk calls False) = None"
    and "wrSent (Walk env (Some c) disk calls False) = Some m"
  shows "wrSent (Walk env (Some (NewHashCache path)) (wrDisk (Walk env (Some c) disk calls False)) calls False) =
    Some \<lparr>smFilesWalked = smFilesWalked m, smFilesHashed = 0,
          smCacheHits = smCacheHits m + smFilesHashed m\<rparr>"
proof -
  let ?vs = "regVisits calls" and ?h = "weHashOf env"
  let ?c1 = "fold (visited ?h) ?vs c0"
  let ?p = "Prune (wcPath ` set ?vs) ?c1"
  note parts = Walk_parts [OF assms(3), of calls]
  have wf1: "wfmap (hcEntries ?c1)" by (rule fold_visited_wf [OF assms(4)])
  then have wf: "wfmap (hcEntries ?p)" by (rule store.inv_prune)
  have "list_all ok (gokeys (hcEntries ?p))"
    using Prune_keys [of "wcPath ` set ?vs" ?c1] assms(6) by (auto simp: list_all_iff)
  moreover have "Save (weEncode env) (weIo env) disk ?p = (wrDisk (Walk env (Some c) disk calls False), None)"
    using parts(2) assms(7) by simp
  ultimately obtain c2 where c2: "fst (Load (weDecode env) (dsTarget (wrDisk (Walk env (Some c) disk calls False)))
      (NewHashCache path)) = c2" "wfmap (hcEntries c2)" "map_of (hcEntries c2) = map_of (hcEntries ?p)"
    using Save_Load [OF assms(1) wf] by (metis fst_conv)
  have hit: "isHit w c2 = known ?h c0 w" "known ?h c2 w = known ?h c0 w" if "w \<in> set ?vs" for w
  proof -
    have "Lookup (wcPath w) t n c2 = (case Lookup (wcPath w) t n c0 of Some h \<Rightarrow> Some h | None \<Rightarrow> ?h (wcPath w))"
      if "visitStat w = Some (t, n)" for t n
      using fold_visited_self [OF assms(5) \<open>w \<in> set ?vs\<close> assms(4) that, of ?h] \<open>w \<in> set ?vs\<close>
      by (simp add: Lookup_map_of [OF c2(3)] store.lookup_prune [OF wf1])
    then show "isHit w c2 = known ?h c0 w" "known ?h c2 w = known ?h c0 w"
      by (auto simp: isHit_def known_def split: option.splits)
  qed
  have split: "countBy (known ?h c0) vs = countBy (\<lambda>w. known ?h c0 w \<and> \<not> isHit w c0) vs + countBy (\<lambda>w. isHit w c0) vs" for vs
    by (induction vs) (auto simp: known_isHit(1))
  have none: "countBy (\<lambda>w. known ?h c2 w \<and> \<not> isHit w c2) ?vs = 0"
    by (subst countBy_cong [where Q = "\<lambda>_. False"]) (auto simp: hit countBy_def)
  have all: "countBy (\<lambda>w. isHit w c2) ?vs = countBy (known ?h c0) ?vs"
    by (rule countBy_cong) (simp add: hit)
  show ?thesis
    using parts(3) assms(2,8) Walk_parts(3) [OF c2(1), of calls]
      walk_metrics [of "walkStart (Some c0)" c0 calls ?h] walk_metrics [of "walkStart (Some c2)" c2 calls ?h]
      c2(2) assms(4,5) none all split [of ?vs]
    by (auto simp: walkStart_def zeroMetrics_def)
qed

text \<open>
  Sample: three calls, a directory, a readable file whose old entry is stale and a file that
  cannot be opened. The encoder writes a single document, the decoder reads it.
\<close>

definition sampleCalls :: "walkCall list" where
  "sampleCalls =
     [\<lparr>wcPath = ''d'', wcFnErr = False, wcWalkErr = False, wcEntry = Some \<lparr>deRegular = False, deStat = Some (1, 0)\<rparr>\<rparr>,
      \<lparr>wcPath = ''d/a'', wcFnErr = False, wcWalkErr = False, wcEntry = Some \<lparr>deRegular = True, deStat = Some (7, 3)\<rparr>\<rparr>,
      \<lparr>wcPath = ''d/b'', wcFnErr = False, wcWalkErr = False, wcEntry = Some \<lparr>deRegular = True, deStat = Some (2, 9)\<rparr>\<rparr>]"

definition sampleEntries :: "(string, cacheEntry) gomap" where
  "sampleEntries = [(''d/a'', \<lparr>ceSize = 3, ceModTime = 7, ceHash = ''new''\<rparr>)]"

definition sampleEnv :: walkEnv where
  "sampleEnv =
     \<lparr>weDecode = (\<lambda>s. if s = ''json'' then Some \<lparr>cfVersion = 1, cfEntries = Some sampleEntries\<rparr> else None),
      weEncode = (\<lambda>f. if f = \<lparr>cfVersion = 1, cfEntries = Some sampleEntries\<rparr> then Some ''json'' else None),
      weIo = (\<lambda>_. True), weHashOf = (\<lambda>p. if p = ''d/a'' then Some ''new'' else None), weSender = True\<rparr>"

definition sampleCold :: HashCache where
  "sampleCold = (NewHashCache ''c'')\<lparr>hcEntries := [(''d/a'', \<lparr>ceSize = 3, ceModTime = 5, ceHash = ''old''\<rparr>)]\<rparr>"

definition sampleDisk :: diskState where
  "sampleDisk = \<lparr>dsTarget = NoFile, dsTemps = 0\<rparr>"

definition sampleHash :: "string \<Rightarrow> int \<Rightarrow> int \<Rightarrow> string" where
  "sampleHash p t n = (if t = 5 then ''old'' else ''new'')"

lemma sample_walk_facts:
  "fst (Load (weDecode sampleEnv) (dsTarget sampleDisk) sampleCold) = sampleCold"
  "map wcPath (regVisits sampleCalls) = [''d/a'', ''d/b'']"
  "weSender sampleEnv"
  "wrSaveErr (Walk sampleEnv (Some sampleCold) sampleDisk sampleCalls False) = None"
  "wrSent (Walk sampleEnv (Some sampleCold) sampleDisk sampleCalls False) =
     Some \<lparr>smFilesWalked = 2, smFilesHashed = 1, smCacheHits = 0\<rparr>"
  "wfmap (hcEntries sampleCold)"
  by code_simp+

theorem Walk_caches_current_witness:
  "\<exists>c'. wrCache (Walk sampleEnv (Some sampleCold) sampleDisk sampleCalls False) = Some c'
    \<and> store.sound sampleHash c'"
proof -
  have "store.sound sampleHash sampleCold"
    unfolding store.sound_def
    by (auto simp: sampleCold_def NewHashCache_def Lookup_def sampleHash_def wfmap_def split: if_splits)
  moreover have "statDetermines sampleHash (weHashOf sampleEnv) sampleCalls"
    by (auto simp: statDetermines_def sampleCalls_def sampleEnv_def sampleHash_def visitStat_def isVisit_def split: if_splits)
  ultimately show ?thesis
    using Walk_caches_current [OF sample_walk_facts(1), of sampleHash sampleCalls]
    by (auto simp: sample_walk_facts(2))
qed

theorem rewalk_hashes_nothing_witness:
  "wrSent (Walk sampleEnv (Some (NewHashCache ''c''))
     (wrDisk (Walk sampleEnv (Some sampleCold) sampleDisk sampleCalls False)) sampleCalls False) =
   Some \<lparr>smFilesWalked = 2, smFilesHashed = 0, smCacheHits = 1\<rparr>"
proof -
  have wf: "wfmap sampleEntries" by code_simp
  have "jsonLaw (\<lambda>_. True) (weEncode sampleEnv) (weDecode sampleEnv)"
    unfolding jsonLaw_def
  proof (intro allI impI)
    fix v m data
    assume "weEncode sampleEnv \<lparr>cfVersion = v, cfEntries = Some m\<rparr> = Some data"
    then have "v = 1 \<and> m = sampleEntries \<and> data = ''json''"
      by (simp add: sampleEnv_def split: if_splits)
    with wf show "\<exists>m'. weDecode sampleEnv data = Some \<lparr>cfVersion = v, cfEntries = Some m'\<rparr> \<and> wfmap m' \<and> map_of m' = map_of m"
      by (simp add: sampleEnv_def)
  qed
  moreover have "list_all (\<lambda>w. True) (regVisits sampleCalls)" by (simp add: list_all_iff)
  ultimately show ?thesis
    using rewalk_hashes_nothing [of "\<lambda>_. True" sampleEnv sampleDisk sampleCold, OF _ sample_walk_facts(3,1,6) _ _ sample_walk_facts(4,5)]
    by (simp add: sample_walk_facts(2))
qed

end
