(* ===== verification/Cache_Spec.thy ===== *)
theory Cache_Spec
  imports Go_Maps Cicada_Prelude
begin

text \<open>
  \<^verbatim>\<open>internal/cache/cache.go\<close>: the command line's cache specifications and the completion of
  GitHub Actions caches from the environment. The statistics of the same package are in
  \<open>Solve_Status\<close>.
\<close>

section \<open>Parsing\<close>

datatype specErr = ErrInvalidCacheSpec | ErrUnknownCacheType

record CacheOptionsEntry =
  coType :: string
  coAttrs :: "(string, string) gomap"

definition knownTypes :: "string list" where
  "knownTypes = [''registry'', ''gha'', ''local'', ''inline'', ''s3'']"

text \<open>The body of the loop over the comma-separated parts.\<close>

definition specPart :: "string \<Rightarrow> (string, string) gomap \<Rightarrow> specErr + (string, string) gomap" where
  "specPart part attrs =
     (case cutAt (CHR ''='') part of
        None \<Rightarrow> Inl ErrInvalidCacheSpec
      | Some (k, v) \<Rightarrow> if k = [] then Inl ErrInvalidCacheSpec else Inr (mput k v attrs))"

definition ParseSpec :: "string \<Rightarrow> specErr + CacheOptionsEntry" where
  "ParseSpec raw0 =
     (let raw = TrimSpace raw0 in
      if raw = [] then Inl ErrInvalidCacheSpec
      else if CHR ''='' \<notin> set raw then Inr \<lparr>coType = ''registry'', coAttrs = [(''ref'', raw)]\<rparr>
      else bindE (foldE specPart (splitOn (CHR '','') raw) []) (\<lambda>attrs.
        case map_of attrs ''type'' of
          None \<Rightarrow> Inl ErrInvalidCacheSpec
        | Some cacheType \<Rightarrow>
            if cacheType \<notin> set knownTypes then Inl ErrUnknownCacheType
            else Inr \<lparr>coType = cacheType, coAttrs = AList.delete ''type'' attrs\<rparr>))"

definition ParseSpecs :: "string list \<Rightarrow> specErr + CacheOptionsEntry list" where
  "ParseSpecs raw = mapE ParseSpec raw"

section \<open>GitHub Actions\<close>

text \<open>\<^verbatim>\<open>os.Getenv\<close> is an argument; it gives the empty string for an unset variable.\<close>

definition setDefault :: "string \<Rightarrow> string \<Rightarrow> (string, string) gomap \<Rightarrow> (string, string) gomap" where
  "setDefault k v attrs = (if map_of attrs k = None \<and> v \<noteq> [] then mput k v attrs else attrs)"

definition detectEntry :: "(string \<Rightarrow> string) \<Rightarrow> CacheOptionsEntry \<Rightarrow> CacheOptionsEntry" where
  "detectEntry getenv e =
     (if coType e \<noteq> ''gha'' then e
      else e\<lparr>coAttrs :=
        setDefault ''token'' (getenv ''ACTIONS_RUNTIME_TOKEN'')
          (setDefault ''url'' (getenv ''ACTIONS_CACHE_URL'')
            (setDefault ''url_v2'' (getenv ''ACTIONS_RESULTS_URL'') (coAttrs e)))\<rparr>)"

definition DetectGHA :: "(string \<Rightarrow> string) \<Rightarrow> CacheOptionsEntry list \<Rightarrow> CacheOptionsEntry list" where
  "DetectGHA getenv entries = map (detectEntry getenv) entries"

section \<open>Writing a specification back\<close>

text \<open>How a user writes an entry, and which entries can be written.\<close>

definition renderSpec :: "CacheOptionsEntry \<Rightarrow> string" where
  "renderSpec e = joinWith '','' (map (\<lambda>(k, v). k @ CHR ''='' # v) ((''type'', coType e) # coAttrs e))"

definition specOk :: "CacheOptionsEntry \<Rightarrow> bool" where
  "specOk e \<longleftrightarrow> coType e \<in> set knownTypes \<and> wfmap (coAttrs e) \<and>
     (\<forall>(k, v)\<in>set (coAttrs e). k \<noteq> [] \<and> k \<noteq> ''type'' \<and> CHR ''='' \<notin> set k \<and> CHR '','' \<notin> set k \<and> CHR '','' \<notin> set v)"

lemma specParts:
  "wfmap (acc @ kvs) \<Longrightarrow> \<forall>(k, v)\<in>set kvs. k \<noteq> [] \<and> CHR ''='' \<notin> set k \<Longrightarrow>
   foldE specPart (map (\<lambda>(k, v). k @ CHR ''='' # v) kvs) acc = Inr (acc @ kvs)"
proof (induction kvs arbitrary: acc)
  case (Cons p kvs)
  obtain k v where p: "p = (k, v)" by (cases p)
  with Cons.prems have "k \<notin> set (gokeys acc)" by (auto simp: wfmap_def)
  then have "mput k v acc = acc @ [(k, v)]" by (induction acc) auto
  with Cons p show ?case by (simp add: specPart_def)
qed simp

lemma coType_clean: "coType e \<in> set knownTypes \<Longrightarrow> CHR '','' \<notin> set (coType e)"
  by (auto simp: knownTypes_def)

lemma ParseSpec_written:
  assumes ok: "specOk e" and trim: "TrimSpace (renderSpec e) = renderSpec e"
  shows "ParseSpec (renderSpec e) = Inr e"
proof -
  let ?kvs = "(''type'', coType e) # coAttrs e"
  have no: "CHR '','' \<notin> set x" if "x \<in> set (map (\<lambda>(k, v). k @ CHR ''='' # v) ?kvs)" for x
    using that ok coType_clean [of e] by (auto simp: specOk_def)
  have parts: "splitOn (CHR '','') (renderSpec e) = map (\<lambda>(k, v). k @ CHR ''='' # v) ?kvs"
    unfolding renderSpec_def using no by (intro splitOn_joinWith) auto
  have "foldE specPart (splitOn (CHR '','') (renderSpec e)) [] = Inr ?kvs"
    unfolding parts using ok by (subst specParts) (auto simp: specOk_def wfmap_def)
  moreover have "AList.delete ''type'' ?kvs = coAttrs e"
    using ok by (auto simp: specOk_def AList.delete_eq filter_id_conv split_def)
  moreover have "renderSpec e \<noteq> []" "CHR ''='' \<in> set (renderSpec e)"
    unfolding renderSpec_def by (cases "coAttrs e", auto)+
  ultimately show ?thesis
    using ok trim by (simp add: ParseSpec_def specOk_def)
qed

lemma ParseSpec_result:
  assumes "ParseSpec s = Inr e"
  shows "coType e \<in> set knownTypes \<and> wfmap (coAttrs e) \<and> ''type'' \<notin> set (gokeys (coAttrs e)) \<and> [] \<notin> set (gokeys (coAttrs e))"
proof -
  have inv: "wfmap m \<and> map_of m [] = None" if "foldE specPart xs [] = Inr m" for xs m
    using that by (rule foldE_invariant [where P = "\<lambda>m. wfmap m \<and> map_of m [] = None"])
      (auto simp: specPart_def split: option.splits if_splits)
  consider "e = \<lparr>coType = ''registry'', coAttrs = [(''ref'', TrimSpace s)]\<rparr>"
    | m t where "foldE specPart (splitOn (CHR '','') (TrimSpace s)) [] = Inr m" "t \<in> set knownTypes"
        "e = \<lparr>coType = t, coAttrs = AList.delete ''type'' m\<rparr>"
    using assms by (auto simp: ParseSpec_def Let_def bindE_Inr split: option.split_asm if_split_asm)
  then show ?thesis
  proof cases
    case 1
    then show ?thesis by (simp add: knownTypes_def wfmap_def)
  next
    case 2
    with inv [OF 2(1)] show ?thesis
      by (simp add: wfmap_def AList.delete_keys map_of_eq_None_iff distinct_removeAll)
  qed
qed

lemma setDefault_map: "map_of (setDefault k v m) = (if v = [] then map_of m else [k \<mapsto> v] ++ map_of m)"
  by (auto simp: setDefault_def map_add_def fun_eq_iff split: option.splits)

lemma setDefault_again: "setDefault k v (setDefault k v m) = setDefault k v m"
  by (simp add: setDefault_def)

text \<open>A cache specification means what it says. An entry of a known type whose keys and
  values can be written in the syntax is parsed back exactly, attributes in order; a string
  without an equals sign names a registry reference. Parsing only yields entries of the types
  BuildKit knows, with the type taken out of the attributes and no empty attribute name. And
  completing entries from the GitHub environment changes only entries of type \<^verbatim>\<open>gha\<close>, where
  every attribute that was written keeps its value.\<close>

theorem cache_spec_meaning:
  assumes "TrimSpace s = s"
  shows "(specOk e \<and> s = renderSpec e \<longrightarrow> ParseSpec s = Inr e) \<and>
    (s \<noteq> [] \<and> CHR ''='' \<notin> set s \<longrightarrow> ParseSpec s = Inr \<lparr>coType = ''registry'', coAttrs = [(''ref'', s)]\<rparr>) \<and>
    (\<forall>e'. ParseSpec s = Inr e' \<longrightarrow> coType e' \<in> set knownTypes \<and> wfmap (coAttrs e') \<and>
       ''type'' \<notin> set (gokeys (coAttrs e')) \<and> [] \<notin> set (gokeys (coAttrs e'))) \<and>
    (coType (detectEntry getenv e) = coType e \<and>
     map_of (coAttrs e) \<subseteq>\<^sub>m map_of (coAttrs (detectEntry getenv e)) \<and>
     (coType e \<noteq> ''gha'' \<longrightarrow> detectEntry getenv e = e))"
proof (intro conjI)
  show "specOk e \<and> s = renderSpec e \<longrightarrow> ParseSpec s = Inr e"
    using assms ParseSpec_written by auto
  show "s \<noteq> [] \<and> CHR ''='' \<notin> set s \<longrightarrow> ParseSpec s = Inr \<lparr>coType = ''registry'', coAttrs = [(''ref'', s)]\<rparr>"
    using assms by (simp add: ParseSpec_def)
  show "map_of (coAttrs e) \<subseteq>\<^sub>m map_of (coAttrs (detectEntry getenv e))"
    by (auto simp: detectEntry_def setDefault_map map_le_def)
qed (use ParseSpec_result in \<open>auto simp: detectEntry_def\<close>)

theorem cache_spec_meaning_witness:
  "ParseSpec ''type=gha,scope=ci'' = Inr \<lparr>coType = ''gha'', coAttrs = [(''scope'', ''ci'')]\<rparr>"
proof -
  have "TrimSpace ''type=gha,scope=ci'' = ''type=gha,scope=ci''"
    and "specOk \<lparr>coType = ''gha'', coAttrs = [(''scope'', ''ci'')]\<rparr>"
    and "''type=gha,scope=ci'' = renderSpec \<lparr>coType = ''gha'', coAttrs = [(''scope'', ''ci'')]\<rparr>"
    by code_simp+
  with cache_spec_meaning [of "''type=gha,scope=ci''" "\<lparr>coType = ''gha'', coAttrs = [(''scope'', ''ci'')]\<rparr>"]
  show ?thesis by blast
qed

end
