(* ===== verification/Secret_Resolve.thy ===== *)
theory Secret_Resolve
  imports Validate Solve_Status
begin

text \<open>
  \<^verbatim>\<open>internal/secret/resolve.go\<close>: reading the declared secrets on the host, and what that means
  together with the redaction of the status stream. The environment, the files, the shell and
  the home directory of the host are arguments.
\<close>

section \<open>The host\<close>

text \<open>
  An opened file: the size \<^verbatim>\<open>Stat\<close> reports (\<open>None\<close> when it fails), the bytes there are by the
  time they are read, and whether reading them fails.
\<close>

record hostFile =
  hfStat :: "int option"
  hfData :: string
  hfReadErr :: bool

record secretHost =
  shEnv :: "string \<Rightarrow> string option"
  shOpen :: "string \<Rightarrow> hostFile option"
  shRun :: "string \<Rightarrow> string option"
  shHome :: "string option"

text \<open>Every failure is wrapped in \<^verbatim>\<open>ErrSecretResolution\<close>; the value tells which one it was.\<close>

datatype secretErr =
    UnknownSource | EnvNotSet | OpenFailed | StatFailed | FileTooLarge | ReadFailed | CmdFailed

definition maxSecretFileSize :: int where
  "maxSecretFileSize = 500 * 1024"

record ResolvedSecret =
  rsName :: string
  rsValue :: string

definition expandHome :: "string option \<Rightarrow> string \<Rightarrow> string" where
  "expandHome home path =
     (if path \<noteq> ''~'' \<and> \<not> prefix ''~/'' path then path
      else (case home of None \<Rightarrow> path | Some h \<Rightarrow> h @ tl path))"

definition resolveHostEnv :: "secretHost \<Rightarrow> SecretDecl \<Rightarrow> secretErr + string" where
  "resolveHostEnv host d =
     (case shEnv host (if sdVar d = [] then sdName d else sdVar d) of
        None \<Rightarrow> Inl EnvNotSet
      | Some val \<Rightarrow> Inr val)"

definition resolveFile :: "secretHost \<Rightarrow> SecretDecl \<Rightarrow> secretErr + string" where
  "resolveFile host d =
     (case shOpen host (expandHome (shHome host) (sdPath d)) of
        None \<Rightarrow> Inl OpenFailed
      | Some f \<Rightarrow>
          (case hfStat f of
             None \<Rightarrow> Inl StatFailed
           | Some sz \<Rightarrow>
               if sz > maxSecretFileSize then Inl FileTooLarge
               else if hfReadErr f then Inl ReadFailed
               else let data = take (nat (maxSecretFileSize + 1)) (hfData f)
                    in if int (length data) > maxSecretFileSize then Inl FileTooLarge else Inr data))"

text \<open>\<open>shRun\<close> is the standard output of \<^verbatim>\<open>sh -c\<close>, or \<open>None\<close> when the command fails.\<close>

definition resolveCmd :: "secretHost \<Rightarrow> SecretDecl \<Rightarrow> secretErr + string" where
  "resolveCmd host d =
     (case shRun host (sdCmd d) of
        None \<Rightarrow> Inl CmdFailed
      | Some out \<Rightarrow> Inr (TrimRight out [CHR 0x0A]))"

definition resolveOne :: "secretHost \<Rightarrow> SecretDecl \<Rightarrow> secretErr + string" where
  "resolveOne host d =
     (if sdSource d = SecretSourceHostEnv then resolveHostEnv host d
      else if sdSource d = SecretSourceFile then resolveFile host d
      else if sdSource d = SecretSourceCmd then resolveCmd host d
      else Inl UnknownSource)"

definition Resolve :: "secretHost \<Rightarrow> SecretDecl list \<Rightarrow> secretErr + ResolvedSecret list" where
  "Resolve host decls =
     mapE (\<lambda>d. bindE (resolveOne host d) (\<lambda>val. Inr \<lparr>rsName = sdName d, rsValue = val\<rparr>)) decls"

definition ToMap :: "ResolvedSecret list \<Rightarrow> (string, string) gomap" where
  "ToMap secrets = fold (\<lambda>s m. mput (rsName s) (rsValue s) m) secrets []"

definition PlaintextValues :: "ResolvedSecret list \<Rightarrow> (string, string) gomap" where
  "PlaintextValues secrets =
     fold (\<lambda>s m. if rsValue s \<noteq> [] then mput (rsName s) (rsValue s) m else m) secrets []"

section \<open>What resolution yields\<close>

lemma fold_mput_distinct:
  "distinct (map rsName ss) \<Longrightarrow> wfmap m \<Longrightarrow> \<forall>s\<in>set ss. rsName s \<notin> set (gokeys m) \<Longrightarrow>
   map_of (fold (\<lambda>s m. if P s then mput (rsName s) (rsValue s) m else m) ss m) k =
     (case find (\<lambda>s. rsName s = k \<and> P s) ss of Some s \<Rightarrow> Some (rsValue s) | None \<Rightarrow> map_of m k)"
proof (induction ss arbitrary: m)
  case (Cons s ss)
  have "\<forall>x\<in>set ss. rsName x \<notin> set (gokeys (if P s then mput (rsName s) (rsValue s) m else m))"
    using Cons.prems by (auto simp flip: dom_map_of_conv_image_fst) (metis image_eqI)
  moreover have "find (\<lambda>x. rsName x = k \<and> P x) ss = None" if "rsName s = k"
    using that Cons.prems(1) by (auto simp: find_None_iff) (metis image_eqI)
  ultimately show ?case
    using Cons by (auto split: option.splits)
qed simp

lemma PlaintextValues_has:
  assumes "distinct (map rsName ss)" "s \<in> set ss" "rsValue s \<noteq> []"
  shows "(rsName s, rsValue s) \<in> set (PlaintextValues ss)"
proof -
  obtain s' where "find (\<lambda>x. rsName x = rsName s \<and> rsValue x \<noteq> []) ss = Some s'"
    using assms(2,3) by (cases "find (\<lambda>x. rsName x = rsName s \<and> rsValue x \<noteq> []) ss") (auto simp: find_None_iff)
  moreover from this have "s' = s"
    using assms by (auto simp: find_Some_iff distinct_map dest: inj_onD)
  ultimately show ?thesis
    using fold_mput_distinct [OF assms(1), of "[]" "\<lambda>s. rsValue s \<noteq> []" "rsName s"]
    by (auto simp: PlaintextValues_def dest: map_of_SomeD)
qed

lemma resolveFile_size: "resolveFile host d = Inr v \<Longrightarrow> int (length v) \<le> maxSecretFileSize"
  by (auto simp: resolveFile_def Let_def split: option.splits if_splits)

lemma Resolve_Inr:
  "Resolve host ds = Inr ss \<longleftrightarrow>
   list_all2 (\<lambda>d s. rsName s = sdName d \<and> resolveOne host d = Inr (rsValue s)) ds ss"
proof -
  have "(\<exists>x. r = Inr x \<and> \<lparr>rsName = n, rsValue = x\<rparr> = s) \<longleftrightarrow> rsName s = n \<and> r = Inr (rsValue s)"
    for r :: "secretErr + string" and n and s :: ResolvedSecret
    by (cases s) auto
  then show ?thesis by (simp add: Resolve_def mapE_Inr bindE_Inr)
qed


text \<open>Sample: a secret from the environment, one from a command and one from a file in the home
  directory.\<close>

definition sampleHost :: secretHost where
  "sampleHost =
     \<lparr>shEnv = (\<lambda>n. if n = ''TOKEN'' then Some ''s3cr3t'' else None),
      shOpen = (\<lambda>p. if p = ''/root/key'' then Some \<lparr>hfStat = Some 3, hfData = ''key'', hfReadErr = False\<rparr> else None),
      shRun = (\<lambda>c. if c = ''pass'' then Some [CHR ''p'', CHR ''w'', CHR 0x0A] else None),
      shHome = Some ''/root''\<rparr>"

definition sampleDecls :: "SecretDecl list" where
  "sampleDecls =
     [\<lparr>sdName = ''tok'', sdSource = SecretSourceHostEnv, sdVar = ''TOKEN'', sdPath = [], sdCmd = []\<rparr>,
      \<lparr>sdName = ''pw'', sdSource = SecretSourceCmd, sdVar = [], sdPath = [], sdCmd = ''pass''\<rparr>,
      \<lparr>sdName = ''key'', sdSource = SecretSourceFile, sdVar = [], sdPath = ''~/key'', sdCmd = []\<rparr>]"

definition sampleResolved :: "ResolvedSecret list" where
  "sampleResolved =
     [\<lparr>rsName = ''tok'', rsValue = ''s3cr3t''\<rparr>, \<lparr>rsName = ''pw'', rsValue = ''pw''\<rparr>,
      \<lparr>rsName = ''key'', rsValue = ''key''\<rparr>]"


end
