(* ===== verification/Ignore_File.thy ===== *)
theory Ignore_File
  imports Go_Strings Go_Path
begin

text \<open>
  \<^verbatim>\<open>internal/synccontext\<close>: the ignore patterns of the build context, from
  \<^verbatim>\<open>.cicadaignore\<close> or, when that file does not exist, \<^verbatim>\<open>.dockerignore\<close>.
\<close>

section \<open>Lines of a file\<close>

text \<open>
  \<^verbatim>\<open>bufio.Scanner\<close> with its default split function: lines end with a newline, a carriage
  return before it is dropped, the last line needs no newline, and a line that fills the
  buffer of 65536 bytes before its newline ends the scan with \<^verbatim>\<open>bufio.ErrTooLong\<close>. The second
  component says whether that happened.
\<close>

definition maxScanTokenSize :: nat where
  "maxScanTokenSize = 65536"

definition dropCR :: "string \<Rightarrow> string" where
  "dropCR s = (if s \<noteq> [] \<and> last s = CHR 0x0D then butlast s else s)"

fun scanLines :: "string list \<Rightarrow> string list \<times> bool" where
  "scanLines [] = ([], False)"
| "scanLines [l] =
     (if l = [] then ([], False) else if length l \<ge> maxScanTokenSize then ([], True) else ([dropCR l], False))"
| "scanLines (l # ls) =
     (if length l \<ge> maxScanTokenSize then ([], True)
      else (let (xs, long) = scanLines ls in (dropCR l # xs, long)))"

definition scannerLines :: "string \<Rightarrow> string list \<times> bool" where
  "scannerLines data = scanLines (splitOn (CHR 0x0A) data)"

section \<open>Patterns\<close>

datatype ignoreErr = ErrNoIgnoreFile | IgnoreNotExist | IgnoreOpenFailed | IgnoreTooLong | IgnoreReadFailed

text \<open>What \<^verbatim>\<open>os.Open\<close> and reading find at a path; a failing read has delivered no line.\<close>

datatype ignoreFile = Missing | CannotOpen | CannotRead | Bytes string

definition keepPattern :: "string \<Rightarrow> bool" where
  "keepPattern line \<longleftrightarrow> line \<noteq> [] \<and> \<not> prefix ''#'' line"

definition readPatternFile :: "(string \<Rightarrow> ignoreFile) \<Rightarrow> string \<Rightarrow> ignoreErr + string list" where
  "readPatternFile fs path =
     (case fs path of
        Missing \<Rightarrow> Inl IgnoreNotExist
      | CannotOpen \<Rightarrow> Inl IgnoreOpenFailed
      | CannotRead \<Rightarrow> Inl IgnoreReadFailed
      | Bytes data \<Rightarrow>
          (case scannerLines data of (ls, long) \<Rightarrow>
           if long then Inl IgnoreTooLong else Inr (filter keepPattern (map TrimSpace ls))))"

abbreviation cicadaIgnore :: "string \<Rightarrow> string" where
  "cicadaIgnore dir \<equiv> pathJoin [dir, ''.cicadaignore'']"

abbreviation dockerIgnore :: "string \<Rightarrow> string" where
  "dockerIgnore dir \<equiv> pathJoin [dir, ''.dockerignore'']"

definition LoadIgnorePatterns :: "(string \<Rightarrow> ignoreFile) \<Rightarrow> string \<Rightarrow> ignoreErr + string list" where
  "LoadIgnorePatterns fs dir =
     (case readPatternFile fs (cicadaIgnore dir) of
        Inr ps \<Rightarrow> Inr ps
      | Inl e \<Rightarrow>
          if e \<noteq> IgnoreNotExist then Inl e
          else (case readPatternFile fs (dockerIgnore dir) of
                  Inr ps \<Rightarrow> Inr ps
                | Inl e' \<Rightarrow> if e' = IgnoreNotExist then Inl ErrNoIgnoreFile else Inl e'))"

section \<open>Laws\<close>

lemma scanLines_short:
  "\<forall>l\<in>set ls. length l < maxScanTokenSize \<Longrightarrow> ls \<noteq> [] \<Longrightarrow> last ls = [] \<Longrightarrow>
   scanLines ls = (map dropCR (butlast ls), False)"
  by (induction ls rule: scanLines.induct) auto

text \<open>Patterns written one to a line are read back as written.\<close>

definition patternOk :: "string \<Rightarrow> bool" where
  "patternOk p \<longleftrightarrow> keepPattern p \<and> TrimSpace p = p \<and> CHR 0x0A \<notin> set p \<and> dropCR p = p \<and> length p < maxScanTokenSize"

definition patternText :: "string list \<Rightarrow> string" where
  "patternText ps = concat (map (\<lambda>p. p @ [CHR 0x0A]) ps)"

lemma splitOn_patternText:
  "\<forall>p\<in>set ps. CHR 0x0A \<notin> set p \<Longrightarrow> splitOn (CHR 0x0A) (patternText ps) = ps @ [[]]"
  by (induction ps) (simp_all add: patternText_def)

lemma scannerLines_patternText:
  assumes "\<forall>p\<in>set ps. patternOk p"
  shows "scannerLines (patternText ps) = (ps, False)"
proof -
  have "scannerLines (patternText ps) = (map dropCR ps, False)"
    using assms scanLines_short [of "ps @ [[]]"]
    by (auto simp: scannerLines_def splitOn_patternText patternOk_def maxScanTokenSize_def)
  moreover have "map dropCR ps = ps" using assms by (intro map_idI) (auto simp: patternOk_def)
  ultimately show ?thesis by simp
qed

text \<open>The ignore file that is used. Patterns written one to a line in \<^verbatim>\<open>.cicadaignore\<close> are read
  back as written, whatever \<^verbatim>\<open>.dockerignore\<close> has; those of \<^verbatim>\<open>.dockerignore\<close> are used only when
  the other file does not exist; and the error for a missing ignore file is given exactly
  when neither exists. Loaded patterns are never blank and never comments.\<close>

theorem LoadIgnorePatterns_source:
  assumes "\<forall>p\<in>set ps. patternOk p"
  shows "(fs (cicadaIgnore dir) = Bytes (patternText ps) \<longrightarrow> LoadIgnorePatterns fs dir = Inr ps) \<and>
    (fs (cicadaIgnore dir) = Missing \<and> fs (dockerIgnore dir) = Bytes (patternText ps) \<longrightarrow> LoadIgnorePatterns fs dir = Inr ps) \<and>
    (LoadIgnorePatterns fs dir = Inl ErrNoIgnoreFile \<longleftrightarrow> fs (cicadaIgnore dir) = Missing \<and> fs (dockerIgnore dir) = Missing) \<and>
    (\<forall>qs. LoadIgnorePatterns fs dir = Inr qs \<longrightarrow> (\<forall>q\<in>set qs. keepPattern q))"
proof -
  have rd: "fs p = Bytes (patternText ps) \<Longrightarrow> readPatternFile fs p = Inr ps" for p
  proof -
    have "map TrimSpace ps = ps" "filter keepPattern ps = ps"
      using assms(1) by (auto simp: patternOk_def intro: map_idI)
    then show "fs p = Bytes (patternText ps) \<Longrightarrow> readPatternFile fs p = Inr ps"
      by (simp add: readPatternFile_def scannerLines_patternText [OF assms(1)])
  qed
  have not: "readPatternFile fs p \<noteq> Inl ErrNoIgnoreFile" "readPatternFile fs p = Inl IgnoreNotExist \<longleftrightarrow> fs p = Missing"
    "readPatternFile fs p = Inr qs \<Longrightarrow> \<forall>q\<in>set qs. keepPattern q" for p qs
    by (auto simp: readPatternFile_def split: ignoreFile.splits prod.splits if_splits)
  show ?thesis
  proof (cases "fs (cicadaIgnore dir) = Missing")
    case True
    then have "readPatternFile fs (cicadaIgnore dir) = Inl IgnoreNotExist" by (simp add: not(2))
    with True not(1,2) [of "dockerIgnore dir"] rd [of "dockerIgnore dir"] not(3) [of "dockerIgnore dir"] show ?thesis
      by (cases "readPatternFile fs (dockerIgnore dir)") (auto simp: LoadIgnorePatterns_def)
  next
    case False
    with not(1,2) [of "cicadaIgnore dir"] rd [of "cicadaIgnore dir"] not(3) [of "cicadaIgnore dir"] show ?thesis
      by (cases "readPatternFile fs (cicadaIgnore dir)") (auto simp: LoadIgnorePatterns_def)
  qed
qed

theorem LoadIgnorePatterns_source_witness:
  "LoadIgnorePatterns (\<lambda>p. if p = ''/w/.dockerignore'' then Bytes (patternText [''bin'', ''*.o'']) else Missing) ''/w'' =
     Inr [''bin'', ''*.o'']"
proof -
  let ?fs = "\<lambda>p. if p = ''/w/.dockerignore'' then Bytes (patternText [''bin'', ''*.o'']) else Missing"
  have "TrimSpace ''bin'' = ''bin'' \<and> TrimSpace ''*.o'' = ''*.o''" by code_simp
  then have ok: "\<forall>p\<in>set [''bin'', ''*.o'']. patternOk p"
    by (simp add: patternOk_def keepPattern_def dropCR_def maxScanTokenSize_def)
  have "?fs (cicadaIgnore ''/w'') = Missing \<and> ?fs (dockerIgnore ''/w'') = Bytes (patternText [''bin'', ''*.o''])"
    by code_simp
  with LoadIgnorePatterns_source [OF ok, of ?fs "''/w''"] show ?thesis by blast
qed

end
