(* ===== verification/Prepared_Pipeline.thy ===== *)
theory Prepared_Pipeline
  imports Kdl_Parser Job_Filter Condition_Eval Builder_Laws
begin

text \<open>
  From the file to the builder: a parsed pipeline stays valid through the filter of jobs and
  the static evaluation of conditions, so the builder's own validation cannot fail.
\<close>

section \<open>Validity does not depend on what validation stores\<close>

lemma whenOk_erase [simp]:
  "jobWhenOk cel (map_option eraseWhen w) = jobWhenOk cel w"
  "stepWhenOk cel (map_option eraseWhen w) = stepWhenOk cel w"
  by (cases w; simp add: jobWhenOk_def stepWhenOk_def eraseWhen_def)+

lemma stepOk_erase: "stepOk cel D (eraseJob j) (eraseStep s) = stepOk cel D j s"
  by (simp add: stepOk_def eraseStep_def eraseJob_def)

lemma jobOk_erase: "jobOk cel D (eraseJob j) = jobOk cel D j"
proof -
  have "map sName (map eraseStep (jSteps j)) = map sName (jSteps j)" by (simp add: eraseStep_def)
  then show ?thesis
    using stepOk_erase [of cel D j]
    by (simp add: jobOk_def eraseJob_def stepOk_def comp_def eraseStep_def)
qed

lemma Validate_pipelineOk:
  assumes "Validate cel (Some p) = (Some pl, Inr order)"
  shows "pipelineOk cel pl"
proof -
  let ?D = "secretDeclSet (pSecrets p)"
  from assms obtain jobs where env: "envOk (pEnv p)" "declsOk (pSecrets p)"
    and v: "validateJobs cel ?D 0 Map.empty (pJobs p) = (jobs, Inr (nameIndex (pJobs p)))"
    and ok: "\<forall>j\<in>set (pJobs p). jobOk cel ?D j"
    and pl: "pl = p\<lparr>pJobs := jobs, pTopoOrder := Some order\<rparr>"
    by (auto simp: Validate_Inr)
  have e: "map eraseJob jobs = map eraseJob (pJobs p)"
    using validateJobs_erase [of cel ?D 0 Map.empty "pJobs p"] v by simp
  have "jobOk cel ?D j" if "j \<in> set jobs" for j
  proof -
    from that have "eraseJob j \<in> set (map eraseJob (pJobs p))" unfolding e [symmetric] by simp
    then obtain j' where "j' \<in> set (pJobs p)" "eraseJob j = eraseJob j'" by auto
    with ok show ?thesis by (metis jobOk_erase)
  qed
  moreover have "runnable cel pl" using Validate_runnable [OF assms] by simp
  ultimately show ?thesis
    using env by (simp add: pipelineOk_def runnable_def pl)
qed

lemma parse_pipelineOk:
  assumes "parse px resolver content filename = Inr pl"
  shows "pipelineOk (pxCel px) pl"
proof -
  obtain cel inp where "finalizePipeline cel inp = Inr pl" "cel = pxCel px"
    using assms by (auto simp: parse_def Let_def withResolver_def split: option.splits)
  then obtain q order where "Validate (pxCel px) (Some q) = (Some pl, Inr order)"
    by (auto simp: finalizePipeline_def pipeE_def Let_def split: sum.splits option.splits prod.splits)
  then show ?thesis by (rule Validate_pipelineOk)
qed

section \<open>Filtering and evaluating keep jobs valid\<close>

text \<open>A job that may have lost all its steps.\<close>

definition partOk :: "'ast Cel \<Rightarrow> string set \<Rightarrow> 'ast Job \<Rightarrow> bool" where
  "partOk cel D j \<longleftrightarrow> validName (jName j) \<and> jImage j \<noteq> [] \<and> envOk (jEnv j) \<and>
     exportsOk (jExports j) \<and> artifactsOk (jDependsOn j) (jArtifacts j) \<and>
     publishOk (jPublish j) \<and> 0 \<le> jTimeout j \<and> retryOk (jRetry j) \<and> jShell j \<noteq> Some [] \<and>
     refsOk D [] (jSecrets j) \<and> jobWhenOk cel (jWhen j) \<and>
     (\<forall>s\<in>set (jSteps j). stepOk cel D j s) \<and> distinct (map sName (jSteps j))"

lemma jobOk_partOk: "jobOk cel D j \<longleftrightarrow> partOk cel D j \<and> jSteps j \<noteq> []"
  by (auto simp: jobOk_def partOk_def)

lemma trimmedStep_ok: "trimmedStep s s' \<Longrightarrow> stepOk cel D j s \<Longrightarrow> stepOk cel D (j\<lparr>jSteps := ss\<rparr>) s' \<and> sName s' = sName s"
  by (auto simp: trimmedStep_def stepOk_def exportsOk_def)

lemma trimmedSteps_names: "list_all2 trimmedStep ss ss' \<Longrightarrow> map sName ss' = map sName ss"
  by (induction ss ss' rule: list_all2_induct) (auto simp: trimmedStep_def)

lemma trimmed_partOk:
  assumes "trimmed j j'" "partOk cel D j"
  shows "partOk cel D j'"
proof -
  from assms(1) obtain n ss where j': "j' = j\<lparr>jSteps := ss\<rparr>" and ss: "list_all2 trimmedStep (take n (jSteps j)) ss"
    by (auto simp: trimmed_def)
  have "stepOk cel D j' s'" if s': "s' \<in> set ss" for s'
  proof -
    from list_all2_set2 [OF ss s'] obtain s where "s \<in> set (take n (jSteps j))" "trimmedStep s s'" by blast
    with assms(2) trimmedStep_ok [of s s'] show ?thesis
      unfolding j' by (auto simp: partOk_def dest: in_set_takeD)
  qed
  moreover have "map sName ss = take n (map sName (jSteps j))"
    using ss trimmedSteps_names by (fastforce simp: take_map)
  then have "distinct (map sName ss)" using assms(2) by (simp add: partOk_def)
  ultimately show ?thesis using assms(2) by (auto simp: partOk_def j')
qed

lemma artifactsOk_filter:
  "artifactsOk deps as \<Longrightarrow> artifactsOk (filter (\<lambda>d. d \<notin> S) deps) (filter (\<lambda>a. aFrom a \<notin> S) as)"
  by (auto simp: artifactsOk_def artifactOk_def distinct_map_filter)

lemma cleanKept_partOk:
  assumes "partOk cel D j"
  shows "partOk cel D (cleanJobRefs S (keptSteps cel penv wctx j))"
proof -
  let ?f = "\<lambda>s. s\<lparr>sArtifacts := filter (\<lambda>a. aFrom a \<notin> S) (sArtifacts s)\<rparr>"
  let ?kept = "filter (\<lambda>s. holds (stepCondition cel penv wctx j s)) (jSteps j)"
  have "map sName (map ?f ?kept) = map sName ?kept" by simp
  moreover have "distinct (map sName ?kept)" using assms by (simp add: partOk_def distinct_map_filter)
  ultimately show ?thesis
    using assms by (auto simp: partOk_def cleanJobRefs_def keptSteps_def stepOk_def artifactsOk_filter comp_def)
qed

lemma stripExports_partOk: "partOk cel D j \<Longrightarrow> partOk cel D (stripExports j)"
  by (auto simp: partOk_def stripExports_def stepOk_def exportsOk_def publishOk_def comp_def)

lemma FilterJobs_partOk:
  assumes "distinct (jobNames jobs)" "\<forall>j\<in>set jobs. jobOk cel D j" "FilterJobs jobs opts = Inr out"
  shows "\<forall>j\<in>set out. partOk cel D j"
proof (cases "foStartAt opts = [] \<and> foStopAfter opts = []")
  case True
  with assms show ?thesis by (auto simp: FilterJobs_def jobOk_partOk)
next
  case False
  let ?sel = "selectJobs jobs (window jobs opts) ((depRel jobs)\<^sup>* `` window jobs opts)"
  have t: "list_all2 trimmed ?sel out" using FilterJobs_Inr(2) [OF assms(1) _ assms(3)] False by blast
  have "partOk cel D j" if "j \<in> set ?sel" for j
    using that assms(2) by (auto simp: selectJobs_def jobOk_partOk stripExports_partOk)
  with t show ?thesis
    by (metis list_all2_set2 trimmed_partOk)
qed

lemma prepared_of_valid:
  assumes "pipelineOk cel pl" "FilterJobs (pJobs pl) opts = Inr jobs"
    and "EvaluateConditions cel (pl\<lparr>pJobs := jobs, pTopoOrder := None\<rparr>) wctx = Inr r"
    and "pJobs (crPipeline r) \<noteq> []"
  shows "pipelineOk cel (crPipeline r)"
proof -
  let ?p = "pl\<lparr>pJobs := jobs, pTopoOrder := None\<rparr>" and ?D = "secretDeclSet (pSecrets pl)"
  have d: "distinct (jobNames (pJobs pl))" "depsOk (pJobs pl)" "\<forall>j\<in>set (pJobs pl). jobOk cel ?D j"
    using assms(1) by (simp_all add: pipelineOk_def)
  have f: "depsOk jobs" "distinct (jobNames jobs)" using FilterJobs_keeps_depsOk [OF d(1,2) assms(2)] by simp_all
  then have f': "distinct (jobNames (pJobs ?p))" "depsOk (pJobs ?p)" by simp_all
  note run = EvaluateConditions_run [OF assms(3) f'(1)]
  note keep = EvaluateConditions_keeps_depsOk [OF assms(3) f']
  have "partOk cel ?D j" if "j \<in> set (pJobs (crPipeline r))" for j
    using that FilterJobs_partOk [OF d(1,3) assms(2)] cleanKept_partOk unfolding run(2) by fastforce
  with keep have "\<forall>j\<in>set (pJobs (crPipeline r)). jobOk cel ?D j" by (simp add: jobOk_partOk)
  moreover have "distinct (jobNames (pJobs (crPipeline r)))"
  proof -
    have "jobNames (pJobs (crPipeline r)) = map jName (filter (runs cel ?p wctx) jobs)"
      unfolding jobNames_def run(2) by (simp add: comp_def cleanJobRefs_def)
    then show ?thesis using f(2) by (simp add: jobNames_def distinct_map_filter)
  qed
  moreover have "pEnv (crPipeline r) = pEnv pl" "pSecrets (crPipeline r) = pSecrets pl"
    by (subst run(3), simp)+
  ultimately show ?thesis
    using assms(1) keep assms(4) by (simp add: pipelineOk_def)
qed

text \<open>C9: what the parser accepts, the builder builds. Take a parsed pipeline, filter its jobs and
  evaluate its conditions the way \<^verbatim>\<open>cicada run\<close> does. If any job is left, the pipeline that
  reaches the builder, stored order removed, satisfies every rule of validation, so the builder's own
  validation accepts it.\<close>

theorem prepared_pipeline_valid:
  assumes "parse px resolver content filename = Inr pl" "FilterJobs (pJobs pl) opts = Inr jobs"
    and "EvaluateConditions (pxCel px) (pl\<lparr>pJobs := jobs, pTopoOrder := None\<rparr>) wctx = Inr r"
    and "pJobs (crPipeline r) \<noteq> []"
  shows "pipelineOk (pxCel px) (crPipeline r)"
  by (rule prepared_of_valid [OF parse_pipelineOk [OF assms(1)] assms(2-4)])

definition noFilter :: FilterOpts where
  "noFilter = \<lparr>foStartAt = [], foStopAfter = []\<rparr>"

abbreviation mainResolver :: "Resolver option" where
  "mainResolver \<equiv> Some (\<lambda>src base. Inl OpenFailed)"

lemma main_prepared:
  "\<exists>pl jobs r. parse mainEnv mainResolver [] ''/x/ci.kdl'' = Inr pl \<and> FilterJobs (pJobs pl) noFilter = Inr jobs \<and>
    EvaluateConditions (pxCel mainEnv) (pl\<lparr>pJobs := jobs, pTopoOrder := None\<rparr>) emptyContext = Inr r \<and>
    map jName (pJobs (crPipeline r)) = [''test'', ''build'']"
proof -
  let ?eval = "\<lambda>pl jobs. EvaluateConditions (pxCel mainEnv) (pl\<lparr>pJobs := jobs, pTopoOrder := None\<rparr>) emptyContext"
  have "bindE (parse mainEnv mainResolver [] ''/x/ci.kdl'') (\<lambda>pl.
      bindE (pipeE (FilterJobs (pJobs pl) noFilter)) (\<lambda>jobs.
      bindE (pipeE (?eval pl jobs)) (\<lambda>r. Inr (map jName (pJobs (crPipeline r)))))) = Inr [''test'', ''build'']"
    by code_simp
  moreover have pipe: "pipeE x = Inr y \<longleftrightarrow> x = Inr y" for x :: "err + 'b" and y by (cases x) (simp_all add: pipeE_def)
  ultimately show ?thesis by (simp only: bindE_Inr pipe sum.inject) (elim exE conjE, intro exI conjI)
qed

theorem prepared_pipeline_valid_witness:
  "\<exists>p. pipelineOk (pxCel mainEnv) p \<and> map jName (pJobs p) = [''test'', ''build'']"
proof -
  from main_prepared obtain pl jobs r where
    r: "parse mainEnv mainResolver [] ''/x/ci.kdl'' = Inr pl" "FilterJobs (pJobs pl) noFilter = Inr jobs"
    "EvaluateConditions (pxCel mainEnv) (pl\<lparr>pJobs := jobs, pTopoOrder := None\<rparr>) emptyContext = Inr r"
    "map jName (pJobs (crPipeline r)) = [''test'', ''build'']" by (elim exE conjE) (rule that)
  from r(4) have "pJobs (crPipeline r) \<noteq> []" by (cases "pJobs (crPipeline r)") simp_all
  show ?thesis
    by (rule exI [of _ "crPipeline r"], rule conjI [OF prepared_pipeline_valid [OF r(1-3) \<open>pJobs (crPipeline r) \<noteq> []\<close>] r(4)])
qed

section \<open>Building what was prepared\<close>

lemma Validate_erase:
  assumes "Validate cel (Some p) = (Some pl, Inr order)"
  shows "map eraseJob (pJobs pl) = map eraseJob (pJobs p)"
proof -
  from assms(1) obtain jobs where
    v: "validateJobs cel (secretDeclSet (pSecrets p)) 0 Map.empty (pJobs p) = (jobs, Inr (nameIndex (pJobs p)))"
    and pl: "pJobs pl = jobs" by (auto simp: Validate_Inr)
  then show ?thesis
    using validateJobs_erase [of cel "secretDeclSet (pSecrets p)" 0 Map.empty "pJobs p"] by simp
qed

lemma Validate_same_job:
  assumes "Validate cel (Some p) = (Some pl, Inr order)" "j \<in> set (pJobs pl)"
  shows "\<exists>j'\<in>set (pJobs p). eraseJob j = eraseJob j'"
proof -
  have "eraseJob j \<in> set (map eraseJob (pJobs p))"
    unfolding Validate_erase [OF assms(1), symmetric] using assms(2) by simp
  then show ?thesis by auto
qed

lemma Validate_names:
  assumes "Validate cel (Some p) = (Some pl, Inr order)"
  shows "map jName (pJobs pl) = map jName (pJobs p)"
proof -
  have "jName \<circ> eraseJob = (jName :: 'a Job \<Rightarrow> string)" by (simp add: fun_eq_iff eraseJob_def)
  with arg_cong [OF Validate_erase [OF assms], of "map jName"] show ?thesis by simp
qed

lemma collectExports_erase: "eraseJob j = eraseJob j' \<Longrightarrow> collectExports j = collectExports j' \<and> jName j = jName j' \<and> jDependsOn j = jDependsOn j' \<and> jPlatform j = jPlatform j'"
proof -
  have "collectExports (eraseJob j) = collectExports j" for j :: "'a Job"
    by (simp add: collectExports_def eraseJob_def eraseStep_def comp_def)
  moreover have "jName (eraseJob j) = jName j \<and> jDependsOn (eraseJob j) = jDependsOn j \<and> jPlatform (eraseJob j) = jPlatform j" for j :: "'a Job"
    by (simp add: eraseJob_def)
  ultimately show "eraseJob j = eraseJob j' \<Longrightarrow> ?thesis" by metis
qed

text \<open>The builder on a valid pipeline without a stored order, and on one without jobs.\<close>

definition builderOk :: "'def builderEnv \<Rightarrow> 'ast Pipeline \<Rightarrow> bool" where
  "builderOk be p \<longleftrightarrow> (\<forall>st. beMarshal be st \<noteq> None) \<and>
     (\<forall>j\<in>set (pJobs p). (jPlatform j = [] \<or> bePlatform be (jPlatform j) \<noteq> None) \<and>
        (\<forall>x\<in>set (collectExports j). pathClean (xPath x) \<notin> {''.'', ''/''}))"

lemma Build_prepared:
  assumes "pipelineOk cel p \<or> pJobs p = []" "pTopoOrder p = None" "builderOk be p"
  shows "\<exists>res js. Build cel be p opts = Inr res \<and> brJobNames res = map jName js \<and>
    length (brDefinitions res) = length js \<and> mset js = mset (pJobs p)"
proof (cases "pJobs p = []")
  case True
  then have "Build cel be p opts = Inr (emptyResult (pSecrets p))"
    using assms(2) by (simp add: Build_def orderOf_def validOrder_def)
  then show ?thesis using True by (intro exI [of _ "emptyResult (pSecrets p)"] exI [of _ "[]"]) (simp add: emptyResult_def)
next
  case False
  with assms(1) have "pipelineOk cel p" by simp
  then obtain q order where "Validate cel (Some p) = (q, Inr order)" using Validate_accepts [of cel p] by blast
  then obtain pl where v: "Validate cel (Some p) = (Some pl, Inr order)" by (auto simp: Validate_Inr)
  have jobs: "(jPlatform j = [] \<or> bePlatform be (jPlatform j) \<noteq> None) \<and>
      (\<forall>x\<in>set (collectExports j). pathClean (xPath x) \<notin> {''.'', ''/''})" if j: "j \<in> set (pJobs pl)" for j
  proof -
    from Validate_same_job [OF v j] obtain j' where "j' \<in> set (pJobs p)" "eraseJob j = eraseJob j'" by blast
    with assms(3) collectExports_erase show ?thesis unfolding builderOk_def by metis
  qed
  have "orderOf cel p = Inr (pl, order)"
    using False assms(2) v by (simp add: orderOf_def validOrder_def)
  then obtain res where res: "Build cel be p opts = Inr res" "built be (jobOptsOf opts (pEnv pl)) (map ((!) (pJobs pl)) order) res"
    "mset order = mset [0..<length (pJobs pl)]"
    using Build_of_valid [OF v, where be = be and q = p and opts = opts] jobs assms(3)
    by (auto simp: builderOk_def simp del: mset_upt)
  let ?js = "map ((!) (pJobs p)) order"
  have len: "length (pJobs pl) = length (pJobs p)"
    using Validate_names [OF v] by (metis length_map)
  have "set order = {..<length (pJobs p)}"
    using mset_eq_setD [OF res(3)] len by (simp only: set_upt lessThan_atLeast0)
  then have "jName (pJobs pl ! i) = jName (pJobs p ! i)" if "i \<in> set order" for i
    using Validate_names [OF v] that len by (metis lessThan_iff nth_map)
  then have "map jName (map ((!) (pJobs pl)) order) = map jName ?js" by simp
  with res(2) have "brJobNames res = map jName ?js" "length (brDefinitions res) = length ?js"
    by (auto simp: built_def builtWith_def)
  moreover have "mset ?js = mset (pJobs p)" using res(3) len by (metis map_nth mset_map)
  ultimately show ?thesis using res(1) by blast
qed

text \<open>
  Validation accepts an export path that the builder refuses: the check for the root looks
  for slashes only, the builder cleans the path.
\<close>

theorem root_export_not_caught:
  "exportOk \<lparr>xPath = ''/.'', xLocal = ''out''\<rparr> \<and> buildExportDef be st ''/.'' = Inl InvalidExportPath"
proof -
  have "pathClean ''/.'' = ''/''" by code_simp
  then show ?thesis by (simp add: exportOk_def absPath_def notRoot_def buildExportDef_def)
qed

end
