(* ===== verification/Go_Utf8.thy ===== *)
theory Go_Utf8
  imports Go_Strings
begin

text \<open>
  Go's reading of byte strings as UTF-8: \<^verbatim>\<open>utf8.DecodeRune\<close> gives the width of the first character, a byte
  that starts no valid sequence being a character of its own. And the digits of \<^verbatim>\<open>Itoa\<close> as a code.
\<close>

section \<open>Characters\<close>

text \<open>Width and the range of the second byte, by the first byte.\<close>

definition runeInfo :: "nat \<Rightarrow> nat \<times> nat \<times> nat" where
  "runeInfo b =
     (if 0xC2 \<le> b \<and> b \<le> 0xDF then (2, 0x80, 0xBF)
      else if b = 0xE0 then (3, 0xA0, 0xBF)
      else if b = 0xED then (3, 0x80, 0x9F)
      else if 0xE1 \<le> b \<and> b \<le> 0xEF then (3, 0x80, 0xBF)
      else if b = 0xF0 then (4, 0x90, 0xBF)
      else if 0xF1 \<le> b \<and> b \<le> 0xF3 then (4, 0x80, 0xBF)
      else if b = 0xF4 then (4, 0x80, 0x8F)
      else (1, 0, 0))"

definition runeWidth :: "string \<Rightarrow> nat" where
  "runeWidth s =
     (case map of_char s of
        [] \<Rightarrow> 1
      | b # bs \<Rightarrow>
          let (n, lo, hi) = runeInfo b; cs = take (n - 1) bs
          in if n > 1 \<and> length cs = n - 1 \<and> lo \<le> hd cs \<and> hd cs \<le> hi \<and> list_all (\<lambda>c. 0x80 \<le> c \<and> c \<le> 0xBF) (tl cs)
             then n else 1)"

lemma runeWidth_pos: "runeWidth s > 0"
  by (auto simp: runeWidth_def Let_def split: list.splits prod.splits)

function splitRunes :: "string \<Rightarrow> string list" where
  "splitRunes s = (if s = [] then [] else take (runeWidth s) s # splitRunes (drop (runeWidth s) s))"
  by pat_completeness auto
termination
  using runeWidth_pos by (relation "measure length") (auto simp: neq_Nil_conv)

declare splitRunes.simps [simp del]

text \<open>\<^verbatim>\<open>utf8.RuneCountInString\<close>.\<close>

definition RuneCount :: "string \<Rightarrow> nat" where
  "RuneCount s = length (splitRunes s)"

lemma splitRunes_Nil [simp]: "splitRunes [] = []"
  by (subst splitRunes.simps) simp

lemma splitRunes_Nil_iff [simp]: "splitRunes s = [] \<longleftrightarrow> s = []"
  by (subst splitRunes.simps) simp

lemma splitRunes_concat: "concat (splitRunes s) = s"
proof (induction s rule: splitRunes.induct)
  case (1 s)
  then show ?case by (subst splitRunes.simps) simp
qed

lemma splitRunes_nonempty: "r \<in> set (splitRunes s) \<Longrightarrow> r \<noteq> []"
proof (induction s rule: splitRunes.induct)
  case (1 s)
  have "s \<noteq> []" using 1(2) by auto
  moreover have "take (runeWidth s) s \<noteq> []" using calculation runeWidth_pos [of s] by simp
  ultimately show ?case using 1 splitRunes.simps [of s] by auto
qed

text \<open>A string of ASCII characters is split into its bytes.\<close>

lemma runeWidth_ascii: "of_char c < (128 :: nat) \<Longrightarrow> runeWidth (c # s) = 1"
  by (auto simp: runeWidth_def runeInfo_def Let_def)

lemma splitRunes_ascii: "of_char c < (128 :: nat) \<Longrightarrow> splitRunes (c # s) = [c] # splitRunes s"
  by (subst splitRunes.simps) (simp add: runeWidth_ascii)

text \<open>An ASCII character ends whatever sequence precedes it.\<close>

lemma runeInfo_low: "runeInfo b = (n, lo, hi) \<Longrightarrow> n > 1 \<Longrightarrow> lo \<ge> 128"
  by (auto simp: runeInfo_def split: if_splits)

lemma runeWidth_append:
  assumes "s \<noteq> []" "of_char c < (128 :: nat)"
  shows "runeWidth (s @ c # t) = runeWidth s"
proof -
  obtain b bs where s: "s = b # bs" using assms(1) by (cases s) auto
  obtain n lo hi where info: "runeInfo (of_char b) = (n, lo, hi)" by (cases "runeInfo (of_char b)")
  let ?k = "\<lambda>xs. take (n - 1) (map of_char xs) :: nat list"
  have w: "runeWidth (b # xs) =
      (if n > 1 \<and> length (?k xs) = n - 1 \<and> lo \<le> hd (?k xs) \<and> hd (?k xs) \<le> hi \<and> list_all (\<lambda>c. 0x80 \<le> c \<and> c \<le> 0xBF) (tl (?k xs))
       then n else 1)" for xs
    unfolding runeWidth_def list.simps info Let_def prod.case ..
  show ?thesis
  proof (cases "n > 1 \<and> length bs < n - 1")
    case True
    then have lo: "lo \<ge> 128" using info runeInfo_low by blast
    let ?cs = "take (n - 1) (map of_char (bs @ c # t)) :: nat list"
    have "\<not> (lo \<le> hd ?cs \<and> list_all (\<lambda>x. 0x80 \<le> x \<and> x \<le> 0xBF) (tl ?cs))"
    proof (cases bs)
      case Nil
      then show ?thesis using True lo assms(2) by (cases "n - 1") auto
    next
      case (Cons x xs)
      then have "of_char c \<in> set (tl ?cs)" using True by (cases "n - 1") (auto simp: take_Cons')
      then show ?thesis using assms(2) by (force simp: list_all_iff)
    qed
    then have "runeWidth (s @ c # t) = 1" unfolding s append_Cons w by (intro if_not_P) blast
    moreover have "runeWidth s = 1" unfolding s w using True by (intro if_not_P) auto
    ultimately show ?thesis by simp
  next
    case False
    then show ?thesis by (auto simp: s runeWidth_def info Let_def)
  qed
qed

lemma runeWidth_le: "s \<noteq> [] \<Longrightarrow> runeWidth s \<le> length s"
  by (auto simp: runeWidth_def Let_def split: list.splits prod.splits)

lemma splitRunes_append:
  "of_char c < (128 :: nat) \<Longrightarrow> splitRunes (s @ c # t) = splitRunes s @ splitRunes (c # t)"
proof (induction s rule: splitRunes.induct)
  case (1 s)
  show ?case
  proof (cases "s = []")
    case False
    with 1 show ?thesis
      using splitRunes.simps [of s] splitRunes.simps [of "s @ c # t"] runeWidth_le [of s] by (simp add: runeWidth_append)
  qed simp
qed

lemma RuneCount_append: "of_char c < (128 :: nat) \<Longrightarrow> RuneCount (s @ c # t) = RuneCount s + RuneCount (c # t)"
  by (simp add: RuneCount_def splitRunes_append)

lemma RuneCount_ascii [simp]: "of_char c < (128 :: nat) \<Longrightarrow> RuneCount (c # s) = Suc (RuneCount s)"
  by (simp add: RuneCount_def splitRunes_ascii)

lemma RuneCount_Nil [simp]: "RuneCount [] = 0"
  by (simp add: RuneCount_def)

section \<open>Numbers\<close>

definition digitValue :: "char \<Rightarrow> nat" where
  "digitValue c = of_char c - 48"

lemma natDigits_value: "foldl (\<lambda>a c. 10 * a + digitValue c) 0 (natDigits n) = n"
proof (induction n rule: natDigits.induct)
  case (1 n)
  have digit: "digitValue (char_of (48 + d)) = d" if "d < 10" for d :: nat
    using that by (simp add: digitValue_def)
  show ?case
  proof (cases "n < 10")
    case True
    then show ?thesis by (subst natDigits.simps) (simp add: digit)
  next
    case False
    with 1 show ?thesis by (subst natDigits.simps) (simp add: digit)
  qed
qed

lemma natDigits_inj: "natDigits m = natDigits n \<Longrightarrow> m = n"
  using natDigits_value by metis

lemma Itoa_inj_nat: "Itoa (int m) = Itoa (int n) \<Longrightarrow> m = n"
  by (simp add: Itoa_def natDigits_inj)

end
