(* ===== verification/Vis_Graph.thy ===== *)
theory Vis_Graph
  imports Prepared_Pipeline Go_Utf8
begin

text \<open>
  \<^verbatim>\<open>internal/visualize/graph.go\<close>: the graph that the renderers draw. An index out of range is the
  error \<open>IndexPanic\<close>.
\<close>

section \<open>Data\<close>

datatype EdgeKind = DependsEdge | ArtifactEdge

record Edge =
  egFrom :: string
  egTo :: string
  egLabel :: string
  egKind :: EdgeKind

record StepInfo =
  siName :: string
  siWhen :: string
  siHasSecrets :: bool
  siAllowFailure :: bool

record Node =
  ndID :: string
  ndSteps :: "StepInfo list"
  ndWhen :: string
  ndMatrix :: "string list"
  ndImage :: string
  ndHasSecrets :: bool
  ndPublish :: string

record Graph =
  grTitle :: string
  grNodes :: "Node list"
  grEdges :: "Edge list"
  grLayers :: "nat list list"

datatype graphErr = IndexPanic

section \<open>Identifiers\<close>

definition idChar :: "char \<Rightarrow> bool" where
  "idChar c = (CHR ''a'' \<le> c \<and> c \<le> CHR ''z'' \<or> CHR ''A'' \<le> c \<and> c \<le> CHR ''Z'' \<or> CHR ''0'' \<le> c \<and> c \<le> CHR ''9'' \<or> c = CHR ''_'')"

text \<open>\<^verbatim>\<open>ReplaceAllString\<close> replaces characters, not bytes.\<close>

definition idBase :: "string \<Rightarrow> string" where
  "idBase s = concat (map (\<lambda>r. if list_all idChar r then r else ''_'') (splitRunes s))"

definition candidate :: "string \<Rightarrow> nat \<Rightarrow> string" where
  "candidate base i = base @ ''_'' @ Itoa (int i)"

text \<open>
  The identifier and the keys seen afterwards. The loop over the suffixes has no bound in the
  code; \<open>None\<close> would mean that it did not find a free one among the first \<open>length seen + 1\<close>.
\<close>

definition SanitizeID :: "string \<Rightarrow> string list \<Rightarrow> (string \<times> string list) option" where
  "SanitizeID s seen =
     (if idBase s \<notin> set seen then Some (idBase s, seen @ [idBase s])
      else map_option (\<lambda>i. (candidate (idBase s) i, seen @ [candidate (idBase s) i]))
             (find (\<lambda>i. candidate (idBase s) i \<notin> set seen) [1..<length seen + 2]))"

section \<open>Nodes and edges\<close>

definition exprOf :: "'ast When option \<Rightarrow> string" where
  "exprOf w = (case w of None \<Rightarrow> [] | Some x \<Rightarrow> wExpression x)"

definition stepInfo :: "'ast Step \<Rightarrow> StepInfo" where
  "stepInfo s =
     \<lparr>siName = sName s, siWhen = exprOf (sWhen s), siHasSecrets = (sSecrets s \<noteq> []), siAllowFailure = sAllowFailure s\<rparr>"

definition buildNode :: "'ast Job \<Rightarrow> Node" where
  "buildNode j =
     \<lparr>ndID = jName j, ndSteps = map stepInfo (jSteps j), ndWhen = exprOf (jWhen j),
      ndMatrix = (case jMatrix j of None \<Rightarrow> [] | Some m \<Rightarrow> map (\<lambda>dim. dName dim @ ''='' @ joinWith '','' (dValues dim)) (mDimensions m)),
      ndImage = jImage j, ndHasSecrets = (jSecrets j \<noteq> [] \<or> list_ex (\<lambda>s. sSecrets s \<noteq> []) (jSteps j)),
      ndPublish = (case jPublish j of None \<Rightarrow> [] | Some pub \<Rightarrow> pubImage pub)\<rparr>"

definition buildNodes :: "'ast Job list \<Rightarrow> Node list" where
  "buildNodes jobs = map buildNode jobs"

definition jobEdges :: "'ast Job \<Rightarrow> Edge list" where
  "jobEdges j =
     map (\<lambda>dep. \<lparr>egFrom = dep, egTo = jName j, egLabel = [], egKind = DependsEdge\<rparr>) (jDependsOn j) @
     map (\<lambda>a. \<lparr>egFrom = aFrom a, egTo = jName j, egLabel = aSource a @ '' -> '' @ aTarget a, egKind = ArtifactEdge\<rparr>) (jArtifacts j)"

definition buildEdges :: "'ast Job list \<Rightarrow> Edge list" where
  "buildEdges jobs = concat (map jobEdges jobs)"

section \<open>Layers\<close>

text \<open>A map from names to positions, filled in order: the last position of a name wins.\<close>

definition lastIndex :: "string list \<Rightarrow> string \<rightharpoonup> nat" where
  "lastIndex names = map_of (rev (zip names [0..<length names]))"

definition relaxDep :: "(string \<rightharpoonup> nat) \<Rightarrow> nat \<Rightarrow> string \<Rightarrow> nat list \<Rightarrow> nat list" where
  "relaxDep nameToIdx idx dep depths =
     (case nameToIdx dep of
        None \<Rightarrow> depths
      | Some di \<Rightarrow> depths[idx := max (depths ! idx) (depths ! di + 1)])"

definition relaxJob :: "'ast Job list \<Rightarrow> (string \<rightharpoonup> nat) \<Rightarrow> nat \<Rightarrow> nat list \<Rightarrow> graphErr + nat list" where
  "relaxJob jobs nameToIdx idx depths =
     (if idx < length jobs then Inr (fold (relaxDep nameToIdx idx) (jDependsOn (jobs ! idx)) depths) else Inl IndexPanic)"

definition groupByDepth :: "nat list \<Rightarrow> nat list list" where
  "groupByDepth depths =
     map (\<lambda>d. filter (\<lambda>i. depths ! i = d) [0..<length depths]) [0..<Suc (Max (set depths))]"

definition buildLayers :: "'ast Job list \<Rightarrow> nat list \<Rightarrow> (string \<rightharpoonup> nat) \<Rightarrow> graphErr + nat list list" where
  "buildLayers jobs topoOrder nameToIdx =
     (if jobs = [] then Inr []
      else if topoOrder = [] then Inr [[0..<length jobs]]
      else bindE (foldE (relaxJob jobs nameToIdx) topoOrder (replicate (length jobs) 0)) (\<lambda>depths. Inr (groupByDepth depths)))"

definition BuildGraph :: "'ast Pipeline \<Rightarrow> graphErr + Graph" where
  "BuildGraph p =
     bindE (buildLayers (pJobs p) (case pTopoOrder p of None \<Rightarrow> [] | Some ord \<Rightarrow> ord) (lastIndex (map jName (pJobs p)))) (\<lambda>layers.
       Inr \<lparr>grTitle = pName p, grNodes = buildNodes (pJobs p), grEdges = buildEdges (pJobs p), grLayers = layers\<rparr>)"

definition nodeIndex :: "Graph \<Rightarrow> string \<rightharpoonup> nat" where
  "nodeIndex g = lastIndex (map ndID (grNodes g))"

section \<open>Identifiers are fresh\<close>

lemma candidate_inj: "candidate b i = candidate b k \<Longrightarrow> i = k"
  by (simp add: candidate_def Itoa_inj_nat)

lemma find_Some_set: "find P xs = Some x \<Longrightarrow> x \<in> set xs \<and> P x"
  by (induction xs) (auto split: if_splits)

text \<open>The loop ends: among \<open>length seen + 1\<close> different candidates one is free.\<close>

lemma candidate_free: "\<exists>i. find (\<lambda>i. candidate b i \<notin> set seen) [1..<length seen + 2] = Some i"
proof (rule ccontr)
  assume "\<nexists>i. find (\<lambda>i. candidate b i \<notin> set seen) [1..<length seen + 2] = Some i"
  then have "find (\<lambda>i. candidate b i \<notin> set seen) [1..<length seen + 2] = None" by simp
  then have sub: "candidate b ` {1..<length seen + 2} \<subseteq> set seen"
    unfolding find_None_iff by (simp only: set_upt) blast
  have "inj_on (candidate b) {1..<length seen + 2}" by (meson candidate_inj inj_onI)
  then have "card (candidate b ` {1..<length seen + 2}) = length seen + 1" by (simp add: card_image)
  with card_mono [OF _ sub] card_length [of seen] show False by simp
qed

lemma SanitizeID_fresh:
  "\<exists>ident. SanitizeID s seen = Some (ident, seen @ [ident]) \<and> ident \<notin> set seen \<and> (s \<noteq> [] \<longrightarrow> ident \<noteq> [])"
proof (cases "idBase s \<in> set seen")
  case True
  from candidate_free [of "idBase s" seen] obtain i where
    i: "find (\<lambda>i. candidate (idBase s) i \<notin> set seen) [1..<length seen + 2] = Some i" by blast
  then show ?thesis using True find_Some_set [OF i] by (auto simp: SanitizeID_def candidate_def)
next
  case False
  have "idBase s \<noteq> []" if "s \<noteq> []"
  proof -
    show ?thesis
    proof (cases "splitRunes s")
      case (Cons r rs)
      with splitRunes_nonempty [of r s] show ?thesis by (auto simp: idBase_def)
    qed (use that in simp)
  qed
  with False show ?thesis by (simp add: SanitizeID_def)
qed

section \<open>Layers are longest paths\<close>

lemma lastIndex_distinct: "distinct names \<Longrightarrow> lastIndex names n = Some i \<longleftrightarrow> i < length names \<and> names ! i = n"
  unfolding lastIndex_def by (auto simp: map_of_eq_Some_iff in_set_zip rev_map [symmetric] simp flip: rev_map)

text \<open>\<open>dependsOn jobs i k\<close>: the job at position \<open>i\<close> depends on the one at \<open>k\<close>.\<close>

definition dependsOn :: "'ast Job list \<Rightarrow> nat \<Rightarrow> nat \<Rightarrow> bool" where
  "dependsOn jobs i k \<longleftrightarrow> k < length jobs \<and> jName (jobs ! k) \<in> set (jDependsOn (jobs ! i))"

definition longest :: "'ast Job list \<Rightarrow> nat list \<Rightarrow> nat \<Rightarrow> bool" where
  "longest jobs ds i \<longleftrightarrow> (\<forall>k. dependsOn jobs i k \<longrightarrow> ds ! k < ds ! i) \<and>
     (ds ! i = 0 \<or> (\<exists>k. dependsOn jobs i k \<and> ds ! i = Suc (ds ! k)))"

text \<open>The inner loop writes the largest depth of a dependency plus one.\<close>

lemma relaxDep_cases:
  "m dep = None \<Longrightarrow> relaxDep m idx dep ds = ds"
  "m dep = Some di \<Longrightarrow> relaxDep m idx dep ds = ds[idx := max (ds ! idx) (ds ! di + 1)]"
  by (simp_all add: relaxDep_def)

lemma relaxDeps:
  assumes "idx < length ds" "\<forall>dep\<in>set deps. m dep \<noteq> Some idx"
  shows "\<exists>x. fold (relaxDep m idx) deps ds = ds[idx := x] \<and> ds ! idx \<le> x \<and>
    (\<forall>dep\<in>set deps. \<forall>di. m dep = Some di \<longrightarrow> ds ! di < x) \<and>
    (x = ds ! idx \<or> (\<exists>dep\<in>set deps. \<exists>di. m dep = Some di \<and> x = Suc (ds ! di)))"
  using assms(2)
proof (induction deps rule: rev_induct)
  case (snoc dep deps)
  then obtain x where x: "fold (relaxDep m idx) deps ds = ds[idx := x]" "ds ! idx \<le> x"
    "\<forall>dep\<in>set deps. \<forall>di. m dep = Some di \<longrightarrow> ds ! di < x"
    "x = ds ! idx \<or> (\<exists>dep\<in>set deps. \<exists>di. m dep = Some di \<and> x = Suc (ds ! di))" by auto
  show ?case
  proof (cases "m dep")
    case None
    with x show ?thesis by (intro exI [of _ x]) (auto simp: relaxDep_cases)
  next
    case (Some di)
    with snoc.prems have "di \<noteq> idx" by auto
    then have fold: "fold (relaxDep m idx) (deps @ [dep]) ds = ds[idx := max x (Suc (ds ! di))]"
      using Some assms(1) x(1) by (simp add: relaxDep_cases)
    show ?thesis
    proof (cases "ds ! di < x")
      case True
      then have "max x (Suc (ds ! di)) = x" by simp
      with fold x(2-4) Some True show ?thesis by (intro exI [of _ x]) auto
    next
      case False
      then have "max x (Suc (ds ! di)) = Suc (ds ! di)" by simp
      with fold x(2,3) Some False show ?thesis by (intro exI [of _ "Suc (ds ! di)"]) auto
    qed
  qed
qed (auto intro!: exI [of _ "ds ! idx"])

definition depthsOk :: "'ast Job list \<Rightarrow> nat set \<Rightarrow> nat list \<Rightarrow> bool" where
  "depthsOk jobs S ds \<longleftrightarrow> length ds = length jobs \<and> (\<forall>i\<in>S. longest jobs ds i) \<and> (\<forall>i<length jobs. i \<notin> S \<longrightarrow> ds ! i = 0)"

lemma relaxJob_step:
  assumes "depthsOk jobs S ds" "distinct (map jName jobs)" "i < length jobs" "i \<notin> S"
    and "\<forall>k. dependsOn jobs i k \<longrightarrow> k \<in> S" "\<forall>j\<in>S. \<forall>k. dependsOn jobs j k \<longrightarrow> k \<in> S"
    and "relaxJob jobs (lastIndex (map jName jobs)) i ds = Inr ds'"
  shows "depthsOk jobs (insert i S) ds'"
proof -
  let ?m = "lastIndex (map jName jobs)"
  have m: "?m n = Some k \<longleftrightarrow> k < length jobs \<and> jName (jobs ! k) = n" for n k
    using lastIndex_distinct [OF assms(2)] by auto
  have dep: "dependsOn jobs i k \<longleftrightarrow> (\<exists>n\<in>set (jDependsOn (jobs ! i)). ?m n = Some k)" for k
    by (auto simp: m dependsOn_def)
  have "\<forall>n\<in>set (jDependsOn (jobs ! i)). ?m n \<noteq> Some i" using assms(4,5) dep by blast
  from relaxDeps [OF _ this, of ds] assms(1,3,7) obtain x where x: "ds' = ds[i := x]"
    "\<forall>n\<in>set (jDependsOn (jobs ! i)). \<forall>k. ?m n = Some k \<longrightarrow> ds ! k < x"
    "x = ds ! i \<or> (\<exists>n\<in>set (jDependsOn (jobs ! i)). \<exists>k. ?m n = Some k \<and> x = Suc (ds ! k))"
    by (auto simp: relaxJob_def depthsOk_def)
  have zero: "ds ! i = 0" "i < length ds" using assms(1,3,4) by (auto simp: depthsOk_def)
  have other: "ds' ! k = ds ! k" if "k \<in> S" for k using that assms(4) unfolding x(1) by (metis nth_list_update_neq)
  have "longest jobs ds' i"
    unfolding longest_def using x(2,3) zero assms(5) other by (auto simp: x(1) dep) metis+
  moreover have "longest jobs ds' j" if "j \<in> S" for j
    using assms(1,6) that other unfolding longest_def depthsOk_def by (metis (no_types, lifting))
  moreover have "ds' ! k = 0" if "k < length jobs" "k \<notin> insert i S" for k
    using that assms(1) by (auto simp: x(1) depthsOk_def)
  ultimately show ?thesis using assms(1) by (auto simp: depthsOk_def x(1))
qed

lemma relaxJobs:
  assumes "distinct (map jName jobs)" "distinct order" "set order \<subseteq> {..<length jobs}"
    and "\<And>us i vs k. order = us @ i # vs \<Longrightarrow> dependsOn jobs i k \<Longrightarrow> k \<in> set us"
  shows "\<exists>ds. foldE (relaxJob jobs (lastIndex (map jName jobs))) order (replicate (length jobs) 0) = Inr ds \<and>
    depthsOk jobs (set order) ds"
proof -
  let ?run = "\<lambda>xs. foldE (relaxJob jobs (lastIndex (map jName jobs))) xs (replicate (length jobs) 0)"
  have "\<exists>ds. ?run us = Inr ds \<and> depthsOk jobs (set us) ds" if "order = us @ vs" for us vs
    using that
  proof (induction us arbitrary: vs rule: rev_induct)
    case (snoc i us)
    then obtain ds where ds: "?run us = Inr ds" "depthsOk jobs (set us) ds" by auto
    have i: "i < length jobs" "i \<notin> set us" using snoc.prems assms(2,3) by auto
    then obtain ds' where ds': "relaxJob jobs (lastIndex (map jName jobs)) i ds = Inr ds'" by (simp add: relaxJob_def)
    have deps: "\<forall>k. dependsOn jobs i k \<longrightarrow> k \<in> set us" using assms(4) [of us i vs] snoc.prems by simp
    have closed: "\<forall>j\<in>set us. \<forall>k. dependsOn jobs j k \<longrightarrow> k \<in> set us"
    proof (intro ballI allI impI)
      fix j k
      assume "j \<in> set us" "dependsOn jobs j k"
      moreover from this obtain us1 us2 where "us = us1 @ j # us2" by (meson split_list)
      ultimately show "k \<in> set us" using assms(4) [of us1 j "us2 @ i # vs" k] snoc.prems by auto
    qed
    from relaxJob_step [OF ds(2) assms(1) i deps closed ds'] ds(1) ds' show ?case by (simp add: insert_commute)
  qed (simp add: depthsOk_def)
  from this [of order "[]"] show ?thesis by simp
qed

lemma depth_below:
  assumes "\<And>i. i < n \<Longrightarrow> ds ! i = 0 \<or> (\<exists>k<n. ds ! i = Suc (ds ! k))" "i < n" "l \<le> ds ! i"
  shows "\<exists>k<n. ds ! k = l"
  using assms(2,3)
proof (induction "ds ! i - l" arbitrary: i)
  case (Suc d)
  then have "ds ! i \<noteq> 0" by auto
  with assms(1) [OF Suc.prems(1)] obtain k where k: "k < n" "ds ! i = Suc (ds ! k)" by auto
  with Suc.hyps(2) have "d = ds ! k - l" "l \<le> ds ! k" by auto
  from Suc.hyps(1) [OF this(1) k(1) this(2)] show ?case .
qed auto

lemma validated_depths:
  assumes "Validate cel (Some p) = (Some pl, Inr order)"
  shows "\<exists>ds. foldE (relaxJob (pJobs pl) (lastIndex (map jName (pJobs pl)))) order (replicate (length (pJobs pl)) 0) = Inr ds \<and>
    length ds = length (pJobs pl) \<and> (\<forall>i<length (pJobs pl). longest (pJobs pl) ds i)"
proof -
  note topo = Validate_topo [OF assms]
  let ?jobs = "pJobs pl" and ?n = "length (pJobs pl)"
  have dist: "distinct (map jName ?jobs)"
    using Validate_pipelineOk [OF assms] by (simp_all add: pipelineOk_def jobNames_def)
  have deps: "k \<in> set us" if "order = us @ i # vs" "dependsOn ?jobs i k" for us i vs k
  proof -
    from topo that have "jName (?jobs ! k) \<in> jName ` set (map ((!) ?jobs) us)" "k < ?n"
      unfolding dependsOn_def by blast+
    then obtain u where u: "u \<in> set us" "jName (?jobs ! u) = jName (?jobs ! k)" by auto
    moreover have "u < ?n" using topo that(1) u(1) by auto
    ultimately show ?thesis using dist \<open>k < ?n\<close> by (metis nth_eq_iff_index_eq length_map nth_map)
  qed
  have "\<exists>ds. foldE (relaxJob ?jobs (lastIndex (map jName ?jobs))) order (replicate ?n 0) = Inr ds \<and>
    depthsOk ?jobs (set order) ds"
    by (rule relaxJobs [OF dist]) (use topo deps in \<open>simp_all\<close>)
  with topo show ?thesis by (auto simp: depthsOk_def)
qed

text \<open>C31: the layers of the diagram are the longest-path layers of the job graph. For a pipeline
  that \<^verbatim>\<open>Validate\<close> has accepted and ordered, building the graph does not panic; every job is in
  exactly one layer and no layer is empty; each job lies below all its dependencies, exactly one
  layer below the deepest of them, and in the first layer only if it has none.\<close>

theorem layers_longest_path:
  assumes "Validate cel (Some p) = (Some pl, Inr order)"
  shows "\<exists>g depth. BuildGraph pl = Inr g \<and> [] \<notin> set (grLayers g) \<and>
    (\<forall>l < length (grLayers g). grLayers g ! l = filter (\<lambda>i. depth i = l) [0..<length (pJobs pl)]) \<and>
    (\<forall>i < length (pJobs pl). depth i < length (grLayers g) \<and>
      (\<forall>k. dependsOn (pJobs pl) i k \<longrightarrow> depth k < depth i) \<and>
      (depth i > 0 \<longrightarrow> (\<exists>k. dependsOn (pJobs pl) i k \<and> depth i = Suc (depth k))))"
proof -
  note topo = Validate_topo [OF assms]
  let ?jobs = "pJobs pl" and ?n = "length (pJobs pl)"
  have ne: "?jobs \<noteq> []" using Validate_pipelineOk [OF assms] by (simp add: pipelineOk_def)
  obtain ds where ds: "foldE (relaxJob ?jobs (lastIndex (map jName ?jobs))) order (replicate ?n 0) = Inr ds"
    and len: "length ds = ?n" and long: "\<And>i. i < ?n \<Longrightarrow> longest ?jobs ds i"
    using validated_depths [OF assms] by blast
  have "order \<noteq> []" using topo ne by auto
  then have g: "BuildGraph pl = Inr \<lparr>grTitle = pName pl, grNodes = buildNodes ?jobs, grEdges = buildEdges ?jobs,
      grLayers = groupByDepth ds\<rparr>" (is "_ = Inr ?g") using ds ne topo by (simp add: BuildGraph_def buildLayers_def)
  have bound: "ds ! i \<le> Max (set ds)" if "i < ?n" for i using that len by simp
  have filled: "\<exists>k<?n. ds ! k = l" if "l \<le> Max (set ds)" for l
  proof -
    have "Max (set ds) \<in> set ds" using ne len by (intro Max_in) auto
    then obtain i where "i < ?n" "ds ! i = Max (set ds)" using len by (metis in_set_conv_nth)
    with that depth_below [of ?n ds i l] long show ?thesis unfolding longest_def dependsOn_def by metis
  qed
  have "filter (\<lambda>i. ds ! i = l) [0..<?n] \<noteq> []" if "l < Suc (Max (set ds))" for l
    using filled [of l] that by (auto simp: filter_empty_conv)
  then have "[] \<notin> set (groupByDepth ds)" unfolding groupByDepth_def len set_map set_upt by force
  moreover have "groupByDepth ds ! l = filter (\<lambda>i. ds ! i = l) [0..<?n]" if "l < length (groupByDepth ds)" for l
    using that nth_map [of l "[0..<Suc (Max (set ds))]"] by (simp add: groupByDepth_def len del: upt_Suc)
  moreover have "ds ! i < length (groupByDepth ds)" if "i < ?n" for i using bound [OF that] by (simp add: groupByDepth_def)
  moreover have "\<exists>k. dependsOn ?jobs i k \<and> ds ! i = Suc (ds ! k)" if "i < ?n" "0 < ds ! i" for i
    using long [OF that(1)] that(2) by (auto simp: longest_def)
  moreover have "ds ! k < ds ! i" if "i < ?n" "dependsOn ?jobs i k" for i k using long that by (auto simp: longest_def)
  ultimately show ?thesis using g by (intro exI [of _ ?g] exI [of _ "(!) ds"]) simp
qed

theorem layers_longest_path_witness:
  "\<exists>pl g. Validate sampleCel (Some samplePipeline) = (Some pl, Inr [1, 0]) \<and> BuildGraph pl = Inr g \<and> [] \<notin> set (grLayers g)"
proof -
  obtain q where q: "Validate sampleCel (Some samplePipeline) = (q, Inr [1, 0])"
    using sample_valid by (metis prod.collapse)
  then obtain pl where "q = Some pl" using Validate_Inr by blast
  with q have pl: "Validate sampleCel (Some samplePipeline) = (Some pl, Inr [1, 0])" by simp
  from layers_longest_path [OF pl] pl show ?thesis by blast
qed

end
