(* ===== verification/Vis_Emit.thy ===== *)
theory Vis_Emit
  imports Vis_Graph
begin

text \<open>
  \<^verbatim>\<open>internal/visualize/d2.go\<close> and \<^verbatim>\<open>dot.go\<close>: the two file formats, as the lines they write. The quoting verb
  of fmt is an argument. No line depends on the success of an earlier write, so the lines are
  computed first and written afterwards; \<open>None\<close> is the unbounded search of \<open>SanitizeID\<close>.
\<close>

section \<open>The writer\<close>

text \<open>\<open>ok n\<close> says whether the write of line \<open>n\<close> succeeds.\<close>

record termWriter =
  twOut :: "string list"
  twErr :: bool

definition writeln :: "(nat \<Rightarrow> bool) \<Rightarrow> string \<Rightarrow> termWriter \<Rightarrow> termWriter" where
  "writeln ok s tw =
     (if twErr tw then tw
      else if ok (length (twOut tw)) then tw\<lparr>twOut := twOut tw @ [s]\<rparr>
      else tw\<lparr>twErr := True\<rparr>)"

definition writeLines :: "(nat \<Rightarrow> bool) \<Rightarrow> string list \<Rightarrow> termWriter" where
  "writeLines ok lines = fold (writeln ok) lines \<lparr>twOut = [], twErr = False\<rparr>"

section \<open>Identifiers of a list of names\<close>

fun sanitizeAll :: "string list \<Rightarrow> string list \<Rightarrow> string list option" where
  "sanitizeAll [] seen = Some []"
| "sanitizeAll (s # names) seen =
     (case SanitizeID s seen of
        None \<Rightarrow> None
      | Some (ident, seen') \<Rightarrow> map_option ((#) ident) (sanitizeAll names seen'))"

text \<open>The map from names to identifiers; a missing name reads as the empty string.\<close>

definition idLookup :: "string list \<Rightarrow> string list \<Rightarrow> string \<Rightarrow> string" where
  "idLookup names ids n = (case map_of (rev (zip names ids)) n of None \<Rightarrow> [] | Some ident \<Rightarrow> ident)"

section \<open>D2\<close>

definition buildLabel :: "Node \<Rightarrow> string" where
  "buildLabel n =
     joinWith [CHR 0x0A] ([ndID n] @
       (if ndWhen n \<noteq> [] then [''[when: '' @ ndWhen n @ '']''] else []) @
       map (\<lambda>m. ''[matrix: '' @ m @ '']'') (ndMatrix n) @
       (if ndHasSecrets n then [''[secrets]''] else []) @
       (if ndPublish n \<noteq> [] then [''[publish: '' @ ndPublish n @ '']''] else []))"

definition d2Container :: "(string \<Rightarrow> string) \<Rightarrow> Node \<Rightarrow> string \<Rightarrow> string list option" where
  "d2Container quoted n jobID =
     map_option (\<lambda>ids.
         [jobID @ '': {'', ''  label: '' @ quoted (buildLabel n)] @
         map (\<lambda>(s, stepID). ''  '' @ stepID @ '': {label: '' @
               quoted (siName s @ (if siAllowFailure s then '' [!]'' else [])) @ ''}'') (zip (ndSteps n) ids) @
         [''}''])
       (sanitizeAll (map siName (ndSteps n)) [])"

definition d2Edge :: "(string \<Rightarrow> string) \<Rightarrow> (string \<Rightarrow> string) \<Rightarrow> Edge \<Rightarrow> string list" where
  "d2Edge quoted jobIDs e =
     (let fromID = jobIDs (egFrom e); toID = jobIDs (egTo e) in
      if fromID = [] \<or> toID = [] then []
      else (case egKind e of
              DependsEdge \<Rightarrow> [fromID @ '' -> '' @ toID]
            | ArtifactEdge \<Rightarrow>
                [fromID @ '' -> '' @ toID @ '': '' @ quoted (egLabel e) @ '' {'', ''  style.stroke-dash: 5'', ''}'']))"

definition d2Lines :: "(string \<Rightarrow> string) \<Rightarrow> Graph \<Rightarrow> string list option" where
  "d2Lines quoted g =
     (case sanitizeAll (map ndID (grNodes g)) [] of
        None \<Rightarrow> None
      | Some ids \<Rightarrow>
          map_option (\<lambda>cs.
              (if grTitle g \<noteq> [] then [''# Pipeline: '' @ grTitle g] else []) @ concat cs @
              concat (map (d2Edge quoted (idLookup (map ndID (grNodes g)) ids)) (grEdges g)))
            (those (map (\<lambda>(n, ident). d2Container quoted n ident) (zip (grNodes g) ids))))"

definition EmitD2 :: "(string \<Rightarrow> string) \<Rightarrow> (nat \<Rightarrow> bool) \<Rightarrow> Graph \<Rightarrow> termWriter option" where
  "EmitD2 quoted ok g = map_option (writeLines ok) (d2Lines quoted g)"

section \<open>DOT\<close>

definition buildDOTJobLabel :: "Node \<Rightarrow> string" where
  "buildDOTJobLabel n =
     joinWith [CHR 0x0A] ([ndID n] @
       (if ndWhen n \<noteq> [] then [''[when: '' @ ndWhen n @ '']''] else []) @
       map (\<lambda>m. ''[matrix: '' @ m @ '']'') (ndMatrix n) @
       (if ndHasSecrets n then [''[secrets]''] else []) @
       (if ndPublish n \<noteq> [] then [''[publish: '' @ ndPublish n @ '']''] else []))"

text \<open>The lines of a cluster and the identifiers of its steps.\<close>

definition dotSubgraph :: "(string \<Rightarrow> string) \<Rightarrow> Node \<Rightarrow> string \<Rightarrow> (string list \<times> string list) option" where
  "dotSubgraph quoted n jobID =
     map_option (\<lambda>ids.
         let sids = map (\<lambda>i. jobID @ ''__'' @ i) ids in
         ([''  subgraph cluster_'' @ jobID @ '' {'', ''    label='' @ quoted (buildDOTJobLabel n) @ '';''] @
          map (\<lambda>(s, sid). ''    '' @ sid @ '' [label='' @ quoted (siName s) @ ''];'') (zip (ndSteps n) sids) @
          [''  }''], sids))
       (sanitizeAll (map siName (ndSteps n)) [])"

definition dotFirstStep :: "string list \<Rightarrow> string \<Rightarrow> string" where
  "dotFirstStep steps fallback = (case steps of [] \<Rightarrow> fallback | s # _ \<Rightarrow> s)"

definition emitDOTEdge :: "(string \<Rightarrow> string) \<Rightarrow> (string \<Rightarrow> string) \<Rightarrow> (string \<Rightarrow> string list) \<Rightarrow> Edge \<Rightarrow> string list" where
  "emitDOTEdge quoted jobIDs stepIDs e =
     (let fromJob = jobIDs (egFrom e); toJob = jobIDs (egTo e) in
      if fromJob = [] \<or> toJob = [] then []
      else let fromNode = dotFirstStep (stepIDs (egFrom e)) (''cluster_'' @ fromJob);
               toNode = dotFirstStep (stepIDs (egTo e)) (''cluster_'' @ toJob)
           in case egKind e of
                DependsEdge \<Rightarrow>
                  [''  '' @ fromNode @ '' -> '' @ toNode @ '' [ltail='' @ [CHR 0x22] @ ''cluster_'' @ fromJob @ [CHR 0x22] @
                   '' lhead='' @ [CHR 0x22] @ ''cluster_'' @ toJob @ [CHR 0x22] @ ''];'']
              | ArtifactEdge \<Rightarrow>
                  [''  '' @ fromNode @ '' -> '' @ toNode @ '' [label='' @ quoted (egLabel e) @ '' style=dashed];''])"

definition dotLines :: "(string \<Rightarrow> string) \<Rightarrow> Graph \<Rightarrow> string list option" where
  "dotLines quoted g =
     (let names = map ndID (grNodes g) in
      case sanitizeAll names [] of
        None \<Rightarrow> None
      | Some ids \<Rightarrow>
          map_option (\<lambda>subs.
              [''digraph pipeline {'', ''  rankdir=TB;'', ''  compound=true;'',
               ''  node [shape=box fontname='' @ [CHR 0x22] @ ''monospace'' @ [CHR 0x22] @ ''];''] @
              concat (map fst subs) @
              concat (map (emitDOTEdge quoted (idLookup names ids)
                (\<lambda>n. case map_of (rev (zip names (map snd subs))) n of None \<Rightarrow> [] | Some sids \<Rightarrow> sids)) (grEdges g)) @
              [''}''])
            (those (map (\<lambda>n. dotSubgraph quoted n (idLookup names ids (ndID n))) (grNodes g))))"

definition EmitDOT :: "(string \<Rightarrow> string) \<Rightarrow> (nat \<Rightarrow> bool) \<Rightarrow> Graph \<Rightarrow> termWriter option" where
  "EmitDOT quoted ok g = map_option (writeLines ok) (dotLines quoted g)"

section \<open>Files\<close>

definition IsSupportedOutputExt :: "string \<Rightarrow> bool" where
  "IsSupportedOutputExt ext = (ext = ''.d2'' \<or> ext = ''.dot'')"

datatype emitErr = UnsupportedFormat | WriteFailed

definition EmitToFile :: "(string \<Rightarrow> string) \<Rightarrow> (nat \<Rightarrow> bool) \<Rightarrow> Graph \<Rightarrow> string \<Rightarrow> (string list \<times> emitErr option) option" where
  "EmitToFile quoted ok g outPath =
     (let ext = ToLower (pathExt outPath);
          emitted = (\<lambda>tw. (twOut tw, if twErr tw then Some WriteFailed else None))
      in if ext = ''.d2'' then map_option emitted (EmitD2 quoted ok g)
         else if ext = ''.dot'' then map_option emitted (EmitDOT quoted ok g)
         else Some ([], Some UnsupportedFormat))"

section \<open>Properties\<close>

lemma writeLines_ok:
  "prefix (twOut (writeLines ok lines)) lines" "\<not> twErr (writeLines ok lines) \<longleftrightarrow> (\<forall>n<length lines. ok n)"
  "\<not> twErr (writeLines ok lines) \<Longrightarrow> twOut (writeLines ok lines) = lines"
proof -
  have "prefix (twOut (writeLines ok lines)) lines \<and>
      (\<not> twErr (writeLines ok lines) \<longleftrightarrow> (\<forall>n<length lines. ok n)) \<and>
      (\<not> twErr (writeLines ok lines) \<longrightarrow> twOut (writeLines ok lines) = lines)"
  proof (induction lines rule: rev_induct)
    case (snoc l lines)
    then show ?case by (auto simp: writeLines_def writeln_def less_Suc_eq intro: prefix_prefix)
  qed (simp add: writeLines_def)
  then show "prefix (twOut (writeLines ok lines)) lines" "\<not> twErr (writeLines ok lines) \<longleftrightarrow> (\<forall>n<length lines. ok n)"
    "\<not> twErr (writeLines ok lines) \<Longrightarrow> twOut (writeLines ok lines) = lines" by blast+
qed

lemma sanitizeAll_distinct:
  "\<exists>ids. sanitizeAll names seen = Some ids \<and> length ids = length names \<and> distinct ids \<and> set ids \<inter> set seen = {} \<and>
     ([] \<notin> set names \<longrightarrow> [] \<notin> set ids)"
proof (induction names arbitrary: seen)
  case (Cons s names)
  obtain ident where i: "SanitizeID s seen = Some (ident, seen @ [ident])" "ident \<notin> set seen" "s \<noteq> [] \<longrightarrow> ident \<noteq> []"
    using SanitizeID_fresh by blast
  from Cons.IH [of "seen @ [ident]"] obtain ids where "sanitizeAll names (seen @ [ident]) = Some ids" "length ids = length names"
    "distinct ids" "set ids \<inter> set (seen @ [ident]) = {}" "[] \<notin> set names \<longrightarrow> [] \<notin> set ids" by blast
  with i show ?case by auto
qed simp

lemma those_map_Some [simp]: "those (map Some xs) = Some xs"
  by (induction xs) auto

lemma idLookup_nth:
  assumes "distinct names" "length ids = length names" "i < length names"
  shows "idLookup names ids (names ! i) = ids ! i"
proof -
  have "(names ! i, ids ! i) \<in> set (rev (zip names ids))" using assms(2,3) by (auto simp: in_set_zip)
  moreover have "distinct (map fst (rev (zip names ids)))" using assms(1,2) by (simp add: rev_map [symmetric])
  ultimately have "map_of (rev (zip names ids)) (names ! i) = Some (ids ! i)" by (intro map_of_is_SomeI)
  then show ?thesis by (simp add: idLookup_def)
qed

lemma idLookup_map: "distinct names \<Longrightarrow> length ids = length names \<Longrightarrow> map (idLookup names ids) names = ids"
  by (intro nth_equalityI) (simp_all add: idLookup_nth)

text \<open>The edges of a valid pipeline join its jobs.\<close>

lemma buildEdges_known:
  assumes "pipelineOk cel p" "e \<in> set (buildEdges (pJobs p))"
  shows "egFrom e \<in> jName ` set (pJobs p)" "egTo e \<in> jName ` set (pJobs p)"
proof -
  from assms(2) obtain j where j: "j \<in> set (pJobs p)" "e \<in> set (jobEdges j)" by (auto simp: buildEdges_def)
  have "set (jDependsOn j) \<subseteq> jName ` set (pJobs p)" "\<forall>a\<in>set (jArtifacts j). aFrom a \<in> set (jDependsOn j)"
    using assms(1) j(1) by (auto simp: pipelineOk_def depsOk_def jobNames_def jobOk_def artifactsOk_def artifactOk_def)
  then show "egFrom e \<in> jName ` set (pJobs p)" "egTo e \<in> jName ` set (pJobs p)"
    using j by (auto simp: jobEdges_def)
qed

lemma validName_nonempty: "validName n \<Longrightarrow> n \<noteq> []"
proof
  assume "validName n" "n = []"
  moreover have "\<not> validName []" by code_simp
  ultimately show False by simp
qed

lemma sanitized_jobs:
  assumes "pipelineOk cel p"
  shows "\<exists>ids. sanitizeAll (map jName (pJobs p)) [] = Some ids \<and> map (idLookup (map jName (pJobs p)) ids) (map jName (pJobs p)) = ids \<and>
    inj_on (idLookup (map jName (pJobs p)) ids) (jName ` set (pJobs p)) \<and>
    (\<forall>n\<in>jName ` set (pJobs p). idLookup (map jName (pJobs p)) ids n \<noteq> [])"
proof -
  let ?names = "map jName (pJobs p)"
  have dist: "distinct ?names" and ne: "[] \<notin> set ?names"
    using assms(1) validName_nonempty by (auto simp: pipelineOk_def jobNames_def jobOk_def)
  obtain ids where ids: "sanitizeAll ?names [] = Some ids" "length ids = length ?names" "distinct ids" "[] \<notin> set ids"
    using sanitizeAll_distinct [of ?names "[]"] ne by blast
  have map_ids: "map (idLookup ?names ids) ?names = ids" by (rule idLookup_map [OF dist ids(2)])
  then have "distinct (map (idLookup ?names ids) ?names)" using ids(3) by simp
  then have "inj_on (idLookup ?names ids) (jName ` set (pJobs p))" unfolding distinct_map by simp
  moreover have "idLookup ?names ids n \<noteq> []" if "n \<in> jName ` set (pJobs p)" for n
  proof -
    have "idLookup ?names ids n \<in> set (map (idLookup ?names ids) ?names)" using that by auto
    with ids(4) show ?thesis unfolding map_ids by metis
  qed
  ultimately show ?thesis using ids(1) map_ids by blast
qed


text \<open>Sample: two jobs whose names differ only in characters that are not allowed in identifiers.\<close>

definition visJob :: "string \<Rightarrow> string list \<Rightarrow> string \<Rightarrow> string Job" where
  "visJob name deps step = (sampleJob name deps)\<lparr>jSteps := [zeroStep\<lparr>sName := step, sRun := [''true'']\<rparr>]\<rparr>"

definition visPipeline :: "string Pipeline" where
  "visPipeline = zeroPipeline\<lparr>pName := ''demo'', pJobs := [visJob ''a-b'' [] ''s'', visJob ''a_b'' [''a-b''] ''s'']\<rparr>"

lemma visPipeline_ok: "pipelineOk sampleCel visPipeline"
proof -
  have "snd (Validate sampleCel (Some visPipeline)) = Inr [0, 1]" by code_simp
  then have "\<exists>q order. Validate sampleCel (Some visPipeline) = (q, Inr order)" by (metis prod.collapse)
  then show ?thesis unfolding Validate_accepts .
qed


text \<open>
  The identifiers of the steps in a DOT file are unique within a job, not within the file: here
  two steps of two jobs become one node.
\<close>

lemma dot_steps_collide:
  "sanitizeAll [''a'', ''a__b''] [] = Some [''a'', ''a__b'']"
  "map_option snd (dotSubgraph id (buildNode (visJob ''a'' [] ''b__c'')) ''a'') = Some [''a__b__c'']"
  "map_option snd (dotSubgraph id (buildNode (visJob ''a__b'' [] ''c'')) ''a__b'') = Some [''a__b__c'']"
  by code_simp+

end
