(* ===== verification/Vis_Terminal.thy ===== *)
theory Vis_Terminal
  imports Vis_Emit
begin

text \<open>
  \<^verbatim>\<open>internal/visualize/terminal.go\<close>: the diagram of boxes and connectors, line by line. A column of a
  connector line is one character, given in UTF-8. The styles and the rounded border of lipgloss are
  arguments; the order in which Go walks the map of parents is one too.
\<close>

section \<open>Boxes\<close>

datatype termStyle =
    styleJobName | styleBullet | styleAllowFail | styleWhenLabel | styleWhenExpr | styleMatrix
  | styleSecrets | stylePublish | styleConnector | styleBorder

record border =
  boTop :: string
  boBottom :: string
  boLeft :: string
  boRight :: string
  boTopLeft :: string
  boTopRight :: string
  boBottomLeft :: string
  boBottomRight :: string
  boMiddleLeft :: string
  boMiddleRight :: string

record renderedBox =
  rbLines :: "string list"
  rbWidth :: nat

definition minBoxWidth :: nat where
  "minBoxWidth = 22"

definition repeatStr :: "string \<Rightarrow> nat \<Rightarrow> string" where
  "repeatStr s n = concat (replicate n s)"

definition bullet :: string where
  "bullet = [CHR 0xE2, CHR 0x97, CHR 0x8B]"

text \<open>Pairs of a raw and a styled line.\<close>

definition stepContent :: "(termStyle \<Rightarrow> string \<Rightarrow> string) \<Rightarrow> StepInfo \<Rightarrow> string \<times> string" where
  "stepContent render s =
     (''  '' @ bullet @ '' '' @ siName s @ (if siAllowFailure s then '' [!]'' else []) @
        (if siWhen s \<noteq> [] then '' (when: '' @ siWhen s @ '')'' else []),
      ''  '' @ render styleBullet bullet @ '' '' @ siName s @
        (if siAllowFailure s then '' '' @ render styleAllowFail ''[!]'' else []) @
        (if siWhen s \<noteq> []
         then '' '' @ render styleWhenLabel ''(when:'' @ '' '' @ render styleWhenExpr (siWhen s) @ render styleWhenLabel '')''
         else []))"

definition buildBoxContent :: "(termStyle \<Rightarrow> string \<Rightarrow> string) \<Rightarrow> Node \<Rightarrow> (string \<times> string) list" where
  "buildBoxContent render n =
     [(ndID n, render styleJobName (ndID n))] @
     map (stepContent render) (ndSteps n) @
     (if ndWhen n \<noteq> []
      then [(''  when: '' @ ndWhen n, ''  '' @ render styleWhenLabel ''when:'' @ '' '' @ render styleWhenExpr (ndWhen n))] else []) @
     map (\<lambda>m. (''  matrix: '' @ m, ''  '' @ render styleMatrix ''matrix:'' @ '' '' @ m)) (ndMatrix n) @
     (if ndHasSecrets n then [(''  secrets: yes'', ''  '' @ render styleSecrets ''secrets: yes'')] else []) @
     (if ndPublish n \<noteq> []
      then [(''  publish: '' @ ndPublish n, ''  '' @ render stylePublish ''publish:'' @ '' '' @ ndPublish n)] else [])"

definition buildBox :: "(termStyle \<Rightarrow> string \<Rightarrow> string) \<Rightarrow> border \<Rightarrow> Node \<Rightarrow> renderedBox" where
  "buildBox render b n =
     (let content = buildBoxContent render n;
          maxContent = fold (\<lambda>c w. max w (RuneCount (fst c))) content 0;
          innerW = max maxContent (minBoxWidth - 4);
          boxW = innerW + 4;
          top_line = render styleBorder (boTopLeft b @ repeatStr (boTop b) (boxW - 2) @ boTopRight b);
          mid_line = render styleBorder (boMiddleLeft b @ repeatStr (boTop b) (boxW - 2) @ boMiddleRight b);
          bottom_line = render styleBorder (boBottomLeft b @ repeatStr (boBottom b) (boxW - 2) @ boBottomRight b);
          row = (\<lambda>(raw, styled). render styleBorder (boLeft b) @ '' '' @ styled @
                   repeatStr '' '' (innerW - RuneCount raw) @ '' '' @ render styleBorder (boRight b))
      in \<lparr>rbLines = [top_line, row (hd content), mid_line] @ map row (tl content) @ [bottom_line], rbWidth = boxW\<rparr>)"

section \<open>Layers\<close>

definition renderLayer :: "nat list \<Rightarrow> renderedBox list \<Rightarrow> string list" where
  "renderLayer indices boxes =
     (let maxH = fold (\<lambda>i h. max h (length (rbLines (boxes ! i)))) indices 0 in
      map (\<lambda>row. joinWith ''  '' (map (\<lambda>i.
          if row < length (rbLines (boxes ! i)) then rbLines (boxes ! i) ! row
          else repeatStr '' '' (rbWidth (boxes ! i))) indices)) [0..<maxH])"

fun centersFrom :: "nat \<Rightarrow> renderedBox list \<Rightarrow> nat list \<Rightarrow> nat list" where
  "centersFrom col boxes [] = []"
| "centersFrom col boxes (i # layer) =
     (col + rbWidth (boxes ! i) div 2) # centersFrom (col + rbWidth (boxes ! i) + 2) boxes layer"

definition layerCenters :: "nat list \<Rightarrow> renderedBox list \<Rightarrow> nat list" where
  "layerCenters layer boxes = centersFrom 0 boxes layer"

definition canvasWidth :: "nat list \<Rightarrow> renderedBox list \<Rightarrow> nat" where
  "canvasWidth layer boxes =
     (if layer = [] then 0 else sum_list (map (\<lambda>i. rbWidth (boxes ! i)) layer) + 2 * (length layer - 1))"

text \<open>Positions in a layer, and the layer of a node; a later entry of a map replaces an earlier one.\<close>

definition posIn :: "nat list \<Rightarrow> nat \<rightharpoonup> nat" where
  "posIn layer = map_of (rev (zip layer [0..<length layer]))"

definition posOf :: "(nat \<rightharpoonup> nat) \<Rightarrow> nat \<Rightarrow> nat" where
  "posOf pos i = (case pos i of None \<Rightarrow> 0 | Some k \<Rightarrow> k)"

definition buildNodeToLayer :: "nat list list \<Rightarrow> nat \<rightharpoonup> nat" where
  "buildNodeToLayer layers = map_of (rev (concat (map (\<lambda>(l, layer). map (\<lambda>i. (i, l)) layer) (zip [0..<length layers] layers))))"

definition nodeLayerCenter :: "Graph \<Rightarrow> nat \<Rightarrow> (nat \<rightharpoonup> nat) \<Rightarrow> renderedBox list \<Rightarrow> nat" where
  "nodeLayerCenter g ni nodeToLayer boxes =
     (let layer = grLayers g ! (case nodeToLayer ni of None \<Rightarrow> 0 | Some l \<Rightarrow> l)
      in case find (\<lambda>(i, c). i = ni) (zip layer (layerCenters layer boxes)) of None \<Rightarrow> 0 | Some (_, c) \<Rightarrow> c)"

section \<open>Connectors\<close>

definition stampLine :: "nat \<Rightarrow> (nat \<rightharpoonup> string) \<Rightarrow> string" where
  "stampLine width positions = concat (map (\<lambda>col. case positions col of None \<Rightarrow> '' '' | Some r \<Rightarrow> r) [0..<width])"

abbreviation vertical :: string where "vertical \<equiv> [CHR 0xE2, CHR 0x94, CHR 0x82]"
abbreviation dash :: string where "dash \<equiv> [CHR 0xE2, CHR 0x94, CHR 0x80]"
abbreviation arrow :: string where "arrow \<equiv> [CHR 0xE2, CHR 0x96, CHR 0xBC]"
abbreviation joinLeft :: string where "joinLeft \<equiv> [CHR 0xE2, CHR 0x94, CHR 0x94]"
abbreviation joinRight :: string where "joinRight \<equiv> [CHR 0xE2, CHR 0x94, CHR 0x98]"
abbreviation joinBoth :: string where "joinBoth \<equiv> [CHR 0xE2, CHR 0x94, CHR 0xB4]"

record connEdge =
  ceFrom :: nat
  ceTo :: nat
  ceKind :: EdgeKind
  ceLabel :: string

definition gatherConns :: "Graph \<Rightarrow> (nat \<rightharpoonup> nat) \<Rightarrow> (nat \<rightharpoonup> nat) \<Rightarrow> (string \<rightharpoonup> nat) \<Rightarrow> connEdge list" where
  "gatherConns g fromPos toPos nodeIdx =
     List.map_filter (\<lambda>e.
       case (nodeIdx (egFrom e), nodeIdx (egTo e)) of
         (Some fi, Some ti) \<Rightarrow>
           if fromPos fi \<noteq> None \<and> toPos ti \<noteq> None
           then Some \<lparr>ceFrom = fi, ceTo = ti, ceKind = egKind e, ceLabel = egLabel e\<rparr> else None
       | _ \<Rightarrow> None) (grEdges g)"

definition stemLine :: "connEdge list \<Rightarrow> (nat \<rightharpoonup> nat) \<Rightarrow> nat list \<Rightarrow> nat list \<Rightarrow> nat \<Rightarrow> string" where
  "stemLine conns fromPos fromCenters extraCols canvasW =
     (let cols = map (\<lambda>c. fromCenters ! posOf fromPos (ceFrom c)) conns @ extraCols
      in stampLine canvasW (\<lambda>col. if col \<in> set cols then Some vertical else None))"

text \<open>A cell is stamped with a character and a priority; a stamp replaces one of lower priority.\<close>

type_synonym stamp = "nat \<times> string \<times> nat"

definition priDash :: nat where [simp]: "priDash = 0"
definition priJoin :: nat where [simp]: "priJoin = 1"
definition priArrow :: nat where [simp]: "priArrow = 2"

definition setCell :: "stamp \<Rightarrow> (nat \<rightharpoonup> string \<times> nat) \<Rightarrow> (nat \<rightharpoonup> string \<times> nat)" where
  "setCell s cells =
     (case s of (col, r, p) \<Rightarrow>
        case cells col of
          Some (_, q) \<Rightarrow> if p > q then cells(col \<mapsto> (r, p)) else cells
        | None \<Rightarrow> cells(col \<mapsto> (r, p)))"

text \<open>The stamps of a parent, in the order they are made.\<close>

definition stampParentSegment :: "nat \<Rightarrow> nat list \<Rightarrow> stamp list" where
  "stampParentSegment pc childCols =
     (if childCols = [] then []
      else let minC = Min (set childCols); maxC = Max (set childCols);
               runStart = min pc minC; runEnd = max pc maxC
           in map (\<lambda>col. (col, dash, priDash)) [runStart..<Suc runEnd] @
              map (\<lambda>cc. (cc, arrow, priArrow)) childCols @
              (if pc \<noteq> minC \<or> pc \<noteq> maxC
               then [(pc, if pc = runStart then joinLeft else if pc = runEnd then joinRight else joinBoth, priJoin)]
               else []))"

definition mergeLine ::
  "((nat, nat list) gomap \<Rightarrow> (nat, nat list) gomap) \<Rightarrow> (nat, nat list) gomap \<Rightarrow> nat \<Rightarrow> string" where
  "mergeLine walk parentChildren canvasW =
     (let cells = fold setCell (concat (map (\<lambda>(pc, cs). stampParentSegment pc cs) (walk parentChildren))) Map.empty
      in stampLine canvasW (\<lambda>col. map_option fst (cells col)))"

text \<open>The edges that skip layers: stems, children of far parents, and annotations.\<close>

record skipState =
  skStems :: "nat list"
  skParents :: "(nat, nat list) gomap"
  skConns :: "connEdge list"

definition skipEdge ::
  "Graph \<Rightarrow> nat \<Rightarrow> renderedBox list \<Rightarrow> (string \<rightharpoonup> nat) \<Rightarrow> (nat \<rightharpoonup> nat) \<Rightarrow> Edge \<Rightarrow> skipState \<Rightarrow> skipState" where
  "skipEdge g fromLayerIdx boxes nodeIdx nodeToLayer e sk =
     (case (nodeIdx (egFrom e), nodeIdx (egTo e)) of
        (Some fi, Some ti) \<Rightarrow>
          (case (nodeToLayer fi, nodeToLayer ti) of
             (Some fli, Some tli) \<Rightarrow>
               let fromLayer = grLayers g ! fromLayerIdx; toLayer = grLayers g ! (fromLayerIdx + 1);
                   src = nodeLayerCenter g fi nodeToLayer boxes
               in if fli = fromLayerIdx \<and> tli > fromLayerIdx + 1 then
                    sk\<lparr>skStems := skStems sk @ [layerCenters fromLayer boxes ! posOf (posIn fromLayer) fi]\<rparr>
                  else if fli < fromLayerIdx \<and> tli = fromLayerIdx + 1 then
                    sk\<lparr>skStems := skStems sk @ [src],
                       skParents := mput src (mgetList (skParents sk) src @ [layerCenters toLayer boxes ! posOf (posIn toLayer) ti])
                                      (skParents sk),
                       skConns := skConns sk @ [\<lparr>ceFrom = fi, ceTo = ti, ceKind = egKind e, ceLabel = egLabel e\<rparr>]\<rparr>
                  else if fli < fromLayerIdx \<and> tli > fromLayerIdx + 1 then sk\<lparr>skStems := skStems sk @ [src]\<rparr>
                  else sk
           | _ \<Rightarrow> sk)
      | _ \<Rightarrow> sk)"

definition renderConnectors ::
  "(termStyle \<Rightarrow> string \<Rightarrow> string) \<Rightarrow> ((nat, nat list) gomap \<Rightarrow> (nat, nat list) gomap) \<Rightarrow> Graph \<Rightarrow> nat \<Rightarrow>
     renderedBox list \<Rightarrow> (string \<rightharpoonup> nat) \<Rightarrow> (nat \<rightharpoonup> nat) \<Rightarrow> string list" where
  "renderConnectors render walk g fromLayerIdx boxes nodeIdx nodeToLayer =
     (let fromLayer = grLayers g ! fromLayerIdx; toLayer = grLayers g ! (fromLayerIdx + 1);
          fromCenters = layerCenters fromLayer boxes; toCenters = layerCenters toLayer boxes;
          conns = gatherConns g (posIn fromLayer) (posIn toLayer) nodeIdx;
          adjacent = fold (\<lambda>c m. let pc = fromCenters ! posOf (posIn fromLayer) (ceFrom c);
                                     tc = toCenters ! posOf (posIn toLayer) (ceTo c)
                                 in mput pc (mgetList m pc @ [tc]) m) conns [];
          sk = fold (skipEdge g fromLayerIdx boxes nodeIdx nodeToLayer) (grEdges g)
                 \<lparr>skStems = [], skParents = adjacent, skConns = []\<rparr>
      in if skParents sk = [] \<and> skStems sk = [] then []
         else let canvasW = fold (\<lambda>col w. max w (col + 1)) (skStems sk)
                              (max (canvasWidth fromLayer boxes) (canvasWidth toLayer boxes))
              in [render styleConnector (stemLine conns (posIn fromLayer) fromCenters (skStems sk) canvasW),
                  render styleConnector (mergeLine walk (skParents sk) canvasW)] @
                 List.map_filter (\<lambda>c. if ceKind c = ArtifactEdge then Some (''      [artifact: '' @ ceLabel c @ '']'') else None)
                   (conns @ skConns sk))"

section \<open>The diagram\<close>

text \<open>\<open>None\<close>: a layer names a node that does not exist (an index out of range).\<close>

definition terminalLines ::
  "(termStyle \<Rightarrow> string \<Rightarrow> string) \<Rightarrow> border \<Rightarrow> ((nat, nat list) gomap \<Rightarrow> (nat, nat list) gomap) \<Rightarrow> Graph \<Rightarrow> string list option" where
  "terminalLines render b walk g =
     (if list_all (list_all (\<lambda>i. i < length (grNodes g))) (grLayers g) then
        let title = (if grTitle g \<noteq> [] then ''Pipeline: '' @ grTitle g else ''Pipeline'');
            boxes = map (buildBox render b) (grNodes g);
            nodeIdx = nodeIndex g;
            nodeToLayer = buildNodeToLayer (grLayers g)
        in Some ([title, repeatStr dash (RuneCount title)] @
             concat (map (\<lambda>l. renderLayer (grLayers g ! l) boxes @
               (if Suc l < length (grLayers g) then renderConnectors render walk g l boxes nodeIdx nodeToLayer else []))
               [0..<length (grLayers g)]))
      else None)"

definition RenderTerminal ::
  "(termStyle \<Rightarrow> string \<Rightarrow> string) \<Rightarrow> border \<Rightarrow> ((nat, nat list) gomap \<Rightarrow> (nat, nat list) gomap) \<Rightarrow> (nat \<Rightarrow> bool) \<Rightarrow> Graph \<Rightarrow>
     termWriter option" where
  "RenderTerminal render b walk ok g = map_option (writeLines ok) (terminalLines render b walk g)"

section \<open>Connectors do not depend on the order of the map\<close>

text \<open>The cells after a list of stamps hold the stamp of highest priority.\<close>

definition consistent :: "stamp set \<Rightarrow> bool" where
  "consistent S \<longleftrightarrow> (\<forall>col r r' p. (col, r, p) \<in> S \<longrightarrow> (col, r', p) \<in> S \<longrightarrow> r = r')"

definition topStamp :: "stamp set \<Rightarrow> nat \<Rightarrow> string \<times> nat \<Rightarrow> bool" where
  "topStamp S col rp \<longleftrightarrow> (col, rp) \<in> S \<and> (\<forall>r' p'. (col, r', p') \<in> S \<longrightarrow> p' \<le> snd rp)"

lemma setCell_at:
  "setCell (c, r, p) cells col =
     (if col \<noteq> c then cells col
      else case cells col of None \<Rightarrow> Some (r, p) | Some (r0, q) \<Rightarrow> if p > q then Some (r, p) else Some (r0, q))"
  by (auto simp: setCell_def split: option.splits prod.splits)

lemma setCells_top:
  "case fold setCell ss Map.empty col of None \<Rightarrow> (\<forall>rp. (col, rp) \<notin> set ss) | Some rp \<Rightarrow> topStamp (set ss) col rp"
proof (induction ss rule: rev_induct)
  case (snoc s ss)
  obtain c r p where s: "s = (c, r, p)" by (cases s)
  show ?case
  proof (cases "fold setCell ss Map.empty col")
    case None
    with snoc show ?thesis by (auto simp: s setCell_at topStamp_def)
  next
    case (Some rq)
    obtain r0 q where rq: "rq = (r0, q)" by (cases rq)
    with snoc Some have "topStamp (set ss) col (r0, q)" by simp
    with Some rq show ?thesis by (auto simp: s setCell_at topStamp_def) fastforce+
  qed
qed simp

lemma setCells_Some:
  assumes "consistent (set ss)" "(col, r, p) \<in> set ss" "\<forall>r' p'. (col, r', p') \<in> set ss \<longrightarrow> p' \<le> p"
  shows "fold setCell ss Map.empty col = Some (r, p)"
proof -
  have unique: "rp = (r, p)" if "topStamp (set ss) col rp" for rp
    using that assms unfolding topStamp_def consistent_def by (metis le_antisym prod.collapse)
  show ?thesis using setCells_top [where ss = ss and col = col] unique assms(2) by (auto split: option.splits)
qed

lemma setCells_None: "\<forall>rp. (col, rp) \<notin> set ss \<Longrightarrow> fold setCell ss Map.empty col = None"
  using setCells_top [where ss = ss and col = col] by (auto simp: topStamp_def split: option.splits)

lemma segment_stamps:
  "(col, r, p) \<in> set (stampParentSegment pc cs) \<longleftrightarrow> cs \<noteq> [] \<and>
     (r = dash \<and> p = priDash \<and> min pc (Min (set cs)) \<le> col \<and> col \<le> max pc (Max (set cs)) \<or>
      r = arrow \<and> p = priArrow \<and> col \<in> set cs \<or>
      p = priJoin \<and> col = pc \<and> (pc \<noteq> Min (set cs) \<or> pc \<noteq> Max (set cs)) \<and>
        r = (if pc = min pc (Min (set cs)) then joinLeft else if pc = max pc (Max (set cs)) then joinRight else joinBoth))"
  by (auto simp: stampParentSegment_def Let_def less_Suc_eq_le)

definition stampsOf :: "(nat, nat list) gomap \<Rightarrow> stamp list" where
  "stampsOf m = concat (map (\<lambda>(pc, cs). stampParentSegment pc cs) m)"

lemma stampsOf_consistent: "wfmap m \<Longrightarrow> consistent (set (stampsOf m))"
proof -
  assume wf: "wfmap m"
  have "r = r'" if "(col, r, p) \<in> set (stampsOf m)" "(col, r', p) \<in> set (stampsOf m)" for col r r' p
  proof -
    from that obtain pc cs pc' cs' where m: "(pc, cs) \<in> set m" "(col, r, p) \<in> set (stampParentSegment pc cs)"
      "(pc', cs') \<in> set m" "(col, r', p) \<in> set (stampParentSegment pc' cs')"
      by (auto simp: stampsOf_def)
    have "cs = cs'" if "pc = pc'" using wf m(1,3) that unfolding wfmap_def by (metis eq_key_imp_eq_value)
    with m(2,4) show ?thesis unfolding segment_stamps by auto
  qed
  then show ?thesis unfolding consistent_def by blast
qed

text \<open>The character that a column of the merge line should have.\<close>

definition mergeRef :: "(nat, nat list) gomap \<Rightarrow> nat \<Rightarrow> string option" where
  "mergeRef m col =
     (if list_ex (\<lambda>(pc, cs). col \<in> set cs) m then Some arrow
      else if mgetList m col \<noteq> [] then
        Some (if col < Min (set (mgetList m col)) then joinLeft
              else if col > Max (set (mgetList m col)) then joinRight else joinBoth)
      else if list_ex (\<lambda>(pc, cs). cs \<noteq> [] \<and> min pc (Min (set cs)) \<le> col \<and> col \<le> max pc (Max (set cs))) m then Some dash
      else None)"

lemma stampsOf_iff:
  "(col, r, p) \<in> set (stampsOf m) \<longleftrightarrow> (\<exists>pc cs. (pc, cs) \<in> set m \<and> (col, r, p) \<in> set (stampParentSegment pc cs))"
  by (auto simp: stampsOf_def)

lemma cells_mergeRef:
  assumes "wfmap m" "set (stampsOf m) = set ss"
  shows "map_option fst (fold setCell ss Map.empty col) = mergeRef m col"
proof -
  have con: "consistent (set ss)" using stampsOf_consistent [OF assms(1)] assms(2) by simp
  have mem: "(col, r, p) \<in> set ss \<longleftrightarrow> (\<exists>pc cs. (pc, cs) \<in> set m \<and> (col, r, p) \<in> set (stampParentSegment pc cs))" for r p
    using assms(2) stampsOf_iff by blast
  have bound: "p \<le> priArrow" if "(col, r, p) \<in> set ss" for r p using that unfolding mem segment_stamps by auto
  have at: "(col, cs) \<in> set m \<longleftrightarrow> map_of m col = Some cs" for cs
    using assms(1) by (simp add: wfmap_def map_of_eq_Some_iff)
  consider (arr) pc cs where "(pc, cs) \<in> set m" "col \<in> set cs"
    | (join) cs where "(col, cs) \<in> set m" "cs \<noteq> []" "\<forall>(pc, cs)\<in>set m. col \<notin> set cs"
    | (rest) "\<forall>(pc, cs)\<in>set m. col \<notin> set cs" "mgetList m col = []"
    using at by (cases "mgetList m col = []") (fastforce simp: mgetList_def split: option.splits)+
  then show ?thesis
  proof cases
    case arr
    then have "(col, arrow, priArrow) \<in> set ss" unfolding mem segment_stamps by (intro exI [of _ pc] exI [of _ cs]) auto
    from setCells_Some [OF con this] bound arr show ?thesis by (auto simp: mergeRef_def list_ex_iff)
  next
    case join
    then have col: "col \<notin> set cs" and get: "mgetList m col = cs" using at by (auto simp: mgetList_def)
    let ?r = "if col < Min (set cs) then joinLeft else if col > Max (set cs) then joinRight else joinBoth"
    have ne: "col \<noteq> Min (set cs)" "col \<noteq> Max (set cs)" using col join(2) by (metis List.finite_set Min_in Max_in set_empty)+
    then have "?r = (if col = min col (Min (set cs)) then joinLeft else if col = max col (Max (set cs)) then joinRight else joinBoth)"
      by (auto simp: min_def max_def)
    then have "(col, ?r, priJoin) \<in> set ss"
      unfolding mem segment_stamps using join(1,2) ne by (intro exI [of _ col] exI [of _ cs]) simp
    moreover have "p \<le> priJoin" if "(col, r, p) \<in> set ss" for r p
      using that join(3) unfolding mem segment_stamps by auto
    ultimately have "fold setCell ss Map.empty col = Some (?r, priJoin)" by (intro setCells_Some [OF con]) auto
    with join get show ?thesis by (auto simp: mergeRef_def list_ex_iff)
  next
    case rest
    have only: "r = dash \<and> p = priDash \<and> (\<exists>(pc, cs)\<in>set m. cs \<noteq> [] \<and> min pc (Min (set cs)) \<le> col \<and> col \<le> max pc (Max (set cs)))"
      if "(col, r, p) \<in> set ss" for r p
    proof -
      from that obtain pc cs where m: "(pc, cs) \<in> set m" "(col, r, p) \<in> set (stampParentSegment pc cs)" unfolding mem by blast
      have "col \<notin> set cs" using rest(1) m(1) by auto
      moreover have "col \<noteq> pc \<or> cs = []" using rest(2) m(1) at by (auto simp: mgetList_def)
      ultimately have "r = dash \<and> p = priDash \<and> cs \<noteq> [] \<and> min pc (Min (set cs)) \<le> col \<and> col \<le> max pc (Max (set cs))"
        using m(2) unfolding segment_stamps by blast
      with m(1) show ?thesis by blast
    qed
    show ?thesis
    proof (cases "\<exists>(pc, cs)\<in>set m. cs \<noteq> [] \<and> min pc (Min (set cs)) \<le> col \<and> col \<le> max pc (Max (set cs))")
      case True
      then obtain pc cs where "(pc, cs) \<in> set m" "cs \<noteq> []" "min pc (Min (set cs)) \<le> col" "col \<le> max pc (Max (set cs))" by blast
      then have "(col, dash, priDash) \<in> set ss" unfolding mem segment_stamps by (intro exI [of _ pc] exI [of _ cs]) simp
      then have "fold setCell ss Map.empty col = Some (dash, priDash)"
        using only by (intro setCells_Some [OF con]) (blast intro: eq_refl)+
      with True rest show ?thesis by (auto simp: mergeRef_def list_ex_iff)
    next
      case False
      then have "fold setCell ss Map.empty col = None" using only by (intro setCells_None) fastforce
      with False rest show ?thesis by (auto simp: mergeRef_def list_ex_iff)
    qed
  qed
qed

text \<open>The line of arrows between two layers does not depend on the order in which Go walks the
  map of parents: a column shows an arrow exactly where a child is, otherwise the corner of the
  parent in that column, otherwise a dash within the span of some parent and its children, and a
  blank elsewhere. So no arrow is ever overwritten.\<close>

theorem mergeLine_spec:
  assumes "wfmap m" "mset (walk m) = mset m"
  shows "mergeLine walk m canvasW = stampLine canvasW (mergeRef m)"
proof -
  have "set (stampsOf m) = set (stampsOf (walk m))"
    using mset_eq_setD [OF assms(2)] by (simp add: stampsOf_def)
  then show ?thesis
    using cells_mergeRef [OF assms(1)] unfolding mergeLine_def stampsOf_def Let_def by presburger
qed

theorem mergeLine_spec_witness:
  "mergeLine rev [(2, [0, 4]), (6, [4])] 8 = stampLine 8 (mergeRef [(2, [0, 4]), (6, [4])]) \<and>
     mergeRef [(2, [0, 4]), (6, [4])] 4 = Some arrow \<and> mergeRef [(2, [0, 4]), (6, [4])] 2 = Some joinBoth"
proof -
  have "wfmap [(2 :: nat, [0, 4 :: nat]), (6, [4])]" "mset (rev [(2 :: nat, [0, 4 :: nat]), (6, [4])]) = mset [(2, [0, 4]), (6, [4])]"
    by (simp_all add: wfmap_def)
  from mergeLine_spec [of "[(2, [0, 4]), (6, [4])]" rev 8, OF this] show ?thesis by (auto simp: mergeRef_def mgetList_def)
qed

section \<open>Boxes are rectangles\<close>

definition wholeRune :: "string \<Rightarrow> bool" where
  "wholeRune x \<longleftrightarrow> (\<forall>s. RuneCount (x @ s) = Suc (RuneCount s))"

definition borderLaw :: "border \<Rightarrow> bool" where
  "borderLaw b \<longleftrightarrow> wholeRune (boTop b) \<and> wholeRune (boBottom b) \<and> wholeRune (boLeft b) \<and> wholeRune (boRight b) \<and>
     wholeRune (boTopLeft b) \<and> wholeRune (boTopRight b) \<and> wholeRune (boBottomLeft b) \<and> wholeRune (boBottomRight b) \<and>
     wholeRune (boMiddleLeft b) \<and> wholeRune (boMiddleRight b)"

lemma wholeRune_count: "wholeRune x \<Longrightarrow> RuneCount (x @ s) = Suc (RuneCount s)" "wholeRune x \<Longrightarrow> RuneCount x = 1"
  unfolding wholeRune_def by blast (metis append_Nil2 One_nat_def RuneCount_Nil)

lemma RuneCount_repeat: "wholeRune x \<Longrightarrow> RuneCount (repeatStr x n @ s) = n + RuneCount s"
  by (induction n) (simp_all add: repeatStr_def wholeRune_count)

lemma wholeRune_ascii: "of_char c < (128 :: nat) \<Longrightarrow> wholeRune [c]"
  by (simp add: wholeRune_def)

lemma content_plain: "(raw, styled) \<in> set (buildBoxContent (\<lambda>_ s. s) n) \<Longrightarrow> styled = raw"
  by (auto simp: buildBoxContent_def stepContent_def split: if_splits)

lemma fold_max_start: "a \<le> fold (\<lambda>c w. max w (f c :: nat)) cs a"
proof (induction cs arbitrary: a)
  case (Cons c cs)
  from Cons.IH [of "max a (f c)"] show ?case by simp
qed simp

lemma fold_max_ge: "c \<in> set cs \<Longrightarrow> f c \<le> fold (\<lambda>c w. max w (f c :: nat)) cs a"
proof (induction cs arbitrary: a)
  case (Cons x cs)
  then show ?case using fold_max_start [of "max a (f x)" f cs] by auto
qed simp

text \<open>
  Every line of a box has as many characters as the box is wide, so boxes that stand side by side
  do not shift each other. This is about the unstyled text: styles add no visible characters.
\<close>

lemma box_rectangular:
  assumes "borderLaw b" "l \<in> set (rbLines (buildBox (\<lambda>_ s. s) b n))"
  shows "RuneCount l = rbWidth (buildBox (\<lambda>_ s. s) b n)"
proof -
  let ?content = "buildBoxContent (\<lambda>_ s. s) n"
  let ?inner = "max (fold (\<lambda>c w. max w (RuneCount (fst c))) ?content 0) (minBoxWidth - 4)"
  let ?row = "\<lambda>(raw, styled). boLeft b @ '' '' @ styled @ repeatStr '' '' (?inner - RuneCount raw) @ '' '' @ boRight b"
  have space: "wholeRune '' ''" by (rule wholeRune_ascii) simp
  have row: "RuneCount (?row (raw, styled)) = ?inner + 4" if "(raw, styled) \<in> set ?content" for raw styled
  proof -
    have "RuneCount raw \<le> ?inner" using fold_max_ge [OF that, of "\<lambda>c. RuneCount (fst c)" 0] by simp
    moreover obtain rest where rest: "repeatStr '' '' (?inner - RuneCount raw) @ '' '' @ boRight b = CHR '' '' # rest"
      by (cases "?inner - RuneCount raw") (auto simp: repeatStr_def)
    moreover have "RuneCount (CHR '' '' # rest) = (?inner - RuneCount raw) + 2"
      unfolding rest [symmetric] using assms(1) by (simp add: RuneCount_repeat space wholeRune_count borderLaw_def)
    moreover have "styled = raw" using content_plain that by blast
    ultimately show ?thesis using assms(1) by (simp add: rest wholeRune_count borderLaw_def RuneCount_append)
  qed
  have edge: "RuneCount (x @ repeatStr y (?inner + 2) @ z) = ?inner + 4" if "wholeRune x" "wholeRune y" "wholeRune z" for x y z
    using that by (simp add: wholeRune_count RuneCount_repeat)
  have box: "rbWidth (buildBox (\<lambda>_ s. s) b n) = ?inner + 4"
    "rbLines (buildBox (\<lambda>_ s. s) b n) =
      [boTopLeft b @ repeatStr (boTop b) (?inner + 2) @ boTopRight b, ?row (hd ?content),
       boMiddleLeft b @ repeatStr (boTop b) (?inner + 2) @ boMiddleRight b] @ map ?row (tl ?content) @
      [boBottomLeft b @ repeatStr (boBottom b) (?inner + 2) @ boBottomRight b]"
    unfolding buildBox_def Let_def by simp_all
  have "?content \<noteq> []" by (simp add: buildBoxContent_def)
  then have "hd ?content \<in> set ?content" "set (tl ?content) \<subseteq> set ?content" by (auto dest: list.set_sel)
  then have rows: "RuneCount (?row c) = ?inner + 4" if "c = hd ?content \<or> c \<in> set (tl ?content)" for c
    using row [of "fst c" "snd c"] that by auto
  from assms(2) consider "\<exists>x y z. l = x @ repeatStr y (?inner + 2) @ z \<and> wholeRune x \<and> wholeRune y \<and> wholeRune z"
    | c where "l = ?row c" "c = hd ?content \<or> c \<in> set (tl ?content)"
    unfolding box(2) using assms(1) unfolding borderLaw_def set_append set_map list.simps by blast
  then show ?thesis
  proof cases
    case 1
    with edge show ?thesis unfolding box(1) by metis
  next
    case 2
    with rows show ?thesis unfolding box(1) by metis
  qed
qed

end
