(* ===== verification/Run_Convert.thy ===== *)
theory Run_Convert
  imports Builder_Laws Runner_Publish
begin

text \<open>
  \<^verbatim>\<open>cmd/cicada/convert.go\<close>: the result of the builder and the flags of the command line become
  the input of the runner.
\<close>

section \<open>Flags\<close>

text \<open>The filters come with the names they warn about. A nil map and an empty one are alike.\<close>

definition buildNoCacheFilter :: "string list \<Rightarrow> 'ast Pipeline \<Rightarrow> string set \<times> string set" where
  "buildNoCacheFilter filters p = (set filters, set filters - jName ` set (pJobs p))"

fun dockerFilterLoop :: "string list \<Rightarrow> string set \<Rightarrow> string set option" where
  "dockerFilterLoop [] acc = Some acc"
| "dockerFilterLoop (v # vs) acc = (if v = ''*'' then None else dockerFilterLoop vs (insert v acc))"

definition buildDockerExportFilter :: "string list \<Rightarrow> 'def ImagePublish list \<Rightarrow> string set \<times> string set" where
  "buildDockerExportFilter flagValues pubs =
     (case dockerFilterLoop flagValues {} of
        None \<Rightarrow> (ipJobName ` set pubs, {})
      | Some names \<Rightarrow> (names, names - ipJobName ` set pubs))"

definition toImagePublish :: "'def ImageExport \<Rightarrow> 'def ImagePublish" where
  "toImagePublish ie =
     \<lparr>ipDefinition = Some (ieDefinition ie), ipJobName = ieJobName ie, ipImage = pubImage (iePublish ie),
      ipPush = pubPush (iePublish ie), ipInsecure = pubInsecure (iePublish ie), ipExportDocker = False,
      ipPlatform = iePlatform ie\<rparr>"

definition buildImagePublishes :: "'def ImageExport list \<Rightarrow> string list \<Rightarrow> 'def ImagePublish list" where
  "buildImagePublishes exports dockerExportFlags =
     (let pubs = map toImagePublish exports;
          wanted = fst (buildDockerExportFilter dockerExportFlags pubs)
      in map (\<lambda>p. if ipJobName p \<in> wanted then p\<lparr>ipExportDocker := True\<rparr> else p) pubs)"

section \<open>Jobs\<close>

datatype convertErr = ErrResultMismatch | ErrUnknownBuilderJob

record 'ast pipelineJobInfo =
  piDependsOn :: "string list"
  piWhen :: "'ast When option"
  piEnv :: "(string, string) gomap"
  piMatrix :: "(string, string) gomap"
  piTimeout :: int
  piRetry :: "Retry option"

definition jobInfo :: "'ast Pipeline \<Rightarrow> 'ast Job \<Rightarrow> 'ast pipelineJobInfo" where
  "jobInfo p j =
     (let info = \<lparr>piDependsOn = jDependsOn j, piWhen = None, piEnv = [], piMatrix = [],
                  piTimeout = jTimeout j, piRetry = jRetry j\<rparr>
      in case jWhen j of
           None \<Rightarrow> info
         | Some w \<Rightarrow>
             if wDeferred w
             then info\<lparr>piWhen := Some w, piEnv := BuildEnvScope (pEnv p) (jEnv j), piMatrix := (case jMatrixValues j of None \<Rightarrow> [] | Some m \<Rightarrow> m)\<rparr>
             else info)"

record runnerStep =
  seName :: string
  seRetry :: "Retry option"
  seAllowFailure :: bool
  seTimeouts :: "(string, int) gomap"
  seCmdInfos :: "(string, CmdInfo) gomap"
  seBuild :: "llbState \<Rightarrow> int \<Rightarrow> buildErr + llbState"

definition convertStepDefs :: "StepDef list \<Rightarrow> runnerStep list" where
  "convertStepDefs defs =
     map (\<lambda>d. \<lparr>seName = stName d, seRetry = stRetry d, seAllowFailure = stAllowFailure d,
               seTimeouts = stTimeouts d, seCmdInfos = stCmdInfos d, seBuild = stBuild d\<rparr>) defs"

text \<open>
  The job of the runner with the parts that its scheduler takes from the environment. \<open>rjSteps\<close> is the
  test \<^verbatim>\<open>Steps != nil\<close> of the runner: \<open>convertStepDefs\<close> returns a slice that is never nil.
\<close>

record ('ast, 'def) execJob =
  ejJob :: "('ast, 'def) RunnerJob"
  ejCmdInfos :: "(string, CmdInfo) gomap"
  ejSteps :: "runnerStep list"
  ejBaseState :: "llbState option"

definition mapGet :: "(string \<rightharpoonup> 'v list) \<Rightarrow> string \<Rightarrow> 'v list" where
  "mapGet m k = (case m k of None \<Rightarrow> [] | Some v \<Rightarrow> v)"

definition toExecJob ::
  "'def buildResult \<Rightarrow> (string, string list) gomap \<Rightarrow> 'ast pipelineJobInfo \<Rightarrow> string \<Rightarrow> 'def \<Rightarrow> ('ast, 'def) execJob" where
  "toExecJob r skippedSteps info name d =
     \<lparr>ejJob =
        \<lparr>rjName = name, rjDefinition = Some d, rjDependsOn = piDependsOn info, rjWhen = piWhen info,
         rjEnv = piEnv info, rjMatrix = piMatrix info, rjOutputDef = brOutputDefs r name,
         rjSkippedSteps = mgetList skippedSteps name, rjTimeout = piTimeout info, rjRetry = piRetry info,
         rjStepTimeouts = mapGet (brStepTimeouts r) name, rjSteps = (brStepDefs r name \<noteq> None)\<rparr>,
      ejCmdInfos = mapGet (brCmdInfos r) name,
      ejSteps = (case brStepDefs r name of None \<Rightarrow> [] | Some defs \<Rightarrow> convertStepDefs defs),
      ejBaseState = (case brStepDefs r name of None \<Rightarrow> None | Some _ \<Rightarrow> brBaseStates r name)\<rparr>"

definition buildRunnerJobs ::
  "'def buildResult \<Rightarrow> 'ast Pipeline \<Rightarrow> (string, string list) gomap \<Rightarrow> convertErr + ('ast, 'def) execJob list" where
  "buildRunnerJobs r p skippedSteps =
     (if length (brDefinitions r) \<noteq> length (brJobNames r) then Inl ErrResultMismatch
      else let pipelineIdx = fold (\<lambda>j m. m(jName j \<mapsto> jobInfo p j)) (pJobs p) Map.empty
           in mapE (\<lambda>(name, d).
                case pipelineIdx name of
                  None \<Rightarrow> Inl ErrUnknownBuilderJob
                | Some info \<Rightarrow> Inr (toExecJob r skippedSteps info name d))
              (zip (brJobNames r) (brDefinitions r)))"

section \<open>What is printed\<close>

text \<open>\<open>opCount\<close> is the number of operations of a definition.\<close>

definition dependsText :: "string list \<Rightarrow> string" where
  "dependsText deps = (if deps \<noteq> [] then '', depends: '' @ joinWith '', '' deps else [])"

definition printDryRun :: "('def \<Rightarrow> nat) \<Rightarrow> string \<Rightarrow> ('ast, 'def) execJob list \<Rightarrow> string list" where
  "printDryRun opCount name jobs =
     [''Pipeline '' @ [CHR 0x27] @ name @ [CHR 0x27] @ '' is valid'', ''  Jobs: '' @ Itoa (int (length jobs))] @
     map (\<lambda>j. ''    - '' @ rjName (ejJob j) @ '' ('' @
       Itoa (case rjDefinition (ejJob j) of None \<Rightarrow> 0 | Some d \<Rightarrow> int (opCount d)) @ '' LLB ops'' @
       dependsText (rjDependsOn (ejJob j)) @ '')'') jobs"

definition printPipelineSummary :: "string \<Rightarrow> 'ast Job list \<Rightarrow> string list" where
  "printPipelineSummary name jobs =
     [''Pipeline '' @ [CHR 0x27] @ name @ [CHR 0x27] @ '' is valid'', ''  Jobs: '' @ Itoa (int (length jobs))] @
     concat (map (\<lambda>j.
       (''    - '' @ jName j @ '' (image: '' @ jImage j @ dependsText (jDependsOn j) @ '')'') #
       map (\<lambda>s. ''      - '' @ sName s) (jSteps j)) jobs)"

section \<open>Laws\<close>

lemma dockerFilterLoop_result:
  "dockerFilterLoop vs acc = (if ''*'' \<in> set vs then None else Some (set vs \<union> acc))"
  by (induction vs acc rule: dockerFilterLoop.induct) auto

lemma pipelineIdx_lookup:
  "distinct (map jName js) \<Longrightarrow>
   fold (\<lambda>j m. m(jName j \<mapsto> f j)) js m n =
     (case find (\<lambda>j. jName j = n) js of None \<Rightarrow> m n | Some j \<Rightarrow> Some (f j))"
proof (induction js arbitrary: m)
  case (Cons j js)
  have "find (\<lambda>x. jName x = jName j) js = None"
    using Cons.prems by (auto simp: find_None_iff) (metis image_eqI)
  with Cons show ?case by (auto split: option.splits)
qed simp

lemma find_by_name: "distinct (map jName js) \<Longrightarrow> j \<in> set js \<Longrightarrow> find (\<lambda>x. jName x = jName j) js = Some j"
  by (induction js) (auto simp: image_iff)

text \<open>
  The conversion of a build result: every definition becomes a job with the dependencies of
  the pipeline's job of that name.
\<close>

lemma buildRunnerJobs_Inr:
  assumes "distinct (map jName (pJobs p))" "set js \<subseteq> set (pJobs p)"
    and "brJobNames r = map jName js" "length (brDefinitions r) = length js"
  shows "buildRunnerJobs r p sk =
    Inr (map (\<lambda>(j, d). toExecJob r sk (jobInfo p j) (jName j) d) (zip js (brDefinitions r)))"
proof -
  have idx: "fold (\<lambda>j m. m(jName j \<mapsto> jobInfo p j)) (pJobs p) Map.empty (jName j) = Some (jobInfo p j)"
    if "j \<in> set js" for j
    using that assms(2) by (simp add: pipelineIdx_lookup [OF assms(1)] find_by_name [OF assms(1)] subset_iff)
  have "mapE (\<lambda>(name, d). case fold (\<lambda>j m. m(jName j \<mapsto> jobInfo p j)) (pJobs p) Map.empty name of
          None \<Rightarrow> Inl ErrUnknownBuilderJob
        | Some info \<Rightarrow> Inr (toExecJob r sk info name d)) (zip (map jName js) ds) =
      Inr (map (\<lambda>(j, d). toExecJob r sk (jobInfo p j) (jName j) d) (zip js ds))" if "length ds = length js" for ds
    using that idx
    by (auto simp: mapE_Inr list_all2_conv_all_nth)
  then show ?thesis using assms(3,4) by (simp add: buildRunnerJobs_def)
qed

lemma execJob_graph:
  assumes "length ds = length js"
  shows "map rjName (map ejJob (map (\<lambda>(j, d). toExecJob r sk (jobInfo p j) (jName j) d) (zip js ds))) = map jName js"
    and "map rjDependsOn (map ejJob (map (\<lambda>(j, d). toExecJob r sk (jobInfo p j) (jName j) d) (zip js ds))) = map jDependsOn js"
  using assms
  by (auto simp: list_eq_iff_nth_eq toExecJob_def jobInfo_def Let_def split: option.splits)

text \<open>What a published image is exported to. Every image export of the build becomes one
  publish, in order, with its definition, image, flags and platform; it is loaded into the
  local Docker daemon exactly when the flag names its job or has an asterisk.\<close>

theorem buildImagePublishes_spec:
  "map (\<lambda>p. (ipDefinition p, ipJobName p, ipImage p, ipPush p, ipInsecure p, ipPlatform p)) (buildImagePublishes exports flags) =
     map (\<lambda>e. (Some (ieDefinition e), ieJobName e, pubImage (iePublish e), pubPush (iePublish e),
       pubInsecure (iePublish e), iePlatform e)) exports \<and>
   map ipExportDocker (buildImagePublishes exports flags) =
     map (\<lambda>e. ''*'' \<in> set flags \<or> ieJobName e \<in> set flags) exports"
  by (auto simp: buildImagePublishes_def buildDockerExportFilter_def dockerFilterLoop_result toImagePublish_def Let_def
      image_image split: if_splits)

end
