(* ===== verification/Container_Runtime.thy ===== *)
theory Container_Runtime
  imports Go_Strings Go_Maps Cicada_Prelude
begin

text \<open>
  \<^verbatim>\<open>internal/runtime\<close>: the interface of a container runtime, the choice of a runtime and the
  adapter that drives the command line of Docker or Podman. The command line itself, the
  processes it starts and JSON decoding are arguments; \<open>'w\<close> is the state of the container
  engine that the commands change.
\<close>

section \<open>The interface (runtime.go)\<close>

datatype ContainerState = StateRunning | StateExited | StateCreated | StatePaused | StateUnknown

datatype rtErr =
    ErrRuntimeNotFound | ErrNoRuntime | ErrContainerNotFound | ErrEmptyImage | ErrInvalidPort
  | ErrInvalidVolume | ErrUnknownRuntime | ErrNilFactory | ExecFailed | BadInspectOutput

record PortBinding =
  pbHostAddr :: string
  pbHostPort :: string
  pbContPort :: string

record VolumeMount =
  vmName :: string
  vmTarget :: string

record RunConfig =
  rcName :: string
  rcImage :: string
  rcPrivileged :: bool
  rcPorts :: "PortBinding list"
  rcVolumes :: "VolumeMount list"
  rcDetach :: bool
  rcArgs :: "string list"

record 'w Runtime =
  rtType :: string
  rtAvailable :: "'w \<Rightarrow> bool"
  rtRun :: "RunConfig \<Rightarrow> 'w \<Rightarrow> (rtErr + string) \<times> 'w"
  rtStart :: "string \<Rightarrow> 'w \<Rightarrow> rtErr option \<times> 'w"
  rtStop :: "string \<Rightarrow> 'w \<Rightarrow> rtErr option \<times> 'w"
  rtRemove :: "string \<Rightarrow> 'w \<Rightarrow> rtErr option \<times> 'w"
  rtInspect :: "string \<Rightarrow> 'w \<Rightarrow> (rtErr + ContainerState) \<times> 'w"

section \<open>Choosing a runtime (detect.go)\<close>

text \<open>
  A factory either gives a runtime or nil. \<open>rtAvailable\<close> is the result of the availability
  probe, which changes nothing.
\<close>

record 'w RuntimeResolver =
  rsFactories :: "'w Runtime option list"
  rsNamed :: "(string, 'w Runtime option) gomap option"

fun Detect :: "'w Runtime option list \<Rightarrow> 'w \<Rightarrow> rtErr + 'w Runtime" where
  "Detect [] w = Inl ErrNoRuntime"
| "Detect (None # fs) w = Detect fs w"
| "Detect (Some rt # fs) w = (if rtAvailable rt w then Inr rt else Detect fs w)"

definition ResolverGet :: "'w RuntimeResolver \<Rightarrow> string \<Rightarrow> 'w \<Rightarrow> rtErr + 'w Runtime" where
  "ResolverGet r name w =
     (let key = ToLower (TrimSpace name) in
      if key = [] \<or> key = ''auto'' then Detect (rsFactories r) w
      else (case rsNamed r of
              None \<Rightarrow> Inl ErrUnknownRuntime
            | Some named \<Rightarrow>
                (case map_of named key of
                   None \<Rightarrow> Inl ErrUnknownRuntime
                 | Some None \<Rightarrow> Inl ErrNilFactory
                 | Some (Some rt) \<Rightarrow> Inr rt)))"

section \<open>The command-line adapter (cliutil.go, docker.go, podman.go)\<close>

definition containsStr :: "string \<Rightarrow> string \<Rightarrow> bool" where
  "containsStr s sub = sublist sub s"

definition IsNotFound :: "string \<Rightarrow> bool" where
  "IsNotFound output = containsStr (ToLower output) ''no such''"

definition ParseState :: "string \<Rightarrow> ContainerState" where
  "ParseState s =
     (let v = ToLower s in
      if v = ''running'' then StateRunning
      else if v = ''exited'' then StateExited
      else if v = ''created'' then StateCreated
      else if v = ''paused'' then StatePaused
      else StateUnknown)"

definition portArgs :: "PortBinding \<Rightarrow> string list \<Rightarrow> rtErr + string list" where
  "portArgs p args =
     (if pbHostPort p = [] \<or> pbContPort p = [] then Inl ErrInvalidPort
      else let portSpec = pbHostPort p @ '':'' @ pbContPort p
           in Inr (args @ [''-p'', if pbHostAddr p \<noteq> [] then pbHostAddr p @ '':'' @ portSpec else portSpec]))"

definition volumeArgs :: "VolumeMount \<Rightarrow> string list \<Rightarrow> rtErr + string list" where
  "volumeArgs v args =
     (if vmName v = [] \<or> vmTarget v = [] then Inl ErrInvalidVolume
      else Inr (args @ [''-v'', vmName v @ '':'' @ vmTarget v]))"

definition BuildRunArgs :: "RunConfig \<Rightarrow> rtErr + string list" where
  "BuildRunArgs cfg =
     (let args = [''run''] @ (if rcDetach cfg then [''-d''] else []) @
        (if rcName cfg \<noteq> [] then [''--name'', rcName cfg] else []) @
        (if rcPrivileged cfg then [''--privileged''] else [])
      in bindE (foldE portArgs (rcPorts cfg) args) (\<lambda>args.
         bindE (foldE volumeArgs (rcVolumes cfg) args) (\<lambda>args.
           Inr (args @ [rcImage cfg] @ rcArgs cfg))))"

text \<open>
  \<open>exec args w\<close> runs one command: whether it succeeded, its output (standard output on
  success, standard error on failure) and the state of the engine afterwards.
\<close>

type_synonym 'w ExecFunc = "string list \<Rightarrow> 'w \<Rightarrow> (bool \<times> string) \<times> 'w"

definition cliRun :: "'w ExecFunc \<Rightarrow> RunConfig \<Rightarrow> 'w \<Rightarrow> (rtErr + string) \<times> 'w" where
  "cliRun exec cfg w =
     (if rcImage cfg = [] then (Inl ErrEmptyImage, w)
      else (case BuildRunArgs cfg of
              Inl e \<Rightarrow> (Inl e, w)
            | Inr args \<Rightarrow>
                (case exec args w of ((ok, out), w') \<Rightarrow>
                   (if ok then Inr (TrimSpace out) else Inl ExecFailed, w'))))"

definition cliCommand :: "'w ExecFunc \<Rightarrow> string list \<Rightarrow> 'w \<Rightarrow> rtErr option \<times> 'w" where
  "cliCommand exec args w =
     (case exec args w of ((ok, out), w') \<Rightarrow> (if ok then None else Some ExecFailed, w'))"

definition cliStart :: "'w ExecFunc \<Rightarrow> string \<Rightarrow> 'w \<Rightarrow> rtErr option \<times> 'w" where
  "cliStart exec name = cliCommand exec [''start'', name]"

definition cliStop :: "'w ExecFunc \<Rightarrow> string \<Rightarrow> 'w \<Rightarrow> rtErr option \<times> 'w" where
  "cliStop exec name = cliCommand exec [''stop'', name]"

definition cliRemove :: "'w ExecFunc \<Rightarrow> string \<Rightarrow> 'w \<Rightarrow> rtErr option \<times> 'w" where
  "cliRemove exec name = cliCommand exec [''rm'', ''-f'', name]"

text \<open>\<open>decodeStatus\<close> reads the field \<^verbatim>\<open>Status\<close> of the JSON object, the empty string when absent.\<close>

definition cliInspect ::
  "(string \<Rightarrow> string option) \<Rightarrow> 'w ExecFunc \<Rightarrow> string \<Rightarrow> 'w \<Rightarrow> (rtErr + ContainerState) \<times> 'w" where
  "cliInspect decodeStatus exec name w =
     (case exec [''inspect'', ''-f'', ''{{json .State}}'', name] w of ((ok, out), w') \<Rightarrow>
        (if \<not> ok then (if IsNotFound out then Inl ErrContainerNotFound else Inl ExecFailed)
         else (case decodeStatus (TrimSpace out) of
                 None \<Rightarrow> Inl BadInspectOutput
               | Some status \<Rightarrow> Inr (ParseState status)), w'))"

text \<open>
  \<^verbatim>\<open>LoadImage\<close> runs \<^verbatim>\<open>load\<close> with the tarball on its standard input; \<open>execIn\<close> is that command. The
  manager below does not use it, so it is not a field of the record.
\<close>

definition cliLoadImage :: "(string list \<Rightarrow> string \<Rightarrow> 'w \<Rightarrow> bool \<times> 'w) \<Rightarrow> string \<Rightarrow> 'w \<Rightarrow> rtErr option \<times> 'w" where
  "cliLoadImage execIn tarball w =
     (case execIn [''load''] tarball w of (ok, w') \<Rightarrow> (if ok then None else Some ExecFailed, w'))"

text \<open>\<^verbatim>\<open>docker.New\<close> and \<^verbatim>\<open>podman.New\<close>: both are the adapter with their own binary.\<close>

definition cliRuntime :: "string \<Rightarrow> string list \<Rightarrow> (string \<Rightarrow> string option) \<Rightarrow> 'w ExecFunc \<Rightarrow> 'w Runtime" where
  "cliRuntime typ probe decodeStatus exec =
     \<lparr>rtType = typ,
      rtAvailable = (\<lambda>w. fst (fst (exec probe w))),
      rtRun = cliRun exec,
      rtStart = cliStart exec,
      rtStop = cliStop exec,
      rtRemove = cliRemove exec,
      rtInspect = cliInspect decodeStatus exec\<rparr>"

definition dockerNew :: "(string \<Rightarrow> string option) \<Rightarrow> 'w ExecFunc \<Rightarrow> 'w Runtime" where
  "dockerNew = cliRuntime ''docker'' [''info'', ''--format'', ''{{json .ServerVersion}}'']"

definition podmanNew :: "(string \<Rightarrow> string option) \<Rightarrow> 'w ExecFunc \<Rightarrow> 'w Runtime" where
  "podmanNew = cliRuntime ''podman'' [''info'', ''--format'', ''{{json .Host.Os}}'']"

section \<open>What the arguments of run mean\<close>

text \<open>
  The documented syntax of \<^verbatim>\<open>docker run\<close> for the options the adapter uses: options up to the
  image, then the arguments of the container.
\<close>

definition parsePort :: "string \<Rightarrow> PortBinding option" where
  "parsePort s =
     (case splitOn (CHR '':'') s of
        [h, c] \<Rightarrow> Some \<lparr>pbHostAddr = [], pbHostPort = h, pbContPort = c\<rparr>
      | [a, h, c] \<Rightarrow> Some \<lparr>pbHostAddr = a, pbHostPort = h, pbContPort = c\<rparr>
      | _ \<Rightarrow> None)"

definition parseVolume :: "string \<Rightarrow> VolumeMount option" where
  "parseVolume s =
     (case splitOn (CHR '':'') s of [n, t] \<Rightarrow> Some \<lparr>vmName = n, vmTarget = t\<rparr> | _ \<Rightarrow> None)"

fun parseRun :: "string list \<Rightarrow> RunConfig \<Rightarrow> RunConfig option" where
  "parseRun [] cfg = None"
| "parseRun (a # as) cfg =
     (if a = ''-d'' then parseRun as (cfg\<lparr>rcDetach := True\<rparr>)
      else if a = ''--privileged'' then parseRun as (cfg\<lparr>rcPrivileged := True\<rparr>)
      else if a = ''--name'' then
        (case as of [] \<Rightarrow> None | n # bs \<Rightarrow> parseRun bs (cfg\<lparr>rcName := n\<rparr>))
      else if a = ''-p'' then
        (case as of [] \<Rightarrow> None | x # bs \<Rightarrow>
           (case parsePort x of None \<Rightarrow> None
            | Some p \<Rightarrow> parseRun bs (cfg\<lparr>rcPorts := rcPorts cfg @ [p]\<rparr>)))
      else if a = ''-v'' then
        (case as of [] \<Rightarrow> None | x # bs \<Rightarrow>
           (case parseVolume x of None \<Rightarrow> None
            | Some v \<Rightarrow> parseRun bs (cfg\<lparr>rcVolumes := rcVolumes cfg @ [v]\<rparr>)))
      else if prefix ''-'' a then None
      else Some (cfg\<lparr>rcImage := a, rcArgs := as\<rparr>))"

definition emptyConfig :: RunConfig where
  "emptyConfig = \<lparr>rcName = [], rcImage = [], rcPrivileged = False, rcPorts = [], rcVolumes = [],
     rcDetach = False, rcArgs = []\<rparr>"

definition parseRunArgs :: "string list \<Rightarrow> RunConfig option" where
  "parseRunArgs args = (case args of [] \<Rightarrow> None | c # as \<Rightarrow> if c = ''run'' then parseRun as emptyConfig else None)"

definition portOk :: "PortBinding \<Rightarrow> bool" where
  "portOk p \<longleftrightarrow> pbHostPort p \<noteq> [] \<and> pbContPort p \<noteq> [] \<and>
     CHR '':'' \<notin> set (pbHostAddr p) \<and> CHR '':'' \<notin> set (pbHostPort p) \<and> CHR '':'' \<notin> set (pbContPort p)"

definition volumeOk :: "VolumeMount \<Rightarrow> bool" where
  "volumeOk v \<longleftrightarrow> vmName v \<noteq> [] \<and> vmTarget v \<noteq> [] \<and> CHR '':'' \<notin> set (vmName v) \<and> CHR '':'' \<notin> set (vmTarget v)"

definition configOk :: "RunConfig \<Rightarrow> bool" where
  "configOk cfg \<longleftrightarrow> rcImage cfg \<noteq> [] \<and> \<not> prefix ''-'' (rcImage cfg) \<and>
     list_all portOk (rcPorts cfg) \<and> list_all volumeOk (rcVolumes cfg)"

definition portSpec :: "PortBinding \<Rightarrow> string" where
  "portSpec p = (if pbHostAddr p \<noteq> [] then pbHostAddr p @ '':'' @ pbHostPort p @ '':'' @ pbContPort p
     else pbHostPort p @ '':'' @ pbContPort p)"

definition volumeSpec :: "VolumeMount \<Rightarrow> string" where
  "volumeSpec v = vmName v @ '':'' @ vmTarget v"

lemma parsePort_spec: "portOk p \<Longrightarrow> parsePort (portSpec p) = Some p"
  by (cases p) (auto simp: portOk_def portSpec_def parsePort_def)

lemma parseVolume_spec: "volumeOk v \<Longrightarrow> parseVolume (volumeSpec v) = Some v"
  by (cases v) (auto simp: volumeOk_def volumeSpec_def parseVolume_def)

lemma ports_args:
  "list_all portOk ps \<Longrightarrow> foldE portArgs ps args = Inr (args @ concat (map (\<lambda>p. [''-p'', portSpec p]) ps))"
  by (induction ps arbitrary: args) (auto simp: portArgs_def portSpec_def portOk_def Let_def)

lemma volumes_args:
  "list_all volumeOk vs \<Longrightarrow>
   foldE volumeArgs vs args = Inr (args @ concat (map (\<lambda>v. [''-v'', volumeSpec v]) vs))"
  by (induction vs arbitrary: args) (auto simp: volumeArgs_def volumeSpec_def volumeOk_def)

lemma parseRun_ports:
  "list_all portOk ps \<Longrightarrow>
   parseRun (concat (map (\<lambda>p. [''-p'', portSpec p]) ps) @ as) cfg = parseRun as (cfg\<lparr>rcPorts := rcPorts cfg @ ps\<rparr>)"
  by (induction ps arbitrary: cfg) (auto simp: parsePort_spec)

lemma parseRun_volumes:
  "list_all volumeOk vs \<Longrightarrow>
   parseRun (concat (map (\<lambda>v. [''-v'', volumeSpec v]) vs) @ as) cfg =
   parseRun as (cfg\<lparr>rcVolumes := rcVolumes cfg @ vs\<rparr>)"
  by (induction vs arbitrary: cfg) (auto simp: parseVolume_spec)

lemma parseRun_image:
  "img \<noteq> [] \<Longrightarrow> \<not> prefix ''-'' img \<Longrightarrow> parseRun (img # as) cfg = Some (cfg\<lparr>rcImage := img, rcArgs := as\<rparr>)"
  by (auto simp: prefix_def)

lemma BuildRunArgs_eq:
  "configOk cfg \<Longrightarrow> BuildRunArgs cfg =
     Inr ([''run''] @ (if rcDetach cfg then [''-d''] else []) @
       (if rcName cfg \<noteq> [] then [''--name'', rcName cfg] else []) @
       (if rcPrivileged cfg then [''--privileged''] else []) @
       concat (map (\<lambda>p. [''-p'', portSpec p]) (rcPorts cfg)) @
       concat (map (\<lambda>v. [''-v'', volumeSpec v]) (rcVolumes cfg)) @ rcImage cfg # rcArgs cfg)"
  by (simp add: BuildRunArgs_def ports_args volumes_args configOk_def)

lemma BuildRunArgs_parse:
  assumes ok: "configOk cfg"
  shows "\<exists>args. BuildRunArgs cfg = Inr args \<and> parseRunArgs args = Some cfg"
proof -
  have "list_all portOk (rcPorts cfg)" "list_all volumeOk (rcVolumes cfg)" "rcImage cfg \<noteq> []"
    "\<not> prefix ''-'' (rcImage cfg)" using ok by (simp_all add: configOk_def)
  moreover obtain n img pr ps vs d as where "cfg = \<lparr>rcName = n, rcImage = img, rcPrivileged = pr, rcPorts = ps,
      rcVolumes = vs, rcDetach = d, rcArgs = as\<rparr>" by (cases cfg)
  ultimately show ?thesis
    using ok
    by (simp add: BuildRunArgs_eq parseRunArgs_def emptyConfig_def parseRun_ports parseRun_volumes
        parseRun_image [simplified])
qed

text \<open>The command line carries the configuration. Read back with the documented syntax of
  \<^verbatim>\<open>docker run\<close>, the arguments built for a container give its configuration exactly: name,
  flags, every port and volume in order, the image and the arguments of the container, none
  of which can be taken for an option. An incomplete port or volume is refused instead.\<close>

theorem BuildRunArgs_roundtrip:
  "(configOk cfg \<longrightarrow> (\<exists>args. BuildRunArgs cfg = Inr args \<and> parseRunArgs args = Some cfg)) \<and>
   ((\<exists>args. BuildRunArgs cfg = Inr args) \<longleftrightarrow>
      (\<forall>p\<in>set (rcPorts cfg). pbHostPort p \<noteq> [] \<and> pbContPort p \<noteq> []) \<and>
      (\<forall>v\<in>set (rcVolumes cfg). vmName v \<noteq> [] \<and> vmTarget v \<noteq> []))"
proof (intro conjI impI)
  show "configOk cfg \<Longrightarrow> \<exists>args. BuildRunArgs cfg = Inr args \<and> parseRunArgs args = Some cfg"
    by (rule BuildRunArgs_parse)
next
  have ps: "(\<exists>as. foldE portArgs xs args = Inr as) \<longleftrightarrow> (\<forall>p\<in>set xs. pbHostPort p \<noteq> [] \<and> pbContPort p \<noteq> [])" for xs args
    by (induction xs arbitrary: args) (auto simp: portArgs_def Let_def)
  have vs: "(\<exists>as. foldE volumeArgs xs args = Inr as) \<longleftrightarrow> (\<forall>v\<in>set xs. vmName v \<noteq> [] \<and> vmTarget v \<noteq> [])" for xs args
    by (induction xs arbitrary: args) (auto simp: volumeArgs_def)
  have both: "(\<exists>args. bindE (foldE portArgs xs a) (\<lambda>args. bindE (foldE volumeArgs ys args) (\<lambda>args. Inr (g args))) = Inr args) \<longleftrightarrow>
      (\<forall>p\<in>set xs. pbHostPort p \<noteq> [] \<and> pbContPort p \<noteq> []) \<and> (\<forall>v\<in>set ys. vmName v \<noteq> [] \<and> vmTarget v \<noteq> [])"
    for xs ys a and g :: "string list \<Rightarrow> string list"
    unfolding ps [of xs a, symmetric] by (simp add: bindE_Inr) (metis vs)
  show "(\<exists>args. BuildRunArgs cfg = Inr args) \<longleftrightarrow>
      (\<forall>p\<in>set (rcPorts cfg). pbHostPort p \<noteq> [] \<and> pbContPort p \<noteq> []) \<and>
      (\<forall>v\<in>set (rcVolumes cfg). vmName v \<noteq> [] \<and> vmTarget v \<noteq> [])"
    unfolding BuildRunArgs_def Let_def by (rule both)
qed

definition sampleConfig :: RunConfig where
  "sampleConfig = emptyConfig\<lparr>rcName := ''c'', rcImage := ''img'', rcDetach := True,
     rcPorts := [\<lparr>pbHostAddr = [], pbHostPort = ''80'', pbContPort = ''81''\<rparr>], rcArgs := [''--x'']\<rparr>"

theorem BuildRunArgs_roundtrip_witness:
  "\<exists>args. BuildRunArgs sampleConfig = Inr args \<and> parseRunArgs args = Some sampleConfig"
proof -
  have "configOk sampleConfig" by code_simp
  with BuildRunArgs_roundtrip [of sampleConfig] show ?thesis by blast
qed

section \<open>The contract of a runtime\<close>

text \<open>
  What the daemon manager relies on. \<open>st w n\<close> is the state of the container named \<open>n\<close>, \<open>None\<close>
  when there is none. Nothing is promised of the engine after a command that failed.
\<close>

locale container_runtime =
  fixes rt :: "'w Runtime" and st :: "'w \<Rightarrow> string \<Rightarrow> ContainerState option"
  assumes inspect_frame: "st (snd (rtInspect rt n w)) = st w"
    and inspect_state: "fst (rtInspect rt n w) = Inr s \<Longrightarrow> st w n = Some s"
    and inspect_missing: "fst (rtInspect rt n w) = Inl ErrContainerNotFound \<Longrightarrow> st w n = None"
    and run_ok: "configOk cfg \<Longrightarrow> rcName cfg \<noteq> [] \<Longrightarrow> rtRun rt cfg w = (Inr cid, w') \<Longrightarrow>
      st w (rcName cfg) = None \<and> st w' = (st w)(rcName cfg \<mapsto> StateRunning)"
    and start_ok: "rtStart rt n w = (None, w') \<Longrightarrow> st w' = (st w)(n \<mapsto> StateRunning)"
    and stop_ok: "rtStop rt n w = (None, w') \<Longrightarrow> st w' = (st w)(n \<mapsto> StateExited)"
    and remove_ok: "rtRemove rt n w = (None, w') \<Longrightarrow> st w' = (st w)(n := None)"

text \<open>
  The documented behaviour of the command line: a failing \<^verbatim>\<open>inspect\<close> says ``no such'' only of
  a missing container, \<^verbatim>\<open>run\<close> needs a free name, and commands that succeed have the effect
  they are named for.
\<close>

locale container_cli =
  fixes exec :: "'w ExecFunc" and decodeStatus :: "string \<Rightarrow> string option"
    and st :: "'w \<Rightarrow> string \<Rightarrow> ContainerState option"
  assumes cli_inspect: "exec [''inspect'', ''-f'', ''{{json .State}}'', n] w = ((ok, out), w') \<Longrightarrow>
      st w' = st w \<and>
      (ok \<longrightarrow> (\<forall>status. decodeStatus (TrimSpace out) = Some status \<longrightarrow> st w n = Some (ParseState status))) \<and>
      (\<not> ok \<and> IsNotFound out \<longrightarrow> st w n = None)"
    and cli_run: "parseRunArgs args = Some cfg \<Longrightarrow> rcName cfg \<noteq> [] \<Longrightarrow> exec args w = ((True, out), w') \<Longrightarrow>
      st w (rcName cfg) = None \<and> st w' = (st w)(rcName cfg \<mapsto> StateRunning)"
    and cli_start: "exec [''start'', n] w = ((True, out), w') \<Longrightarrow> st w' = (st w)(n \<mapsto> StateRunning)"
    and cli_stop: "exec [''stop'', n] w = ((True, out), w') \<Longrightarrow> st w' = (st w)(n \<mapsto> StateExited)"
    and cli_remove: "exec [''rm'', ''-f'', n] w = ((True, out), w') \<Longrightarrow> st w' = (st w)(n := None)"
begin

lemma adapter_inspect:
  "st (snd (cliInspect decodeStatus exec n w)) = st w"
  "fst (cliInspect decodeStatus exec n w) = Inr s \<Longrightarrow> st w n = Some s"
  "fst (cliInspect decodeStatus exec n w) = Inl ErrContainerNotFound \<Longrightarrow> st w n = None"
  by (auto simp: cliInspect_def split: prod.splits option.splits if_splits dest!: cli_inspect)

lemma adapter_run:
  assumes "configOk cfg" "rcName cfg \<noteq> []" "cliRun exec cfg w = (Inr cid, w')"
  shows "st w (rcName cfg) = None \<and> st w' = (st w)(rcName cfg \<mapsto> StateRunning)"
proof -
  obtain args where args: "BuildRunArgs cfg = Inr args" "parseRunArgs args = Some cfg"
    using BuildRunArgs_parse [OF assms(1)] by blast
  with assms(3) obtain out where "exec args w = ((True, out), w')"
    by (auto simp: cliRun_def split: prod.splits if_splits)
  with cli_run [OF args(2) assms(2)] show ?thesis by blast
qed

lemma adapter_command: "cliCommand exec args w = (None, w') \<Longrightarrow> \<exists>out. exec args w = ((True, out), w')"
  by (auto simp: cliCommand_def split: prod.splits if_splits)

end

text \<open>The adapter keeps the contract, for Docker and Podman alike.\<close>

sublocale container_cli \<subseteq> adapter: container_runtime "cliRuntime typ probe decodeStatus exec" st
  by unfold_locales
    (simp_all add: cliRuntime_def adapter_inspect adapter_run, auto simp: cliStart_def cliStop_def
      cliRemove_def dest!: adapter_command cli_start cli_stop cli_remove)

context container_cli
begin

lemma adapter_contract: "container_runtime (cliRuntime typ probe decodeStatus exec) st"
  by (rule adapter.container_runtime_axioms)

end

text \<open>
  An engine that runs containers and does nothing else: the state is the map of names to
  states, every command does what it says or fails without effect.
\<close>

definition stateName :: "ContainerState \<Rightarrow> string" where
  "stateName s = (case s of StateRunning \<Rightarrow> ''running'' | StateExited \<Rightarrow> ''exited''
     | StateCreated \<Rightarrow> ''created'' | StatePaused \<Rightarrow> ''paused'' | StateUnknown \<Rightarrow> ''dead'')"

definition simpleExec :: "(string \<rightharpoonup> ContainerState) ExecFunc" where
  "simpleExec args w =
     (case parseRunArgs args of
        Some cfg \<Rightarrow> if w (rcName cfg) = None then ((True, ''id''), w(rcName cfg \<mapsto> StateRunning)) else ((False, ''name in use''), w)
      | None \<Rightarrow>
          (case args of
             [cmd, n] \<Rightarrow>
               if w n = None then ((False, ''No such container''), w)
               else if cmd = ''start'' \<and> w n \<noteq> Some StatePaused then ((True, n), w(n \<mapsto> StateRunning))
               else if cmd = ''stop'' then ((True, n), w(n \<mapsto> StateExited))
               else ((False, ''unknown command''), w)
           | [cmd, f, n] \<Rightarrow>
               if cmd = ''rm'' \<and> f = ''-f'' then ((True, n), w(n := None)) else ((False, ''unknown command''), w)
           | [cmd, f, g, n] \<Rightarrow>
               if cmd \<noteq> ''inspect'' then ((False, ''unknown command''), w)
               else (case w n of None \<Rightarrow> ((False, ''No such object''), w)
                     | Some s \<Rightarrow> ((True, stateName s), w))
           | _ \<Rightarrow> ((False, ''unknown command''), w)))"

lemma stateName_parse [simp]: "ParseState (TrimSpace (stateName s)) = s"
proof -
  have "list_all (\<lambda>s. ParseState (TrimSpace (stateName s)) = s)
      [StateRunning, StateExited, StateCreated, StatePaused, StateUnknown]" by code_simp
  then show ?thesis by (cases s) simp_all
qed

lemma parseRunArgs_other [simp]: "c \<noteq> ''run'' \<Longrightarrow> parseRunArgs (c # as) = None"
  by (simp add: parseRunArgs_def)

interpretation simple: container_cli simpleExec Some "\<lambda>w. w"
proof
  fix n w ok out w'
  assume "simpleExec [''inspect'', ''-f'', ''{{json .State}}'', n] w = ((ok, out), w')"
  then show "w' = w \<and> (ok \<longrightarrow> (\<forall>status. Some (TrimSpace out) = Some status \<longrightarrow> w n = Some (ParseState status))) \<and>
      (\<not> ok \<and> IsNotFound out \<longrightarrow> w n = None)"
    by (auto simp: simpleExec_def split: option.splits)
qed (auto simp: simpleExec_def split: option.splits if_splits list.splits)

end
