(* ===== verification/Engine_Daemon.thy ===== *)
theory Engine_Daemon
  imports Container_Runtime
begin

text \<open>
  \<^verbatim>\<open>internal/daemon/daemon.go\<close>: the life cycle of the local BuildKit container, and the
  commands of \<^verbatim>\<open>cmd/cicada/run.go\<close> that drive it. Probing the daemon and the clock are
  arguments; the container runtime is a record of operations.
\<close>

section \<open>Configuration\<close>

datatype engineErr =
    ErrEngineUnhealthy | ErrStartFailed | ErrNilRuntime | InspectFailed rtErr | StopFailed rtErr
  | RemoveFailed rtErr | ProbeFailed | WaitCancelled

definition containerName :: string where "containerName = ''cicada-buildkitd''"
definition buildkitImage :: string where "buildkitImage = ''moby/buildkit:v0.27.1''"
definition port :: string where "port = ''1234''"
definition defaultAddr :: string where "defaultAddr = ''tcp://127.0.0.1:'' @ port"
definition volumeName :: string where "volumeName = ''cicada-buildkit-state''"

text \<open>Durations are in nanoseconds.\<close>

record healthConfig =
  hTimeout :: int
  hInterval :: int
  hBackoff :: int
  hMaxInterval :: int

definition defaultHealthConfig :: healthConfig where
  "defaultHealthConfig =
     \<lparr>hTimeout = 30000000000, hInterval = 100000000, hBackoff = 2, hMaxInterval = 3000000000\<rparr>"

text \<open>
  One probe of the daemon: whether it failed (\<open>None\<close>), was refused or was answered, how long it
  took, whether the context was cancelled during the wait that follows a refusal, and by how
  much the timer of that wait was late.
\<close>

record probe =
  prAnswer :: "bool option"
  prTook :: int
  prCancelled :: bool
  prLate :: int

definition probeLaw :: "(nat \<Rightarrow> probe) \<Rightarrow> bool" where
  "probeLaw ev \<longleftrightarrow> (\<forall>k. 0 \<le> prTook (ev k) \<and> 0 \<le> prLate (ev k))"

section \<open>Waiting for the engine\<close>

text \<open>
  \<^verbatim>\<open>waitHealthy\<close>: \<open>k\<close> counts the probes made, \<open>now\<close> is the time since the start of the wait. The
  result is the error, if any, with the number of probes; \<open>None\<close> means out of fuel.
\<close>

fun waitLoop :: "healthConfig \<Rightarrow> (nat \<Rightarrow> probe) \<Rightarrow> nat \<Rightarrow> nat \<Rightarrow> int \<Rightarrow> int \<Rightarrow> (engineErr option \<times> nat) option" where
  "waitLoop h ev 0 k now interval = None"
| "waitLoop h ev (Suc fuel) k now interval =
     (if \<not> now < hTimeout h then Some (Some ErrEngineUnhealthy, k)
      else (case prAnswer (ev k) of
              None \<Rightarrow> Some (Some ProbeFailed, k + 1)
            | Some True \<Rightarrow> Some (None, k + 1)
            | Some False \<Rightarrow>
                if prCancelled (ev k) then Some (Some WaitCancelled, k + 1)
                else waitLoop h ev fuel (k + 1) (now + prTook (ev k) + interval + prLate (ev k))
                       (min (wrap64 (interval * hBackoff h)) (hMaxInterval h))))"

definition waitHealthy :: "nat \<Rightarrow> healthConfig \<Rightarrow> (nat \<Rightarrow> probe) \<Rightarrow> (engineErr option \<times> nat) option" where
  "waitHealthy fuel h ev = waitLoop h ev fuel 0 0 (hInterval h)"

section \<open>The manager\<close>

record 'w Manager =
  mRt :: "'w Runtime"
  mHealth :: healthConfig

definition NewManager :: "'w Runtime option \<Rightarrow> engineErr + 'w Manager" where
  "NewManager rt =
     (case rt of None \<Rightarrow> Inl ErrNilRuntime
      | Some r \<Rightarrow> Inr \<lparr>mRt = r, mHealth = defaultHealthConfig\<rparr>)"

definition engineConfig :: RunConfig where
  "engineConfig =
     \<lparr>rcName = containerName, rcImage = buildkitImage, rcPrivileged = True,
      rcPorts = [\<lparr>pbHostAddr = ''127.0.0.1'', pbHostPort = port, pbContPort = port\<rparr>],
      rcVolumes = [\<lparr>vmName = volumeName, vmTarget = ''/var/lib/buildkit''\<rparr>],
      rcDetach = True, rcArgs = [''--addr'', ''tcp://0.0.0.0:'' @ port]\<rparr>"

text \<open>The switch on the state: whether the container could be brought up.\<close>

definition bringUp :: "'w Runtime \<Rightarrow> ContainerState \<Rightarrow> 'w \<Rightarrow> engineErr option \<times> 'w" where
  "bringUp rt state w =
     (case state of
        StateRunning \<Rightarrow> (None, w)
      | StateExited \<Rightarrow> (case rtStart rt containerName w of (e, w') \<Rightarrow> (map_option (\<lambda>_. ErrStartFailed) e, w'))
      | StateCreated \<Rightarrow> (case rtStart rt containerName w of (e, w') \<Rightarrow> (map_option (\<lambda>_. ErrStartFailed) e, w'))
      | _ \<Rightarrow> (case rtRun rt engineConfig w of
                (Inl _, w') \<Rightarrow> (Some ErrStartFailed, w')
              | (Inr _, w') \<Rightarrow> (None, w')))"

text \<open>\<open>fuel\<close> bounds the probes of the wait; \<open>None\<close> means that it was not enough.\<close>

definition startFrom ::
  "nat \<Rightarrow> 'w Manager \<Rightarrow> (nat \<Rightarrow> probe) \<Rightarrow> ContainerState \<Rightarrow> 'w \<Rightarrow> ((engineErr + string) \<times> 'w) option" where
  "startFrom fuel m ev state w =
     (case bringUp (mRt m) state w of
        (Some e, w') \<Rightarrow> Some (Inl e, w')
      | (None, w') \<Rightarrow>
          (case waitHealthy fuel (mHealth m) ev of
             None \<Rightarrow> None
           | Some (Some e, _) \<Rightarrow> Some (Inl e, w')
           | Some (None, _) \<Rightarrow> Some (Inr defaultAddr, w')))"

definition Start :: "nat \<Rightarrow> 'w Manager \<Rightarrow> (nat \<Rightarrow> probe) \<Rightarrow> 'w \<Rightarrow> ((engineErr + string) \<times> 'w) option" where
  "Start fuel m ev w =
     (case rtInspect (mRt m) containerName w of (r, w1) \<Rightarrow>
        (case r of
           Inl e \<Rightarrow>
             if e \<noteq> ErrContainerNotFound then Some (Inl (InspectFailed e), w1)
             else startFrom fuel m ev StateUnknown w1
         | Inr state \<Rightarrow> startFrom fuel m ev state w1))"

text \<open>\<open>dial\<close> is the answer to the first probe.\<close>

definition EnsureRunning ::
  "nat \<Rightarrow> 'w Manager \<Rightarrow> bool option \<Rightarrow> (nat \<Rightarrow> probe) \<Rightarrow> string \<Rightarrow> 'w \<Rightarrow> ((engineErr + string) \<times> 'w) option" where
  "EnsureRunning fuel m dial ev userAddr w =
     (if userAddr \<noteq> [] \<and> userAddr \<noteq> defaultAddr then Some (Inr userAddr, w)
      else (case dial of
              None \<Rightarrow> Some (Inl ProbeFailed, w)
            | Some True \<Rightarrow> Some (Inr defaultAddr, w)
            | Some False \<Rightarrow> Start fuel m ev w))"

definition IsReachable :: "bool option \<Rightarrow> bool" where
  "IsReachable dial = (dial = Some True)"

definition Stop :: "'w Manager \<Rightarrow> 'w \<Rightarrow> engineErr option \<times> 'w" where
  "Stop m w =
     (case rtInspect (mRt m) containerName w of (r, w1) \<Rightarrow>
        (case r of
           Inl e \<Rightarrow> (if e = ErrContainerNotFound then None else Some (InspectFailed e), w1)
         | Inr state \<Rightarrow>
             if state \<noteq> StateRunning then (None, w1)
             else (case rtStop (mRt m) containerName w1 of (e, w2) \<Rightarrow> (map_option StopFailed e, w2))))"

definition Remove :: "'w Manager \<Rightarrow> 'w \<Rightarrow> engineErr option \<times> 'w" where
  "Remove m w =
     (case rtInspect (mRt m) containerName w of (r, w1) \<Rightarrow>
        (case r of
           Inl e \<Rightarrow> (if e = ErrContainerNotFound then None else Some (InspectFailed e), w1)
         | Inr _ \<Rightarrow> (case rtRemove (mRt m) containerName w1 of (e, w2) \<Rightarrow> (map_option RemoveFailed e, w2))))"

text \<open>\<^verbatim>\<open>Status\<close>: the state, or \<open>None\<close> for the empty string of a missing container.\<close>

definition Status :: "'w Manager \<Rightarrow> 'w \<Rightarrow> (engineErr + ContainerState option) \<times> 'w" where
  "Status m w =
     (case rtInspect (mRt m) containerName w of (r, w1) \<Rightarrow>
        (case r of
           Inl e \<Rightarrow> (if e = ErrContainerNotFound then Inr None else Inl (InspectFailed e), w1)
         | Inr state \<Rightarrow> (Inr (Some state), w1)))"

text \<open>
  The command \<^verbatim>\<open>engine stop\<close> stops and removes, and reports both errors (\<^verbatim>\<open>errors.Join\<close>, here
  the first of them).
\<close>

definition engineStopAction :: "'w Manager \<Rightarrow> 'w \<Rightarrow> engineErr option \<times> 'w" where
  "engineStopAction m w =
     (case Stop m w of (stopErr, w1) \<Rightarrow>
        (case Remove m w1 of (removeErr, w2) \<Rightarrow> (orErr stopErr removeErr, w2)))"

definition resolveAddr ::
  "nat \<Rightarrow> 'w Manager \<Rightarrow> bool \<Rightarrow> bool option \<Rightarrow> (nat \<Rightarrow> probe) \<Rightarrow> string \<Rightarrow> 'w \<Rightarrow> ((engineErr + string) \<times> 'w) option" where
  "resolveAddr fuel m noDaemon dial ev addr w =
     (if noDaemon then Some (Inr addr, w) else EnsureRunning fuel m dial ev addr w)"

section \<open>The wait ends\<close>

text \<open>The pauses between probes when no timer is late, and their sum.\<close>

primrec pauseAt :: "healthConfig \<Rightarrow> nat \<Rightarrow> int" where
  "pauseAt h 0 = hInterval h"
| "pauseAt h (Suc k) = min (wrap64 (pauseAt h k * hBackoff h)) (hMaxInterval h)"

primrec elapsed :: "healthConfig \<Rightarrow> nat \<Rightarrow> int" where
  "elapsed h 0 = 0"
| "elapsed h (Suc k) = elapsed h k + pauseAt h k"

lemma waitLoop_ends:
  assumes "probeLaw ev" "elapsed h (k + d) \<ge> hTimeout h" "now \<ge> elapsed h k"
  shows "\<exists>e n. waitLoop h ev (Suc d) k now (pauseAt h k) = Some (e, n) \<and> n \<le> k + d"
  using assms
proof (induction d arbitrary: k now)
  case (Suc d)
  have "now + prTook (ev k) + pauseAt h k + prLate (ev k) \<ge> elapsed h (Suc k)"
    using Suc.prems(3) Suc.prems(1) [unfolded probeLaw_def, rule_format, of k] by simp
  with Suc.IH [of "Suc k"] Suc.prems(1,2)
  have "\<exists>e n. waitLoop h ev (Suc d) (Suc k) (now + prTook (ev k) + pauseAt h k + prLate (ev k)) (pauseAt h (Suc k)) =
      Some (e, n) \<and> n \<le> Suc k + d" by simp
  then show ?case
    by (subst waitLoop.simps(2)) (auto simp del: waitLoop.simps split: option.split bool.split)
qed simp

lemma waitLoop_answer:
  "waitLoop h ev fuel k now i = Some (e, n) \<Longrightarrow> k \<le> n \<and>
   (e = None \<longrightarrow> k < n \<and> prAnswer (ev (n - 1)) = Some True \<and> (\<forall>j. k \<le> j \<and> j < n - 1 \<longrightarrow> prAnswer (ev j) = Some False)) \<and>
   (e = Some ErrEngineUnhealthy \<longrightarrow> (\<forall>j. k \<le> j \<and> j < n \<longrightarrow> prAnswer (ev j) = Some False))"
proof (induction h ev fuel k now i rule: waitLoop.induct)
  case (2 h ev fuel k now i)
  show ?case
  proof (cases "now < hTimeout h \<and> prAnswer (ev k) = Some False \<and> \<not> prCancelled (ev k)")
    case True
    with 2(1) [of False] 2(2) have IH: "Suc k \<le> n \<and>
       (e = None \<longrightarrow> Suc k < n \<and> prAnswer (ev (n - 1)) = Some True \<and> (\<forall>j. Suc k \<le> j \<and> j < n - 1 \<longrightarrow> prAnswer (ev j) = Some False)) \<and>
       (e = Some ErrEngineUnhealthy \<longrightarrow> (\<forall>j. Suc k \<le> j \<and> j < n \<longrightarrow> prAnswer (ev j) = Some False))" by simp
    have "j = k \<or> Suc k \<le> j" if "k \<le> j" for j using that by auto
    with IH True show ?thesis by (metis Suc_leD Suc_lessD)
  next
    case False
    with 2(2) show ?thesis by (auto split: option.splits bool.splits if_splits)
  qed
qed simp

lemma engineConfig_ok: "configOk engineConfig" "rcName engineConfig = containerName" "containerName \<noteq> []"
  by code_simp+

lemma waitHealthy_returns:
  assumes "probeLaw ev"
  shows "\<exists>e n. waitHealthy 15 defaultHealthConfig ev = Some (e, n) \<and> n \<le> 14"
proof -
  have "elapsed defaultHealthConfig (0 + 14) \<ge> hTimeout defaultHealthConfig" by code_simp
  moreover have "15 = Suc 14" by simp
  ultimately show ?thesis
    unfolding waitHealthy_def using waitLoop_ends [OF assms, of defaultHealthConfig 0 14 0]
    by (metis add_0 elapsed.simps(1) order_refl pauseAt.simps(1))
qed


definition slowStart :: "nat \<Rightarrow> probe" where
  "slowStart k = \<lparr>prAnswer = Some (k \<ge> 2), prTook = 1, prCancelled = False, prLate = 0\<rparr>"

lemma slowStart_law: "probeLaw slowStart"
  by (simp add: probeLaw_def slowStart_def)


section \<open>The manager on a runtime that keeps its contract\<close>

context container_runtime
begin

lemma inspect_cases:
  obtains w1 where "rtInspect rt n w = (Inl ErrContainerNotFound, w1)" "st w1 = st w" "st w n = None"
  | w1 e where "rtInspect rt n w = (Inl e, w1)" "e \<noteq> ErrContainerNotFound" "st w1 = st w"
  | w1 s where "rtInspect rt n w = (Inr s, w1)" "st w1 = st w" "st w n = Some s"
proof (cases "rtInspect rt n w")
  case (Pair r w1)
  with inspect_frame [of n w] inspect_state [of n w] inspect_missing [of n w] that
  show ?thesis by (cases r) auto
qed

lemma bringUp_ok:
  assumes "bringUp rt s w = (None, w')" "st w containerName = Some s \<or> s = StateUnknown"
  shows "st w' = (st w)(containerName \<mapsto> StateRunning)"
    and "s \<noteq> StatePaused \<and> (s = StateUnknown \<longrightarrow> st w containerName = None)"
  using assms engineConfig_ok run_ok [OF engineConfig_ok(1)] start_ok
  by (auto simp: bringUp_def fun_upd_idem split: ContainerState.splits prod.splits sum.splits)

lemma startFrom_result:
  assumes "mRt m = rt" "mHealth m = defaultHealthConfig" "probeLaw ev"
    and "st w containerName = Some s \<or> s = StateUnknown \<and> st w containerName = None"
  shows "\<exists>res w'. startFrom 15 m ev s w = Some (res, w') \<and>
    (\<forall>addr. res = Inr addr \<longrightarrow> addr = defaultAddr \<and> st w' = (st w)(containerName \<mapsto> StateRunning) \<and>
       (\<exists>k<14. prAnswer (ev k) = Some True) \<and>
       st w containerName \<in> {None, Some StateRunning, Some StateExited, Some StateCreated})"
proof -
  obtain e n where r: "waitHealthy 15 defaultHealthConfig ev = Some (e, n)" "n \<le> 14"
    using waitHealthy_returns [OF assms(3)] by blast
  have healthy: "\<exists>k<14. prAnswer (ev k) = Some True" if "e = None"
    using waitLoop_answer [OF r(1) [unfolded waitHealthy_def]] that r(2)
    by (intro exI [of _ "n - 1"]) auto
  show ?thesis
  proof (cases "bringUp rt s w")
    case (Pair err w2)
    show ?thesis
    proof (cases err)
      case None
      from assms(4) have "st w containerName = Some s \<or> s = StateUnknown" by auto
      from bringUp_ok [OF Pair [unfolded None] this] assms(4)
      have "st w2 = (st w)(containerName \<mapsto> StateRunning)"
        "st w containerName \<in> {None, Some StateRunning, Some StateExited, Some StateCreated}"
        by (auto, cases s, auto)
      with Pair None r healthy show ?thesis by (cases e) (auto simp: startFrom_def assms(1,2))
    qed (use Pair in \<open>auto simp: startFrom_def assms(1)\<close>)
  qed
qed

lemma Start_result:
  assumes "mRt m = rt" "mHealth m = defaultHealthConfig" "probeLaw ev"
  shows "\<exists>res w'. Start 15 m ev w = Some (res, w') \<and>
    (\<forall>addr. res = Inr addr \<longrightarrow> addr = defaultAddr \<and> st w' = (st w)(containerName \<mapsto> StateRunning) \<and>
       (\<exists>k<14. prAnswer (ev k) = Some True) \<and>
       st w containerName \<in> {None, Some StateRunning, Some StateExited, Some StateCreated})"
proof (cases rule: inspect_cases [where n = containerName and w = w])
  case (1 w1)
  then show ?thesis using startFrom_result [OF assms, of w1 StateUnknown] by (simp add: Start_def assms(1))
next
  case (2 w1 e)
  then show ?thesis by (simp add: Start_def assms(1))
next
  case (3 w1 s)
  then show ?thesis using startFrom_result [OF assms, of w1 s] by (simp add: Start_def assms(1))
qed

lemma Stop_ok:
  assumes "mRt m = rt" "Stop m w = (None, w')"
  shows "st w' = (if st w containerName = Some StateRunning then (st w)(containerName \<mapsto> StateExited) else st w)"
  using assms(2)
  by (cases rule: inspect_cases [where n = containerName and w = w])
    (auto simp: Stop_def assms(1) dest!: stop_ok split: if_splits prod.splits)

lemma Remove_ok:
  assumes "mRt m = rt" "Remove m w = (None, w')"
  shows "st w' = (st w)(containerName := None)"
  using assms(2)
  by (cases rule: inspect_cases [where n = containerName and w = w])
    (auto simp: Remove_def assms(1) fun_upd_idem dest!: remove_ok split: if_splits prod.splits)

lemma engineStop_ok:
  assumes "mRt m = rt" "engineStopAction m w = (None, w')"
  shows "st w' = (st w)(containerName := None)"
proof -
  obtain w1 where "Stop m w = (None, w1)" "Remove m w1 = (None, w')"
    using assms(2) by (auto simp: engineStopAction_def split: prod.splits)
  from Remove_ok [OF assms(1) this(2)] Stop_ok [OF assms(1) this(1)] show ?thesis by auto
qed

end

section \<open>The life cycle on Docker\<close>


definition simpleManager :: "(string \<rightharpoonup> ContainerState) Manager" where
  "simpleManager = \<lparr>mRt = dockerNew Some simpleExec, mHealth = defaultHealthConfig\<rparr>"


text \<open>
  A runtime that cannot reach its engine and says so with the words ``no such file'' (or ``no
  such host'') is taken for one without the container: \<^verbatim>\<open>engine stop\<close> reports success.
\<close>

definition unreachableExec :: "unit ExecFunc" where
  "unreachableExec args w = ((False, ''dial unix /run/podman.sock: connect: no such file or directory''), w)"

theorem unreachable_engine_stopped:
  "engineStopAction \<lparr>mRt = podmanNew Some unreachableExec, mHealth = defaultHealthConfig\<rparr> () = (None, ())"
  by code_simp

text \<open>A paused container is neither started nor unpaused: the attempt to create it again fails.\<close>

theorem paused_engine_not_started:
  "map_option fst (Start 15 simpleManager slowStart [containerName \<mapsto> StatePaused]) = Some (Inl ErrStartFailed)"
  by code_simp

section \<open>Choosing a runtime\<close>

text \<open>The runtime that is chosen. Automatic detection returns the first runtime in the order of
  the factories whose probe succeeds, and an error exactly when there is none; a runtime asked
  for by name, in any case and with spaces around it, is returned without a probe.\<close>

theorem ResolverGet_choice:
  assumes "rsNamed r = Some named" "ToLower (TrimSpace name) = key"
  shows "(key \<in> {[], ''auto''} \<longrightarrow>
      ResolverGet r name w = (case find (\<lambda>f. case f of None \<Rightarrow> False | Some rt \<Rightarrow> rtAvailable rt w) (rsFactories r) of
         Some (Some rt) \<Rightarrow> Inr rt | _ \<Rightarrow> Inl ErrNoRuntime)) \<and>
    (key \<notin> {[], ''auto''} \<longrightarrow> (\<forall>rt. ResolverGet r name w = Inr rt \<longleftrightarrow> map_of named key = Some (Some rt)))"
proof -
  have "Detect fs w = (case find (\<lambda>f. case f of None \<Rightarrow> False | Some rt \<Rightarrow> rtAvailable rt w) fs of
         Some (Some rt) \<Rightarrow> Inr rt | _ \<Rightarrow> Inl ErrNoRuntime)" for fs
    by (induction fs w rule: Detect.induct) auto
  with assms show ?thesis
    by (auto simp: ResolverGet_def Let_def split: option.splits)
qed

definition simpleResolver :: "(string \<rightharpoonup> ContainerState) RuntimeResolver" where
  "simpleResolver = \<lparr>rsFactories = [None, Some (dockerNew Some simpleExec)],
     rsNamed = Some [(''docker'', Some (dockerNew Some simpleExec))]\<rparr>"

theorem ResolverGet_choice_witness:
  "ResolverGet simpleResolver '' Docker '' Map.empty = Inr (dockerNew Some simpleExec)"
proof -
  have "rsNamed simpleResolver = Some [(''docker'', Some (dockerNew Some simpleExec))]"
    by (simp add: simpleResolver_def)
  moreover have "ToLower (TrimSpace '' Docker '') = ''docker''" by code_simp
  ultimately show ?thesis
    using ResolverGet_choice [of simpleResolver "[(''docker'', Some (dockerNew Some simpleExec))]" "'' Docker ''" "''docker''" Map.empty]
    by simp
qed

end
