(* ===== verification/Image_Store.thy ===== *)
theory Image_Store
  imports Solve_Status Runner_Publish Merge
begin

text \<open>
  \<^verbatim>\<open>internal/imagestore\<close>: pulling the images of a pipeline and checking that they are cached, for
  offline runs. Solving an image is an argument: the statuses it streams and its error.
\<close>

section \<open>Solving one image\<close>

datatype bkErr = BkNotFound | BkUnauthorized | BkPermissionDenied | BkOther

datatype storeErr = ImageMarshalErr | ImageSolveErr bkErr | NilVertex

record imageSolve =
  isMarshal :: bool
  isStatuses :: "SolveStatus list"
  isErr :: "bkErr option"

definition isImageNotFoundErr :: "bkErr \<Rightarrow> bool" where
  "isImageNotFoundErr e = (e = BkNotFound \<or> e = BkUnauthorized \<or> e = BkPermissionDenied)"

text \<open>A nil vertex makes the collecting goroutine panic: \<open>NilVertex\<close>.\<close>

definition collectVertex :: "Vertex option \<Rightarrow> (string, bool) gomap \<Rightarrow> storeErr + (string, bool) gomap" where
  "collectVertex v vertices =
     (case v of
        None \<Rightarrow> Inl NilVertex
      | Some x \<Rightarrow>
          Inr (if vCached x then mput (vDigest x) True vertices
               else if map_of vertices (vDigest x) = None then mput (vDigest x) False vertices
               else vertices))"

definition collectVertexCachedStates :: "SolveStatus list \<Rightarrow> (string, bool) gomap \<Rightarrow> storeErr + (string, bool) gomap" where
  "collectVertexCachedStates ch vertices = foldE (\<lambda>status. foldE collectVertex (ssVertexes status)) ch vertices"

definition isImageCached :: "(string \<Rightarrow> imageSolve) \<Rightarrow> string \<Rightarrow> storeErr + bool" where
  "isImageCached solve ref =
     (let s = solve ref in
      if \<not> isMarshal s then Inl ImageMarshalErr
      else bindE (collectVertexCachedStates (isStatuses s) []) (\<lambda>vertices.
        case isErr s of
          Some e \<Rightarrow> if isImageNotFoundErr e then Inr False else Inl (ImageSolveErr e)
        | None \<Rightarrow> if vertices = [] then Inr False else Inr (list_all snd vertices)))"

definition checkOne :: "(string \<Rightarrow> imageSolve) \<Rightarrow> string \<Rightarrow> string list \<Rightarrow> storeErr + string list" where
  "checkOne solve ref missing =
     bindE (isImageCached solve ref) (\<lambda>cached. Inr (if cached then missing else missing @ [ref]))"

definition CheckCached :: "(string \<Rightarrow> imageSolve) \<Rightarrow> string list \<Rightarrow> storeErr + string list" where
  "CheckCached solve images = foldE (checkOne solve) images []"

section \<open>Pulling\<close>

datatype pullMsg = PullAdded string | PullStatus string SolveStatus | PullDone string

text \<open>
  \<open>seen\<close> is how many statuses the bridge passes on before it finds the context cancelled; all
  of them when it is not.
\<close>

definition pullImage :: "(string \<Rightarrow> imageSolve) \<Rightarrow> nat \<Rightarrow> string \<Rightarrow> pullMsg list \<times> storeErr option" where
  "pullImage solve seen ref =
     (let s = solve ref; name = ''pull '' @ ref in
      if \<not> isMarshal s then ([], Some ImageMarshalErr)
      else ([PullAdded name] @ map (PullStatus name) (take seen (isStatuses s)) @ [PullDone name],
            map_option ImageSolveErr (isErr s)))"

text \<open>\<open>wait\<close> is what the error group reports of the errors of its members, in the order they end.\<close>

definition PullImages ::
  "(storeErr list \<Rightarrow> storeErr option) \<Rightarrow> (string \<Rightarrow> imageSolve) \<Rightarrow> (string \<Rightarrow> nat) \<Rightarrow> string list \<Rightarrow> storeErr option" where
  "PullImages wait solve seen images =
     wait (List.map_filter (\<lambda>ref. snd (pullImage solve (seen ref) ref)) images)"

section \<open>The offline check\<close>

text \<open>The vertexes a solve reported, and when all of them are cached.\<close>

definition vertexesOf :: "SolveStatus list \<Rightarrow> Vertex set" where
  "vertexesOf ch = {v. \<exists>st\<in>set ch. Some v \<in> set (ssVertexes st)}"

definition allCached :: "SolveStatus list \<Rightarrow> bool" where
  "allCached ch \<longleftrightarrow> vertexesOf ch \<noteq> {} \<and>
     (\<forall>v\<in>vertexesOf ch. \<exists>u\<in>vertexesOf ch. vDigest u = vDigest v \<and> vCached u)"

definition tracks :: "Vertex set \<Rightarrow> (string, bool) gomap \<Rightarrow> bool" where
  "tracks V m \<longleftrightarrow> wfmap m \<and>
     map_of m = (\<lambda>d. if d \<in> vDigest ` V then Some (\<exists>u\<in>V. vDigest u = d \<and> vCached u) else None)"

lemma collectVertex_None [simp]: "collectVertex None m = Inl NilVertex"
  by (simp add: collectVertex_def)

lemma checkOne_Inr:
  "checkOne solve ref m = Inr m' \<longleftrightarrow> (\<exists>b. isImageCached solve ref = Inr b \<and> m' = (if b then m else m @ [ref]))"
  by (auto simp: checkOne_def bindE_Inr)

lemma tracks_vertex: "tracks V m \<Longrightarrow> collectVertex (Some v) m = Inr m' \<Longrightarrow> tracks (insert v V) m'"
proof -
  assume t: "tracks V m" and c: "collectVertex (Some v) m = Inr m'"
  have at: "map_of m d = (if d \<in> vDigest ` V then Some (\<exists>u\<in>V. vDigest u = d \<and> vCached u) else None)" for d
    using t by (simp add: tracks_def)
  have "wfmap m'" using t c by (auto simp: tracks_def collectVertex_def split: if_splits)
  moreover have "map_of m' d =
      (if d \<in> vDigest ` insert v V then Some (\<exists>u\<in>insert v V. vDigest u = d \<and> vCached u) else None)" for d
  proof (cases "d = vDigest v")
    case True
    then show ?thesis using c at [of d] by (auto simp: collectVertex_def image_iff split: if_splits) metis
  next
    case False
    then have "map_of m' d = map_of m d" using c by (auto simp: collectVertex_def split: if_splits)
    then show ?thesis using False at [of d] by auto
  qed
  ultimately show "tracks (insert v V) m'" by (simp add: tracks_def fun_eq_iff)
qed

lemma tracks_vertexes:
  "tracks V m \<Longrightarrow> foldE collectVertex vs m = Inr m' \<Longrightarrow> tracks (V \<union> {v. Some v \<in> set vs}) m'"
proof (induction vs arbitrary: V m)
  case (Cons x vs)
  then obtain v m1 where x: "x = Some v" "collectVertex (Some v) m = Inr m1" "foldE collectVertex vs m1 = Inr m'"
    by (cases x) (auto simp: bindE_Inr)
  from Cons.IH [OF tracks_vertex [OF Cons.prems(1) x(2)] x(3)]
  have "tracks (insert v V \<union> {v. Some v \<in> set vs}) m'" .
  moreover have "insert v V \<union> {v. Some v \<in> set vs} = V \<union> {v. Some v \<in> set (x # vs)}" by (auto simp: x(1))
  ultimately show ?case by simp
qed simp

lemma tracks_statuses:
  "tracks V m \<Longrightarrow> collectVertexCachedStates ch m = Inr m' \<Longrightarrow> tracks (V \<union> vertexesOf ch) m'"
proof (induction ch arbitrary: V m)
  case (Cons st ch)
  then obtain m1 where "foldE collectVertex (ssVertexes st) m = Inr m1" "collectVertexCachedStates ch m1 = Inr m'"
    by (auto simp: collectVertexCachedStates_def)
  from Cons.IH [OF tracks_vertexes [OF Cons.prems(1) this(1)] this(2)]
  have "tracks (V \<union> {v. Some v \<in> set (ssVertexes st)} \<union> vertexesOf ch) m'" .
  moreover have "V \<union> {v. Some v \<in> set (ssVertexes st)} \<union> vertexesOf ch = V \<union> vertexesOf (st # ch)"
    by (auto simp: vertexesOf_def)
  ultimately show ?case by simp
qed (simp add: collectVertexCachedStates_def vertexesOf_def)

lemma tracks_allCached:
  assumes "tracks (vertexesOf ch) m"
  shows "m \<noteq> [] \<and> list_all snd m \<longleftrightarrow> allCached ch"
proof -
  have keys: "fst ` set m = vDigest ` vertexesOf ch"
    using assms by (auto simp: tracks_def simp flip: dom_map_of_conv_image_fst split: if_splits)
  then have "m = [] \<longleftrightarrow> vertexesOf ch = {}" by auto
  moreover have "list_all snd m \<longleftrightarrow> (\<forall>d\<in>fst ` set m. map_of m d = Some True)"
  proof -
    have "wfmap m" using assms by (simp add: tracks_def)
    then have "(d, b) \<in> set m \<longleftrightarrow> map_of m d = Some b" for d b by (simp add: wfmap_def map_of_eq_Some_iff)
    then show ?thesis by (fastforce simp: list_all_iff)
  qed
  ultimately show ?thesis
    unfolding keys using assms by (auto simp: tracks_def allCached_def)
qed

lemma isImageCached_result:
  assumes "isImageCached solve ref = Inr b"
  shows "b \<longleftrightarrow> isErr (solve ref) = None \<and> allCached (isStatuses (solve ref))"
proof -
  from assms obtain m where m: "collectVertexCachedStates (isStatuses (solve ref)) [] = Inr m"
    by (auto simp: isImageCached_def Let_def bindE_Inr split: if_splits)
  have "tracks {} ([] :: (string, bool) gomap)" by (simp add: tracks_def)
  from tracks_statuses [OF this m] have "tracks (vertexesOf (isStatuses (solve ref))) m" by simp
  from tracks_allCached [OF this] assms m show ?thesis
    by (auto simp: isImageCached_def Let_def split: if_splits option.splits)
qed


definition sampleVertex :: "bool \<Rightarrow> Vertex" where
  "sampleVertex c = \<lparr>vDigest = ''d'', vName = ''n'', vStarted = None, vCompleted = None, vCached = c, vError = []\<rparr>"

definition sampleSolve :: "string \<Rightarrow> imageSolve" where
  "sampleSolve ref =
     \<lparr>isMarshal = True,
      isStatuses = [\<lparr>ssVertexes = [Some (sampleVertex (ref = ''a''))], ssLogs = [], ssWarnings = []\<rparr>,
                    \<lparr>ssVertexes = [Some (sampleVertex False)], ssLogs = [], ssWarnings = []\<rparr>],
      isErr = None\<rparr>"


text \<open>Pulling succeeds exactly when every image solves, and each pull ends with one completion.\<close>

lemma PullImages_ok:
  assumes "errgroupLaw wait"
  shows "PullImages wait solve seen images = None \<longleftrightarrow>
    (\<forall>ref\<in>set images. isMarshal (solve ref) \<and> isErr (solve ref) = None)"
proof -
  have "List.map_filter f xs = [] \<longleftrightarrow> (\<forall>x\<in>set xs. f x = None)" for f :: "string \<Rightarrow> storeErr option" and xs
    by (auto simp: List.map_filter_def filter_empty_conv)
  then show ?thesis using assms by (auto simp: errgroupLaw_def PullImages_def pullImage_def Let_def)
qed

end
