(* ===== verification/Run_Command.thy ===== *)
theory Run_Command
  imports Prepared_Pipeline Run_Convert Cache_Spec Secret_Resolve Ignore_File Engine_Daemon Image_Store
begin

text \<open>
  \<^verbatim>\<open>cmd/cicada/run.go\<close> and \<^verbatim>\<open>pkg/gitinfo\<close>: the commands \<^verbatim>\<open>validate\<close> and \<^verbatim>\<open>run\<close>, from the file to the
  input of the runner, with every early return in its place. Tracing spans and logging leave
  no mark on the result and are left out.
\<close>

section \<open>Branch and tag (gitinfo.go)\<close>

text \<open>The output of the git commands is \<open>None\<close> when they fail.\<close>

definition DetectBranch :: "(string \<Rightarrow> string) \<Rightarrow> string option \<Rightarrow> string" where
  "DetectBranch getenv revParse =
     (if getenv ''GITHUB_HEAD_REF'' \<noteq> [] then getenv ''GITHUB_HEAD_REF''
      else if getenv ''GITHUB_REF_NAME'' \<noteq> [] \<and> getenv ''GITHUB_REF_TYPE'' \<noteq> ''tag'' then getenv ''GITHUB_REF_NAME''
      else if getenv ''CI_COMMIT_BRANCH'' \<noteq> [] then getenv ''CI_COMMIT_BRANCH''
      else if getenv ''CIRCLE_BRANCH'' \<noteq> [] then getenv ''CIRCLE_BRANCH''
      else (case revParse of
              None \<Rightarrow> []
            | Some out \<Rightarrow> let branch = TrimSpace out in if branch = ''HEAD'' then [] else branch))"

definition DetectTag :: "(string \<Rightarrow> string) \<Rightarrow> string option \<Rightarrow> string" where
  "DetectTag getenv describe =
     (if getenv ''GITHUB_REF_NAME'' \<noteq> [] \<and> getenv ''GITHUB_REF_TYPE'' = ''tag'' then getenv ''GITHUB_REF_NAME''
      else if getenv ''CI_COMMIT_TAG'' \<noteq> [] then getenv ''CI_COMMIT_TAG''
      else if getenv ''CIRCLE_TAG'' \<noteq> [] then getenv ''CIRCLE_TAG''
      else (case describe of None \<Rightarrow> [] | Some out \<Rightarrow> TrimSpace out))"

section \<open>Flags and surroundings\<close>

record runFlags =
  rfPath :: string
  rfParallelism :: int
  rfStartAt :: string
  rfStopAfter :: string
  rfNoCache :: bool
  rfNoCacheFilter :: "string list"
  rfExposeDeps :: bool
  rfDryRun :: bool
  rfCacheTo :: "string list"
  rfCacheFrom :: "string list"
  rfCacheStats :: bool
  rfDockerExport :: "string list"
  rfFailFast :: bool
  rfOffline :: bool
  rfProgress :: string

text \<open>The fields of \<^verbatim>\<open>app\<close> and what else the command asks of its surroundings.\<close>

record ('ast, 'def) app =
  apCel :: "'ast Cel"
  apParse :: "string \<Rightarrow> parseErr + 'ast Pipeline"
  apTracing :: bool
  apGetenv :: "string \<Rightarrow> string"
  apRevParse :: "string option"
  apDescribe :: "string option"
  apGetwd :: "string option"
  apIgnore :: "string \<Rightarrow> ignoreFile"
  apBuilder :: "'def builderEnv"
  apOpCount :: "'def \<Rightarrow> nat"
  apHost :: secretHost

datatype runErr =
    UsageErr | BadParallelism | TracingErr | ParseStage parseErr | ValidateStage err | FilterStage err
  | EvalStage err | GetwdErr | IgnoreStage ignoreErr | BuildStage buildErr | ConvertStage convertErr
  | SecretStage secretErr | CacheStage specErr

record ('ast, 'def) pipelineRunParams =
  prPath :: string
  prPipe :: "'ast Pipeline"
  prJobs :: "('ast, 'def) execJob list"
  prExports :: "'def RunnerExport list"
  prImagePublishes :: "'def ImagePublish list"
  prCwd :: string
  prCacheExports :: "CacheOptionsEntry list"
  prCacheImports :: "CacheOptionsEntry list"
  prCollector :: "Collector option"
  prWhenCtx :: Context
  prSkippedJobs :: "string list"
  prFailFast :: bool
  prSession :: "(string, string) gomap"
  prSecretValues :: "(string, string) gomap"

datatype ('ast, 'def) runPlan = DryRun "string list" | Execute "('ast, 'def) pipelineRunParams"

section \<open>The commands\<close>

definition validateAction :: "('ast, 'def) app \<Rightarrow> string \<Rightarrow> runErr + string list" where
  "validateAction a path =
     (if path = [] then Inl UsageErr
      else (case apParse a path of
              Inl e \<Rightarrow> Inl (ParseStage e)
            | Inr p \<Rightarrow>
                (case Validate (apCel a) (Some p) of
                   (_, Inl e) \<Rightarrow> Inl (ValidateStage e)
                 | (None, Inr _) \<Rightarrow> Inr (printPipelineSummary (pName p) (pJobs p))
                 | (Some q, Inr _) \<Rightarrow> Inr (printPipelineSummary (pName q) (pJobs q)))))"

definition resolveSecrets ::
  "secretHost \<Rightarrow> SecretDecl list \<Rightarrow> secretErr + (string, string) gomap \<times> (string, string) gomap" where
  "resolveSecrets host decls =
     (if decls = [] then Inr ([], [])
      else bindE (Resolve host decls) (\<lambda>resolved. Inr (ToMap resolved, PlaintextValues resolved)))"

text \<open>The stages of \<^verbatim>\<open>runAction\<close>: an error of a stage ends the command.\<close>

definition stage :: "('e \<Rightarrow> runErr) \<Rightarrow> 'e + 'a \<Rightarrow> runErr + 'a" where
  "stage wrap r = map_sum wrap id r"

definition loadExcludes :: "(string \<Rightarrow> ignoreFile) \<Rightarrow> string \<Rightarrow> runErr + string list" where
  "loadExcludes fs cwd =
     (case LoadIgnorePatterns fs cwd of
        Inr ps \<Rightarrow> Inr ps
      | Inl e \<Rightarrow> if e = ErrNoIgnoreFile then Inr [] else Inl (IgnoreStage e))"

definition whenContext :: "('ast, 'def) app \<Rightarrow> Context" where
  "whenContext a =
     \<lparr>wcGetenv = Some (apGetenv a), wcBranch = DetectBranch (apGetenv a) (apRevParse a),
      wcTag = DetectTag (apGetenv a) (apDescribe a), wcPipelineEnv = [], wcMatrix = []\<rparr>"

definition buildOptsOf :: "runFlags \<Rightarrow> 'ast Pipeline \<Rightarrow> string list \<Rightarrow> BuildOpts" where
  "buildOptsOf fl p excludes =
     \<lparr>boNoCache = rfNoCache fl, boNoCacheFilter = fst (buildNoCacheFilter (rfNoCacheFilter fl) p),
      boExcludePatterns = excludes, boMetaResolver = True, boExposeDeps = rfExposeDeps fl\<rparr>"

definition toRunnerExport :: "'def LocalExport \<Rightarrow> 'def RunnerExport" where
  "toRunnerExport e =
     \<lparr>exDefinition = Some (leDefinition e), exJobName = leJobName e, exLocal = leLocal e, exDir = leDir e\<rparr>"

text \<open>From the parsed file to the jobs of the runner.\<close>

definition prepareRun ::
  "('ast, 'def) app \<Rightarrow> runFlags \<Rightarrow>
     runErr + (string \<times> 'ast ConditionResult \<times> 'def buildResult \<times> ('ast, 'def) execJob list)" where
  "prepareRun a fl =
     bindE (stage ParseStage (apParse a (rfPath fl))) (\<lambda>p.
     bindE (stage FilterStage (FilterJobs (pJobs p) \<lparr>foStartAt = rfStartAt fl, foStopAfter = rfStopAfter fl\<rparr>)) (\<lambda>jobs.
     bindE (stage EvalStage (EvaluateConditions (apCel a) (p\<lparr>pJobs := jobs, pTopoOrder := None\<rparr>) (whenContext a))) (\<lambda>cond.
     case apGetwd a of
       None \<Rightarrow> Inl GetwdErr
     | Some cwd \<Rightarrow>
         bindE (loadExcludes (apIgnore a) cwd) (\<lambda>excludes.
         bindE (stage BuildStage (Build (apCel a) (apBuilder a) (crPipeline cond)
                                   (buildOptsOf fl (crPipeline cond) excludes))) (\<lambda>result.
         bindE (stage ConvertStage (buildRunnerJobs result (crPipeline cond) (crSkippedSteps cond))) (\<lambda>ejobs.
           Inr (cwd, cond, result, ejobs)))))))"

definition runAction :: "('ast, 'def) app \<Rightarrow> runFlags \<Rightarrow> runErr + ('ast, 'def) runPlan" where
  "runAction a fl =
     (if rfPath fl = [] then Inl UsageErr
      else if rfParallelism fl < 0 then Inl BadParallelism
      else if \<not> apTracing a then Inl TracingErr
      else bindE (prepareRun a fl) (\<lambda>(cwd, cond, result, ejobs).
        if rfDryRun fl then Inr (DryRun (printDryRun (apOpCount a) (pName (crPipeline cond)) ejobs))
        else
          bindE (stage SecretStage (resolveSecrets (apHost a) (brSecretDecls result))) (\<lambda>(session, secretValues).
          bindE (stage CacheStage (ParseSpecs (rfCacheTo fl))) (\<lambda>cacheExports.
          bindE (stage CacheStage (ParseSpecs (rfCacheFrom fl))) (\<lambda>cacheImports.
            Inr (Execute
              \<lparr>prPath = rfPath fl, prPipe = crPipeline cond, prJobs = ejobs,
               prExports = map toRunnerExport (brExports result),
               prImagePublishes = buildImagePublishes (brImageExports result) (rfDockerExport fl),
               prCwd = cwd, prCacheExports = DetectGHA (apGetenv a) cacheExports,
               prCacheImports = DetectGHA (apGetenv a) cacheImports,
               prCollector = (if rfCacheStats fl then Some NewCollector else None),
               prWhenCtx = whenContext a, prSkippedJobs = crSkipped cond, prFailFast = rfFailFast fl,
               prSession = session, prSecretValues = secretValues\<rparr>))))))"

section \<open>Execution\<close>

datatype display = TuiDisplay bool | PlainDisplay | QuietDisplay

text \<open>\<^verbatim>\<open>selectDisplay\<close> (main.go): \<open>tty\<close> says that the output is a terminal with the pretty format.\<close>

definition selectDisplay :: "bool \<Rightarrow> string \<Rightarrow> bool \<Rightarrow> display option" where
  "selectDisplay tty mode boring =
     (let m = TrimSpace (ToLower mode) in
      if m = ''auto'' then Some (if tty then TuiDisplay boring else PlainDisplay)
      else if m = ''tui'' then Some (TuiDisplay boring)
      else if m = ''plain'' then Some PlainDisplay
      else if m = ''quiet'' then Some QuietDisplay
      else None)"

datatype execErr =
    AddrErr engineErr | ConnectErr | OfflineCheckErr storeErr | ErrOfflineMissingImages "string list" | ContextErr
  | UnknownProgress | DisplayStartErr

text \<open>
  What execution meets: the address or the error of \<open>resolveAddr\<close>, the connection, the solves of
  single images, the context directory, the display.
\<close>

record execWorld =
  ewAddr :: "engineErr + string"
  ewConnect :: bool
  ewSolve :: "string \<Rightarrow> imageSolve"
  ewContext :: bool
  ewTty :: bool
  ewBoring :: bool
  ewStart :: bool

definition checkOffline :: "(string \<Rightarrow> imageSolve) \<Rightarrow> 'ast Pipeline \<Rightarrow> execErr option" where
  "checkOffline solve p =
     (case CheckCached solve (CollectImages p) of
        Inl e \<Rightarrow> Some (OfflineCheckErr e)
      | Inr missing \<Rightarrow> if missing \<noteq> [] then Some (ErrOfflineMissingImages missing) else None)"

definition runInputOf :: "runFlags \<Rightarrow> ('ast, 'def) pipelineRunParams \<Rightarrow> ('ast, 'def) RunInput" where
  "runInputOf fl prm =
     \<lparr>riSolver = True, riSender = True, riRuntime = True, riJobs = map ejJob (prJobs prm),
      riParallelism = rfParallelism fl, riFailFast = prFailFast prm, riExports = prExports prm,
      riPublishes = prImagePublishes prm, riWhenCtx = Some (prWhenCtx prm)\<rparr>"

text \<open>
  \<^verbatim>\<open>executePipeline\<close> up to the call of \<^verbatim>\<open>runner.Run\<close>: the display, the jobs reported as skipped
  and the input of the run. Everything after the call only reports.
\<close>

definition executePipeline ::
  "execWorld \<Rightarrow> runFlags \<Rightarrow> ('ast, 'def) pipelineRunParams \<Rightarrow> execErr + display \<times> string list \<times> ('ast, 'def) RunInput" where
  "executePipeline ew fl prm =
     (case ewAddr ew of
        Inl e \<Rightarrow> Inl (AddrErr e)
      | Inr addr \<Rightarrow>
          if \<not> ewConnect ew then Inl ConnectErr
          else (case (if rfOffline fl then checkOffline (ewSolve ew) (prPipe prm) else None) of
                  Some e \<Rightarrow> Inl e
                | None \<Rightarrow>
                    if \<not> ewContext ew then Inl ContextErr
                    else (case selectDisplay (ewTty ew) (rfProgress fl) (ewBoring ew) of
                            None \<Rightarrow> Inl UnknownProgress
                          | Some d \<Rightarrow>
                              if \<not> ewStart ew then Inl DisplayStartErr
                              else Inr (d, prSkippedJobs prm, runInputOf fl prm))))"

text \<open>
  \<^verbatim>\<open>pullAction\<close>: the line it prints. The order in which the pulls end and how much of each stream the
  bridge passes on are arguments, as in \<open>PullImages\<close>.
\<close>

datatype pullErr = PullUsage | PullParse parseErr | PullSetup execErr | PullFailed storeErr

definition pullAction ::
  "('ast, 'def) app \<Rightarrow> execWorld \<Rightarrow> (storeErr list \<Rightarrow> storeErr option) \<Rightarrow> (string \<Rightarrow> nat) \<Rightarrow> string \<Rightarrow> string \<Rightarrow>
     pullErr + string" where
  "pullAction a ew wait seen progress path =
     (if path = [] then Inl PullUsage
      else (case apParse a path of
              Inl e \<Rightarrow> Inl (PullParse e)
            | Inr p \<Rightarrow>
                let images = CollectImages p in
                if images = [] then Inr ''No images to pull''
                else (case ewAddr ew of
                        Inl e \<Rightarrow> Inl (PullSetup (AddrErr e))
                      | Inr addr \<Rightarrow>
                          if \<not> ewConnect ew then Inl (PullSetup ConnectErr)
                          else (case selectDisplay (ewTty ew) progress (ewBoring ew) of
                                  None \<Rightarrow> Inl (PullSetup UnknownProgress)
                                | Some d \<Rightarrow>
                                    if \<not> ewStart ew then Inl (PullSetup DisplayStartErr)
                                    else (case PullImages wait (ewSolve ew) seen images of
                                            Some e \<Rightarrow> Inl (PullFailed e)
                                          | None \<Rightarrow> Inr (''Pulled '' @ Itoa (int (length images)) @ '' image(s)''))))))"

section \<open>A parsed pipeline reaches the scheduler\<close>

lemma stage_Inr [simp]: "stage wrap r = Inr x \<longleftrightarrow> r = Inr x"
  by (cases r) (simp_all add: stage_def)

lemma stage_Inl: "stage wrap r = Inl e \<longleftrightarrow> (\<exists>e'. r = Inl e' \<and> e = wrap e')"
  by (cases r) (auto simp: stage_def)

text \<open>Filtering and evaluating add no export and keep the platform.\<close>

lemma trimmed_exports_sub: "trimmed j j' \<Longrightarrow> set (collectExports j') \<subseteq> set (collectExports j)"
proof -
  assume "trimmed j j'"
  then obtain n ss where j': "j' = j\<lparr>jSteps := ss\<rparr>" and ss: "list_all2 trimmedStep (take n (jSteps j)) ss"
    by (auto simp: trimmed_def)
  have "set (sExports s') \<subseteq> (\<Union>s\<in>set (jSteps j). set (sExports s))" if s': "s' \<in> set ss" for s'
  proof -
    from list_all2_set2 [OF ss s'] obtain s where "s \<in> set (take n (jSteps j))" "trimmedStep s s'" by blast
    then show ?thesis by (auto simp: trimmedStep_def dest: in_set_takeD)
  qed
  then show ?thesis by (auto simp: j' collectExports_def)
qed

lemma FilterJobs_exports:
  assumes "distinct (jobNames jobs)" "FilterJobs jobs opts = Inr out" "j' \<in> set out"
  shows "\<exists>j\<in>set jobs. jPlatform j' = jPlatform j \<and> set (collectExports j') \<subseteq> set (collectExports j)"
proof (cases "foStartAt opts = [] \<and> foStopAfter opts = []")
  case True
  with assms show ?thesis by (auto simp: FilterJobs_def)
next
  case False
  let ?sel = "selectJobs jobs (window jobs opts) ((depRel jobs)\<^sup>* `` window jobs opts)"
  have "list_all2 trimmed ?sel out" using FilterJobs_Inr(2) [OF assms(1) _ assms(2)] False by blast
  from list_all2_set2 [OF this assms(3)] obtain x where x: "x \<in> set ?sel" "trimmed x j'" by blast
  then obtain j where "j \<in> set jobs" "x = j \<or> x = stripExports j" by (auto simp: selectJobs_def)
  moreover have "set (collectExports (stripExports j)) \<subseteq> set (collectExports j)" for j :: "'a Job"
    by (auto simp: collectExports_def stripExports_def)
  moreover have "jPlatform j' = jPlatform x" using x(2) by (auto simp: trimmed_def)
  moreover have "jPlatform (stripExports j) = jPlatform j" for j :: "'a Job" by (simp add: stripExports_def)
  ultimately show ?thesis using trimmed_exports_sub [OF x(2)] by (metis subset_trans)
qed

lemma cleanKept_exports:
  "set (collectExports (cleanJobRefs S (keptSteps cel penv wctx j))) \<subseteq> set (collectExports j)"
  "jPlatform (cleanJobRefs S (keptSteps cel penv wctx j)) = jPlatform j"
  by (auto simp: collectExports_def cleanJobRefs_def keptSteps_def)

text \<open>
  What the command needs for the builder to succeed: of the file, that its platforms parse and
  that no export path cleans to the root; of its surroundings, that states can be marshalled.
\<close>

definition exportsClean :: "'ast Pipeline \<Rightarrow> bool" where
  "exportsClean p \<longleftrightarrow> (\<forall>j\<in>set (pJobs p). \<forall>x\<in>set (collectExports j). pathClean (xPath x) \<notin> {''.'', ''/''})"

definition platformsParse :: "'def builderEnv \<Rightarrow> 'ast Pipeline \<Rightarrow> bool" where
  "platformsParse be p \<longleftrightarrow> (\<forall>j\<in>set (pJobs p). jPlatform j = [] \<or> bePlatform be (jPlatform j) \<noteq> None)"

definition appLaw :: "'ast parseEnv \<Rightarrow> Resolver option \<Rightarrow> ('ast, 'def) app \<Rightarrow> bool" where
  "appLaw px resolver a \<longleftrightarrow> apParse a = ParseFile px resolver \<and> apCel a = pxCel px \<and>
     (\<forall>st. beMarshal (apBuilder a) st \<noteq> None)"

lemma ParseFile_pipelineOk: "ParseFile px resolver path = Inr p \<Longrightarrow> pipelineOk (pxCel px) p"
  by (auto simp: ParseFile_def split: option.splits sum.splits prod.splits dest: parse_pipelineOk)

lemma prepared_parts:
  assumes "appLaw px resolver a" "apParse a path = Inr p" "FilterJobs (pJobs p) opts = Inr jobs"
    and "EvaluateConditions (apCel a) (p\<lparr>pJobs := jobs, pTopoOrder := None\<rparr>) wctx = Inr r" "exportsClean p" "platformsParse (apBuilder a) p"
  shows "pipelineOk (apCel a) (crPipeline r) \<or> pJobs (crPipeline r) = []"
    and "pTopoOrder (crPipeline r) = None" "builderOk (apBuilder a) (crPipeline r)"
proof -
  have ok: "pipelineOk (apCel a) p" using assms(1,2) ParseFile_pipelineOk by (auto simp: appLaw_def)
  then have d: "distinct (jobNames (pJobs p))" "depsOk (pJobs p)" by (simp_all add: pipelineOk_def)
  have f: "distinct (jobNames (pJobs (p\<lparr>pJobs := jobs, pTopoOrder := None\<rparr>)))"
    using FilterJobs_keeps_depsOk [OF d assms(3)] by simp
  note run = EvaluateConditions_run [OF assms(4) f]
  show "pipelineOk (apCel a) (crPipeline r) \<or> pJobs (crPipeline r) = []"
    using prepared_of_valid [OF ok assms(3,4)] by blast
  show "pTopoOrder (crPipeline r) = None" by (subst run(3)) simp
  have "\<exists>j'\<in>set (pJobs p). jPlatform j = jPlatform j' \<and> set (collectExports j) \<subseteq> set (collectExports j')"
    if "j \<in> set (pJobs (crPipeline r))" for j
  proof -
    from that obtain j0 where j0: "j0 \<in> set jobs"
      "j = cleanJobRefs (set (crSkipped r)) (keptSteps (apCel a) (pEnv p) wctx j0)"
      unfolding run(2) by auto
    from FilterJobs_exports [OF d(1) assms(3) j0(1)] cleanKept_exports show ?thesis
      unfolding j0(2) by (metis subset_trans)
  qed
  then have "\<forall>j\<in>set (pJobs (crPipeline r)). (jPlatform j = [] \<or> bePlatform (apBuilder a) (jPlatform j) \<noteq> None) \<and>
      (\<forall>x\<in>set (collectExports j). pathClean (xPath x) \<notin> {''.'', ''/''})"
    using assms(5,6) unfolding exportsClean_def platformsParse_def by (metis subsetD)
  then show "builderOk (apBuilder a) (crPipeline r)"
    using assms(1) by (simp add: builderOk_def appLaw_def)
qed

text \<open>What the runner is told about a job, and what the pipeline says of it.\<close>

abbreviation runnerPlan :: "('ast, 'def) RunnerJob \<Rightarrow> string \<times> string list \<times> int \<times> Retry option" where
  "runnerPlan r \<equiv> (rjName r, rjDependsOn r, rjTimeout r, rjRetry r)"

abbreviation jobPlan :: "'ast Job \<Rightarrow> string \<times> string list \<times> int \<times> Retry option" where
  "jobPlan j \<equiv> (jName j, jDependsOn j, jTimeout j, jRetry j)"

lemma execJob_plan:
  assumes "length ds = length js"
  shows "map (\<lambda>e. runnerPlan (ejJob e)) (map (\<lambda>(j, d). toExecJob r sk (jobInfo p j) (jName j) d) (zip js ds)) = map jobPlan js"
  using assms by (auto simp: list_eq_iff_nth_eq toExecJob_def jobInfo_def Let_def split: option.splits)

lemma prepareRun_cases:
  obtains e where "prepareRun a fl = Inl e" "\<And>e'. e \<noteq> BuildStage e'" "\<And>e'. e \<noteq> ConvertStage e'"
  | p jobs cond cwd excludes where "apParse a (rfPath fl) = Inr p"
      "FilterJobs (pJobs p) \<lparr>foStartAt = rfStartAt fl, foStopAfter = rfStopAfter fl\<rparr> = Inr jobs"
      "EvaluateConditions (apCel a) (p\<lparr>pJobs := jobs, pTopoOrder := None\<rparr>) (whenContext a) = Inr cond"
      "prepareRun a fl =
         bindE (stage BuildStage (Build (apCel a) (apBuilder a) (crPipeline cond)
                                   (buildOptsOf fl (crPipeline cond) excludes))) (\<lambda>result.
         bindE (stage ConvertStage (buildRunnerJobs result (crPipeline cond) (crSkippedSteps cond))) (\<lambda>ejobs.
           Inr (cwd, cond, result, ejobs)))"
proof (cases "apParse a (rfPath fl)")
  case (Inl e)
  then show thesis by (intro that(1) [of "ParseStage e"]) (simp_all add: prepareRun_def stage_def)
next
  case p: (Inr p)
  show thesis
  proof (cases "FilterJobs (pJobs p) \<lparr>foStartAt = rfStartAt fl, foStopAfter = rfStopAfter fl\<rparr>")
    case (Inl e)
    then show thesis using p by (intro that(1) [of "FilterStage e"]) (simp_all add: prepareRun_def stage_def)
  next
    case jobs: (Inr jobs)
    show thesis
    proof (cases "EvaluateConditions (apCel a) (p\<lparr>pJobs := jobs, pTopoOrder := None\<rparr>) (whenContext a)")
      case (Inl e)
      then show thesis using p jobs by (intro that(1) [of "EvalStage e"]) (simp_all add: prepareRun_def stage_def)
    next
      case cond: (Inr cond)
      show thesis
      proof (cases "apGetwd a")
        case None
        then show thesis using p jobs cond by (intro that(1) [of GetwdErr]) (simp_all add: prepareRun_def stage_def)
      next
        case cwd: (Some cwd)
        show thesis
        proof (cases "loadExcludes (apIgnore a) cwd")
          case (Inl e)
          then have "\<exists>e'. e = IgnoreStage e'" by (auto simp: loadExcludes_def split: sum.splits if_splits)
          with Inl show thesis using p jobs cond cwd by (intro that(1) [of e]) (auto simp: prepareRun_def stage_def)
        next
          case (Inr excludes)
          then show thesis
            using p jobs cond cwd by (intro that(2) [OF p jobs cond, of excludes cwd]) (simp add: prepareRun_def stage_def)
        qed
      qed
    qed
  qed
qed

lemma prepareRun_jobs:
  assumes "appLaw px resolver a" "\<forall>p. apParse a (rfPath fl) = Inr p \<longrightarrow> exportsClean p \<and> platformsParse (apBuilder a) p"
  shows "prepareRun a fl \<noteq> Inl (BuildStage e)" "prepareRun a fl \<noteq> Inl (ConvertStage e')"
    and "prepareRun a fl = Inr (cwd, cond, result, ejobs) \<Longrightarrow>
      \<exists>js. mset js = mset (pJobs (crPipeline cond)) \<and> map (\<lambda>e. runnerPlan (ejJob e)) ejobs = map jobPlan js \<and>
        (pipelineOk (apCel a) (crPipeline cond) \<or> js = [])"
proof -
  have build: "\<exists>res js ejobs. Build (apCel a) (apBuilder a) (crPipeline r) opts = Inr res \<and>
      buildRunnerJobs res (crPipeline r) sk = Inr ejobs \<and> mset js = mset (pJobs (crPipeline r)) \<and>
      map (\<lambda>e. runnerPlan (ejJob e)) ejobs = map jobPlan js \<and>
      (pipelineOk (apCel a) (crPipeline r) \<or> js = [])"
    if p: "apParse a (rfPath fl) = Inr p" "FilterJobs (pJobs p) fo = Inr jobs"
      "EvaluateConditions (apCel a) (p\<lparr>pJobs := jobs, pTopoOrder := None\<rparr>) wctx = Inr r" for p fo jobs wctx r opts sk
  proof -
    have "exportsClean p" "platformsParse (apBuilder a) p" using assms(2) p(1) by blast+
    note parts = prepared_parts [OF assms(1) p this]
    obtain res js where res: "Build (apCel a) (apBuilder a) (crPipeline r) opts = Inr res"
      "brJobNames res = map jName js" "length (brDefinitions res) = length js" "mset js = mset (pJobs (crPipeline r))"
      using Build_prepared [OF parts] by blast
    have dist: "distinct (map jName (pJobs (crPipeline r)))"
      using parts(1) by (auto simp: pipelineOk_def jobNames_def)
    have sub: "set js \<subseteq> set (pJobs (crPipeline r))" using mset_eq_setD [OF res(4)] by simp
    note conv = buildRunnerJobs_Inr [OF dist sub res(2,3), of sk]
    show ?thesis
      using res conv execJob_plan [OF res(3), of res sk "crPipeline r"] parts(1)
      by (intro exI [of _ res] exI [of _ js] exI [of _ "map (\<lambda>(j, d). toExecJob res sk (jobInfo (crPipeline r) j) (jName j) d)
          (zip js (brDefinitions res))"] conjI) auto
  qed
  have "(\<forall>e e'. prepareRun a fl \<noteq> Inl (BuildStage e) \<and> prepareRun a fl \<noteq> Inl (ConvertStage e')) \<and>
      (\<forall>cwd cond result ejobs. prepareRun a fl = Inr (cwd, cond, result, ejobs) \<longrightarrow>
        (\<exists>js. mset js = mset (pJobs (crPipeline cond)) \<and> map (\<lambda>e. runnerPlan (ejJob e)) ejobs = map jobPlan js \<and> (pipelineOk (apCel a) (crPipeline cond) \<or> js = [])))"
  proof (cases rule: prepareRun_cases [of a fl])
    case (2 p jobs cond cwd excludes)
    from build [OF 2(1-3), of "buildOptsOf fl (crPipeline cond) excludes" "crSkippedSteps cond"]
    obtain res js ejobs where b: "Build (apCel a) (apBuilder a) (crPipeline cond) (buildOptsOf fl (crPipeline cond) excludes) = Inr res"
      "buildRunnerJobs res (crPipeline cond) (crSkippedSteps cond) = Inr ejobs"
      "mset js = mset (pJobs (crPipeline cond))" "map (\<lambda>e. runnerPlan (ejJob e)) ejobs = map jobPlan js" "pipelineOk (apCel a) (crPipeline cond) \<or> js = []"
      by blast
    then have "prepareRun a fl = Inr (cwd, cond, res, ejobs)" by (simp add: 2(4) stage_def)
    with b(3-5) show ?thesis by auto
  qed auto
  then show "prepareRun a fl \<noteq> Inl (BuildStage e)" "prepareRun a fl \<noteq> Inl (ConvertStage e')"
    "prepareRun a fl = Inr (cwd, cond, result, ejobs) \<Longrightarrow>
      \<exists>js. mset js = mset (pJobs (crPipeline cond)) \<and> map (\<lambda>e. runnerPlan (ejJob e)) ejobs = map jobPlan js \<and> (pipelineOk (apCel a) (crPipeline cond) \<or> js = [])"
    by blast+
qed

lemma execJobs_dag:
  assumes "mapOrder order" "mset js = mset jobs" "map (rjName \<circ> ejJob) ejobs = map jName js"
    and "map (rjDependsOn \<circ> ejJob) ejobs = map jDependsOn js" "distinct (jobNames jobs)" "depsOk jobs"
  shows "\<exists>nodes. buildDAG order (map ejJob ejobs) = Inr nodes"
proof -
  let ?rj = "map ejJob ejobs"
  have len: "length ejobs = length js" using assms(3) by (metis length_map)
  have nth: "rjName (ejJob (ejobs ! i)) = jName (js ! i)" "rjDependsOn (ejJob (ejobs ! i)) = jDependsOn (js ! i)"
    if "i < length js" for i
    using that len arg_cong [OF assms(3), of "\<lambda>xs. xs ! i"] arg_cong [OF assms(4), of "\<lambda>xs. xs ! i"] by simp_all
  have set: "set js = set jobs" by (rule mset_eq_setD [OF assms(2)])
  have "map (\<lambda>j. (rjName j, rjDependsOn j)) ?rj = map (\<lambda>j. (jName j, jDependsOn j)) js"
    using len nth by (intro nth_equalityI) simp_all
  from arg_cong [OF this, of List.set]
  have pairs: "(\<lambda>j. (rjName j, rjDependsOn j)) ` set ?rj = (\<lambda>j. (jName j, jDependsOn j)) ` set jobs"
    unfolding set [symmetric] by (simp only: list.set_map)
  have names: "set (rjNames ?rj) = set (jobNames jobs)"
    using arg_cong [OF pairs, of "(`) fst"] by (simp only: image_image fst_conv list.set_map jobNames_def)
  have rel: "{(rjName j, d) | j d. j \<in> set ?rj \<and> d \<in> set (rjDependsOn j)} =
      (\<Union>(n, ds)\<in>(\<lambda>j. (rjName j, rjDependsOn j)) ` set ?rj. {n} \<times> set ds)" by auto
  have "\<dots> = depRel jobs" unfolding pairs by (auto simp: depRel_def)
  then have "acyclic {(rjName j, d) | j d. j \<in> set ?rj \<and> d \<in> set (rjDependsOn j)}"
    using assms(6) unfolding rel by (simp only: depsOk_def)
  moreover have "distinct (rjNames ?rj)"
    using assms(3,5) mset_eq_imp_distinct_iff [of "map jName js" "map jName jobs"] assms(2)
    by (simp add: jobNames_def)
  moreover have "\<forall>(n, ds)\<in>(\<lambda>j. (rjName j, rjDependsOn j)) ` set ?rj. set ds \<subseteq> set (jobNames jobs)"
    unfolding pairs using assms(6) by (auto simp: depsOk_def)
  then have "\<forall>j\<in>set ?rj. set (rjDependsOn j) \<subseteq> set (rjNames ?rj)" unfolding names by auto
  ultimately show ?thesis
    using buildDAG_equation [OF assms(1), of ?rj] by auto
qed

text \<open>C2: a pipeline that parses runs. For every choice of flags, when the platforms of the file's
  jobs parse, states can be marshalled and no export path cleans to the root, \<^verbatim>\<open>cicada run\<close> never
  fails in the builder or in the conversion of its result. And the jobs it hands to the runner
  are those of the prepared pipeline, which is valid unless it is empty: each one once, with its
  name, its dependencies, its timeout and its retry policy. So the runner's own checks for
  duplicates, unknown dependencies and cycles all pass, in whatever order Go walks its map of
  nodes.\<close>

theorem run_reaches_scheduler:
  assumes "appLaw px resolver a" "mapOrder order"
    "\<forall>p. apParse a (rfPath fl) = Inr p \<longrightarrow> exportsClean p \<and> platformsParse (apBuilder a) p"
  shows "(\<forall>e. runAction a fl \<noteq> Inl (BuildStage e)) \<and> (\<forall>e. runAction a fl \<noteq> Inl (ConvertStage e)) \<and>
    (\<forall>prm. runAction a fl = Inr (Execute prm) \<longrightarrow>
       (\<exists>nodes. buildDAG order (riJobs (runInputOf fl prm)) = Inr nodes) \<and>
       (pJobs (prPipe prm) \<noteq> [] \<longrightarrow> pipelineOk (apCel a) (prPipe prm)) \<and>
       mset (map (\<lambda>j. (rjName j, rjDependsOn j, rjTimeout j, rjRetry j)) (riJobs (runInputOf fl prm))) =
         mset (map (\<lambda>j. (jName j, jDependsOn j, jTimeout j, jRetry j)) (pJobs (prPipe prm))))"
proof -
  note prep = prepareRun_jobs [OF assms(1,3)]
  have "runAction a fl \<noteq> Inl (BuildStage e)" "runAction a fl \<noteq> Inl (ConvertStage e')" for e e'
    using prep(1,2) by (auto simp: runAction_def bindE_Inl stage_Inl split: prod.splits)
  moreover have "(\<exists>nodes. buildDAG order (riJobs (runInputOf fl prm)) = Inr nodes) \<and>
       (pJobs (prPipe prm) \<noteq> [] \<longrightarrow> pipelineOk (apCel a) (prPipe prm)) \<and>
       mset (map runnerPlan (riJobs (runInputOf fl prm))) = mset (map jobPlan (pJobs (prPipe prm)))"
    if run: "runAction a fl = Inr (Execute prm)" for prm
  proof -
    from run obtain cwd cond result ejobs where "prepareRun a fl = Inr (cwd, cond, result, ejobs)"
      and prm: "prPipe prm = crPipeline cond" "prJobs prm = ejobs"
      by (auto simp: runAction_def bindE_Inr split: if_splits prod.splits)
    from prep(3) [OF this(1)] obtain js where js: "mset js = mset (pJobs (prPipe prm))"
      "map (\<lambda>e. runnerPlan (ejJob e)) ejobs = map jobPlan js"
      "pipelineOk (apCel a) (prPipe prm) \<or> js = []" unfolding prm by blast
    have plan: "map (f \<circ> runnerPlan \<circ> ejJob) ejobs = map (f \<circ> jobPlan) js" for f
      using arg_cong [OF js(2), of "map f"] by (simp only: map_map comp_def)
    from plan [of fst] plan [of "fst \<circ> snd"]
    have parts: "map (rjName \<circ> ejJob) ejobs = map jName js" "map (rjDependsOn \<circ> ejJob) ejobs = map jDependsOn js"
      by (simp_all add: comp_def)
    have ok: "pipelineOk (apCel a) (prPipe prm) \<or> pJobs (prPipe prm) = []" using js(1,3) by auto
    then have "distinct (jobNames (pJobs (prPipe prm)))" "depsOk (pJobs (prPipe prm))"
      by (auto simp: pipelineOk_def jobNames_def depsOk_def depRel_def acyclic_def)
    from execJobs_dag [OF assms(2) js(1) parts this] ok
    have "\<exists>nodes. buildDAG order (riJobs (runInputOf fl prm)) = Inr nodes" by (simp add: runInputOf_def prm)
    moreover have "mset (map runnerPlan (riJobs (runInputOf fl prm))) = mset (map jobPlan (pJobs (prPipe prm)))"
      using arg_cong [OF js(2), of mset] arg_cong [OF js(1), of "image_mset jobPlan"]
      by (simp add: runInputOf_def prm image_mset.compositionality comp_def)
    ultimately show ?thesis using ok by blast
  qed
  ultimately show ?thesis by blast
qed

text \<open>Sample: the file of two jobs, on a host with a branch and nothing else.\<close>

definition sampleApp :: "(string, llbState) app" where
  "sampleApp =
     \<lparr>apCel = pxCel mainEnv, apParse = ParseFile mainEnv (Some (\<lambda>src base. if src = ''ci'' then Inr ([], ''/x/ci.kdl'') else Inl Kdl_Parser.OpenFailed)),
      apTracing = True, apGetenv = (\<lambda>_. []), apRevParse = Some ''main'', apDescribe = None, apGetwd = Some ''/w'',
      apIgnore = (\<lambda>_. Missing), apBuilder = sampleBuilder, apOpCount = (\<lambda>_. 1),
      apHost = sampleHost\<rparr>"

definition sampleFlags :: runFlags where
  "sampleFlags =
     \<lparr>rfPath = ''ci'', rfParallelism = 0, rfStartAt = [], rfStopAfter = [], rfNoCache = False, rfNoCacheFilter = [],
      rfExposeDeps = False, rfDryRun = False, rfCacheTo = [], rfCacheFrom = [''type=gha''], rfCacheStats = False,
      rfDockerExport = [], rfFailFast = True, rfOffline = False, rfProgress = ''auto''\<rparr>"

definition planJobs :: "('ast, 'def) runPlan \<Rightarrow> ('ast, 'def) RunnerJob list" where
  "planJobs pl = (case pl of DryRun _ \<Rightarrow> [] | Execute prm \<Rightarrow> map ejJob (prJobs prm))"

lemma sample_run_plan:
  "map_sum id (\<lambda>pl. map (\<lambda>j. (rjName j, rjDependsOn j)) (planJobs pl)) (runAction sampleApp sampleFlags) =
     Inr [(''build'', []), (''test'', [''build''])]"
  by code_simp

lemma sample_no_exports:
  "map_sum id (\<lambda>p. (concat (map collectExports (pJobs p)), concat (map jPlatform (pJobs p))))
     (apParse sampleApp (rfPath sampleFlags)) = Inr ([], [])"
  by code_simp

theorem run_reaches_scheduler_witness:
  "\<exists>prm nodes. runAction sampleApp sampleFlags = Inr (Execute prm) \<and>
     buildDAG gokeys (riJobs (runInputOf sampleFlags prm)) = Inr nodes"
proof -
  from sample_run_plan obtain pl where pl: "runAction sampleApp sampleFlags = Inr pl" "planJobs pl \<noteq> []"
    unfolding map_sum_Inr by fastforce
  then obtain prm where prm: "runAction sampleApp sampleFlags = Inr (Execute prm)"
    by (cases pl) (auto simp: planJobs_def)
  have law: "\<exists>resolver. appLaw mainEnv resolver sampleApp"
    by (auto simp: appLaw_def sampleApp_def sampleBuilder_def)
  have "\<forall>p. apParse sampleApp (rfPath sampleFlags) = Inr p \<longrightarrow> exportsClean p \<and> platformsParse (apBuilder sampleApp) p"
    using sample_no_exports by (auto simp: exportsClean_def platformsParse_def)
  with law prm run_reaches_scheduler [of mainEnv _ sampleApp gokeys sampleFlags, OF _ mapOrder_keys]
  show ?thesis by blast
qed

end
