(* ===== verification/Vis_Command.thy ===== *)
theory Vis_Command
  imports Vis_Terminal Run_Command
begin

text \<open>
  \<^verbatim>\<open>cmd/cicada/visualize.go\<close>: the command that draws a pipeline, with the temporary file through which it
  replaces its output. The state is the content of the output file and of the temporary one.
\<close>

section \<open>The command\<close>

record visFs =
  vfTarget :: "string list option"
  vfTmp :: "string list option"

text \<open>Which calls succeed; \<open>vwOk n\<close> is the write of line \<open>n\<close>.\<close>

record visWorld =
  vwCreateTemp :: bool
  vwOk :: "nat \<Rightarrow> bool"
  vwClose :: bool
  vwRename :: bool
  vwRemove :: bool

record visEnv =
  veRender :: "termStyle \<Rightarrow> string \<Rightarrow> string"
  veBorder :: border
  veWalk :: "(nat, nat list) gomap \<Rightarrow> (nat, nat list) gomap"
  veQuoted :: "string \<Rightarrow> string"

datatype visErr =
    VisUsage | VisParse parseErr | VisValidate err | VisPanic | VisFormat | VisTemp | VisEmit emitErr
  | VisClose | VisRename | VisStdout

definition removeTmp :: "visWorld \<Rightarrow> visFs \<Rightarrow> visFs" where
  "removeTmp w fs = (if vwRemove w then fs\<lparr>vfTmp := None\<rparr> else fs)"

definition writeOutput :: "visWorld \<Rightarrow> string list \<times> emitErr option \<Rightarrow> visFs \<Rightarrow> visErr option \<times> visFs" where
  "writeOutput w emitted fs =
     (let fs1 = fs\<lparr>vfTmp := Some (fst emitted)\<rparr> in
      case snd emitted of
        Some e \<Rightarrow> (Some (VisEmit e), removeTmp w fs1)
      | None \<Rightarrow>
          if \<not> vwClose w then (Some VisClose, removeTmp w fs1)
          else if \<not> vwRename w then (Some VisRename, removeTmp w fs1)
          else (None, fs1\<lparr>vfTarget := vfTmp fs1, vfTmp := None\<rparr>))"

text \<open>The result: an error or nil, what is on standard output, and the files.\<close>

definition visualizeAction ::
  "('ast, 'def) app \<Rightarrow> visEnv \<Rightarrow> visWorld \<Rightarrow> string \<Rightarrow> string \<Rightarrow> visFs \<Rightarrow> visErr option \<times> string list \<times> visFs" where
  "visualizeAction a ve w path outPath fs =
     (if path = [] then (Some VisUsage, [], fs)
      else case apParse a path of
        Inl e \<Rightarrow> (Some (VisParse e), [], fs)
      | Inr p \<Rightarrow>
          (case Validate (apCel a) (Some p) of
             (_, Inl e) \<Rightarrow> (Some (VisValidate e), [], fs)
           | (None, Inr _) \<Rightarrow> (Some VisPanic, [], fs)
           | (Some pl, Inr _) \<Rightarrow>
               (case BuildGraph pl of
                  Inl _ \<Rightarrow> (Some VisPanic, [], fs)
                | Inr g \<Rightarrow>
                    if outPath = [] then
                      (case RenderTerminal (veRender ve) (veBorder ve) (veWalk ve) (vwOk w) g of
                         None \<Rightarrow> (Some VisPanic, [], fs)
                       | Some tw \<Rightarrow> (if twErr tw then Some VisStdout else None, twOut tw, fs))
                    else if \<not> IsSupportedOutputExt (ToLower (pathExt outPath)) then (Some VisFormat, [], fs)
                    else if \<not> vwCreateTemp w then (Some VisTemp, [], fs)
                    else (case EmitToFile (veQuoted ve) (vwOk w) g outPath of
                            None \<Rightarrow> (Some VisPanic, [], fs)
                          | Some emitted \<Rightarrow> let (err, fs') = writeOutput w emitted fs in (err, [], fs')))))"

section \<open>Drawing never panics\<close>

lemma layers_in_range:
  assumes "Validate cel (Some p) = (Some pl, Inr order)" "BuildGraph pl = Inr g"
  shows "list_all (list_all (\<lambda>i. i < length (grNodes g))) (grLayers g)"
proof -
  have nodes: "length (grNodes g) = length (pJobs pl)" using assms(2) by (auto simp: BuildGraph_def buildNodes_def)
  obtain ds where "foldE (relaxJob (pJobs pl) (lastIndex (map jName (pJobs pl)))) order (replicate (length (pJobs pl)) 0) = Inr ds"
    "length ds = length (pJobs pl)" using validated_depths [OF assms(1)] by blast
  with assms(2) Validate_topo [OF assms(1)] have "grLayers g = [] \<or> grLayers g = [[0..<length (pJobs pl)]] \<or> grLayers g = groupByDepth ds"
    by (auto simp: BuildGraph_def buildLayers_def split: if_splits)
  with \<open>length ds = length (pJobs pl)\<close> show ?thesis by (auto simp: nodes groupByDepth_def list_all_iff)
qed

lemma graph_built: "Validate cel (Some p) = (Some pl, Inr order) \<Longrightarrow> \<exists>g. BuildGraph pl = Inr g"
proof -
  assume v: "Validate cel (Some p) = (Some pl, Inr order)"
  from validated_depths [OF v] Validate_topo [OF v] show ?thesis by (auto simp: BuildGraph_def buildLayers_def)
qed

lemma dotSubgraph_total: "\<exists>sub. dotSubgraph quoted n ident = Some sub"
  using sanitizeAll_distinct [of "map siName (ndSteps n)" "[]"] by (auto simp: dotSubgraph_def)

lemma d2Container_total: "\<exists>c. d2Container quoted n ident = Some c"
  using sanitizeAll_distinct [of "map siName (ndSteps n)" "[]"] by (auto simp: d2Container_def)

lemma those_total: "\<forall>x\<in>set xs. \<exists>y. f x = Some y \<Longrightarrow> \<exists>ys. those (map f xs) = Some ys"
  by (induction xs) auto

lemma emit_total: "\<exists>lines. d2Lines quoted g = Some lines" "\<exists>lines. dotLines quoted g = Some lines"
proof -
  obtain ids where ids: "sanitizeAll (map ndID (grNodes g)) [] = Some ids"
    using sanitizeAll_distinct [of "map ndID (grNodes g)" "[]"] by blast
  have "\<exists>cs. those (map (\<lambda>(n, ident). d2Container quoted n ident) (zip (grNodes g) ids)) = Some cs"
    by (rule those_total) (use d2Container_total in auto)
  then show "\<exists>lines. d2Lines quoted g = Some lines" using ids by (auto simp: d2Lines_def)
  have "\<exists>cs. those (map (\<lambda>n. dotSubgraph quoted n (idLookup (map ndID (grNodes g)) ids (ndID n))) (grNodes g)) = Some cs"
    by (rule those_total) (use dotSubgraph_total in auto)
  then show "\<exists>lines. dotLines quoted g = Some lines" using ids by (auto simp: dotLines_def Let_def)
qed

lemma EmitToFile_total:
  "\<exists>emitted. EmitToFile quoted ok g outPath = Some emitted"
  "EmitToFile quoted ok g outPath = Some (out, None) \<Longrightarrow> d2Lines quoted g = Some out \<or> dotLines quoted g = Some out"
  using emit_total [of quoted g] writeLines_ok(3)
  by (auto simp: EmitToFile_def Let_def EmitD2_def EmitDOT_def split: if_splits)

text \<open>C34: drawing a pipeline replaces the output file as a whole or not at all. The command never
  panics, and whatever fails, the output file is unchanged; the temporary file is gone afterwards
  provided it can be removed. On success with an output path the file holds every line of the diagram.\<close>

theorem visualize_atomic:
  assumes "visualizeAction a ve w path outPath fs = (err, out, fs')" "vfTmp fs = None"
  shows "err \<noteq> Some VisPanic \<and> (err \<noteq> None \<longrightarrow> vfTarget fs' = vfTarget fs) \<and>
    (vwRemove w \<longrightarrow> vfTmp fs' = None) \<and>
    (err = None \<and> outPath \<noteq> [] \<longrightarrow> vfTmp fs' = None \<and>
      (\<exists>p pl order g. apParse a path = Inr p \<and> Validate (apCel a) (Some p) = (Some pl, Inr order) \<and> BuildGraph pl = Inr g \<and>
        (vfTarget fs' = d2Lines (veQuoted ve) g \<or> vfTarget fs' = dotLines (veQuoted ve) g)))"
proof (cases "\<exists>p pl order g. path \<noteq> [] \<and> apParse a path = Inr p \<and> Validate (apCel a) (Some p) = (Some pl, Inr order) \<and> BuildGraph pl = Inr g")
  case True
  then obtain p pl order g where g: "path \<noteq> []" "apParse a path = Inr p" "Validate (apCel a) (Some p) = (Some pl, Inr order)"
    "BuildGraph pl = Inr g" by blast
  have rend: "RenderTerminal (veRender ve) (veBorder ve) (veWalk ve) (vwOk w) g \<noteq> None"
    using layers_in_range [OF g(3,4)] by (simp add: RenderTerminal_def terminalLines_def Let_def)
  obtain emitted where em: "EmitToFile (veQuoted ve) (vwOk w) g outPath = Some emitted" using EmitToFile_total(1) by blast
  show ?thesis
  proof (cases "outPath = [] \<or> \<not> IsSupportedOutputExt (ToLower (pathExt outPath)) \<or> \<not> vwCreateTemp w")
    case True
    then show ?thesis using assms g rend by (auto simp: visualizeAction_def split: option.splits if_splits)
  next
    case False
    then have run: "writeOutput w emitted fs = (err, fs')" "out = []"
      using assms(1) g em by (auto simp: visualizeAction_def Let_def split: prod.splits)
    have "snd emitted = None \<Longrightarrow> d2Lines (veQuoted ve) g = Some (fst emitted) \<or> dotLines (veQuoted ve) g = Some (fst emitted)"
      using EmitToFile_total(2) em by (metis prod.collapse)
    then have "err = None \<longrightarrow> vfTarget fs' = d2Lines (veQuoted ve) g \<or> vfTarget fs' = dotLines (veQuoted ve) g"
      using run by (auto simp: writeOutput_def Let_def split: option.splits if_splits)
    moreover have "err \<noteq> Some VisPanic \<and> (err \<noteq> None \<longrightarrow> vfTarget fs' = vfTarget fs) \<and> (vwRemove w \<longrightarrow> vfTmp fs' = None) \<and>
        (err = None \<longrightarrow> vfTmp fs' = None)"
      using run by (auto simp: writeOutput_def removeTmp_def Let_def split: option.splits if_splits)
    ultimately show ?thesis using g by blast
  qed
next
  case False
  have "Validate (apCel a) (Some p) \<noteq> (None, Inr order)" for p order by (simp add: Validate_Inr)
  moreover have "Validate (apCel a) (Some p) = (Some pl, Inr order) \<Longrightarrow> BuildGraph pl \<noteq> Inl e" for p pl order e
    using graph_built by fastforce
  ultimately show ?thesis using False assms
    by (auto simp: visualizeAction_def split: sum.splits prod.splits option.splits if_splits)
qed

text \<open>Sample: the file of two jobs, drawn to a D2 file whose third line cannot be written.\<close>

definition sampleVis :: visEnv where
  "sampleVis = \<lparr>veRender = (\<lambda>_ s. s), veBorder = \<lparr>boTop = ''-'', boBottom = ''-'', boLeft = ''|'', boRight = ''|'', boTopLeft = ''+'',
     boTopRight = ''+'', boBottomLeft = ''+'', boBottomRight = ''+'', boMiddleLeft = ''+'', boMiddleRight = ''+''\<rparr>,
     veWalk = id, veQuoted = id\<rparr>"

definition fullDisk :: visWorld where
  "fullDisk = \<lparr>vwCreateTemp = True, vwOk = (\<lambda>n. n < 2), vwClose = True, vwRename = True, vwRemove = True\<rparr>"

theorem visualize_atomic_witness:
  "\<exists>fs'. visualizeAction sampleApp sampleVis fullDisk ''ci'' ''out.d2'' \<lparr>vfTarget = Some [''old''], vfTmp = None\<rparr> =
       (Some (VisEmit WriteFailed), [], fs') \<and> vfTarget fs' = Some [''old''] \<and> vfTmp fs' = None"
proof -
  let ?fs = "\<lparr>vfTarget = Some [''old''], vfTmp = None\<rparr>"
  have "fst (visualizeAction sampleApp sampleVis fullDisk ''ci'' ''out.d2'' ?fs) = Some (VisEmit WriteFailed)"
    "fst (snd (visualizeAction sampleApp sampleVis fullDisk ''ci'' ''out.d2'' ?fs)) = []"
    by code_simp+
  then obtain fs' where run: "visualizeAction sampleApp sampleVis fullDisk ''ci'' ''out.d2'' ?fs = (Some (VisEmit WriteFailed), [], fs')"
    by (metis prod.collapse)
  from visualize_atomic [OF run] run show ?thesis by (simp add: fullDisk_def)
qed

end
