(* ===== verification/Progress_Model.thy ===== *)
theory Progress_Model
  imports Solve_Status Builder
begin

text \<open>
  \<^verbatim>\<open>internal/progress/progressmodel\<close>: the messages the runner sends to a display, and what
  displays read out of BuildKit's error texts. Errors in messages are their texts.
\<close>

section \<open>Messages\<close>

datatype Msg =
    JobAddedMsg string "(string, int) gomap option" "(string, CmdInfo) gomap"
  | JobStatusMsg string "SolveStatus option"
  | JobDoneMsg string
  | JobSkippedMsg string
  | StepSkippedMsg string string
  | JobRetryMsg string int int "string option"
  | StepRetryMsg string string int int "string option"
  | StepAllowedFailureMsg string string "string option"
  | JobTimeoutMsg string int
  | ErrorMsg "string option"
  | LogMsg string int string
  | SyncMsg int int int

section \<open>Error texts\<close>

text \<open>\<^verbatim>\<open>strings.LastIndex\<close> and what follows the match.\<close>

definition afterLast :: "string \<Rightarrow> string \<Rightarrow> string option" where
  "afterLast marker s =
     map_option (\<lambda>i. drop (i + length marker) s)
       (find (\<lambda>i. prefix marker (drop i s)) (rev [0..<Suc (length s)]))"

definition exitMarker :: string where
  "exitMarker = ''did not complete successfully: ''"

definition ExitInfo :: "string \<Rightarrow> string" where
  "ExitInfo errStr = (case afterLast exitMarker errStr of Some rest \<Rightarrow> rest | None \<Rightarrow> errStr)"

definition IsTimeoutExitCode :: "string \<Rightarrow> int \<Rightarrow> bool" where
  "IsTimeoutExitCode vertexError cfgTimeout =
     (if cfgTimeout = 0 then False
      else let s = TrimSpace vertexError
           in suffix ''exit code: 124'' s \<or> suffix ''exit code: 137'' s)"

record DisplayError =
  deHuman :: string
  deInternal :: string

text \<open>\<^verbatim>\<open>Duration.Round\<close> to milliseconds: halves away from zero, saturating.\<close>

definition roundMs :: "int \<Rightarrow> int" where
  "roundMs d =
     (let m = 1000000; r = \<bar>d\<bar> mod m in
      if d < 0 then (if r + r < m then d + r else if wrap64 (d - m + r) < d then wrap64 (d - m + r) else - MaxInt - 1)
      else if r + r < m then d - r
      else if wrap64 (d + m - r) > d then wrap64 (d + m - r) else MaxInt)"

text \<open>The time a vertex took, when both ends are known.\<close>

definition vertexDuration :: "Vertex \<Rightarrow> int" where
  "vertexDuration v =
     (case (vCompleted v, vStarted v) of (Some c, Some s) \<Rightarrow> roundMs (timeSub c s) | _ \<Rightarrow> 0)"

text \<open>
  \<^verbatim>\<open>Duration.String\<close>: the largest unit needed down to seconds, and below one second the unit that fits,
  with a fraction without its trailing zeros.
\<close>

definition fracText :: "nat \<Rightarrow> int \<Rightarrow> string" where
  "fracText prec u =
     (let ds = map (\<lambda>i. char_of (nat (48 + (u div 10 ^ (prec - Suc i)) mod 10))) [0..<prec];
          kept = rev (dropWhile (\<lambda>c. c = CHR ''0'') (rev ds))
      in if kept = [] then [] else CHR ''.'' # kept)"

definition unitText :: "nat \<Rightarrow> int \<Rightarrow> string \<Rightarrow> string" where
  "unitText prec u unit = Itoa (u div 10 ^ prec) @ fracText prec u @ unit"

definition durationString :: "int \<Rightarrow> string" where
  "durationString d =
     (let u = \<bar>d\<bar>;
          text =
            if u = 0 then ''0s''
            else if u < 10 ^ 3 then unitText 0 u ''ns''
            else if u < 10 ^ 6 then unitText 3 u [CHR 0xC2, CHR 0xB5, CHR ''s'']
            else if u < 10 ^ 9 then unitText 6 u ''ms''
            else (let secs = u div 10 ^ 9; mins = secs div 60 in
                  (if mins \<ge> 60 then Itoa (mins div 60) @ ''h'' else []) @
                  (if mins > 0 then Itoa (mins mod 60) @ ''m'' else []) @
                  Itoa (secs mod 60) @ fracText 9 u @ ''s'')
      in if d < 0 then CHR ''-'' # text else text)"

section \<open>Displays\<close>

text \<open>
  A display reads its messages one after the other until its channel is closed; a message that
  makes it panic ends it (\<open>None\<close>).
\<close>

fun runMsgs :: "('msg \<Rightarrow> 's \<Rightarrow> 's option) \<Rightarrow> 'msg list \<Rightarrow> 's \<Rightarrow> 's option" where
  "runMsgs step [] s = Some s"
| "runMsgs step (msg # msgs) s = (case step msg s of None \<Rightarrow> None | Some s' \<Rightarrow> runMsgs step msgs s')"

text \<open>
  What the displays share: a message of the runner is consumed, keeps the invariant of the
  display's state and only moves the state on.
\<close>

locale message_consumer =
  fixes step :: "'msg \<Rightarrow> 's \<Rightarrow> 's option"
    and inv :: "'s \<Rightarrow> bool"
    and adv :: "'s \<Rightarrow> 's \<Rightarrow> bool"
    and accepted :: "'msg \<Rightarrow> bool"
  assumes consumes: "inv s \<Longrightarrow> accepted msg \<Longrightarrow> \<exists>s'. step msg s = Some s' \<and> inv s' \<and> adv s s'"
    and adv_refl: "adv s s"
    and adv_trans: "adv s s' \<Longrightarrow> adv s' s'' \<Longrightarrow> adv s s''"
begin

lemma consumes_all:
  "inv s \<Longrightarrow> list_all accepted msgs \<Longrightarrow> \<exists>s'. runMsgs step msgs s = Some s' \<and> inv s' \<and> adv s s'"
proof (induction msgs arbitrary: s)
  case (Cons msg msgs)
  then obtain s1 where s1: "step msg s = Some s1" "inv s1" "adv s s1" using consumes by fastforce
  with Cons.IH [OF s1(2)] Cons.prems(2) adv_trans show ?case by fastforce
qed (simp add: adv_refl)

lemma consumed_state: "inv s \<Longrightarrow> list_all accepted msgs \<Longrightarrow> runMsgs step msgs s = Some s' \<Longrightarrow> inv s' \<and> adv s s'"
  using consumes_all by fastforce

end

lemma runMsgs_append: "runMsgs step (xs @ ys) s = Option.bind (runMsgs step xs s) (runMsgs step ys)"
  by (induction xs arbitrary: s) (auto split: option.splits)

section \<open>Properties\<close>

lemma wfmap_delete [simp]: "wfmap m \<Longrightarrow> wfmap (AList.delete k m)"
  by (simp add: wfmap_def distinct_delete)

lemma find_app: "find P (xs @ ys) = (case find P xs of None \<Rightarrow> find P ys | Some x \<Rightarrow> Some x)"
  by (induction xs) auto

text \<open>The text after the last marker, when the marker does not overlap what follows it.\<close>

lemma afterLast_marker:
  assumes "\<forall>k. \<not> prefix marker (drop (Suc k) (marker @ rest))"
  shows "afterLast marker (s @ marker @ rest) = Some rest"
proof -
  let ?t = "s @ marker @ rest" and ?P = "\<lambda>i. prefix marker (drop i (s @ marker @ rest))"
  have later: "\<not> ?P i" if "i > length s" for i
    using assms [rule_format, of "i - Suc (length s)"] that by (auto simp: Suc_diff_Suc)
  have up: "[0..<Suc (length ?t)] = [0..<length s] @ length s # [Suc (length s)..<Suc (length ?t)]"
  proof -
    have "[0..<length s + Suc (length marker + length rest)] = [0..<length s] @ [length s..<length s + Suc (length marker + length rest)]"
      by (rule upt_add_eq_append) simp
    moreover have "[length s..<length s + Suc (length marker + length rest)] =
        length s # [Suc (length s)..<length s + Suc (length marker + length rest)]" by (rule upt_conv_Cons) simp
    ultimately show ?thesis by simp
  qed
  have none: "find ?P (rev [Suc (length s)..<Suc (length ?t)]) = None"
    unfolding find_None_iff set_rev set_upt
    using later by (metis atLeastLessThan_iff Suc_le_lessD)
  have "find ?P (rev [0..<Suc (length ?t)]) = Some (length s)"
    unfolding up rev_append find_app by (simp only: rev.simps find_app none) simp
  then show ?thesis by (simp add: afterLast_def)
qed

text \<open>Rounding to milliseconds moves a duration by at most half of one.\<close>

lemma roundMs_near:
  assumes "\<bar>d\<bar> \<le> MaxInt - 1000000"
  shows "1000000 dvd roundMs d \<and> 2 * \<bar>roundMs d - d\<bar> \<le> 1000000"
proof -
  let ?r = "\<bar>d\<bar> mod 1000000"
  have r: "0 \<le> ?r" "?r < 1000000" by simp_all
  have q: "\<bar>d\<bar> = 1000000 * (\<bar>d\<bar> div 1000000) + ?r" by simp
  have fit: "in64 (d - 1000000 + ?r)" "in64 (d + 1000000 - ?r)"
    using assms r by (auto simp: in64_def MaxInt_def)
  show ?thesis
  proof (cases "d < 0")
    case True
    then have d: "d = - (1000000 * (\<bar>d\<bar> div 1000000)) - ?r" using q by linarith
    have low: "1000000 dvd d + ?r" by (subst d) simp
    then have "1000000 dvd d - 1000000 + ?r" by (metis add_diff_eq diff_add_eq dvd_diff dvd_refl)
    with low r True fit(1) show ?thesis by (auto simp: roundMs_def Let_def)
  next
    case False
    then have d: "d = 1000000 * (\<bar>d\<bar> div 1000000) + ?r" using q by linarith
    have low: "1000000 dvd d - ?r" by (subst d) simp
    then have "1000000 dvd d + 1000000 - ?r" by (metis add.commute add_diff_eq dvd_add dvd_refl)
    with low r False fit(2) show ?thesis by (auto simp: roundMs_def Let_def)
  qed
qed

end
