(* ===== verification/Tui_Model.thy ===== *)
theory Tui_Model
  imports Progress_Model
begin

text \<open>
  \<^verbatim>\<open>internal/progress/tui/model.go\<close>: the state behind the terminal display, its update by messages and
  its view. A dereference of a nil pointer is \<open>None\<close>. The pointers in the maps of vertices and jobs
  are not shared, so updates through them are updates of the maps. The styles of lipgloss and the
  quoting verb of fmt are arguments.
\<close>

section \<open>State\<close>

datatype stepStatus =
    statusPending | statusRunning | statusDone | statusCached | statusError | statusTimeout
  | statusRetry | statusAllowedFailure

record stepState =
  stpName :: string
  stpStatus :: stepStatus
  stpDuration :: int
  stpTimeout :: int

record jobState =
  jsVertices :: "(string, stepState) gomap"
  jsOrder :: "string list"
  jsLogs :: "string list"
  jsDone :: bool
  jsSkipped :: bool
  jsSkippedSteps :: "string list"
  jsStarted :: "int option"
  jsEnded :: "int option"
  jsRetryAttempt :: int
  jsMaxAttempts :: int
  jsTimedOut :: bool
  jsTimeout :: int
  jsStepTimeouts :: "(string, int) gomap"
  jsCmdInfos :: "(string, CmdInfo) gomap"
  jsAllowed :: "string list"

record multiModel =
  mmJobs :: "(string, jobState) gomap"
  mmOrder :: "string list"
  mmWidth :: int
  mmBoring :: bool
  mmDone :: bool
  mmFrame :: nat
  mmSync :: "(int \<times> int \<times> int) option"

definition maxLogs :: nat where
  "maxLogs = 10"

definition newJobState :: jobState where
  "newJobState =
     \<lparr>jsVertices = [], jsOrder = [], jsLogs = [], jsDone = False, jsSkipped = False, jsSkippedSteps = [],
      jsStarted = None, jsEnded = None, jsRetryAttempt = 0, jsMaxAttempts = 0, jsTimedOut = False,
      jsTimeout = 0, jsStepTimeouts = [], jsCmdInfos = [], jsAllowed = []\<rparr>"

definition newMultiModel :: "bool \<Rightarrow> multiModel" where
  "newMultiModel boring =
     \<lparr>mmJobs = [], mmOrder = [], mmWidth = 0, mmBoring = boring, mmDone = False, mmFrame = 0, mmSync = None\<rparr>"

definition jobDuration :: "jobState \<Rightarrow> int" where
  "jobDuration js =
     (if jsTimedOut js then jsTimeout js
      else case (jsEnded js, jsStarted js) of (Some e, Some s) \<Rightarrow> roundMs (timeSub e s) | _ \<Rightarrow> 0)"

section \<open>Vertices and logs\<close>

definition terminal :: "stepStatus \<Rightarrow> bool" where
  "terminal s = (s = statusDone \<or> s = statusCached \<or> s = statusError \<or> s = statusTimeout \<or> s = statusAllowedFailure)"

definition isAllowedFailure :: "jobState \<Rightarrow> string \<Rightarrow> bool" where
  "isAllowedFailure js vname = list_ex (\<lambda>p. prefix p vname) (jsAllowed js)"

definition earliest :: "int option \<Rightarrow> int option \<Rightarrow> int option" where
  "earliest new cur = (case (new, cur) of (Some t, None) \<Rightarrow> new | (Some t, Some c) \<Rightarrow> if t < c then new else cur | _ \<Rightarrow> cur)"

definition latest :: "int option \<Rightarrow> int option \<Rightarrow> int option" where
  "latest new cur = (case (new, cur) of (Some t, None) \<Rightarrow> new | (Some t, Some c) \<Rightarrow> if t > c then new else cur | _ \<Rightarrow> cur)"

definition vertexStatus :: "jobState \<Rightarrow> Vertex \<Rightarrow> stepState \<Rightarrow> stepState" where
  "vertexStatus js v st =
     (if vError v \<noteq> [] then
        st\<lparr>stpStatus :=
             (if isAllowedFailure js (stpName st) then statusAllowedFailure
              else if IsTimeoutExitCode (vError v) (stpTimeout st) then statusTimeout else statusError)\<rparr>
      else if vCached v then st\<lparr>stpStatus := statusCached\<rparr>
      else if vCompleted v \<noteq> None then
        st\<lparr>stpStatus := statusDone,
           stpDuration := (if vStarted v \<noteq> None then vertexDuration v else stpDuration st)\<rparr>
      else if vStarted v \<noteq> None then st\<lparr>stpStatus := statusRunning\<rparr>
      else st)"

definition applyVertex :: "Vertex option \<Rightarrow> jobState \<Rightarrow> jobState option" where
  "applyVertex ov js =
     (case ov of
        None \<Rightarrow> None
      | Some v \<Rightarrow>
          let (st, js1) =
            (case map_of (jsVertices js) (vDigest v) of
               Some st \<Rightarrow> (st, js)
             | None \<Rightarrow>
                 let st = \<lparr>stpName = vName v, stpStatus = statusPending, stpDuration = 0,
                           stpTimeout = (case map_of (jsStepTimeouts js) (vName v) of None \<Rightarrow> 0 | Some t \<Rightarrow> t)\<rparr>
                 in (st, js\<lparr>jsVertices := mput (vDigest v) st (jsVertices js), jsOrder := jsOrder js @ [vDigest v]\<rparr>))
          in if terminal (stpStatus st) then Some js1
             else Some (js1\<lparr>jsStarted := earliest (vStarted v) (jsStarted js1),
                            jsEnded := latest (vCompleted v) (jsEnded js1),
                            jsVertices := mput (vDigest v) (vertexStatus js1 v st) (jsVertices js1)\<rparr>))"

definition addLog :: "string \<Rightarrow> jobState \<Rightarrow> jobState" where
  "addLog line js =
     (let logs = jsLogs js @ [line]
      in js\<lparr>jsLogs := (if length logs > maxLogs then drop (length logs - maxLogs) logs else logs)\<rparr>)"

definition appendLogs :: "VertexLog list \<Rightarrow> jobState \<Rightarrow> jobState" where
  "appendLogs logs =
     fold (\<lambda>l js. let msg = TrimSpace (lgData l) in if lgData l = [] \<or> msg = [] then js else addLog msg js) logs"

fun applyVertexes :: "Vertex option list \<Rightarrow> jobState \<Rightarrow> jobState option" where
  "applyVertexes [] js = Some js"
| "applyVertexes (v # vs) js = Option.bind (applyVertex v js) (applyVertexes vs)"

definition applyStatus :: "SolveStatus option \<Rightarrow> jobState \<Rightarrow> jobState option" where
  "applyStatus s js =
     (case s of
        None \<Rightarrow> None
      | Some st \<Rightarrow> map_option (appendLogs (ssLogs st)) (applyVertexes (ssVertexes st) js))"

section \<open>Messages\<close>

datatype teaMsg = WindowSizeMsg int | Progress Msg | AllDoneMsg | TickMsg | KeyPressMsg string | OtherMsg

datatype teaCmd = NoCmd | QuitCmd | TickCmd

definition getOrCreateJob :: "string \<Rightarrow> multiModel \<Rightarrow> jobState \<times> multiModel" where
  "getOrCreateJob name m =
     (case map_of (mmJobs m) name of
        Some js \<Rightarrow> (js, m)
      | None \<Rightarrow> (newJobState, m\<lparr>mmJobs := mput name newJobState (mmJobs m), mmOrder := mmOrder m @ [name]\<rparr>))"

text \<open>A job is read, changed through its pointer and so changed in the map.\<close>

definition onCreated :: "string \<Rightarrow> (jobState \<Rightarrow> jobState option) \<Rightarrow> multiModel \<Rightarrow> multiModel option" where
  "onCreated name f m =
     (case getOrCreateJob name m of
        (js, m1) \<Rightarrow> map_option (\<lambda>js'. m1\<lparr>mmJobs := mput name js' (mmJobs m1)\<rparr>) (f js))"

definition onExisting :: "string \<Rightarrow> (jobState \<Rightarrow> jobState option) \<Rightarrow> multiModel \<Rightarrow> multiModel option" where
  "onExisting name f m =
     (case map_of (mmJobs m) name of
        None \<Rightarrow> Some m
      | Some js \<Rightarrow> map_option (\<lambda>js'. m\<lparr>mmJobs := mput name js' (mmJobs m)\<rparr>) (f js))"

definition allowFailure :: "string \<Rightarrow> stepState \<Rightarrow> stepState" where
  "allowFailure p st =
     (if (stpStatus st = statusError \<or> stpStatus st = statusTimeout) \<and> prefix p (stpName st)
      then st\<lparr>stpStatus := statusAllowedFailure\<rparr> else st)"

definition allowStep :: "string \<Rightarrow> jobState \<Rightarrow> jobState" where
  "allowStep p js =
     js\<lparr>jsAllowed := (if p \<in> set (jsAllowed js) then jsAllowed js else jsAllowed js @ [p]),
        jsVertices := map (\<lambda>(d, st). (d, allowFailure p st)) (jsVertices js)\<rparr>"

text \<open>The vertices that are running when the job times out; a digest without a vertex is a nil pointer.\<close>

definition timeoutVertices :: "jobState \<Rightarrow> jobState option" where
  "timeoutVertices js =
     (if list_all (\<lambda>d. map_of (jsVertices js) d \<noteq> None) (jsOrder js)
      then Some (js\<lparr>jsVertices :=
             map (\<lambda>(d, st). (d, if d \<in> set (jsOrder js) \<and> stpStatus st = statusRunning
                                then st\<lparr>stpStatus := statusTimeout\<rparr> else st)) (jsVertices js)\<rparr>)
      else None)"

definition updateProgress :: "(string \<Rightarrow> string) \<Rightarrow> Msg \<Rightarrow> multiModel \<Rightarrow> multiModel option" where
  "updateProgress quoted msg m =
     (case msg of
        JobAddedMsg job stepTimeouts cmdInfos \<Rightarrow>
          onCreated job (\<lambda>js. Some (js\<lparr>
            jsStepTimeouts := (case stepTimeouts of Some t \<Rightarrow> t | None \<Rightarrow> jsStepTimeouts js),
            jsCmdInfos := cmdInfos\<rparr>)) m
      | JobSkippedMsg job \<Rightarrow>
          onCreated job (\<lambda>js. Some (if jsDone js then js else js\<lparr>jsDone := True, jsSkipped := True\<rparr>)) m
      | StepSkippedMsg job step \<Rightarrow>
          onExisting job (\<lambda>js. Some (js\<lparr>jsSkippedSteps := jsSkippedSteps js @ [step]\<rparr>)) m
      | JobStatusMsg job status \<Rightarrow> onExisting job (applyStatus status) m
      | JobRetryMsg job attempt maxAttempts _ \<Rightarrow>
          onCreated job (\<lambda>js. Some (js\<lparr>jsRetryAttempt := attempt, jsMaxAttempts := maxAttempts\<rparr>)) m
      | StepRetryMsg job step attempt maxAttempts _ \<Rightarrow>
          onExisting job (\<lambda>js. Some (addLog (''step '' @ quoted step @ '': retrying (attempt '' @ Itoa attempt @
            ''/'' @ Itoa maxAttempts @ '')'') js)) m
      | StepAllowedFailureMsg job step _ \<Rightarrow>
          onExisting job (\<lambda>js. Some (allowStep (job @ ''/'' @ step @ ''/'')
            (addLog (''step '' @ quoted step @ '': failed (allowed)'') js))) m
      | JobTimeoutMsg job t \<Rightarrow>
          onCreated job (\<lambda>js. timeoutVertices (js\<lparr>jsTimedOut := True, jsTimeout := t\<rparr>)) m
      | SyncMsg walked hashed hits \<Rightarrow> Some (m\<lparr>mmSync := Some (walked, hashed, hits)\<rparr>)
      | JobDoneMsg job \<Rightarrow> onExisting job (\<lambda>js. Some (js\<lparr>jsDone := True\<rparr>)) m
      | _ \<Rightarrow> Some m)"

definition Update :: "(string \<Rightarrow> string) \<Rightarrow> teaMsg \<Rightarrow> multiModel \<Rightarrow> (multiModel \<times> teaCmd) option" where
  "Update quoted msg m =
     (case msg of
        WindowSizeMsg w \<Rightarrow> Some (m\<lparr>mmWidth := w\<rparr>, NoCmd)
      | Progress p \<Rightarrow> map_option (\<lambda>m'. (m', NoCmd)) (updateProgress quoted p m)
      | AllDoneMsg \<Rightarrow> Some (m\<lparr>mmDone := True\<rparr>, QuitCmd)
      | TickMsg \<Rightarrow> Some (m\<lparr>mmFrame := (mmFrame m + 1) mod (10 * 4)\<rparr>, TickCmd)
      | KeyPressMsg k \<Rightarrow> Some (m, if k = ''ctrl+c'' then QuitCmd else NoCmd)
      | OtherMsg \<Rightarrow> Some (m, NoCmd))"

section \<open>View\<close>

datatype style = headerStyle | logStyle | durationStyle | skipStyle | stepStyle stepStatus

text \<open>The icons, in UTF-8.\<close>

fun richIcon :: "stepStatus \<Rightarrow> string" where
  "richIcon statusDone = [CHR 0xE2, CHR 0x9C, CHR 0x85]"
| "richIcon statusRunning = [CHR 0xF0, CHR 0x9F, CHR 0x94, CHR 0xA8]"
| "richIcon statusCached = [CHR 0xE2, CHR 0x9A, CHR 0xA1]"
| "richIcon statusPending = [CHR 0xE2, CHR 0x8F, CHR 0xB3]"
| "richIcon statusError = [CHR 0xF0, CHR 0x9F, CHR 0x9A, CHR 0xA8]"
| "richIcon statusTimeout = [CHR 0xE2, CHR 0x8F, CHR 0xB0]"
| "richIcon statusRetry = [CHR 0xF0, CHR 0x9F, CHR 0x94, CHR 0x84]"
| "richIcon statusAllowedFailure = [CHR 0xE2, CHR 0x9A, CHR 0xA0, CHR 0xEF, CHR 0xB8, CHR 0x8F]"

fun boringIcon :: "stepStatus \<Rightarrow> string" where
  "boringIcon statusDone = ''[+] ''"
| "boringIcon statusRunning = ''[~] ''"
| "boringIcon statusCached = ''[=] ''"
| "boringIcon statusPending = ''[ ] ''"
| "boringIcon statusError = ''[!] ''"
| "boringIcon statusTimeout = ''[t] ''"
| "boringIcon statusRetry = ''[r] ''"
| "boringIcon statusAllowedFailure = ''[w] ''"

definition spinnerFrames :: "string list" where
  "spinnerFrames = map (\<lambda>c. [CHR 0xE2, CHR 0xA0, c])
     [CHR 0x8B, CHR 0x99, CHR 0xB9, CHR 0xB8, CHR 0xBC, CHR 0xB4, CHR 0xA6, CHR 0xA7, CHR 0x87, CHR 0x8F]"

definition boringSpinnerFrames :: "string list" where
  "boringSpinnerFrames = [''|'', ''/'', ''-'', [CHR 0x5C]]"

record renderCtx =
  rcRender :: "style \<Rightarrow> string \<Rightarrow> string"
  rcIcons :: "stepStatus \<Rightarrow> string"
  rcFrame :: nat
  rcSpinner :: "string list"

definition newline :: char where
  "newline = CHR 0x0A"

definition renderHeader :: "string \<Rightarrow> renderCtx \<Rightarrow> stepState list \<Rightarrow> jobState \<Rightarrow> string" where
  "renderHeader name rc sts js =
     ''Job: '' @ name @ '' ('' @ Itoa (int (length (filter (\<lambda>st. terminal (stpStatus st)) sts))) @ ''/'' @
     Itoa (int (length (jsOrder js))) @ '')'' @
     (if jsDone js \<and> jsStarted js \<noteq> None \<and> jobDuration js > 0
      then ''  '' @ rcRender rc durationStyle (durationString (jobDuration js)) else []) @
     (if jsRetryAttempt js > 0
      then ''  '' @ rcIcons rc statusRetry @ '' attempt '' @ Itoa (jsRetryAttempt js) @ ''/'' @ Itoa (jsMaxAttempts js)
      else []) @
     (if jsTimedOut js
      then ''  '' @ rcIcons rc statusTimeout @ '' timed out ('' @ durationString (jsTimeout js) @ '')'' else [])"

definition renderVertex :: "renderCtx \<Rightarrow> stepState \<Rightarrow> string" where
  "renderVertex rc st =
     (let durStr =
        (if stpDuration st > 0 then ''  '' @ rcRender rc durationStyle (durationString (stpDuration st))
         else if stpStatus st = statusRunning
         then ''  '' @ rcRender rc (stepStyle statusRunning) (rcSpinner rc ! (rcFrame rc mod length (rcSpinner rc)))
         else if stpStatus st = statusPending then ''  --'' else [])
      in ''  '' @ rcIcons rc (stpStatus st) @ '' '' @ rcRender rc (stepStyle (stpStatus st)) (stpName st) @ durStr @ [newline])"

definition renderTo :: "string \<Rightarrow> renderCtx \<Rightarrow> jobState \<Rightarrow> string option" where
  "renderTo name rc js =
     (if jsSkipped js then Some (rcRender rc skipStyle (''Job: '' @ name @ '' (skipped)'') @ [newline])
      else (case those (map (map_of (jsVertices js)) (jsOrder js)) of
              None \<Rightarrow> None
            | Some sts \<Rightarrow>
                Some (rcRender rc headerStyle (renderHeader name rc sts js) @ [newline] @
                      concat (map (renderVertex rc) sts) @
                      concat (map (\<lambda>s. ''  '' @ rcRender rc skipStyle (s @ '' (skipped)'') @ [newline]) (jsSkippedSteps js)) @
                      concat (map (\<lambda>l. rcRender rc logStyle (''    > '' @ l) @ [newline]) (jsLogs js)))))"

definition View :: "(style \<Rightarrow> string \<Rightarrow> string) \<Rightarrow> multiModel \<Rightarrow> string option" where
  "View render m =
     (let rc = \<lparr>rcRender = render, rcIcons = (if mmBoring m then boringIcon else richIcon), rcFrame = mmFrame m,
                rcSpinner = (if mmBoring m then boringSpinnerFrames else spinnerFrames)\<rparr>
      in map_option (\<lambda>bs.
           (case mmSync m of
              None \<Rightarrow> []
            | Some (walked, hashed, hits) \<Rightarrow>
                render logStyle ''sync:'' @ ''  files='' @ Itoa walked @ '' hashed='' @ Itoa hashed @ '' cached='' @ Itoa hits @ [newline])
           @ joinWith [newline] bs)
         (those (map (\<lambda>name. Option.bind (map_of (mmJobs m) name) (renderTo name rc)) (mmOrder m))))"

section \<open>The state stays consistent\<close>

definition allowedOk :: "jobState \<Rightarrow> stepState \<Rightarrow> bool" where
  "allowedOk js st \<longleftrightarrow> stpStatus st \<noteq> statusRetry \<and>
     (isAllowedFailure js (stpName st) \<longrightarrow> stpStatus st \<noteq> statusError \<and> (stpStatus st = statusTimeout \<longrightarrow> jsTimedOut js))"

definition jobInv :: "jobState \<Rightarrow> bool" where
  "jobInv js \<longleftrightarrow> wfmap (jsVertices js) \<and> distinct (jsOrder js) \<and> set (jsOrder js) = set (gokeys (jsVertices js)) \<and>
     length (jsLogs js) \<le> maxLogs \<and> (\<forall>d st. map_of (jsVertices js) d = Some st \<longrightarrow> allowedOk js st)"

definition settles :: "stepStatus \<Rightarrow> stepStatus \<Rightarrow> bool" where
  "settles s s' \<longleftrightarrow> (terminal s \<longrightarrow> s' = s \<or> (s = statusError \<or> s = statusTimeout) \<and> s' = statusAllowedFailure)"

definition jobAdv :: "jobState \<Rightarrow> jobState \<Rightarrow> bool" where
  "jobAdv js js' \<longleftrightarrow> prefix (jsOrder js) (jsOrder js') \<and> set (jsAllowed js) \<subseteq> set (jsAllowed js') \<and>
     (\<forall>d st. map_of (jsVertices js) d = Some st \<longrightarrow>
        (\<exists>st'. map_of (jsVertices js') d = Some st' \<and> stpName st' = stpName st \<and> settles (stpStatus st) (stpStatus st')))"

text \<open>What every operation on a job does: it returns, keeps the invariant and only moves on.\<close>

definition jobOp :: "(jobState \<Rightarrow> jobState option) \<Rightarrow> bool" where
  "jobOp f \<longleftrightarrow> (\<forall>js. jobInv js \<longrightarrow> (\<exists>js'. f js = Some js' \<and> jobInv js' \<and> jobAdv js js'))"

lemma settles_refl [simp]: "settles s s"
  by (simp add: settles_def)

lemma settles_trans: "settles a b \<Longrightarrow> settles b c \<Longrightarrow> settles a c"
  by (auto simp: settles_def terminal_def)

lemma jobAdv_refl [simp]: "jobAdv js js"
  by (auto simp: jobAdv_def)

lemma jobAdv_trans: "jobAdv a b \<Longrightarrow> jobAdv b c \<Longrightarrow> jobAdv a c"
proof -
  assume a: "jobAdv a b" and b: "jobAdv b c"
  have "\<exists>st'. map_of (jsVertices c) d = Some st' \<and> stpName st' = stpName st \<and> settles (stpStatus st) (stpStatus st')"
    if st: "map_of (jsVertices a) d = Some st" for d st
  proof -
    from a st obtain st1 where st1: "map_of (jsVertices b) d = Some st1" "stpName st1 = stpName st"
      "settles (stpStatus st) (stpStatus st1)" unfolding jobAdv_def by blast
    with b obtain st2 where "map_of (jsVertices c) d = Some st2" "stpName st2 = stpName st1"
      "settles (stpStatus st1) (stpStatus st2)" unfolding jobAdv_def by blast
    with st1 settles_trans show ?thesis by metis
  qed
  moreover have "prefix (jsOrder a) (jsOrder c)"
    using a b prefix_order.trans [of "jsOrder a" "jsOrder b" "jsOrder c"] unfolding jobAdv_def by blast
  ultimately show ?thesis using a b unfolding jobAdv_def by blast
qed

lemma map_of_map_snd: "map_of (map (\<lambda>(k, v). (k, f k v)) xs) k = map_option (f k) (map_of xs k)"
  by (induction xs) auto

lemma wfmap_map_snd [simp]: "wfmap (map (\<lambda>(k, v). (k, f k v)) xs) = wfmap xs"
  by (simp add: wfmap_def comp_def case_prod_unfold)

lemma keys_map_snd [simp]: "(\<lambda>x. fst (case x of (k, v) \<Rightarrow> (k, f k v))) ` A = fst ` A"
  by (simp add: case_prod_unfold)

lemma gokeys_map_snd [simp]: "gokeys (map (\<lambda>(k, v). (k, f k v)) xs) = gokeys xs"
  by (simp add: comp_def case_prod_unfold)

text \<open>Changing only the parts that the invariant does not mention.\<close>

lemma jobOp_fields:
  assumes "\<And>js. jsVertices (f js) = jsVertices js \<and> jsOrder (f js) = jsOrder js \<and> jsAllowed (f js) = jsAllowed js"
    and "\<And>js. length (jsLogs js) \<le> maxLogs \<Longrightarrow> length (jsLogs (f js)) \<le> maxLogs"
    and "\<And>js. jsTimedOut js \<Longrightarrow> jsTimedOut (f js)"
  shows "jobOp (\<lambda>js. Some (f js))"
  unfolding jobOp_def
proof (intro allI impI)
  fix js assume inv: "jobInv js"
  have "jobInv (f js)" using inv assms by (fastforce simp: jobInv_def allowedOk_def isAllowedFailure_def)
  moreover have "jobAdv js (f js)" using assms(1) [of js] by (auto simp: jobAdv_def)
  ultimately show "\<exists>js'. Some (f js) = Some js' \<and> jobInv js' \<and> jobAdv js js'" by simp
qed

lemma jobOp_bind: "jobOp f \<Longrightarrow> jobOp g \<Longrightarrow> jobOp (\<lambda>js. Option.bind (f js) g)"
  unfolding jobOp_def by (metis bind.bind_lunit jobAdv_trans)

lemma addLog_fields [simp]:
  "jsVertices (addLog l js) = jsVertices js" "jsOrder (addLog l js) = jsOrder js" "jsAllowed (addLog l js) = jsAllowed js"
  "jsTimedOut (addLog l js) = jsTimedOut js"
  by (simp_all add: addLog_def Let_def)

lemma addLog_bound: "length (jsLogs (addLog l js)) \<le> maxLogs"
  by (simp add: addLog_def Let_def maxLogs_def)

lemma appendLogs_fields [simp]:
  "jsVertices (appendLogs ls js) = jsVertices js" "jsOrder (appendLogs ls js) = jsOrder js"
  "jsAllowed (appendLogs ls js) = jsAllowed js" "jsTimedOut (appendLogs ls js) = jsTimedOut js"
  by (induction ls arbitrary: js) (simp_all add: appendLogs_def Let_def)

lemma appendLogs_bound: "length (jsLogs js) \<le> maxLogs \<Longrightarrow> length (jsLogs (appendLogs ls js)) \<le> maxLogs"
  by (induction ls arbitrary: js) (simp_all add: appendLogs_def Let_def addLog_bound)

text \<open>Applying a vertex to a job.\<close>

lemma vertexStatus_ok:
  assumes "allowedOk js st" "\<not> terminal (stpStatus st)"
  shows "allowedOk js (vertexStatus js v st)" "stpName (vertexStatus js v st) = stpName st"
  using assms by (auto simp: vertexStatus_def allowedOk_def terminal_def)

lemma jobInv_put:
  assumes "jobInv js" "jsVertices js' = mput d st (jsVertices js)"
    and order: "jsOrder js' = (if d \<in> set (jsOrder js) then jsOrder js else jsOrder js @ [d])"
    and "jsLogs js' = jsLogs js" "jsAllowed js' = jsAllowed js" "jsTimedOut js' = jsTimedOut js" "allowedOk js st"
  shows "jobInv js'"
proof -
  have allowed: "allowedOk js' x = allowedOk js x" for x
    using assms(5,6) by (simp add: allowedOk_def isAllowedFailure_def)
  have vs: "map_of (jsVertices js') e = Some x \<longrightarrow> allowedOk js' x" for e x
    unfolding assms(2) allowed map_of_mput using assms(1,7) by (auto simp: jobInv_def)
  have "distinct (jsOrder js')" using assms(1) by (simp add: order jobInv_def)
  moreover have "set (jsOrder js') = set (gokeys (jsVertices js'))"
    using assms(1) by (auto simp: order assms(2) jobInv_def)
  ultimately show ?thesis using vs assms(1) unfolding jobInv_def assms(4) by (simp add: assms(2))
qed

lemma jobOp_applyVertex: "jobOp (applyVertex (Some v))"
  unfolding jobOp_def
proof (intro allI impI)
  fix js assume inv: "jobInv js"
  show "\<exists>js'. applyVertex (Some v) js = Some js' \<and> jobInv js' \<and> jobAdv js js'"
  proof (cases "map_of (jsVertices js) (vDigest v)")
    case None
    then have new: "vDigest v \<notin> set (jsOrder js)" using inv by (simp add: jobInv_def map_of_eq_None_iff)
    let ?st = "\<lparr>stpName = vName v, stpStatus = statusPending, stpDuration = 0,
                stpTimeout = (case map_of (jsStepTimeouts js) (vName v) of None \<Rightarrow> 0 | Some t \<Rightarrow> t)\<rparr>"
    let ?js1 = "js\<lparr>jsVertices := mput (vDigest v) ?st (jsVertices js), jsOrder := jsOrder js @ [vDigest v]\<rparr>"
    let ?js' = "?js1\<lparr>jsStarted := earliest (vStarted v) (jsStarted js), jsEnded := latest (vCompleted v) (jsEnded js),
                     jsVertices := mput (vDigest v) (vertexStatus ?js1 v ?st) (jsVertices ?js1)\<rparr>"
    have run: "applyVertex (Some v) js = Some ?js'"
      using None by (simp add: applyVertex_def Let_def terminal_def)
    have st: "allowedOk js ?st" "\<not> terminal (stpStatus ?st)" by (simp_all add: allowedOk_def terminal_def)
    have eq: "vertexStatus ?js1 v ?st = vertexStatus js v ?st" by (simp add: vertexStatus_def isAllowedFailure_def)
    have put: "jsVertices ?js' = mput (vDigest v) (vertexStatus js v ?st) (jsVertices js)" by (simp add: eq update_Some_unfold)
    have "jobInv ?js'"
      by (rule jobInv_put [OF inv put _ _ _ _ vertexStatus_ok(1) [OF st]]) (use new in simp_all)
    moreover have "jobAdv js ?js'"
      unfolding jobAdv_def put using None by auto
    ultimately show ?thesis using run by blast
  next
    case (Some st)
    show ?thesis
    proof (cases "terminal (stpStatus st)")
      case True
      then show ?thesis using inv Some by (simp add: applyVertex_def Let_def)
    next
      case False
      let ?js' = "js\<lparr>jsStarted := earliest (vStarted v) (jsStarted js), jsEnded := latest (vCompleted v) (jsEnded js),
                     jsVertices := mput (vDigest v) (vertexStatus js v st) (jsVertices js)\<rparr>"
      have run: "applyVertex (Some v) js = Some ?js'"
        using Some False by (simp add: applyVertex_def Let_def)
      have st: "allowedOk js st" using inv Some by (simp add: jobInv_def)
      have old: "vDigest v \<in> set (jsOrder js)" using inv map_of_SomeD [OF Some] by (force simp: jobInv_def)
      have "jobInv ?js'"
        by (rule jobInv_put [OF inv, where d = "vDigest v" and st = "vertexStatus js v st"])
           (use old vertexStatus_ok(1) [OF st False] in simp_all)
      moreover have "jobAdv js ?js'"
        using Some False vertexStatus_ok(2) [OF st False, of v] by (auto simp: jobAdv_def settles_def)
      ultimately show ?thesis using run by blast
    qed
  qed
qed

lemma jobOp_applyVertexes: "None \<notin> set vs \<Longrightarrow> jobOp (applyVertexes vs)"
proof (induction vs)
  case (Cons v vs)
  then obtain x where "v = Some x" "jobOp (applyVertexes vs)" by (cases v) auto
  then show ?case using jobOp_bind [OF jobOp_applyVertex, of "applyVertexes vs" x] by (simp add: jobOp_def)
qed (simp add: jobOp_def)

definition statusOk :: "SolveStatus option \<Rightarrow> bool" where
  "statusOk s = (case s of None \<Rightarrow> False | Some st \<Rightarrow> None \<notin> set (ssVertexes st))"

lemma jobOp_applyStatus: "statusOk s \<Longrightarrow> jobOp (applyStatus s)"
proof (cases s)
  case (Some st)
  moreover assume "statusOk s"
  ultimately have "jobOp (applyVertexes (ssVertexes st))" by (intro jobOp_applyVertexes) (simp add: statusOk_def)
  moreover have "jobOp (\<lambda>js. Some (appendLogs (ssLogs st) js))"
    by (rule jobOp_fields) (simp_all add: appendLogs_bound)
  ultimately have "jobOp (\<lambda>js. Option.bind (applyVertexes (ssVertexes st) js) (\<lambda>js. Some (appendLogs (ssLogs st) js)))"
    by (rule jobOp_bind)
  moreover have "applyStatus s = (\<lambda>js. Option.bind (applyVertexes (ssVertexes st) js) (\<lambda>js. Some (appendLogs (ssLogs st) js)))"
    by (rule ext) (simp add: Some applyStatus_def map_conv_bind_option comp_def)
  ultimately show ?thesis by simp
qed (simp add: statusOk_def)

lemma jobOp_allowStep: "jobOp (\<lambda>js. Some (allowStep p js))"
  unfolding jobOp_def
proof (intro allI impI)
  fix js assume inv: "jobInv js"
  have allowed: "isAllowedFailure (allowStep p js) n \<longleftrightarrow> isAllowedFailure js n \<or> prefix p n" for n
    by (auto simp: isAllowedFailure_def allowStep_def list_ex_iff)
  have "allowedOk (allowStep p js) (allowFailure p st)" if "map_of (jsVertices js) d = Some st" for d st
  proof -
    have "allowedOk js st" using inv that by (simp add: jobInv_def)
    then show ?thesis unfolding allowedOk_def allowed by (auto simp: allowFailure_def allowStep_def)
  qed
  then have "jobInv (allowStep p js)"
    using inv by (auto simp: jobInv_def allowStep_def map_of_map_snd)
  moreover have "jobAdv js (allowStep p js)"
    by (auto simp: jobAdv_def allowStep_def map_of_map_snd allowFailure_def settles_def terminal_def)
  ultimately show "\<exists>js'. Some (allowStep p js) = Some js' \<and> jobInv js' \<and> jobAdv js js'" by simp
qed

lemma jobOp_timeoutVertices: "jobOp (\<lambda>js. timeoutVertices (js\<lparr>jsTimedOut := True, jsTimeout := t\<rparr>))"
  unfolding jobOp_def
proof (intro allI impI)
  fix js assume inv: "jobInv js"
  let ?js = "js\<lparr>jsTimedOut := True, jsTimeout := t\<rparr>"
  have keys: "list_all (\<lambda>d. map_of (jsVertices js) d \<noteq> None) (jsOrder js)"
    using inv by (simp add: jobInv_def list_all_iff map_of_eq_None_iff)
  let ?js' = "?js\<lparr>jsVertices := map (\<lambda>(d, st). (d, if d \<in> set (jsOrder js) \<and> stpStatus st = statusRunning
                                then st\<lparr>stpStatus := statusTimeout\<rparr> else st)) (jsVertices js)\<rparr>"
  have run: "timeoutVertices ?js = Some ?js'" using keys by (simp add: timeoutVertices_def)
  have "jobInv ?js'"
    using inv by (auto simp: jobInv_def map_of_map_snd allowedOk_def isAllowedFailure_def)
  moreover have "jobAdv js ?js'"
    by (auto simp: jobAdv_def map_of_map_snd settles_def terminal_def)
  ultimately show "\<exists>js'. timeoutVertices ?js = Some js' \<and> jobInv js' \<and> jobAdv js js'" using run by blast
qed

section \<open>The model as a whole\<close>

definition modelInv :: "multiModel \<Rightarrow> bool" where
  "modelInv m \<longleftrightarrow> wfmap (mmJobs m) \<and> distinct (mmOrder m) \<and> set (mmOrder m) = set (gokeys (mmJobs m)) \<and>
     (\<forall>name js. map_of (mmJobs m) name = Some js \<longrightarrow> jobInv js)"

definition modelAdv :: "multiModel \<Rightarrow> multiModel \<Rightarrow> bool" where
  "modelAdv m m' \<longleftrightarrow> (\<forall>name js. map_of (mmJobs m) name = Some js \<longrightarrow>
     (\<exists>js'. map_of (mmJobs m') name = Some js' \<and> jobAdv js js'))"

lemma modelAdv_refl [simp]: "modelAdv m m"
  by (auto simp: modelAdv_def)

lemma modelAdv_trans: "modelAdv a b \<Longrightarrow> modelAdv b c \<Longrightarrow> modelAdv a c"
  unfolding modelAdv_def using jobAdv_trans by metis

lemma jobInv_new: "jobInv newJobState"
  by (simp add: jobInv_def newJobState_def)

lemma modelInv_put:
  assumes "modelInv m" "jobInv js" "mmJobs m' = mput name js (mmJobs m)"
    and "mmOrder m' = (if name \<in> set (mmOrder m) then mmOrder m else mmOrder m @ [name])"
  shows "modelInv m'"
  using assms(1,2) unfolding modelInv_def assms(3,4) by auto

lemma known_job: "modelInv m \<Longrightarrow> name \<in> set (mmOrder m) \<longleftrightarrow> map_of (mmJobs m) name \<noteq> None"
  by (simp add: modelInv_def map_of_eq_None_iff)

lemma onExisting_ok:
  assumes "modelInv m" "jobOp f"
  shows "\<exists>m'. onExisting name f m = Some m' \<and> modelInv m' \<and> modelAdv m m'"
proof (cases "map_of (mmJobs m) name")
  case None
  then show ?thesis using assms(1) by (simp add: onExisting_def)
next
  case (Some js)
  with assms obtain js' where js': "f js = Some js'" "jobInv js'" "jobAdv js js'"
    unfolding jobOp_def modelInv_def by blast
  let ?m = "m\<lparr>mmJobs := mput name js' (mmJobs m)\<rparr>"
  have "modelInv ?m" using Some known_job [OF assms(1), of name] by (intro modelInv_put [OF assms(1) js'(2), where name = name]) simp_all
  moreover have "modelAdv m ?m" using Some js'(3) by (auto simp: modelAdv_def)
  ultimately show ?thesis using Some js'(1) by (simp add: onExisting_def)
qed

lemma onCreated_ok:
  assumes "modelInv m" "jobOp f"
  shows "\<exists>m'. onCreated name f m = Some m' \<and> modelInv m' \<and> modelAdv m m'"
proof (cases "map_of (mmJobs m) name")
  case None
  from assms(2) jobInv_new obtain js' where js': "f newJobState = Some js'" "jobInv js'"
    unfolding jobOp_def by blast
  let ?m1 = "m\<lparr>mmJobs := mput name newJobState (mmJobs m), mmOrder := mmOrder m @ [name]\<rparr>"
  let ?m = "?m1\<lparr>mmJobs := mput name js' (mmJobs ?m1)\<rparr>"
  have "modelInv ?m1" using None known_job [OF assms(1), of name] by (intro modelInv_put [OF assms(1) jobInv_new, where name = name]) simp_all
  then have "modelInv ?m" by (rule modelInv_put [OF _ js'(2), where name = name]) simp_all
  moreover have "modelAdv m ?m" using None by (auto simp: modelAdv_def)
  ultimately show ?thesis using None js'(1) by (auto simp: onCreated_def getOrCreateJob_def)
next
  case (Some js)
  then have "onCreated name f m = onExisting name f m" by (simp add: onCreated_def onExisting_def getOrCreateJob_def)
  with onExisting_ok [OF assms] show ?thesis by simp
qed

text \<open>The messages the runner sends carry a status, and BuildKit's statuses no nil vertex.\<close>

definition msgOk :: "teaMsg \<Rightarrow> bool" where
  "msgOk msg = (case msg of Progress (JobStatusMsg job s) \<Rightarrow> statusOk s | _ \<Rightarrow> True)"

lemma jobOp_id: "jobOp Some"
  by (simp add: jobOp_def)

lemma jobOp_allowFailure: "jobOp (\<lambda>js. Some (allowStep p (addLog l js)))"
  using jobOp_bind [OF jobOp_fields [of "addLog l"] jobOp_allowStep [of p]] by (simp add: addLog_bound)

lemma updateProgress_ok:
  assumes "modelInv m" "msgOk (Progress p)"
  shows "\<exists>m'. updateProgress quoted p m = Some m' \<and> modelInv m' \<and> modelAdv m m'"
proof (cases p)
  case (JobAddedMsg job ts cis)
  then show ?thesis unfolding updateProgress_def
    by simp (rule onCreated_ok [OF assms(1) jobOp_fields], simp_all)
next
  case (JobStatusMsg job s)
  then show ?thesis using assms(2) unfolding updateProgress_def
    by simp (rule onExisting_ok [OF assms(1) jobOp_applyStatus], simp add: msgOk_def)
next
  case (JobDoneMsg job)
  then show ?thesis unfolding updateProgress_def
    by simp (rule onExisting_ok [OF assms(1) jobOp_fields], simp_all)
next
  case (JobSkippedMsg job)
  then show ?thesis unfolding updateProgress_def
    by simp (rule onCreated_ok [OF assms(1) jobOp_fields], simp_all)
next
  case (StepSkippedMsg job step)
  then show ?thesis unfolding updateProgress_def
    by simp (rule onExisting_ok [OF assms(1) jobOp_fields], simp_all)
next
  case (JobRetryMsg job a b e)
  then show ?thesis unfolding updateProgress_def
    by simp (rule onCreated_ok [OF assms(1) jobOp_fields], simp_all)
next
  case (StepRetryMsg job step a b e)
  then show ?thesis unfolding updateProgress_def
    by simp (rule onExisting_ok [OF assms(1) jobOp_fields], simp_all add: addLog_bound)
next
  case (StepAllowedFailureMsg job step e)
  then show ?thesis unfolding updateProgress_def
    by simp (rule onExisting_ok [OF assms(1) jobOp_allowFailure])
next
  case (JobTimeoutMsg job t)
  then show ?thesis unfolding updateProgress_def
    by simp (rule onCreated_ok [OF assms(1) jobOp_timeoutVertices])
qed (use assms(1) in \<open>simp_all add: updateProgress_def modelInv_def modelAdv_def\<close>)

lemma Update_ok:
  assumes "modelInv m" "msgOk msg"
  shows "\<exists>m' c. Update quoted msg m = Some (m', c) \<and> modelInv m' \<and> modelAdv m m'"
proof (cases msg)
  case (Progress p)
  with updateProgress_ok [OF assms(1), of p quoted] assms(2) show ?thesis by (auto simp: Update_def)
qed (use assms(1) in \<open>simp_all add: Update_def modelInv_def modelAdv_def\<close>)

text \<open>A run of the program over the messages it receives.\<close>

definition tuiStep :: "(string \<Rightarrow> string) \<Rightarrow> teaMsg \<Rightarrow> multiModel \<Rightarrow> multiModel option" where
  "tuiStep quoted msg m = map_option fst (Update quoted msg m)"

definition runTui :: "(string \<Rightarrow> string) \<Rightarrow> teaMsg list \<Rightarrow> multiModel \<Rightarrow> multiModel option" where
  "runTui quoted = runMsgs (tuiStep quoted)"

interpretation tui: message_consumer "tuiStep quoted" modelInv modelAdv msgOk for quoted
proof
  show "\<exists>m'. tuiStep quoted msg m = Some m' \<and> modelInv m' \<and> modelAdv m m'" if "modelInv m" "msgOk msg" for msg m
    using Update_ok [OF that, of quoted] by (auto simp: tuiStep_def)
qed (auto intro: modelAdv_trans)

lemma modelInv_new: "modelInv (newMultiModel b)"
  by (simp add: modelInv_def newMultiModel_def)

lemma reached_inv: "list_all msgOk msgs \<Longrightarrow> runTui quoted msgs (newMultiModel b) = Some m \<Longrightarrow> modelInv m"
  using tui.consumed_state [OF modelInv_new] unfolding runTui_def by blast

lemma those_None: "those xs = None \<longleftrightarrow> None \<in> set xs"
  by (induction xs) (auto split: option.splits)

lemma reached_ex: "list_all msgOk msgs \<Longrightarrow> \<exists>m. runTui quoted msgs (newMultiModel b) = Some m"
  using tui.consumes_all [OF modelInv_new] unfolding runTui_def by blast

lemma View_ok: "modelInv m \<Longrightarrow> View render m \<noteq> None"
proof -
  assume inv: "modelInv m"
  have "Option.bind (map_of (mmJobs m) name) (renderTo name rc) \<noteq> None" if "name \<in> set (mmOrder m)" for name rc
  proof -
    from known_job [OF inv, of name] that obtain js where js: "map_of (mmJobs m) name = Some js" by auto
    with inv have "jobInv js" by (simp add: modelInv_def)
    then have "map_of (jsVertices js) d \<noteq> None" if "d \<in> set (jsOrder js)" for d
      using that by (auto simp: jobInv_def map_of_eq_None_iff)
    then have "those (map (map_of (jsVertices js)) (jsOrder js)) \<noteq> None" unfolding those_None by fastforce
    with js show ?thesis by (auto simp: renderTo_def)
  qed
  then have "None \<notin> (\<lambda>name. Option.bind (map_of (mmJobs m) name) (renderTo name rc)) ` set (mmOrder m)" for rc
    by (metis (mono_tags, lifting) imageE)
  then show ?thesis by (simp add: View_def Let_def those_None)
qed

section \<open>What the display shows\<close>



lemma onExisting_known: "map_of (mmJobs m) job = Some js \<Longrightarrow> onExisting job (\<lambda>js. Some (f js)) m = Some m' \<Longrightarrow>
    map_of (mmJobs m') job = Some (f js)"
  by (auto simp: onExisting_def)

text \<open>C29: an allowed failure is shown as such whichever message comes first: after the runner has
  reported that a step of a known job may fail, no vertex of that step is shown as
  failed, whether its error arrived before or after the report, and it is shown as timed out
  only if the whole job timed out.\<close>

theorem allowed_failures_excused:
  assumes "list_all msgOk (msgs @ Progress (StepAllowedFailureMsg job step e) # later)"
    and "runTui quoted msgs (newMultiModel boring) = Some m0" "job \<in> set (mmOrder m0)"
    and "runTui quoted (msgs @ Progress (StepAllowedFailureMsg job step e) # later) (newMultiModel boring) = Some m"
    and "map_of (mmJobs m) job = Some js" "map_of (jsVertices js) d = Some st" "prefix (job @ ''/'' @ step @ ''/'') (stpName st)"
  shows "stpStatus st \<noteq> statusError \<and> (stpStatus st = statusTimeout \<longrightarrow> jsTimedOut js)"
proof -
  let ?msg = "Progress (StepAllowedFailureMsg job step e)" and ?p = "job @ ''/'' @ step @ ''/''"
  have inv0: "modelInv m0" using reached_inv [OF _ assms(2)] assms(1) by simp
  then obtain js0 where js0: "map_of (mmJobs m0) job = Some js0" using known_job [OF inv0] assms(3) by auto
  have run: "runMsgs (tuiStep quoted) (?msg # later) m0 = Some m"
    using assms(2,4) by (simp add: runTui_def runMsgs_append)
  then obtain m1 where m1: "tuiStep quoted ?msg m0 = Some m1" "runMsgs (tuiStep quoted) later m1 = Some m"
    by (auto split: option.splits)
  have inv: "modelInv m1" "modelInv m" "modelAdv m1 m"
    using tui.consumed_state [OF inv0, of "[?msg]" quoted m1] tui.consumed_state [of m1 later quoted m] m1 assms(1)
    by auto
  have "onExisting job (\<lambda>js. Some (allowStep ?p (addLog (''step '' @ quoted step @ '': failed (allowed)'') js))) m0 = Some m1"
    using m1(1) by (auto simp: tuiStep_def Update_def updateProgress_def)
  from onExisting_known [OF js0 this] obtain js1 where
    js1: "map_of (mmJobs m1) job = Some js1" "?p \<in> set (jsAllowed js1)" by (auto simp: allowStep_def)
  with inv(3) assms(5) have "?p \<in> set (jsAllowed js)" unfolding modelAdv_def jobAdv_def by fastforce
  with assms(7) have "isAllowedFailure js (stpName st)" by (auto simp: isAllowedFailure_def list_ex_iff)
  moreover have "allowedOk js st" using inv(2) assms(5,6) by (auto simp: modelInv_def jobInv_def)
  ultimately show ?thesis by (simp add: allowedOk_def)
qed

text \<open>Sample: a job with one step whose command fails.\<close>

definition tuiVertex :: "int option \<Rightarrow> int option \<Rightarrow> string \<Rightarrow> Msg" where
  "tuiVertex started completed err =
     JobStatusMsg ''j'' (Some \<lparr>ssVertexes = [Some \<lparr>vDigest = ''d'', vName = ''j/s/make'', vStarted = started,
       vCompleted = completed, vCached = False, vError = err\<rparr>], ssLogs = [], ssWarnings = []\<rparr>)"

definition sampleFailure :: "teaMsg list" where
  "sampleFailure = map Progress [JobAddedMsg ''j'' None [], tuiVertex (Some 1) (Some 2) ''exit code: 1'']"

definition statusOf :: "multiModel \<Rightarrow> stepStatus option" where
  "statusOf m = Option.bind (map_of (mmJobs m) ''j'') (\<lambda>js. map_option stpStatus (map_of (jsVertices js) ''d''))"


lemma sample_statuses:
  "map_option statusOf (runTui id sampleFailure (newMultiModel True)) = Some (Some statusError)"
  "map_option mmOrder (runTui id sampleFailure (newMultiModel True)) = Some [''j'']"
  by code_simp+

text \<open>
  A job that is retried solves the same definition, whose vertices have the same digests: the
  failed vertex stays failed on the screen although it succeeds on the second attempt.
\<close>

definition retrySuccess :: "teaMsg list" where
  "retrySuccess = map Progress [JobRetryMsg ''j'' 2 3 None, JobAddedMsg ''j'' None [], tuiVertex (Some 3) (Some 4) []]"


lemma retried_vertex_stays_failed:
  "map_option statusOf (runTui id (sampleFailure @ retrySuccess) (newMultiModel True)) = Some (Some statusError)"
  by code_simp

theorem allowed_failures_excused_witness:
  "\<exists>m. runTui id (sampleFailure @ [Progress (StepAllowedFailureMsg ''j'' ''s'' None)]) (newMultiModel True) = Some m \<and>
     statusOf m \<noteq> Some statusError"
proof -
  let ?msgs = "sampleFailure @ [Progress (StepAllowedFailureMsg ''j'' ''s'' None)]"
  have ok: "list_all msgOk ?msgs" by code_simp
  from reached_ex [OF ok, of id True] obtain m where m: "runTui id ?msgs (newMultiModel True) = Some m" by blast
  from sample_statuses(2) obtain m0 where m0: "runTui id sampleFailure (newMultiModel True) = Some m0" "''j'' \<in> set (mmOrder m0)"
    by (auto simp: map_option_eq_Some)
  have name: "map_option (\<lambda>m. Option.bind (map_of (mmJobs m) ''j'') (\<lambda>js. map_option stpName (map_of (jsVertices js) ''d'')))
      (runTui id ?msgs (newMultiModel True)) = Some (Some ''j/s/make'')" by code_simp
  then obtain js st where st: "map_of (mmJobs m) ''j'' = Some js" "map_of (jsVertices js) ''d'' = Some st" "stpName st = ''j/s/make''"
    unfolding m by (auto simp: bind_eq_Some_conv)
  have "prefix (''j'' @ ''/'' @ ''s'' @ ''/'') (stpName st)" unfolding st(3) by simp
  from allowed_failures_excused [OF ok m0 m st(1,2) this] m st(1,2) show ?thesis by (simp add: statusOf_def)
qed

text \<open>
  The promotion does depend on the order when the job times out: a running vertex of an allowed
  step ends as timed out or as an allowed failure.
\<close>

lemma allowed_timeout_order:
  "map_option statusOf (runTui id (map Progress [JobAddedMsg ''j'' None [], tuiVertex (Some 1) None [],
     StepAllowedFailureMsg ''j'' ''s'' None, JobTimeoutMsg ''j'' 5]) (newMultiModel True)) = Some (Some statusTimeout)"
  "map_option statusOf (runTui id (map Progress [JobAddedMsg ''j'' None [], tuiVertex (Some 1) None [],
     JobTimeoutMsg ''j'' 5, StepAllowedFailureMsg ''j'' ''s'' None]) (newMultiModel True)) = Some (Some statusAllowedFailure)"
  by code_simp+

end
