(* ===== verification/Plain_Display.thy ===== *)
theory Plain_Display
  imports Tui_Model
begin

text \<open>
  \<^verbatim>\<open>internal/progress/plain\<close> and \<^verbatim>\<open>quiet\<close>: the display that writes log records, and the silent one.
  A record is its level, message and attributes; how a handler prints it is not part of the
  display. The order in which Go walks the map of pending vertices is an argument.
\<close>

section \<open>Records and trackers\<close>

datatype attrVal = AStr string | AInt int | ADur int

record logRec =
  lrLevel :: int
  lrMsg :: string
  lrAttrs :: "(string \<times> attrVal) list"

definition LevelInfo :: int where "LevelInfo = 0"
definition LevelWarn :: int where "LevelWarn = 4"
definition LevelError :: int where "LevelError = 8"

datatype vertexState = stateUnseen | stateStarted | stateDone

record timeoutVertex =
  tvName :: string
  tvTimeout :: int

record jobTracker =
  jtSeen :: "(string, vertexState) gomap"
  jtPending :: "(string, timeoutVertex) gomap"
  jtStepTimeouts :: "(string, int) gomap"
  jtCmdInfos :: "(string, CmdInfo) gomap"

record plainState =
  psJobs :: "(string, jobTracker) gomap"
  psOut :: "logRec list"

definition seenState :: "(string, vertexState) gomap \<Rightarrow> string \<Rightarrow> vertexState" where
  "seenState seen d = (case map_of seen d of None \<Rightarrow> stateUnseen | Some s \<Rightarrow> s)"

definition timeoutOf :: "(string, int) gomap \<Rightarrow> string \<Rightarrow> int" where
  "timeoutOf ts name = (case map_of ts name of None \<Rightarrow> 0 | Some t \<Rightarrow> t)"

section \<open>One vertex\<close>

definition appendDebugCmdAttr ::
  "bool \<Rightarrow> (string \<times> attrVal) list \<Rightarrow> (string, CmdInfo) gomap \<Rightarrow> string \<Rightarrow> (string \<times> attrVal) list" where
  "appendDebugCmdAttr debug attrs cmdInfos vname =
     (if debug then
        (case map_of cmdInfos vname of
           None \<Rightarrow> attrs
         | Some ci \<Rightarrow> if ciFullCmd ci \<noteq> [] then attrs @ [(''full_cmd'', AStr (ciFullCmd ci))] else attrs)
      else attrs)"

definition bracketed :: "string \<Rightarrow> string \<Rightarrow> string" where
  "bracketed job rest = ''['' @ job @ ''] '' @ rest"

definition logVertex ::
  "bool \<Rightarrow> string \<Rightarrow> Vertex \<Rightarrow> (string, vertexState) gomap \<Rightarrow> int \<Rightarrow> (string, CmdInfo) gomap \<Rightarrow>
     (string, vertexState) gomap \<times> logRec list" where
  "logVertex debug job v seen cfgTimeout cmdInfos =
     (let prev = seenState seen (vDigest v);
          name = vName v;
          base = [(''job'', AStr job), (''vertex'', AStr name)];
          event = (\<lambda>e. [(''event'', AStr e)])
      in if vError v \<noteq> [] then
           (mput (vDigest v) stateDone seen,
            [if IsTimeoutExitCode (vError v) cfgTimeout
             then \<lparr>lrLevel = LevelWarn, lrMsg = bracketed job (''TIMEOUT '' @ name),
                   lrAttrs = base @ event ''vertex.timeout'' @ [(''timeout'', ADur cfgTimeout)]\<rparr>
             else \<lparr>lrLevel = LevelError, lrMsg = bracketed job (''FAIL '' @ name @ '': '' @ ExitInfo (vError v)),
                   lrAttrs = appendDebugCmdAttr debug
                     (base @ event ''vertex.error'' @ [(''error'', AStr (ExitInfo (vError v)))]) cmdInfos name\<rparr>])
         else if vCached v \<and> prev \<noteq> stateDone then
           (mput (vDigest v) stateDone seen,
            [\<lparr>lrLevel = LevelInfo, lrMsg = bracketed job (''cached '' @ name), lrAttrs = base @ event ''vertex.cached''\<rparr>])
         else if vCompleted v \<noteq> None \<and> prev \<noteq> stateDone then
           (mput (vDigest v) stateDone seen,
            [\<lparr>lrLevel = LevelInfo, lrMsg = bracketed job (''done '' @ name),
              lrAttrs = base @ event ''vertex.done'' @ [(''duration'', ADur (vertexDuration v))]\<rparr>])
         else if vStarted v \<noteq> None \<and> prev = stateUnseen then
           (mput (vDigest v) stateStarted seen,
            [\<lparr>lrLevel = LevelInfo, lrMsg = bracketed job (''started '' @ name),
              lrAttrs = base @ event ''vertex.started'' @ (if cfgTimeout > 0 then [(''timeout'', ADur cfgTimeout)] else [])\<rparr>])
         else (seen, []))"

definition trackTimeout ::
  "Vertex \<Rightarrow> (string, vertexState) gomap \<Rightarrow> int \<Rightarrow> (string, timeoutVertex) gomap \<Rightarrow> (string, timeoutVertex) gomap" where
  "trackTimeout v seen cfgTimeout pending =
     (if cfgTimeout = 0 then pending
      else (case seenState seen (vDigest v) of
              stateStarted \<Rightarrow> mput (vDigest v) \<lparr>tvName = vName v, tvTimeout = cfgTimeout\<rparr> pending
            | stateDone \<Rightarrow> AList.delete (vDigest v) pending
            | stateUnseen \<Rightarrow> pending))"

text \<open>The body of the loop over the vertices of a status.\<close>

definition plainVertex :: "bool \<Rightarrow> string \<Rightarrow> Vertex option \<Rightarrow> jobTracker \<times> logRec list \<Rightarrow> (jobTracker \<times> logRec list) option" where
  "plainVertex debug job ov s =
     (case (ov, s) of
        (None, _) \<Rightarrow> None
      | (Some v, (jt, out)) \<Rightarrow>
          let cfgTimeout = timeoutOf (jtStepTimeouts jt) (vName v);
              (seen, recs) = logVertex debug job v (jtSeen jt) cfgTimeout (jtCmdInfos jt)
          in Some (jt\<lparr>jtSeen := seen, jtPending := trackTimeout v seen cfgTimeout (jtPending jt)\<rparr>, out @ recs))"

definition logLogs :: "string \<Rightarrow> VertexLog list \<Rightarrow> logRec list" where
  "logLogs job logs =
     concat (map (\<lambda>l. let msg = TrimSpace (lgData l) in
       if lgData l = [] \<or> msg = [] then []
       else [\<lparr>lrLevel = LevelInfo, lrMsg = bracketed job msg,
              lrAttrs = [(''event'', AStr ''output''), (''job'', AStr job), (''data'', AStr msg)]\<rparr>]) logs)"

definition logPendingTimeouts :: "string \<Rightarrow> timeoutVertex list \<Rightarrow> logRec list" where
  "logPendingTimeouts job pending =
     map (\<lambda>tv. \<lparr>lrLevel = LevelWarn, lrMsg = bracketed job (''TIMEOUT '' @ tvName tv),
                lrAttrs = [(''job'', AStr job), (''vertex'', AStr (tvName tv)), (''event'', AStr ''vertex.timeout''),
                           (''timeout'', ADur (tvTimeout tv))]\<rparr>) pending"

section \<open>The loop\<close>

definition getJob :: "string \<Rightarrow> plainState \<Rightarrow> jobTracker" where
  "getJob name s =
     (case map_of (psJobs s) name of
        Some jt \<Rightarrow> jt
      | None \<Rightarrow> \<lparr>jtSeen = [], jtPending = [], jtStepTimeouts = [], jtCmdInfos = []\<rparr>)"

definition say :: "logRec list \<Rightarrow> plainState \<Rightarrow> plainState option" where
  "say recs s = Some (s\<lparr>psOut := psOut s @ recs\<rparr>)"

definition errAttr :: "string option \<Rightarrow> (string \<times> attrVal) list" where
  "errAttr err = (case err of None \<Rightarrow> [] | Some e \<Rightarrow> [(''error'', AStr e)])"

definition consumeMsg ::
  "bool \<Rightarrow> ((string, timeoutVertex) gomap \<Rightarrow> (string, timeoutVertex) gomap) \<Rightarrow> Msg \<Rightarrow> plainState \<Rightarrow> plainState option" where
  "consumeMsg debug walk msg s =
     (case msg of
        JobAddedMsg job stepTimeouts cmdInfos \<Rightarrow>
          Some (s\<lparr>psJobs := mput job ((getJob job s)
                  \<lparr>jtStepTimeouts := (case stepTimeouts of None \<Rightarrow> [] | Some ts \<Rightarrow> ts), jtCmdInfos := cmdInfos\<rparr>) (psJobs s)\<rparr>)
      | JobStatusMsg job status \<Rightarrow>
          (case status of
             None \<Rightarrow> None
           | Some st \<Rightarrow>
               map_option (\<lambda>(jt, out). s\<lparr>psJobs := mput job jt (psJobs s), psOut := out @ logLogs job (ssLogs st)\<rparr>)
                 (runMsgs (plainVertex debug job) (ssVertexes st) (getJob job s, psOut s)))
      | JobDoneMsg job \<Rightarrow>
          (case map_of (psJobs s) job of
             None \<Rightarrow> Some s
           | Some jt \<Rightarrow> say (logPendingTimeouts job (map snd (walk (jtPending jt)))) s)
      | JobSkippedMsg job \<Rightarrow>
          say [\<lparr>lrLevel = LevelInfo, lrMsg = ''job skipped'',
                lrAttrs = [(''job'', AStr job), (''event'', AStr ''job.skipped'')]\<rparr>] s
      | StepSkippedMsg job step \<Rightarrow>
          say [\<lparr>lrLevel = LevelInfo, lrMsg = ''step skipped'',
                lrAttrs = [(''job'', AStr job), (''step'', AStr step), (''event'', AStr ''step.skipped'')]\<rparr>] s
      | JobRetryMsg job attempt maxAttempts err \<Rightarrow>
          say [\<lparr>lrLevel = LevelWarn, lrMsg = ''retrying job'',
                lrAttrs = [(''job'', AStr job), (''attempt'', AInt attempt), (''max_attempts'', AInt maxAttempts)] @
                          errAttr err @ [(''event'', AStr ''job.retry'')]\<rparr>] s
      | StepRetryMsg job step attempt maxAttempts err \<Rightarrow>
          say [\<lparr>lrLevel = LevelWarn, lrMsg = ''retrying step'',
                lrAttrs = [(''job'', AStr job), (''step'', AStr step), (''attempt'', AInt attempt),
                           (''max_attempts'', AInt maxAttempts)] @ errAttr err @ [(''event'', AStr ''step.retry'')]\<rparr>] s
      | StepAllowedFailureMsg job step err \<Rightarrow>
          say [\<lparr>lrLevel = LevelWarn, lrMsg = ''step failed (allowed)'',
                lrAttrs = [(''job'', AStr job), (''step'', AStr step)] @ errAttr err @
                          [(''event'', AStr ''step.allowed_failure'')]\<rparr>] s
      | JobTimeoutMsg job t \<Rightarrow>
          say [\<lparr>lrLevel = LevelWarn, lrMsg = ''job timed out'',
                lrAttrs = [(''job'', AStr job), (''timeout'', ADur t), (''event'', AStr ''job.timeout'')]\<rparr>] s
      | LogMsg job level text \<Rightarrow>
          say [\<lparr>lrLevel = level, lrMsg = text,
                lrAttrs = (''event'', AStr ''log'') # (if job \<noteq> [] then [(''job'', AStr job)] else [])\<rparr>] s
      | SyncMsg walked hashed hits \<Rightarrow>
          say [\<lparr>lrLevel = LevelInfo, lrMsg = ''context synced'',
                lrAttrs = [(''files'', AInt walked), (''hashed'', AInt hashed), (''cached'', AInt hits),
                           (''event'', AStr ''sync.complete'')]\<rparr>] s
      | ErrorMsg err \<Rightarrow>
          say [\<lparr>lrLevel = LevelError, lrMsg = (case err of None \<Rightarrow> ''unknown error'' | Some human \<Rightarrow> human),
                lrAttrs = [(''event'', AStr ''error'')]\<rparr>] s)"

definition consume ::
  "bool \<Rightarrow> ((string, timeoutVertex) gomap \<Rightarrow> (string, timeoutVertex) gomap) \<Rightarrow> Msg list \<Rightarrow> plainState option" where
  "consume debug walk msgs = runMsgs (consumeMsg debug walk) msgs \<lparr>psJobs = [], psOut = []\<rparr>"

text \<open>The quiet display drains its channel.\<close>

definition quietMsg :: "Msg \<Rightarrow> unit \<Rightarrow> unit option" where
  "quietMsg msg s = Some s"

section \<open>The log only grows\<close>

definition plainAdv :: "plainState \<Rightarrow> plainState \<Rightarrow> bool" where
  "plainAdv s s' \<longleftrightarrow> prefix (psOut s) (psOut s') \<and> set (gokeys (psJobs s)) \<subseteq> set (gokeys (psJobs s'))"

lemma plainVertex_Some:
  "plainVertex debug job (Some v) (jt, out) =
     (let log = logVertex debug job v (jtSeen jt) (timeoutOf (jtStepTimeouts jt) (vName v)) (jtCmdInfos jt)
      in Some (jt\<lparr>jtSeen := fst log,
                 jtPending := trackTimeout v (fst log) (timeoutOf (jtStepTimeouts jt) (vName v)) (jtPending jt)\<rparr>, out @ snd log))"
  by (simp add: plainVertex_def Let_def case_prod_unfold)

lemma consumeMsg_status:
  "consumeMsg debug walk (JobStatusMsg job (Some st)) s =
     map_option (\<lambda>(jt, out). s\<lparr>psJobs := mput job jt (psJobs s), psOut := out @ logLogs job (ssLogs st)\<rparr>)
       (runMsgs (plainVertex debug job) (ssVertexes st) (getJob job s, psOut s))"
  by (simp add: consumeMsg_def)

lemma plainVertexes_ok:
  "None \<notin> set vs \<Longrightarrow> \<exists>jt' recs. runMsgs (plainVertex debug job) vs (jt, out) = Some (jt', out @ recs)"
proof (induction vs arbitrary: jt out)
  case (Cons ov vs)
  then obtain v where v: "ov = Some v" by (cases ov) auto
  obtain jt1 recs where "plainVertex debug job ov (jt, out) = Some (jt1, out @ recs)"
    unfolding v plainVertex_Some Let_def by blast
  with Cons.IH [of jt1 "out @ recs"] Cons.prems show ?case by auto
qed simp

definition plainMsgOk :: "Msg \<Rightarrow> bool" where
  "plainMsgOk msg = msgOk (Progress msg)"

lemma consumeMsg_ok:
  assumes "plainMsgOk msg"
  shows "\<exists>s'. consumeMsg debug walk msg s = Some s' \<and> plainAdv s s'"
proof (cases msg)
  case (JobStatusMsg job status)
  with assms obtain st where st: "status = Some st" "None \<notin> set (ssVertexes st)"
    by (auto simp: plainMsgOk_def msgOk_def statusOk_def split: option.splits)
  from plainVertexes_ok [OF st(2), of debug job "getJob job s" "psOut s"] JobStatusMsg st(1)
  show ?thesis by (auto simp: consumeMsg_def plainAdv_def)
qed (auto simp: consumeMsg_def plainAdv_def say_def split: option.splits)

interpretation plain: message_consumer "consumeMsg debug walk" "\<lambda>_. True" plainAdv plainMsgOk for debug walk
proof
  show "\<exists>s'. consumeMsg debug walk msg s = Some s' \<and> True \<and> plainAdv s s'" if "plainMsgOk msg" for s msg
    using consumeMsg_ok [OF that] by simp
  show "plainAdv s s''" if "plainAdv s s'" "plainAdv s' s''" for s s' s''
    using that prefix_order.trans [of "psOut s" "psOut s'" "psOut s''"] by (auto simp: plainAdv_def)
qed (simp add: plainAdv_def)

interpretation quiet: message_consumer quietMsg "\<lambda>_. True" "\<lambda>_ _. True" "\<lambda>_. True"
  by unfold_locales (simp_all add: quietMsg_def)

section \<open>Pending timeouts\<close>

text \<open>What a list of vertex updates says of a digest.\<close>

definition begun :: "Vertex list \<Rightarrow> string \<Rightarrow> bool" where
  "begun vs d \<longleftrightarrow> (\<exists>v\<in>set vs. vDigest v = d \<and> vStarted v \<noteq> None)"

definition ended :: "Vertex list \<Rightarrow> string \<Rightarrow> bool" where
  "ended vs d \<longleftrightarrow> (\<exists>v\<in>set vs. vDigest v = d \<and> (vError v \<noteq> [] \<or> vCached v \<or> vCompleted v \<noteq> None))"

definition tracksVertices :: "(string, int) gomap \<Rightarrow> (string \<Rightarrow> string) \<Rightarrow> Vertex list \<Rightarrow> jobTracker \<Rightarrow> bool" where
  "tracksVertices ts nameOf vs jt \<longleftrightarrow> jtStepTimeouts jt = ts \<and> wfmap (jtPending jt) \<and>
     (\<forall>d. seenState (jtSeen jt) d = (if ended vs d then stateDone else if begun vs d then stateStarted else stateUnseen)) \<and>
     map_of (jtPending jt) = (\<lambda>d. if begun vs d \<and> \<not> ended vs d \<and> timeoutOf ts (nameOf d) \<noteq> 0
        then Some \<lparr>tvName = nameOf d, tvTimeout = timeoutOf ts (nameOf d)\<rparr> else None)"

lemma begun_snoc: "begun (vs @ [v]) d \<longleftrightarrow> begun vs d \<or> vDigest v = d \<and> vStarted v \<noteq> None"
  by (auto simp: begun_def)

lemma ended_snoc:
  "ended (vs @ [v]) d \<longleftrightarrow> ended vs d \<or> vDigest v = d \<and> (vError v \<noteq> [] \<or> vCached v \<or> vCompleted v \<noteq> None)"
  by (auto simp: ended_def)

lemma seenState_mput [simp]: "seenState (mput d x m) e = (if e = d then x else seenState m e)"
  by (simp add: seenState_def)

lemma logVertex_seen:
  "seenState (fst (logVertex debug job v seen t cis)) d =
     (if d \<noteq> vDigest v then seenState seen d
      else if vError v \<noteq> [] \<or> vCached v \<or> vCompleted v \<noteq> None then stateDone
      else if vStarted v \<noteq> None \<and> seenState seen d = stateUnseen then stateStarted else seenState seen d)"
  by (auto simp: logVertex_def Let_def)

lemma tracks_step:
  assumes "tracksVertices ts nameOf vs jt" "vName v = nameOf (vDigest v)"
    and "plainVertex debug job (Some v) (jt, out) = Some (jt', out')"
  shows "tracksVertices ts nameOf (vs @ [v]) jt'"
proof -
  let ?t = "timeoutOf ts (vName v)" and ?log = "logVertex debug job v (jtSeen jt) (timeoutOf ts (vName v)) (jtCmdInfos jt)"
  have jt': "jt' = jt\<lparr>jtSeen := fst ?log, jtPending := trackTimeout v (fst ?log) ?t (jtPending jt)\<rparr>"
    using assms(1,3) unfolding plainVertex_Some Let_def by (simp add: tracksVertices_def)
  have seen: "seenState (jtSeen jt) d = (if ended vs d then stateDone else if begun vs d then stateStarted else stateUnseen)" for d
    using assms(1) by (simp add: tracksVertices_def)
  have seen': "seenState (fst ?log) d =
      (if ended (vs @ [v]) d then stateDone else if begun (vs @ [v]) d then stateStarted else stateUnseen)" for d
    unfolding logVertex_seen seen by (auto simp: begun_snoc ended_snoc)
  have pend: "map_of (jtPending jt) d = (if begun vs d \<and> \<not> ended vs d \<and> timeoutOf ts (nameOf d) \<noteq> 0
        then Some \<lparr>tvName = nameOf d, tvTimeout = timeoutOf ts (nameOf d)\<rparr> else None)" for d
    using assms(1) by (simp add: tracksVertices_def)
  have "map_of (trackTimeout v (fst ?log) ?t (jtPending jt)) d =
      (if begun (vs @ [v]) d \<and> \<not> ended (vs @ [v]) d \<and> timeoutOf ts (nameOf d) \<noteq> 0
       then Some \<lparr>tvName = nameOf d, tvTimeout = timeoutOf ts (nameOf d)\<rparr> else None)" for d
  proof (cases "d = vDigest v")
    case True
    then show ?thesis using assms(2) pend [of d]
      unfolding trackTimeout_def seen' by (auto simp: delete_conv' begun_snoc ended_snoc)
  next
    case False
    then have "map_of (trackTimeout v (fst ?log) ?t (jtPending jt)) d = map_of (jtPending jt) d"
      by (simp add: trackTimeout_def delete_conv' split: vertexState.split)
    with False pend [of d] show ?thesis by (simp add: begun_snoc ended_snoc)
  qed
  moreover have "wfmap (trackTimeout v (fst ?log) ?t (jtPending jt))"
    using assms(1) by (auto simp: tracksVertices_def trackTimeout_def split: vertexState.split)
  ultimately show ?thesis using assms(1) seen' by (simp add: tracksVertices_def jt' fun_eq_iff)
qed

lemma tracks_steps:
  assumes "tracksVertices ts nameOf vs jt" "\<forall>v\<in>set us. vName v = nameOf (vDigest v)"
    and "runMsgs (plainVertex debug job) (map Some us) (jt, out) = Some (jt', out')"
  shows "tracksVertices ts nameOf (vs @ us) jt'"
  using assms
proof (induction us arbitrary: vs jt out)
  case (Cons v us)
  then obtain jt1 out1 where step: "plainVertex debug job (Some v) (jt, out) = Some (jt1, out1)"
    "runMsgs (plainVertex debug job) (map Some us) (jt1, out1) = Some (jt', out')"
    by (auto split: option.splits)
  have "tracksVertices ts nameOf (vs @ [v]) jt1" using tracks_step Cons.prems(1,2) step(1) by simp
  from Cons.IH [OF this _ step(2)] Cons.prems(2) show ?case by simp
qed simp

text \<open>The updates that the statuses of one job carry.\<close>

definition statusVertices :: "SolveStatus list \<Rightarrow> Vertex list" where
  "statusVertices sts = concat (map (\<lambda>st. List.map_filter id (ssVertexes st)) sts)"

lemma map_Some_filter: "None \<notin> set vs \<Longrightarrow> map Some (List.map_filter id vs) = vs"
proof (induction vs)
  case (Cons a vs)
  then show ?case by (cases a) (auto simp: List.map_filter_simps)
qed (simp add: List.map_filter_simps)

lemma tracker_statuses:
  assumes "tracksVertices ts nameOf vs (getJob job s)" "\<forall>st\<in>set sts. None \<notin> set (ssVertexes st)"
    and "\<forall>v\<in>set (statusVertices sts). vName v = nameOf (vDigest v)"
    and "runMsgs (consumeMsg debug walk) (map (\<lambda>st. JobStatusMsg job (Some st)) sts) s = Some s'"
  shows "tracksVertices ts nameOf (vs @ statusVertices sts) (getJob job s')"
  using assms
proof (induction sts arbitrary: vs s)
  case (Cons st sts)
  let ?us = "List.map_filter id (ssVertexes st)"
  from Cons.prems(2) have us: "map Some ?us = ssVertexes st" by (intro map_Some_filter) simp
  from Cons.prems(4) obtain jt out s1 where
    run: "runMsgs (plainVertex debug job) (map Some ?us) (getJob job s, psOut s) = Some (jt, out)"
    and s1: "s1 = s\<lparr>psJobs := mput job jt (psJobs s), psOut := out @ logLogs job (ssLogs st)\<rparr>"
    and rest: "runMsgs (consumeMsg debug walk) (map (\<lambda>st. JobStatusMsg job (Some st)) sts) s1 = Some s'"
    unfolding us by (auto simp: consumeMsg_status split: option.splits)
  have "tracksVertices ts nameOf (vs @ ?us) jt"
    using tracks_steps [OF Cons.prems(1) _ run] Cons.prems(3) by (simp add: statusVertices_def)
  then have "tracksVertices ts nameOf (vs @ ?us) (getJob job s1)" by (simp add: s1 getJob_def)
  from Cons.IH [OF this _ _ rest] Cons.prems(2,3) show ?case by (simp add: statusVertices_def)
qed (simp add: statusVertices_def)

lemma walked_entries:
  assumes "mset w = mset m" "wfmap m"
  shows "distinct (map fst w)" "(d, x) \<in> set w \<longleftrightarrow> map_of m d = Some x"
proof -
  have "mset (map fst w) = mset (map fst m)" using assms(1) by simp
  then show "distinct (map fst w)" using assms(2) mset_eq_imp_distinct_iff unfolding wfmap_def by blast
  show "(d, x) \<in> set w \<longleftrightarrow> map_of m d = Some x"
    using mset_eq_setD [OF assms(1)] assms(2) by (simp add: wfmap_def map_of_eq_Some_iff)
qed

text \<open>The tracker of a job after its statuses.\<close>

lemma stream_tracked:
  assumes "\<forall>st\<in>set sts. None \<notin> set (ssVertexes st)" "\<forall>v\<in>set (statusVertices sts). vName v = nameOf (vDigest v)"
  shows "\<exists>s jt. runMsgs (consumeMsg debug walk) (JobAddedMsg job (Some ts) cis # map (\<lambda>st. JobStatusMsg job (Some st)) sts)
      \<lparr>psJobs = [], psOut = []\<rparr> = Some s \<and> map_of (psJobs s) job = Some jt \<and> tracksVertices ts nameOf (statusVertices sts) jt"
proof -
  let ?s0 = "\<lparr>psJobs = [], psOut = []\<rparr>" and ?sts = "map (\<lambda>st. JobStatusMsg job (Some st)) sts"
  have "list_all plainMsgOk (JobAddedMsg job (Some ts) cis # ?sts)"
    using assms(1) by (auto simp: list_all_iff plainMsgOk_def msgOk_def statusOk_def)
  from plain.consumes_all [OF _ this, where s = ?s0 and debug = debug and walk = walk] obtain s where
    s: "runMsgs (consumeMsg debug walk) (JobAddedMsg job (Some ts) cis # ?sts) ?s0 = Some s" by auto
  then obtain s1 where s1: "consumeMsg debug walk (JobAddedMsg job (Some ts) cis) ?s0 = Some s1"
    "runMsgs (consumeMsg debug walk) ?sts s1 = Some s" by (auto split: option.splits)
  then have "tracksVertices ts nameOf [] (getJob job s1)"
    by (auto simp: consumeMsg_def getJob_def tracksVertices_def begun_def ended_def seenState_def)
  from tracker_statuses [OF this assms s1(2)]
  have tr: "tracksVertices ts nameOf (statusVertices sts) (getJob job s)" by simp
  have "job \<in> set (gokeys (psJobs s))"
    using plain.consumed_state [OF _ _ s1(2)] s1(1) assms(1)
    by (auto simp: consumeMsg_def plainAdv_def list_all_iff plainMsgOk_def msgOk_def statusOk_def)
  then obtain jt where jt: "map_of (psJobs s) job = Some jt"
    by (metis list.set_map map_of_eq_None_iff not_None_eq)
  with tr s show ?thesis by (auto simp: getJob_def)
qed

text \<open>C32: the plain display reports as timed out exactly the steps that hang: when a job that was
  added with its step timeouts is done, the records it writes are one warning for each vertex that
  has a timeout, was started and never completed, failed or came from the cache.\<close>

theorem pending_timeouts_reported:
  assumes "\<forall>m. mset (walk m) = mset m" "\<forall>st\<in>set sts. None \<notin> set (ssVertexes st)"
    and "\<forall>v\<in>set (statusVertices sts). vName v = nameOf (vDigest v)"
  shows "\<exists>out pending. consume debug walk (JobAddedMsg job (Some ts) cis # map (\<lambda>st. JobStatusMsg job (Some st)) sts) = Some out \<and>
    consume debug walk (JobAddedMsg job (Some ts) cis # map (\<lambda>st. JobStatusMsg job (Some st)) sts @ [JobDoneMsg job]) =
      Some (out\<lparr>psOut := psOut out @ logPendingTimeouts job (map (\<lambda>d. \<lparr>tvName = nameOf d, tvTimeout = timeoutOf ts (nameOf d)\<rparr>) pending)\<rparr>) \<and>
    distinct pending \<and>
    set pending = {d. begun (statusVertices sts) d \<and> \<not> ended (statusVertices sts) d \<and> timeoutOf ts (nameOf d) \<noteq> 0}"
proof -
  let ?s0 = "\<lparr>psJobs = [], psOut = []\<rparr>" and ?sts = "map (\<lambda>st. JobStatusMsg job (Some st)) sts"
  obtain s jt where s: "runMsgs (consumeMsg debug walk) (JobAddedMsg job (Some ts) cis # ?sts) ?s0 = Some s"
    and jt: "map_of (psJobs s) job = Some jt" and tr: "tracksVertices ts nameOf (statusVertices sts) jt"
    using stream_tracked [OF assms(2,3)] by blast
  from tr have pend: "wfmap (jtPending jt)" "map_of (jtPending jt) = (\<lambda>d. if begun (statusVertices sts) d \<and>
      \<not> ended (statusVertices sts) d \<and> timeoutOf ts (nameOf d) \<noteq> 0
      then Some \<lparr>tvName = nameOf d, tvTimeout = timeoutOf ts (nameOf d)\<rparr> else None)" by (simp_all add: tracksVertices_def)
  let ?w = "walk (jtPending jt)"
  note w = walked_entries [OF assms(1) [rule_format, of "jtPending jt"] pend(1)]
  have at: "(d, tv) \<in> set ?w \<longleftrightarrow> begun (statusVertices sts) d \<and> \<not> ended (statusVertices sts) d \<and>
      timeoutOf ts (nameOf d) \<noteq> 0 \<and> tv = \<lparr>tvName = nameOf d, tvTimeout = timeoutOf ts (nameOf d)\<rparr>" for d tv
    unfolding w(2) pend(2) by auto
  have "snd x = \<lparr>tvName = nameOf (fst x), tvTimeout = timeoutOf ts (nameOf (fst x))\<rparr>" if "x \<in> set ?w" for x
    using at [of "fst x" "snd x"] that by simp
  then have snds: "map snd ?w = map (\<lambda>d. \<lparr>tvName = nameOf d, tvTimeout = timeoutOf ts (nameOf d)\<rparr>) (map fst ?w)"
    by simp
  have keys: "set (map fst ?w) = {d. begun (statusVertices sts) d \<and> \<not> ended (statusVertices sts) d \<and> timeoutOf ts (nameOf d) \<noteq> 0}"
  proof (rule set_eqI)
    fix d
    have "d \<in> set (map fst ?w) \<longleftrightarrow> (\<exists>tv. (d, tv) \<in> set ?w)" by force
    then show "d \<in> set (map fst ?w) \<longleftrightarrow> d \<in> {d. begun (statusVertices sts) d \<and> \<not> ended (statusVertices sts) d \<and> timeoutOf ts (nameOf d) \<noteq> 0}"
      unfolding at by simp
  qed
  have fin: "consume debug walk (JobAddedMsg job (Some ts) cis # ?sts @ [JobDoneMsg job]) =
      Some (s\<lparr>psOut := psOut s @ logPendingTimeouts job (map snd ?w)\<rparr>)"
    using s runMsgs_append [of "consumeMsg debug walk" "JobAddedMsg job (Some ts) cis # ?sts" "[JobDoneMsg job]" ?s0] jt
    by (simp add: consume_def consumeMsg_def say_def)
  show ?thesis
    by (intro exI [of _ s] exI [of _ "map fst ?w"] conjI)
       (use s in \<open>simp add: consume_def\<close>, fact fin [unfolded snds], fact w(1), fact keys)
qed

definition plainUpdate :: "string \<Rightarrow> int option \<Rightarrow> int option \<Rightarrow> SolveStatus" where
  "plainUpdate d started completed =
     \<lparr>ssVertexes = [Some \<lparr>vDigest = d, vName = d, vStarted = started, vCompleted = completed, vCached = False, vError = []\<rparr>],
      ssLogs = [], ssWarnings = []\<rparr>"

definition hangingStatuses :: "SolveStatus list" where
  "hangingStatuses = [plainUpdate ''a'' (Some 1) None, plainUpdate ''b'' (Some 1) None, plainUpdate ''b'' (Some 1) (Some 2)]"

theorem pending_timeouts_reported_witness:
  "\<exists>out. consume False id (JobAddedMsg ''j'' (Some [(''a'', 5), (''b'', 5)]) [] #
       map (\<lambda>st. JobStatusMsg ''j'' (Some st)) hangingStatuses @ [JobDoneMsg ''j'']) =
     Some (out\<lparr>psOut := psOut out @ logPendingTimeouts ''j'' [\<lparr>tvName = ''a'', tvTimeout = 5\<rparr>]\<rparr>)"
proof -
  have ok: "\<forall>st\<in>set hangingStatuses. None \<notin> set (ssVertexes st)"
    "\<forall>v\<in>set (statusVertices hangingStatuses). vName v = id (vDigest v)" by code_simp+
  have walk: "\<forall>m. mset (id m) = mset m" by simp
  have timeouts: "timeoutOf [(''a'', 5), (''b'', 5)] d = (if d = ''a'' \<or> d = ''b'' then 5 else 0)" for d
    by (simp add: timeoutOf_def)
  have vs: "begun (statusVertices hangingStatuses) d \<longleftrightarrow> d = ''a'' \<or> d = ''b''"
    "ended (statusVertices hangingStatuses) d \<longleftrightarrow> d = ''b''" for d
    by (auto simp: begun_def ended_def statusVertices_def hangingStatuses_def plainUpdate_def List.map_filter_simps)
  have one: "distinct xs \<Longrightarrow> set xs = {a} \<Longrightarrow> xs = [a]" for xs :: "string list" and a
    by (cases xs) (auto simp: subset_singleton_iff)
  from pending_timeouts_reported [OF walk ok, of False "''j''" "[(''a'', 5), (''b'', 5)]" "[]"] obtain out pending where
    out: "consume False id (JobAddedMsg ''j'' (Some [(''a'', 5), (''b'', 5)]) [] #
       map (\<lambda>st. JobStatusMsg ''j'' (Some st)) hangingStatuses @ [JobDoneMsg ''j'']) =
     Some (out\<lparr>psOut := psOut out @ logPendingTimeouts ''j'' (map (\<lambda>d. \<lparr>tvName = id d,
       tvTimeout = timeoutOf [(''a'', 5), (''b'', 5)] (id d)\<rparr>) pending)\<rparr>)"
    and p: "distinct pending" "set pending = {d. (d = ''a'' \<or> d = ''b'') \<and> d \<noteq> ''b'' \<and> timeoutOf [(''a'', 5), (''b'', 5)] (id d) \<noteq> 0}"
    unfolding vs by blast
  have "set pending = {''a''}" unfolding p(2) timeouts by auto
  with one [OF p(1)] have "pending = [''a'']" by blast
  with out show ?thesis by (auto simp: timeouts)
qed

text \<open>A failure that two statuses carry is logged twice; a completion is logged once.\<close>

lemma failure_logged_again:
  "map_option (\<lambda>s. length (psOut s)) (consume False id (map (\<lambda>st. JobStatusMsg ''j'' (Some st))
     (replicate 2 \<lparr>ssVertexes = [Some \<lparr>vDigest = ''d'', vName = ''n'', vStarted = Some 1, vCompleted = Some 2,
        vCached = False, vError = ''exit code: 1''\<rparr>], ssLogs = [], ssWarnings = []\<rparr>))) = Some 2"
  "map_option (\<lambda>s. length (psOut s)) (consume False id (map (\<lambda>st. JobStatusMsg ''j'' (Some st))
     (replicate 2 (plainUpdate ''d'' (Some 1) (Some 2))))) = Some 1"
  by code_simp+

end
