(* ===== verification/Vertex_Tracing.thy ===== *)
theory Vertex_Tracing
  imports Progress_Model
begin

text \<open>
  \<^verbatim>\<open>internal/tracing\<close>: the exporters of the tracer and their clean-up (\<^verbatim>\<open>tracing.go\<close>), and the
  observer that turns the vertexes of a status stream into spans (\<^verbatim>\<open>vertex.go\<close>). OpenTelemetry is
  seen through the calls the code makes on it: a span is the record of the calls on it, an
  exporter or a file is the log of its creation and release.
\<close>

section \<open>Exporters (tracing.go)\<close>

record TraceConfig =
  tcEndpoint :: string
  tcFile :: string
  tcStdout :: bool

datatype grpcOpt = WithEndpointURL string | WithEndpoint string | WithInsecure | WithTimeout int

datatype exporter = OtlpExporter "grpcOpt list" | FileExporter string | StderrExporter

datatype traceOp =
    NewExporter exporter | ShutdownExporter exporter
  | OpenTraceFile string | CloseTraceFile string
  | SetTracerProvider "exporter list" | ProviderShutdown "exporter list"

datatype traceErr = OtlpErr string | OpenErr string | FileExporterErr string | StderrExporterErr string | ResourceErr string

text \<open>What the library and the file system answer; \<open>None\<close> is success.\<close>

record traceWorld =
  twOtlp :: "grpcOpt list \<Rightarrow> string option"
  twOpen :: "string \<Rightarrow> string option"
  twFile :: "string \<Rightarrow> string option"
  twStderr :: "string option"
  twResource :: "string option"

record exporters =
  exList :: "exporter list"
  exFiles :: "string list"
  exLog :: "traceOp list"

definition closeFiles :: "string list \<Rightarrow> traceOp list" where
  "closeFiles fs = map CloseTraceFile fs"

definition failWith :: "traceErr \<Rightarrow> exporters \<Rightarrow> traceErr \<times> traceOp list" where
  "failWith err ex = (err, exLog ex @ map ShutdownExporter (exList ex) @ closeFiles (exFiles ex))"

definition grpcOpts :: "string \<Rightarrow> grpcOpt list" where
  "grpcOpts endpoint =
     (if prefix ''http://'' endpoint then [WithEndpointURL endpoint, WithInsecure]
      else if prefix ''https://'' endpoint then [WithEndpointURL endpoint]
      else [WithEndpoint endpoint]) @ [WithTimeout (10 * 1000000000)]"

definition addExporter :: "exporter \<Rightarrow> exporters \<Rightarrow> exporters" where
  "addExporter e ex = ex\<lparr>exList := exList ex @ [e], exLog := exLog ex @ [NewExporter e]\<rparr>"

definition otlpStage :: "traceWorld \<Rightarrow> TraceConfig \<Rightarrow> exporters \<Rightarrow> (traceErr \<times> traceOp list) + exporters" where
  "otlpStage w cfg ex =
     (if tcEndpoint cfg \<noteq> [] then
        (let opts = grpcOpts (tcEndpoint cfg) in
         case twOtlp w opts of
           Some e \<Rightarrow> Inl (failWith (OtlpErr e) ex)
         | None \<Rightarrow> Inr (addExporter (OtlpExporter opts) ex))
      else Inr ex)"

definition fileStage :: "traceWorld \<Rightarrow> TraceConfig \<Rightarrow> exporters \<Rightarrow> (traceErr \<times> traceOp list) + exporters" where
  "fileStage w cfg ex =
     (if tcFile cfg \<noteq> [] then
        (case twOpen w (tcFile cfg) of
           Some e \<Rightarrow> Inl (failWith (OpenErr e) ex)
         | None \<Rightarrow>
             (let ex1 = ex\<lparr>exFiles := exFiles ex @ [tcFile cfg], exLog := exLog ex @ [OpenTraceFile (tcFile cfg)]\<rparr> in
              case twFile w (tcFile cfg) of
                Some e \<Rightarrow> Inl (failWith (FileExporterErr e) ex1)
              | None \<Rightarrow> Inr (addExporter (FileExporter (tcFile cfg)) ex1)))
      else Inr ex)"

definition stderrStage :: "traceWorld \<Rightarrow> TraceConfig \<Rightarrow> exporters \<Rightarrow> (traceErr \<times> traceOp list) + exporters" where
  "stderrStage w cfg ex =
     (if tcStdout cfg then
        (case twStderr w of
           Some e \<Rightarrow> Inl (failWith (StderrExporterErr e) ex)
         | None \<Rightarrow> Inr (addExporter StderrExporter ex))
      else Inr ex)"

definition andThen :: "'e + 'a \<Rightarrow> ('a \<Rightarrow> 'e + 'b) \<Rightarrow> 'e + 'b" where
  "andThen r f = (case r of Inl e \<Rightarrow> Inl e | Inr x \<Rightarrow> f x)"

definition buildExporters :: "traceWorld \<Rightarrow> TraceConfig \<Rightarrow> (traceErr \<times> traceOp list) + exporters" where
  "buildExporters w cfg =
     andThen (andThen (otlpStage w cfg \<lparr>exList = [], exFiles = [], exLog = []\<rparr>) (fileStage w cfg)) (stderrStage w cfg)"

text \<open>
  The result of \<^verbatim>\<open>Setup\<close>: whether the tracer is a real one, what the returned shutdown function
  does, the error, and what was done.
\<close>

record setupResult =
  srTraces :: bool
  srShutdown :: "traceOp list"
  srErr :: "traceErr option"
  srLog :: "traceOp list"

definition noopTracer :: "traceErr option \<Rightarrow> traceOp list \<Rightarrow> setupResult" where
  "noopTracer err log = \<lparr>srTraces = False, srShutdown = [], srErr = err, srLog = log\<rparr>"

definition Setup :: "traceWorld \<Rightarrow> TraceConfig \<Rightarrow> setupResult" where
  "Setup w cfg =
     (case buildExporters w cfg of
        Inl (err, log) \<Rightarrow> noopTracer (Some err) log
      | Inr ex \<Rightarrow>
          if exList ex = [] then noopTracer None (exLog ex)
          else (case twResource w of
                  Some e \<Rightarrow>
                    noopTracer (Some (ResourceErr e))
                      (exLog ex @ map ShutdownExporter (exList ex) @ closeFiles (exFiles ex))
                | None \<Rightarrow>
                    \<lparr>srTraces = True,
                     srShutdown = ProviderShutdown (exList ex) # closeFiles (exFiles ex),
                     srErr = None,
                     srLog = exLog ex @ [SetTracerProvider (exList ex)]\<rparr>))"

section \<open>Vertex spans (vertex.go)\<close>

text \<open>
  A span with the calls made on it: its options, the last error status, and the \<^verbatim>\<open>End\<close> calls
  (with a time stamp or without).
\<close>

record span =
  spName :: string
  spStarted :: int
  spCached :: bool
  spVertex :: string
  spDigest :: string
  spStatus :: "string option"
  spEnds :: "int option list"

text \<open>The observer holds its spans by their position among those it started.\<close>

record SpanObserver =
  obInflight :: "(string, nat) gomap"
  obSpans :: "span list"

definition NewObserver :: SpanObserver where
  "NewObserver = \<lparr>obInflight = [], obSpans = []\<rparr>"

definition startSpan :: "Vertex \<Rightarrow> SpanObserver \<Rightarrow> SpanObserver" where
  "startSpan v ob =
     (case vStarted v of
        None \<Rightarrow> ob
      | Some t \<Rightarrow>
          if map_of (obInflight ob) (vDigest v) \<noteq> None then ob
          else ob\<lparr>obSpans := obSpans ob @
                    [\<lparr>spName = ''vertex/'' @ vName v, spStarted = t, spCached = vCached v, spVertex = vName v,
                      spDigest = vDigest v, spStatus = None, spEnds = []\<rparr>],
                  obInflight := mput (vDigest v) (length (obSpans ob)) (obInflight ob)\<rparr>)"

definition endSpan :: "string \<Rightarrow> int option \<Rightarrow> span \<Rightarrow> span" where
  "endSpan err t s = s\<lparr>spStatus := (if err \<noteq> [] then Some err else spStatus s), spEnds := spEnds s @ [t]\<rparr>"

definition updateSpan :: "nat \<Rightarrow> (span \<Rightarrow> span) \<Rightarrow> SpanObserver \<Rightarrow> SpanObserver" where
  "updateSpan i f ob = ob\<lparr>obSpans := (obSpans ob)[i := f (obSpans ob ! i)]\<rparr>"

definition completeSpan :: "Vertex \<Rightarrow> SpanObserver \<Rightarrow> SpanObserver" where
  "completeSpan v ob =
     (case vCompleted v of
        None \<Rightarrow> ob
      | Some t \<Rightarrow>
          (case map_of (obInflight ob) (vDigest v) of
             None \<Rightarrow> ob
           | Some i \<Rightarrow>
               (updateSpan i (endSpan (vError v) (Some t)) ob)
                 \<lparr>obInflight := AList.delete (vDigest v) (obInflight ob)\<rparr>))"

text \<open>A nil vertex is dereferenced: a panic (\<open>None\<close>).\<close>

definition observeSpan :: "Vertex option \<Rightarrow> SpanObserver \<Rightarrow> SpanObserver option" where
  "observeSpan ov ob = map_option (\<lambda>v. completeSpan v (startSpan v ob)) ov"

definition ObserveSpans :: "SolveStatus option \<Rightarrow> SpanObserver \<Rightarrow> SpanObserver option" where
  "ObserveSpans status ob =
     (case status of None \<Rightarrow> Some ob | Some st \<Rightarrow> runMsgs observeSpan (ssVertexes st) ob)"

text \<open>\<^verbatim>\<open>Flush\<close> walks the map in an order of its own, the argument \<open>walk\<close>.\<close>

definition flushSpan :: "string \<times> nat \<Rightarrow> SpanObserver \<Rightarrow> SpanObserver" where
  "flushSpan di ob =
     (updateSpan (snd di) (endSpan ''vertex did not complete'' None) ob)
       \<lparr>obInflight := AList.delete (fst di) (obInflight ob)\<rparr>"

definition Flush :: "((string, nat) gomap \<Rightarrow> (string, nat) gomap) \<Rightarrow> SpanObserver \<Rightarrow> SpanObserver" where
  "Flush walk ob = fold flushSpan (walk (obInflight ob)) ob"

section \<open>Every exporter and file is released\<close>

text \<open>
  The resources alive along a log of calls. It has no value when a file is closed while an exporter
  still writes to it, or something is released that is not alive.
\<close>

fun releases :: "traceOp \<Rightarrow> exporter list \<times> string list \<Rightarrow> (exporter list \<times> string list) option" where
  "releases (NewExporter e) (es, fs) = Some (e # es, fs)"
| "releases (ShutdownExporter e) (es, fs) = (if e \<in> set es then Some (remove1 e es, fs) else None)"
| "releases (OpenTraceFile f) (es, fs) = Some (es, f # fs)"
| "releases (CloseTraceFile f) (es, fs) =
     (if f \<in> set fs \<and> FileExporter f \<notin> set es then Some (es, remove1 f fs) else None)"
| "releases (SetTracerProvider xs) (es, fs) = Some (es, fs)"
| "releases (ProviderShutdown xs) (es, fs) =
     (if set xs \<subseteq> set es then Some (fold remove1 xs es, fs) else None)"

text \<open>Nothing the tracer opens is left behind. Whatever the configuration and whichever
  step of the set-up fails, every exporter it started is shut down and every file it opened is
  closed, each once and a file only after its exporter: when the set-up fails, before it returns;
  when it succeeds, by the shutdown function it returns.\<close>

theorem Setup_releases:
  "runMsgs releases (srLog (Setup w cfg) @ srShutdown (Setup w cfg)) ([], []) = Some ([], []) \<and>
   (srErr (Setup w cfg) \<noteq> None \<longrightarrow> \<not> srTraces (Setup w cfg) \<and> srShutdown (Setup w cfg) = []) \<and>
   (srErr (Setup w cfg) = None \<longrightarrow>
      srTraces (Setup w cfg) = (tcEndpoint cfg \<noteq> [] \<or> tcFile cfg \<noteq> [] \<or> tcStdout cfg))"
  by (auto simp: Setup_def buildExporters_def andThen_def otlpStage_def fileStage_def stderrStage_def
        failWith_def addExporter_def closeFiles_def noopTracer_def Let_def
      split: option.splits sum.splits if_splits)


definition sampleTraceConfig :: TraceConfig where
  "sampleTraceConfig = \<lparr>tcEndpoint = ''http://otel:4317'', tcFile = ''spans.json'', tcStdout = True\<rparr>"

definition sampleTraceWorld :: "string option \<Rightarrow> traceWorld" where
  "sampleTraceWorld res = \<lparr>twOtlp = (\<lambda>_. None), twOpen = (\<lambda>_. None), twFile = (\<lambda>_. None), twStderr = res, twResource = None\<rparr>"

theorem Setup_releases_witness:
  "srErr (Setup (sampleTraceWorld (Some ''closed'')) sampleTraceConfig) = Some (StderrExporterErr ''closed'') \<and>
   runMsgs releases (srLog (Setup (sampleTraceWorld (Some ''closed'')) sampleTraceConfig)) ([], []) = Some ([], []) \<and>
   srTraces (Setup (sampleTraceWorld None) sampleTraceConfig)"
proof -
  have e: "srErr (Setup (sampleTraceWorld (Some ''closed'')) sampleTraceConfig) = Some (StderrExporterErr ''closed'')"
    "srErr (Setup (sampleTraceWorld None) sampleTraceConfig) = None" by code_simp+
  have "tcStdout sampleTraceConfig" by code_simp
  with e Setup_releases [of "sampleTraceWorld (Some ''closed'')" sampleTraceConfig]
    Setup_releases [of "sampleTraceWorld None" sampleTraceConfig]
  show ?thesis by simp (metis append_Nil2)
qed

section \<open>Every span ends once\<close>

text \<open>A digest whose vertex has started and has not completed since.\<close>

definition pendingVertex :: "Vertex list \<Rightarrow> string \<Rightarrow> bool" where
  "pendingVertex vs d \<longleftrightarrow>
     (\<exists>us v ws. vs = us @ v # ws \<and> vDigest v = d \<and> vStarted v \<noteq> None \<and>
        (\<forall>x\<in>set (v # ws). vDigest x = d \<longrightarrow> vCompleted x = None))"

definition endedBy :: "Vertex list \<Rightarrow> span \<Rightarrow> bool" where
  "endedBy vs s \<longleftrightarrow>
     (\<exists>v\<in>set vs. vDigest v = spDigest s \<and> vCompleted v \<noteq> None \<and> spEnds s = [vCompleted v] \<and>
        spStatus s = (if vError v = [] then None else Some (vError v)))"

definition flushed :: "span \<Rightarrow> bool" where
  "flushed s \<longleftrightarrow> spEnds s = [None] \<and> spStatus s = Some ''vertex did not complete''"

definition running :: "span \<Rightarrow> bool" where
  "running s \<longleftrightarrow> spEnds s = [] \<and> spStatus s = None"

definition startedDigests :: "Vertex list \<Rightarrow> string set" where
  "startedDigests vs = vDigest ` {v \<in> set vs. vStarted v \<noteq> None}"

text \<open>The observer after the vertexes \<open>vs\<close>.\<close>

definition spanInv :: "Vertex list \<Rightarrow> SpanObserver \<Rightarrow> bool" where
  "spanInv vs ob \<longleftrightarrow>
     wfmap (obInflight ob) \<and>
     (\<forall>d. map_of (obInflight ob) d = None \<longleftrightarrow> \<not> pendingVertex vs d) \<and>
     (\<forall>d i. map_of (obInflight ob) d = Some i \<longrightarrow>
        i < length (obSpans ob) \<and> spDigest (obSpans ob ! i) = d \<and> running (obSpans ob ! i)) \<and>
     (\<forall>i<length (obSpans ob). map_of (obInflight ob) (spDigest (obSpans ob ! i)) = Some i \<or> endedBy vs (obSpans ob ! i)) \<and>
     spDigest ` set (obSpans ob) = startedDigests vs"

lemma pendingVertex_snoc:
  "pendingVertex (vs @ [v]) d \<longleftrightarrow>
     (if vDigest v = d then vCompleted v = None \<and> (vStarted v \<noteq> None \<or> pendingVertex vs d) else pendingVertex vs d)"
proof -
  have split: "(\<exists>us x ws. vs @ [v] = us @ x # ws \<and> P x ws) \<longleftrightarrow>
      P v [] \<or> (\<exists>us x ws. vs = us @ x # ws \<and> P x (ws @ [v]))" for P :: "Vertex \<Rightarrow> Vertex list \<Rightarrow> bool"
  proof
    assume "\<exists>us x ws. vs @ [v] = us @ x # ws \<and> P x ws"
    then obtain us x ws where "vs @ [v] = us @ x # ws" "P x ws" by blast
    then show "P v [] \<or> (\<exists>us x ws. vs = us @ x # ws \<and> P x (ws @ [v]))"
      by (cases ws rule: rev_cases) auto
  next
    assume "P v [] \<or> (\<exists>us x ws. vs = us @ x # ws \<and> P x (ws @ [v]))"
    then show "\<exists>us x ws. vs @ [v] = us @ x # ws \<and> P x ws"
    proof
      assume "\<exists>us x ws. vs = us @ x # ws \<and> P x (ws @ [v])"
      then obtain us x ws where "vs = us @ x # ws" "P x (ws @ [v])" by blast
      then have "vs @ [v] = us @ x # (ws @ [v]) \<and> P x (ws @ [v])" by simp
      then show ?thesis by blast
    qed blast
  qed
  define Q :: "Vertex \<Rightarrow> Vertex list \<Rightarrow> bool" where "Q = (\<lambda>x ws. vDigest x = d \<and> vStarted x \<noteq> None \<and>
    (\<forall>y\<in>set (x # ws). vDigest y = d \<longrightarrow> vCompleted y = None))"
  have pend: "pendingVertex us d \<longleftrightarrow> (\<exists>u x ws. us = u @ x # ws \<and> Q x ws)" for us
    by (simp add: pendingVertex_def Q_def)
  have "Q x (ws @ [v]) \<longleftrightarrow> Q x ws \<and> (vDigest v = d \<longrightarrow> vCompleted v = None)"
    "Q v [] \<longleftrightarrow> vDigest v = d \<and> vStarted v \<noteq> None \<and> vCompleted v = None" for x ws
    by (auto simp: Q_def)
  then show ?thesis unfolding pend split by (simp only:) (auto 0 2)
qed

lemma endedBy_mono: "endedBy vs s \<Longrightarrow> endedBy (vs @ [v]) s"
  by (auto simp: endedBy_def)

lemma spanInvI:
  assumes "wfmap (obInflight ob)" "\<And>d. map_of (obInflight ob) d = None \<longleftrightarrow> \<not> pendingVertex vs d"
    and "\<And>d i. map_of (obInflight ob) d = Some i \<Longrightarrow>
        i < length (obSpans ob) \<and> spDigest (obSpans ob ! i) = d \<and> running (obSpans ob ! i)"
    and "\<And>i. i < length (obSpans ob) \<Longrightarrow>
        map_of (obInflight ob) (spDigest (obSpans ob ! i)) = Some i \<or> endedBy vs (obSpans ob ! i)"
    and "spDigest ` set (obSpans ob) = startedDigests vs"
  shows "spanInv vs ob"
  using assms by (simp add: spanInv_def)

lemma spanInvD:
  assumes "spanInv vs ob"
  shows "wfmap (obInflight ob)" "map_of (obInflight ob) d = None \<longleftrightarrow> \<not> pendingVertex vs d"
    and "map_of (obInflight ob) d = Some i \<Longrightarrow>
        i < length (obSpans ob) \<and> spDigest (obSpans ob ! i) = d \<and> running (obSpans ob ! i)"
    and "i < length (obSpans ob) \<Longrightarrow>
        map_of (obInflight ob) (spDigest (obSpans ob ! i)) = Some i \<or> endedBy vs (obSpans ob ! i)"
    and "spDigest ` set (obSpans ob) = startedDigests vs"
  using assms by (simp_all add: spanInv_def)

lemma spanInv_more:
  assumes "spanInv us ob" "\<And>d. pendingVertex vs d \<longleftrightarrow> pendingVertex us d"
    and "startedDigests vs = startedDigests us" "\<And>s. endedBy us s \<Longrightarrow> endedBy vs s"
  shows "spanInv vs ob"
proof (rule spanInvI)
  show "map_of (obInflight ob) (spDigest (obSpans ob ! i)) = Some i \<or> endedBy vs (obSpans ob ! i)"
    if "i < length (obSpans ob)" for i
    using spanInvD(4) [OF assms(1) that] assms(4) by blast
qed (use spanInvD [OF assms(1)] assms(2,3) in auto)

lemma startedDigests_append [simp]: "startedDigests (us @ vs) = startedDigests us \<union> startedDigests vs"
  by (auto simp: startedDigests_def)

lemma startedDigests_single [simp]: "startedDigests [v] = (if vStarted v = None then {} else {vDigest v})"
  by (auto simp: startedDigests_def)

text \<open>A vertex in two halves: its start and its completion.\<close>

lemma startSpan_inv:
  assumes "spanInv vs ob" "vCompleted v = None"
  shows "spanInv (vs @ [v]) (startSpan v ob)"
proof (cases "vStarted v = None \<or> map_of (obInflight ob) (vDigest v) \<noteq> None")
  case True
  have "startedDigests (vs @ [v]) = startedDigests vs"
  proof (cases "vStarted v")
    case (Some t)
    with True obtain i where "map_of (obInflight ob) (vDigest v) = Some i" by auto
    from spanInvD(3) [OF assms(1) this] have "vDigest v \<in> spDigest ` set (obSpans ob)"
      by (metis image_eqI nth_mem)
    then show ?thesis using spanInvD(5) [OF assms(1)] by auto
  qed simp
  moreover have "startSpan v ob = ob" using True by (auto simp: startSpan_def split: option.split)
  moreover have "pendingVertex (vs @ [v]) d \<longleftrightarrow> pendingVertex vs d" for d
    using True assms(2) spanInvD(2) [OF assms(1), of d] by (auto simp: pendingVertex_snoc)
  ultimately show ?thesis using spanInv_more [OF assms(1)] endedBy_mono by simp
next
  case False
  then obtain t where t: "vStarted v = Some t" "map_of (obInflight ob) (vDigest v) = None" by auto
  let ?s = "\<lparr>spName = ''vertex/'' @ vName v, spStarted = t, spCached = vCached v, spVertex = vName v,
             spDigest = vDigest v, spStatus = None, spEnds = []\<rparr>"
  let ?ob = "ob\<lparr>obSpans := obSpans ob @ [?s],
      obInflight := mput (vDigest v) (length (obSpans ob)) (obInflight ob)\<rparr>"
  have "spanInv (vs @ [v]) ?ob"
  proof (rule spanInvI)
    show "map_of (obInflight ?ob) d = None \<longleftrightarrow> \<not> pendingVertex (vs @ [v]) d" for d
      using t assms(2) spanInvD(2) [OF assms(1), of d] by (simp add: pendingVertex_snoc)
    show "i < length (obSpans ?ob) \<and> spDigest (obSpans ?ob ! i) = d \<and> running (obSpans ?ob ! i)"
      if "map_of (obInflight ?ob) d = Some i" for d i
      using spanInvD(3) [OF assms(1), of d i] that
      by (auto simp: nth_append running_def split: if_splits)
    show "map_of (obInflight ?ob) (spDigest (obSpans ?ob ! i)) = Some i \<or> endedBy (vs @ [v]) (obSpans ?ob ! i)"
      if "i < length (obSpans ?ob)" for i
    proof (cases "i < length (obSpans ob)")
      case True
      with spanInvD(4) [OF assms(1) True] t(2) show ?thesis by (auto simp: nth_append endedBy_mono)
    qed (use that in \<open>simp add: nth_append less_Suc_eq\<close>)
  qed (use spanInvD(1,5) [OF assms(1)] t in auto)
  moreover have "startSpan v ob = ?ob" using t by (simp add: startSpan_def)
  ultimately show ?thesis by simp
qed

lemma completeSpan_inv:
  assumes "spanInv (vs @ [v\<lparr>vCompleted := None\<rparr>]) ob"
  shows "spanInv (vs @ [v]) (completeSpan v ob)"
proof (cases "vCompleted v")
  case None
  then have "v\<lparr>vCompleted := None\<rparr> = v" by (cases v) simp
  with assms None show ?thesis by (simp add: completeSpan_def)
next
  case t: (Some t)
  have sd: "startedDigests (vs @ [v]) = startedDigests (vs @ [v\<lparr>vCompleted := None\<rparr>])" by simp
  have eb: "endedBy (vs @ [v]) s" if "endedBy (vs @ [v\<lparr>vCompleted := None\<rparr>]) s" for s
    using that by (auto simp: endedBy_def)
  have pv: "pendingVertex (vs @ [v]) d \<longleftrightarrow> d \<noteq> vDigest v \<and> pendingVertex (vs @ [v\<lparr>vCompleted := None\<rparr>]) d" for d
    using t by (auto simp: pendingVertex_snoc)
  show ?thesis
  proof (cases "map_of (obInflight ob) (vDigest v)")
    case None
    with spanInvD(2) [OF assms] pv have "pendingVertex (vs @ [v]) d \<longleftrightarrow> pendingVertex (vs @ [v\<lparr>vCompleted := None\<rparr>]) d" for d
      by auto
    with spanInv_more [OF assms _ sd eb] None t show ?thesis by (simp add: completeSpan_def)
  next
    case (Some i)
    note i = spanInvD(3) [OF assms Some]
    let ?s = "endSpan (vError v) (Some t) (obSpans ob ! i)"
    let ?ob = "ob\<lparr>obSpans := (obSpans ob)[i := ?s], obInflight := AList.delete (vDigest v) (obInflight ob)\<rparr>"
    have e: "endedBy (vs @ [v]) ?s" and dig: "spDigest ?s = vDigest v"
      using i t by (auto simp: endedBy_def endSpan_def running_def)
    have "map spDigest ((obSpans ob)[i := ?s]) = map spDigest (obSpans ob)"
      using i dig by (metis list_update_id map_update)
    then have digs: "spDigest ` set ((obSpans ob)[i := ?s]) = spDigest ` set (obSpans ob)"
      by (metis list.set_map)
    have "spanInv (vs @ [v]) ?ob"
    proof (rule spanInvI)
      show "map_of (obInflight ?ob) d = None \<longleftrightarrow> \<not> pendingVertex (vs @ [v]) d" for d
        using spanInvD(2) [OF assms, of d] pv by (auto simp: delete_conv')
      show "j < length (obSpans ?ob) \<and> spDigest (obSpans ?ob ! j) = d \<and> running (obSpans ?ob ! j)"
        if "map_of (obInflight ?ob) d = Some j" for d j
        using spanInvD(3) [OF assms, of d j] i that by (auto simp: delete_conv' nth_list_update split: if_splits)
      show "map_of (obInflight ?ob) (spDigest (obSpans ?ob ! j)) = Some j \<or> endedBy (vs @ [v]) (obSpans ?ob ! j)"
        if "j < length (obSpans ?ob)" for j
      proof (cases "j = i")
        case False
        with spanInvD(4) [OF assms, of j] Some eb that show ?thesis by (auto simp: delete_conv')
      qed (use e i in simp)
    qed (use spanInvD(1,5) [OF assms] digs in auto)
    with t Some show ?thesis by (simp add: completeSpan_def updateSpan_def)
  qed
qed

lemma observeSpan_inv:
  assumes "spanInv vs ob"
  shows "\<exists>ob'. observeSpan (Some v) ob = Some ob' \<and> spanInv (vs @ [v]) ob'"
proof -
  have "startSpan (v\<lparr>vCompleted := None\<rparr>) ob = startSpan v ob"
    by (simp add: startSpan_def split: option.split)
  with startSpan_inv [OF assms, of "v\<lparr>vCompleted := None\<rparr>"]
  have "spanInv (vs @ [v]) (completeSpan v (startSpan v ob))" by (auto intro: completeSpan_inv)
  then show ?thesis by (simp add: observeSpan_def)
qed


definition observeStatuses :: "SolveStatus list \<Rightarrow> SpanObserver option" where
  "observeStatuses sts = runMsgs (\<lambda>st. ObserveSpans (Some st)) sts NewObserver"

definition statusVertexes :: "SolveStatus list \<Rightarrow> Vertex list" where
  "statusVertexes sts = map the (concat (map ssVertexes sts))"

lemma observeSpans_inv:
  "spanInv vs ob \<Longrightarrow> None \<notin> set ovs \<Longrightarrow> \<exists>ob'. runMsgs observeSpan ovs ob = Some ob' \<and> spanInv (vs @ map the ovs) ob'"
proof (induction ovs arbitrary: vs ob)
  case (Cons ov ovs)
  then obtain v where v: "ov = Some v" by (cases ov) auto
  obtain ob1 where ob1: "observeSpan (Some v) ob = Some ob1" "spanInv (vs @ [v]) ob1"
    using observeSpan_inv [OF Cons.prems(1)] by blast
  with Cons.IH [OF ob1(2)] Cons.prems(2) v show ?case by auto
qed simp

lemma observeStatuses_inv:
  assumes "\<forall>st\<in>set sts. None \<notin> set (ssVertexes st)"
  shows "\<exists>ob. observeStatuses sts = Some ob \<and> spanInv (statusVertexes sts) ob"
proof -
  have "spanInv vs ob \<Longrightarrow> \<exists>ob'. runMsgs (\<lambda>st. ObserveSpans (Some st)) sts ob = Some ob' \<and>
      spanInv (vs @ statusVertexes sts) ob'" for vs ob
    using assms
  proof (induction sts arbitrary: vs ob)
    case (Cons st sts)
    then obtain ob1 where ob1: "runMsgs observeSpan (ssVertexes st) ob = Some ob1"
      "spanInv (vs @ map the (ssVertexes st)) ob1" using observeSpans_inv by (metis list.set_intros(1))
    with Cons.IH [OF ob1(2)] Cons.prems(2) show ?case by (simp add: ObserveSpans_def statusVertexes_def)
  qed (simp add: statusVertexes_def)
  moreover have "spanInv [] NewObserver"
    by (simp add: spanInv_def NewObserver_def pendingVertex_def startedDigests_def)
  ultimately show ?thesis by (fastforce simp: observeStatuses_def)
qed

text \<open>Flushing ends the spans still in flight, whatever the order of the walk.\<close>

lemma flush_spans:
  "distinct (map snd es) \<Longrightarrow> \<forall>(d, i)\<in>set es. i < length (obSpans ob) \<and> running (obSpans ob ! i) \<Longrightarrow>
     obSpans (fold flushSpan es ob) =
       map (\<lambda>i. if i \<in> snd ` set es then endSpan ''vertex did not complete'' None (obSpans ob ! i) else obSpans ob ! i)
         [0..<length (obSpans ob)] \<and>
     obInflight (fold flushSpan es ob) = fold (\<lambda>(d, i). AList.delete d) es (obInflight ob)"
proof (induction es arbitrary: ob)
  case (Cons e es)
  obtain d i where e: "e = (d, i)" by (cases e)
  let ?ob = "flushSpan (d, i) ob"
  have sp: "obSpans ?ob = (obSpans ob)[i := endSpan ''vertex did not complete'' None (obSpans ob ! i)]"
    "obInflight ?ob = AList.delete d (obInflight ob)"
    by (simp_all add: flushSpan_def updateSpan_def)
  have "\<forall>(d, j)\<in>set es. j < length (obSpans ?ob) \<and> running (obSpans ?ob ! j)"
    using Cons.prems e sp by (force simp: nth_list_update)
  with Cons.IH [of ?ob] Cons.prems(1) e have IH:
    "obSpans (fold flushSpan es ?ob) =
       map (\<lambda>j. if j \<in> snd ` set es then endSpan ''vertex did not complete'' None (obSpans ?ob ! j) else obSpans ?ob ! j)
         [0..<length (obSpans ?ob)]"
    "obInflight (fold flushSpan es ?ob) = fold (\<lambda>(d, i). AList.delete d) es (obInflight ?ob)" by auto
  show ?case
    using Cons.prems IH sp e by (auto simp: nth_list_update intro!: nth_equalityI)
qed (simp add: map_nth)

lemma fold_delete_all: "set (map fst m) \<subseteq> set (map fst es) \<Longrightarrow> fold (\<lambda>(d, i). AList.delete d) es m = []"
proof (induction es arbitrary: m)
  case (Cons e es)
  obtain d i where e: "e = (d, i)" by (cases e)
  have "set (map fst (AList.delete d m)) \<subseteq> set (map fst m) - {d}" by (auto simp: AList.delete_eq)
  moreover have "set (map fst m) - {d} \<subseteq> set (map fst es)" using Cons.prems e by auto
  ultimately have "set (map fst (AList.delete d m)) \<subseteq> set (map fst es)" by (rule order_trans)
  from Cons.IH [OF this] show ?case by (simp add: e)
qed simp

lemma Flush_spans:
  assumes inv: "spanInv vs ob" and "\<forall>m. mset (walk m) = mset m"
  shows "length (obSpans (Flush walk ob)) = length (obSpans ob)" "obInflight (Flush walk ob) = []"
    and "i < length (obSpans ob) \<Longrightarrow> obSpans (Flush walk ob) ! i =
      (if map_of (obInflight ob) (spDigest (obSpans ob ! i)) = Some i
       then endSpan ''vertex did not complete'' None (obSpans ob ! i) else obSpans ob ! i)"
proof -
  let ?m = "obInflight ob" and ?sp = "obSpans ob" and ?es = "walk (obInflight ob)"
  have es: "set ?es = set ?m" "distinct (map fst ?es)"
    using assms(2) mset_eq_setD [of ?es ?m] mset_eq_imp_distinct_iff [of "map fst ?es" "map fst ?m"]
      spanInvD(1) [OF inv] by (auto simp: wfmap_def)
  have look: "map_of ?m d = Some i \<longleftrightarrow> (d, i) \<in> set ?m" for d i
    using spanInvD(1) [OF inv] by (simp add: wfmap_def map_of_eq_Some_iff)
  have held: "i < length ?sp \<and> spDigest (?sp ! i) = d \<and> running (?sp ! i)" if "(d, i) \<in> set ?es" for d i
    using spanInvD(3) [OF inv] look es(1) that by blast
  have "map fst ?es = map (\<lambda>i. spDigest (?sp ! i)) (map snd ?es)" using held by auto
  with es(2) have "distinct (map snd ?es)" by (metis distinct_map)
  then have fl: "obSpans (Flush walk ob) = map (\<lambda>i. if i \<in> snd ` set ?m
      then endSpan ''vertex did not complete'' None (?sp ! i) else ?sp ! i) [0..<length ?sp]"
    "obInflight (Flush walk ob) = fold (\<lambda>(d, i). AList.delete d) ?es ?m"
    using flush_spans [of ?es ob] held es(1) by (auto simp: Flush_def)
  show "length (obSpans (Flush walk ob)) = length (obSpans ob)" by (simp add: fl(1))
  show "obInflight (Flush walk ob) = []" using es(1) by (simp add: fl(2) fold_delete_all)
  have "i \<in> snd ` set ?m \<longleftrightarrow> map_of ?m (spDigest (?sp ! i)) = Some i" for i
    using held es(1) look by force
  then show "i < length (obSpans ob) \<Longrightarrow> obSpans (Flush walk ob) ! i =
      (if map_of (obInflight ob) (spDigest (obSpans ob ! i)) = Some i
       then endSpan ''vertex did not complete'' None (obSpans ob ! i) else obSpans ob ! i)"
    by (simp add: fl(1))
qed

lemma Flush_nth:
  assumes "spanInv vs ob" "\<forall>m. mset (walk m) = mset m" "i < length (obSpans ob)" "s = obSpans (Flush walk ob) ! i"
  shows "spDigest s = spDigest (obSpans ob ! i)"
    and "if map_of (obInflight ob) (spDigest s) = Some i then flushed s else endedBy vs s"
proof -
  show d: "spDigest s = spDigest (obSpans ob ! i)"
    using assms(4) Flush_spans(3) [OF assms(1-3)] by (simp add: endSpan_def)
  show "if map_of (obInflight ob) (spDigest s) = Some i then flushed s else endedBy vs s"
    unfolding d
    using assms(4) Flush_spans(3) [OF assms(1-3)] spanInvD(4) [OF assms(1,3)]
      spanInvD(3) [OF assms(1), of "spDigest (obSpans ob ! i)" i]
    by (auto simp: flushed_def endSpan_def running_def)
qed

text \<open>Every span ends exactly once. For any stream of statuses without nil vertexes and
  whatever order the map is walked in, the observer does not panic; after the flush nothing is
  in flight, the spans are those of the vertexes that started, and each has one end: that of a
  completion of its vertex, with its time and error, or the flush's, which marks precisely the
  vertexes that started and have not completed since.\<close>

theorem spans_end_once:
  assumes "\<forall>st\<in>set sts. None \<notin> set (ssVertexes st)" "\<forall>m. mset (walk m) = mset m"
  shows "\<exists>ob. map_option (Flush walk) (observeStatuses sts) = Some ob \<and> obInflight ob = [] \<and>
    (\<forall>s\<in>set (obSpans ob). length (spEnds s) = 1 \<and> (endedBy (statusVertexes sts) s \<or> flushed s)) \<and>
    spDigest ` set (obSpans ob) = startedDigests (statusVertexes sts) \<and>
    (\<forall>d. (\<exists>s\<in>set (obSpans ob). spDigest s = d \<and> flushed s) = pendingVertex (statusVertexes sts) d)"
proof -
  let ?vs = "statusVertexes sts"
  obtain ob where ob: "observeStatuses sts = Some ob" and inv: "spanInv ?vs ob"
    using observeStatuses_inv [OF assms(1)] by blast
  let ?ob = "Flush walk ob"
  note len = Flush_spans(1) [OF inv assms(2)] and nth = Flush_nth [OF inv assms(2)]
  have excl: "\<not> (endedBy ?vs s \<and> flushed s)" "endedBy ?vs s \<or> flushed s \<Longrightarrow> length (spEnds s) = 1" for s
    by (auto simp: endedBy_def flushed_def)
  have one: "length (spEnds s) = 1 \<and> (endedBy ?vs s \<or> flushed s)" if "s \<in> set (obSpans ?ob)" for s
  proof -
    from that len obtain i where "i < length (obSpans ob)" "s = obSpans ?ob ! i" by (metis in_set_conv_nth)
    from nth(2) [OF this] excl(2) [of s] show ?thesis by (auto split: if_splits)
  qed
  have "map spDigest (obSpans ?ob) = map spDigest (obSpans ob)"
    by (rule nth_equalityI) (simp_all add: len nth(1) [OF _ refl])
  then have digs: "spDigest ` set (obSpans ?ob) = startedDigests ?vs"
    using spanInvD(5) [OF inv] by (metis list.set_map)
  have pend: "(\<exists>s\<in>set (obSpans ?ob). spDigest s = d \<and> flushed s) = pendingVertex ?vs d" for d
  proof
    assume "\<exists>s\<in>set (obSpans ?ob). spDigest s = d \<and> flushed s"
    then obtain s i where "i < length (obSpans ob)" "s = obSpans ?ob ! i" "spDigest s = d" "flushed s"
      using len by (metis in_set_conv_nth)
    with nth(2) [of i s] excl(1) [of s] have "map_of (obInflight ob) d = Some i" by (auto split: if_splits)
    then show "pendingVertex ?vs d" using spanInvD(2) [OF inv, of d] by auto
  next
    assume "pendingVertex ?vs d"
    then obtain i where i: "map_of (obInflight ob) d = Some i" using spanInvD(2) [OF inv, of d] by auto
    have lt: "i < length (obSpans ob)" and d: "spDigest (obSpans ob ! i) = d" using spanInvD(3) [OF inv i] by auto
    have "obSpans ?ob ! i \<in> set (obSpans ?ob)" using lt len by simp
    moreover have "flushed (obSpans ?ob ! i)" "spDigest (obSpans ?ob ! i) = d"
      using nth [OF lt refl] d i by simp_all
    ultimately show "\<exists>s\<in>set (obSpans ?ob). spDigest s = d \<and> flushed s" by blast
  qed
  show ?thesis using ob Flush_spans(2) [OF inv assms(2)] one pend digs by auto
qed

definition sampleVertex :: "string \<Rightarrow> int option \<Rightarrow> string \<Rightarrow> Vertex option" where
  "sampleVertex d t err =
     Some \<lparr>vDigest = d, vName = d, vStarted = Some 1, vCompleted = t, vCached = False, vError = err\<rparr>"

definition sampleStream :: "SolveStatus list" where
  "sampleStream =
     [\<lparr>ssVertexes = [sampleVertex ''a'' None [], sampleVertex ''b'' None []], ssLogs = [], ssWarnings = []\<rparr>,
      \<lparr>ssVertexes = [sampleVertex ''a'' (Some 5) ''boom''], ssLogs = [], ssWarnings = []\<rparr>]"

theorem spans_end_once_witness:
  "\<exists>ob. map_option (Flush rev) (observeStatuses sampleStream) = Some ob \<and>
     (\<forall>s\<in>set (obSpans ob). length (spEnds s) = 1) \<and> (\<exists>s\<in>set (obSpans ob). spDigest s = ''b'' \<and> flushed s)"
proof -
  have ok: "\<forall>st\<in>set sampleStream. None \<notin> set (ssVertexes st)" by code_simp
  have "statusVertexes sampleStream =
      [the (sampleVertex ''a'' None [])] @ the (sampleVertex ''b'' None []) # [the (sampleVertex ''a'' (Some 5) ''boom'')]"
    by (simp add: statusVertexes_def sampleStream_def)
  then have "pendingVertex (statusVertexes sampleStream) ''b''"
    unfolding pendingVertex_def by (intro exI, intro conjI, assumption) (auto simp: sampleVertex_def)
  with spans_end_once [OF ok, of rev] show ?thesis by auto
qed

text \<open>
  A vertex that is reported again after its completion gets a second span: the map only knows the
  spans in flight, where the cache collector remembers every digest it has counted.
\<close>

lemma repeated_vertex_two_spans:
  "map_option (length \<circ> obSpans) (observeStatuses
     [\<lparr>ssVertexes = [sampleVertex ''a'' (Some 5) []], ssLogs = [], ssWarnings = []\<rparr>,
      \<lparr>ssVertexes = [sampleVertex ''a'' (Some 5) []], ssLogs = [], ssWarnings = []\<rparr>]) = Some 2"
  by code_simp

end
