(* ===== verification/Status_Session.thy ===== *)
theory Status_Session
  imports Plain_Display Vertex_Tracing Runner_Retry
begin

text \<open>
  A solve with its status session (\<^verbatim>\<open>newStatusSession\<close> in \<^verbatim>\<open>internal/runner/status.go\<close>, \<^verbatim>\<open>solveJob\<close>
  and \<^verbatim>\<open>solveJobSteps\<close> in \<^verbatim>\<open>solve.go\<close>): the stream of BuildKit's statuses goes through redaction, the cache
  collector and the span observer to the display. What the goroutines observe (the order of their
  events and when the context is cancelled) is an argument.
\<close>

section \<open>Sessions (status.go)\<close>

text \<open>What the bridge sees: a status (which may be nil), the channel closed or the context done.\<close>

datatype bridgeEvent = BridgeRecv "SolveStatus option" | BridgeClosed | BridgeDone

fun bridge :: "string \<Rightarrow> bridgeEvent list \<Rightarrow> Msg list" where
  "bridge name (BridgeRecv st # es) = JobStatusMsg name st # bridge name es"
| "bridge name es = [JobDoneMsg name]"

record sessionConfig =
  scSort :: "string list \<Rightarrow> string list"
  scSecrets :: "(string, string) gomap"
  scCollector :: "Collector option"

text \<open>
  The statuses that leave the tee, with the collector and what the observer has seen. Without a
  collector, secrets and an observer the source channel itself is returned, nil statuses included.
\<close>

fun sourceStatuses :: "teeEvent list \<Rightarrow> SolveStatus option list" where
  "sourceStatuses (Recv st # es) = st # sourceStatuses es"
| "sourceStatuses es = []"

definition teeStage ::
  "sessionConfig \<Rightarrow> bool \<Rightarrow> string \<Rightarrow> teeEvent list \<Rightarrow>
     (SolveStatus option list \<times> Collector option \<times> SolveStatus list) option" where
  "teeStage cfg observed name es =
     (if scCollector cfg = None \<and> scSecrets cfg = [] \<and> \<not> observed then Some (sourceStatuses es, None, [])
      else map_option (\<lambda>ts. (map Some (tsOut ts), tsCollector ts, if observed then tsObserved ts else []))
             (teeStatus (scSort cfg) (scSecrets cfg) name es
                \<lparr>tsOut = [], tsCollector = scCollector cfg, tsObserved = []\<rparr>))"

record sessionRun =
  snMsgs :: "Msg list"
  snCollector :: "Collector option"
  snSpans :: "SpanObserver option"

definition emptyRun :: "sessionConfig \<Rightarrow> sessionRun" where
  "emptyRun cfg = \<lparr>snMsgs = [], snCollector = scCollector cfg, snSpans = None\<rparr>"

text \<open>
  \<open>takes\<close> is the number of statuses the bridge forwards before it finds the context done; the statuses
  after them are drained. A nil vertex makes one of the goroutines panic (\<open>None\<close>).
\<close>

definition newStatusSession ::
  "sessionConfig \<Rightarrow> ((string, nat) gomap \<Rightarrow> (string, nat) gomap) option \<Rightarrow> string \<Rightarrow> Msg \<Rightarrow> teeEvent list \<Rightarrow> nat \<Rightarrow>
     sessionRun option" where
  "newStatusSession cfg obs name msg es takes =
     (case teeStage cfg (obs \<noteq> None) name es of
        None \<Rightarrow> None
      | Some (sts, col, seen) \<Rightarrow>
          (let msgs = msg # bridge name (map BridgeRecv (take takes sts) @
                              [if takes < length sts then BridgeDone else BridgeClosed]) in
           case obs of
             None \<Rightarrow> Some \<lparr>snMsgs = msgs, snCollector = col, snSpans = None\<rparr>
           | Some walk \<Rightarrow>
               map_option (\<lambda>ob. \<lparr>snMsgs = msgs, snCollector = col, snSpans = Some (Flush walk ob)\<rparr>)
                 (observeStatuses seen)))"

section \<open>Solves (solve.go)\<close>

record 'def solveJobInput =
  siName :: string
  siDef :: "'def option"
  siStepTimeouts :: "(string, int) gomap option"
  siCmdInfos :: "(string, CmdInfo) gomap"

datatype solveErr = NilDefinition string | SolveFailed string

definition solveJob ::
  "sessionConfig \<Rightarrow> ((string, nat) gomap \<Rightarrow> (string, nat) gomap) \<Rightarrow> 'def solveJobInput \<Rightarrow> teeEvent list \<Rightarrow> nat \<Rightarrow>
     ('def \<Rightarrow> string option) \<Rightarrow> (solveErr option \<times> sessionRun) option" where
  "solveJob cfg walk inp es takes solver =
     (case siDef inp of
        None \<Rightarrow> Some (Some (NilDefinition (siName inp)), emptyRun cfg)
      | Some d \<Rightarrow>
          map_option (\<lambda>run. (map_option SolveFailed (solver d), run))
            (newStatusSession cfg (Some walk) (siName inp)
               (JobAddedMsg (siName inp) (siStepTimeouts inp) (siCmdInfos inp)) es takes))"

text \<open>The maps of all steps, merged; the first map that is not nil allocates the result.\<close>

definition mergeMaps :: "('s \<Rightarrow> ('k, 'v) gomap option) \<Rightarrow> 's list \<Rightarrow> ('k, 'v) gomap option" where
  "mergeMaps f steps =
     fold (\<lambda>s merged. case f s of
             None \<Rightarrow> merged
           | Some m \<Rightarrow> Some (mapsCopy (case merged of None \<Rightarrow> [] | Some m0 \<Rightarrow> m0) m)) steps None"

text \<open>
  The messages of the retry loop of one step, with the rendering of its errors an argument, and of the
  loop over the steps.
\<close>

function solveStepMsgs ::
  "(string \<Rightarrow> 'e \<Rightarrow> string) \<Rightarrow> string \<Rightarrow> ('st, 'ref, 'e) StepExec \<Rightarrow> 'st \<Rightarrow> int \<Rightarrow> int \<Rightarrow> Msg list" where
  "solveStepMsgs rend job s base maxAttempts attempt =
     (if attempt \<ge> maxAttempts then []
      else (case seBuild (seEnv s) base attempt of
              Inl _ \<Rightarrow> []
            | Inr st \<Rightarrow>
                (if seMarshal (seEnv s) st \<noteq> None then []
                 else (case seSolve (seEnv s) st attempt of
                         Inr _ \<Rightarrow> []
                       | Inl e \<Rightarrow>
                           if attempt = maxAttempts - 1 \<or> seCtxErr (seEnv s) attempt \<noteq> None then []
                           else StepRetryMsg job (seName s) (attempt + 2) maxAttempts (Some (rend (seName s) e)) #
                             (case (case seRetry s of None \<Rightarrow> None
                                    | Some r \<Rightarrow> if retryDelay r attempt > 0 then seSleepErr (seEnv s) attempt else None) of
                                Some _ \<Rightarrow> []
                              | None \<Rightarrow> solveStepMsgs rend job s base maxAttempts (attempt + 1))))))"
  by pat_completeness auto
termination
  by (relation "measure (\<lambda>(rend, job, s, base, maxAttempts, attempt). nat (maxAttempts - attempt))") auto

declare solveStepMsgs.simps [simp del]

definition stepAttempts :: "('st, 'ref, 'e) StepExec \<Rightarrow> int" where
  "stepAttempts s = (case seRetry s of None \<Rightarrow> 1 | Some r \<Rightarrow> wrap64 (1 + rAttempts r))"

fun stepControlMsgs ::
  "(string \<Rightarrow> 'e \<Rightarrow> string) \<Rightarrow> string \<Rightarrow> 'st \<Rightarrow> 'st \<Rightarrow> ('st, 'ref, 'e) StepExec list \<Rightarrow> Msg list" where
  "stepControlMsgs rend job zeroState cur [] = []"
| "stepControlMsgs rend job zeroState cur (s # ss) =
     solveStepMsgs rend job s cur (stepAttempts s) 0 @
     (case solveStep (seRetry s) (seEnv s) cur of
        StepOk st ref \<Rightarrow> stepControlMsgs rend job zeroState st ss
      | StepNothing \<Rightarrow> stepControlMsgs rend job zeroState zeroState ss
      | StepErr e \<Rightarrow>
          if seAllowFailure s
          then StepAllowedFailureMsg job (seName s) (Some (rend (seName s) e)) # stepControlMsgs rend job zeroState cur ss
          else [])"

text \<open>Two goroutines send: the bridge and the build function, in an order that \<open>turns\<close> decides.\<close>

fun weave :: "bool list \<Rightarrow> 'a list \<Rightarrow> 'a list \<Rightarrow> 'a list" where
  "weave (True # ts) (x # xs) ys = x # weave ts xs ys"
| "weave (False # ts) xs (y # ys) = y # weave ts xs ys"
| "weave (t # ts) xs ys = weave ts xs ys"
| "weave [] xs ys = xs @ ys"

record sessionStep =
  xsTimeouts :: "(string, int) gomap option"
  xsCmdInfos :: "(string, CmdInfo) gomap option"

definition solveJobSteps ::
  "sessionConfig \<Rightarrow> ((string, nat) gomap \<Rightarrow> (string, nat) gomap) \<Rightarrow> string \<Rightarrow> sessionStep list \<Rightarrow> teeEvent list \<Rightarrow> nat \<Rightarrow>
     Msg list \<Rightarrow> bool list \<Rightarrow> string option \<Rightarrow> (solveErr option \<times> sessionRun) option" where
  "solveJobSteps cfg walk name steps es takes stepMsgs turns buildErr =
     (let added = JobAddedMsg name (mergeMaps xsTimeouts steps)
                    (case mergeMaps xsCmdInfos steps of None \<Rightarrow> [] | Some m \<Rightarrow> m) in
      map_option (\<lambda>run. (map_option SolveFailed buildErr,
                         run\<lparr>snMsgs := hd (snMsgs run) # weave turns (tl (snMsgs run)) stepMsgs\<rparr>))
        (newStatusSession cfg (Some walk) name added es takes))"


section \<open>What a session sends\<close>

lemma bridge_msgs:
  "e = BridgeClosed \<or> e = BridgeDone \<Longrightarrow>
     bridge name (map BridgeRecv sts @ [e]) = map (JobStatusMsg name) sts @ [JobDoneMsg name]"
  by (induction sts) auto

text \<open>On statuses that are not nil it is the bridge of the status stream.\<close>

lemma bridge_refines:
  "e = BridgeClosed \<or> e = BridgeDone \<Longrightarrow> bridge name (map (BridgeRecv \<circ> Some) sts @ [e]) =
     map (\<lambda>msg. case msg of Solve_Status.JobStatusMsg n st \<Rightarrow> JobStatusMsg n (Some st)
                           | Solve_Status.JobDoneMsg n \<Rightarrow> JobDoneMsg n) (bridgeStatus name (map Some sts))"
  by (induction sts) auto

definition noNil :: "SolveStatus \<Rightarrow> bool" where
  "noNil st \<longleftrightarrow> None \<notin> set (ssVertexes st)"

fun eventOk :: "teeEvent \<Rightarrow> bool" where
  "eventOk (Recv st) = (case st of None \<Rightarrow> True | Some st \<Rightarrow> noNil st)"
| "eventOk (RecvNoSend st) = noNil st"
| "eventOk e = True"

lemma redactStatus_ok: "noNil st \<Longrightarrow> \<exists>st'. redactStatus srt st secrets = Some st' \<and> noNil st'"
  by (auto simp: redactStatus_def redactVertexes_def noNil_def Let_def)

definition teeOk :: "teeState \<Rightarrow> bool" where
  "teeOk ts \<longleftrightarrow> (\<forall>st\<in>set (tsObserved ts). noNil st) \<and> set (tsOut ts) \<subseteq> set (tsObserved ts)"

lemma teeStatusOne_ok:
  assumes "noNil st" "teeOk ts"
  shows "\<exists>ts'. teeStatusOne srt secrets job send st ts = Some ts' \<and> teeOk ts'"
proof -
  obtain st' where "redactStatus srt st secrets = Some st'" "noNil st'" using redactStatus_ok [OF assms(1)] by blast
  with assms(2) show ?thesis by (cases send) (auto simp: teeStatusOne_def teeOk_def)
qed

lemma teeStatus_ok:
  "list_all eventOk es \<Longrightarrow> teeOk ts \<Longrightarrow> \<exists>ts'. teeStatus srt secrets job es ts = Some ts' \<and> teeOk ts'"
proof (induction srt secrets job es ts rule: teeStatus.induct)
  case (3 srt secrets job st es ts)
  then obtain ts1 where "teeStatusOne srt secrets job True st ts = Some ts1" "teeOk ts1"
    using teeStatusOne_ok [of st ts srt secrets job True] by auto
  with 3 show ?case by simp
qed (auto intro: teeStatusOne_ok)

lemma observed_session:
  assumes "list_all eventOk es"
  obtains ts ob where
    "teeStatus (scSort cfg) (scSecrets cfg) name es \<lparr>tsOut = [], tsCollector = scCollector cfg, tsObserved = []\<rparr> = Some ts"
    "teeOk ts" "observeStatuses (tsObserved ts) = Some ob"
    "newStatusSession cfg (Some walk) name msg es takes =
       Some \<lparr>snMsgs = msg # map (JobStatusMsg name \<circ> Some) (take takes (tsOut ts)) @ [JobDoneMsg name],
             snCollector = tsCollector ts, snSpans = Some (Flush walk ob)\<rparr>"
proof -
  obtain ts where ts: "teeStatus (scSort cfg) (scSecrets cfg) name es
      \<lparr>tsOut = [], tsCollector = scCollector cfg, tsObserved = []\<rparr> = Some ts" "teeOk ts"
    using teeStatus_ok [OF assms, of "\<lparr>tsOut = [], tsCollector = scCollector cfg, tsObserved = []\<rparr>"
      "scSort cfg" "scSecrets cfg" name] by (auto simp: teeOk_def)
  then obtain ob where ob: "observeStatuses (tsObserved ts) = Some ob"
    using observeStatuses_inv [of "tsObserved ts"] by (auto simp: teeOk_def noNil_def)
  show thesis
    by (rule that [OF ts ob])
       (use ts ob in \<open>simp add: newStatusSession_def teeStage_def Let_def take_map bridge_msgs\<close>)
qed

lemma shown_everywhere:
  assumes "list_all plainMsgOk msgs"
  shows "(\<exists>m. runTui quoted (map Progress msgs) (newMultiModel boring) = Some m) \<and> consume debug order msgs \<noteq> None"
proof -
  have "list_all msgOk (map Progress msgs)" using assms by (simp add: list_all_iff plainMsgOk_def)
  moreover have "consume debug order msgs \<noteq> None"
    using plain.consumes_all [OF _ assms] by (fastforce simp: consume_def)
  ultimately show ?thesis using reached_ex by blast
qed

lemma status_msgs_ok: "\<forall>st\<in>set sts. noNil st \<Longrightarrow> list_all plainMsgOk (map (JobStatusMsg name \<circ> Some) sts)"
  by (induction sts) (simp_all add: plainMsgOk_def msgOk_def statusOk_def noNil_def)

lemma hidden_vertexes:
  assumes "\<forall>st\<in>set sts. noNil st" "\<forall>st\<in>set sts. hidden v st" "x \<in> set (statusVertexes sts)"
  shows "\<not> sublist v (vError x)"
proof -
  from assms(3) obtain st ov where st: "st \<in> set sts" "ov \<in> set (ssVertexes st)" "x = the ov"
    by (auto simp: statusVertexes_def)
  moreover from assms(1) st(1,2) have "ov \<noteq> None" by (metis noNil_def)
  ultimately have "Some x \<in> set (ssVertexes st)" by simp
  with assms(2) st(1) show ?thesis by (auto simp: hidden_def)
qed


definition sampleSession :: sessionConfig where
  "sampleSession = \<lparr>scSort = lengthSort, scSecrets = [(''A'', ''ab''), (''B'', ''abcd'')], scCollector = None\<rparr>"

definition sampleInput :: "nat solveJobInput" where
  "sampleInput = \<lparr>siName = ''j'', siDef = Some 7, siStepTimeouts = None, siCmdInfos = []\<rparr>"



section \<open>Sessions of jobs that run step by step\<close>

lemma set_weave: "set (weave ts xs ys) = set xs \<union> set ys"
  by (induction ts xs ys rule: weave.induct) auto

lemma count_weave: "count_list (weave ts xs ys) x = count_list xs x + count_list ys x"
  by (induction ts xs ys rule: weave.induct) auto

lemma filter_weave: "list_all (\<lambda>x. \<not> P x) xs \<Longrightarrow> list_all P ys \<Longrightarrow> filter P (weave ts xs ys) = ys"
  by (induction ts xs ys rule: weave.induct) (auto simp: list_all_iff)

text \<open>The attempts that retry messages announce are numbered from two without a gap.\<close>

lemma solveStepMsgs_attempts:
  "\<exists>n\<ge>0. map (\<lambda>msg. case msg of StepRetryMsg j s a m e \<Rightarrow> (j, s, a, m) | _ \<Rightarrow> ([], [], 0, 0))
     (solveStepMsgs rend job s base maxAttempts attempt) =
       map (\<lambda>a. (job, seName s, a + 2, maxAttempts)) [attempt..attempt + n - 1]"
proof (induction rend job s base maxAttempts attempt rule: solveStepMsgs.induct)
  case (1 rend job s base maxAttempts attempt)
  show ?case
  proof (cases "solveStepMsgs rend job s base maxAttempts attempt")
    case Nil
    then show ?thesis by (intro exI [of _ 0]) simp
  next
    case (Cons m ms)
    then obtain st e where run: "\<not> attempt \<ge> maxAttempts" "seBuild (seEnv s) base attempt = Inr st"
      "\<not> seMarshal (seEnv s) st \<noteq> None" "seSolve (seEnv s) st attempt = Inl e"
      "\<not> (attempt = maxAttempts - 1 \<or> seCtxErr (seEnv s) attempt \<noteq> None)"
      and m: "m = StepRetryMsg job (seName s) (attempt + 2) maxAttempts (Some (rend (seName s) e))"
      by (subst (asm) solveStepMsgs.simps) (auto split: if_splits sum.splits)
    consider "ms = []" | "ms = solveStepMsgs rend job s base maxAttempts (attempt + 1)"
      "(case seRetry s of None \<Rightarrow> None | Some r \<Rightarrow> if retryDelay r attempt > 0 then seSleepErr (seEnv s) attempt else None) = None"
      using Cons run by (subst (asm) (1) solveStepMsgs.simps) (auto split: option.splits)
    then show ?thesis
    proof cases
      case 1
      with Cons m show ?thesis by (intro exI [of _ 1]) simp
    next
      case 2
      with "1.IH" [OF run 2(2)] obtain n where "n \<ge> 0"
        "map (\<lambda>msg. case msg of StepRetryMsg j s a m e \<Rightarrow> (j, s, a, m) | _ \<Rightarrow> ([], [], 0, 0)) ms =
           map (\<lambda>a. (job, seName s, a + 2, maxAttempts)) [attempt + 1..attempt + 1 + n - 1]" by auto
      with Cons m show ?thesis
        by (intro exI [of _ "n + 1"]) (simp add: upto_rec1 algebra_simps)
    qed
  qed
qed

definition stepMsg :: "string \<Rightarrow> Msg \<Rightarrow> bool" where
  "stepMsg job msg =
     (case msg of StepRetryMsg j _ _ _ _ \<Rightarrow> j = job | StepAllowedFailureMsg j _ _ \<Rightarrow> j = job | _ \<Rightarrow> False)"

lemma stepMsg_simps [simp]:
  "stepMsg job (StepRetryMsg j s a m e) \<longleftrightarrow> j = job" "stepMsg job (StepAllowedFailureMsg j s e) \<longleftrightarrow> j = job"
  "\<not> stepMsg job (JobAddedMsg j to ci)" "\<not> stepMsg job (JobStatusMsg j st)" "\<not> stepMsg job (JobDoneMsg j)"
  by (simp_all add: stepMsg_def)

lemma solveStepMsgs_kind: "list_all (stepMsg job) (solveStepMsgs rend job s base maxAttempts attempt)"
proof (induction rend job s base maxAttempts attempt rule: solveStepMsgs.induct)
  case (1 rend job s base maxAttempts attempt)
  then show ?case
    by (subst solveStepMsgs.simps) (auto split: sum.split option.split)
qed

lemma stepControlMsgs_kind: "list_all (stepMsg job) (stepControlMsgs rend job zeroState cur steps)"
  by (induction rend job zeroState cur steps rule: stepControlMsgs.induct)
     (auto simp: solveStepMsgs_kind split: stepResult.split)

text \<open>The session of a job that runs its steps one by one: displays process it however the messages of
  the build function and of the bridge interleave, the job is added first, done once, and exactly the
  messages of the step loop come on top.\<close>

lemma step_session_shown:
  assumes "list_all eventOk es" "msgs = stepControlMsgs rend name zeroState cur execs"
  shows "\<exists>run. solveJobSteps cfg walk name steps es takes msgs turns err = Some (map_option SolveFailed err, run) \<and>
    (\<exists>to ci. hd (snMsgs run) = JobAddedMsg name to ci) \<and> count_list (snMsgs run) (JobDoneMsg name) = 1 \<and>
    filter (stepMsg name) (snMsgs run) = msgs \<and>
    (\<exists>m. runTui quoted (map Progress (snMsgs run)) (newMultiModel boring) = Some m) \<and>
    consume debug order (snMsgs run) \<noteq> None"
proof -
  let ?added = "JobAddedMsg name (mergeMaps xsTimeouts steps) (case mergeMaps xsCmdInfos steps of None \<Rightarrow> [] | Some m \<Rightarrow> m)"
  from observed_session [OF assms(1)] obtain ts ob where ok: "teeOk ts"
    and run: "newStatusSession cfg (Some walk) name ?added es takes =
       Some \<lparr>snMsgs = ?added # map (JobStatusMsg name \<circ> Some) (take takes (tsOut ts)) @ [JobDoneMsg name],
             snCollector = tsCollector ts, snSpans = Some (Flush walk ob)\<rparr>" by metis
  let ?bridge = "map (JobStatusMsg name \<circ> Some) (take takes (tsOut ts)) @ [JobDoneMsg name]"
  let ?msgs = "?added # weave turns ?bridge msgs"
  have kind: "list_all (stepMsg name) msgs" by (simp add: assms(2) stepControlMsgs_kind)
  have "\<forall>st\<in>set (take takes (tsOut ts)). noNil st" using ok by (auto simp: teeOk_def dest: in_set_takeD)
  then have "list_all plainMsgOk ?bridge" using status_msgs_ok by (simp add: plainMsgOk_def [of "JobDoneMsg _"] msgOk_def)
  moreover have "plainMsgOk msg" if "stepMsg name msg" for msg
    using that by (cases msg) (simp_all add: stepMsg_def plainMsgOk_def msgOk_def)
  ultimately have "list_all plainMsgOk ?msgs"
    using kind by (auto simp: list_all_iff set_weave plainMsgOk_def [of "JobAddedMsg _ _ _"] msgOk_def)
  moreover have "filter (stepMsg name) ?msgs = msgs" using kind by (simp add: filter_weave list_all_iff)
  moreover have "count_list ?msgs (JobDoneMsg name) = 1"
  proof -
    have "JobDoneMsg name \<notin> set msgs" using kind by (auto simp: list_all_iff)
    moreover have "JobDoneMsg name \<notin> set (map (JobStatusMsg name \<circ> Some) (take takes (tsOut ts)))" by auto
    ultimately show ?thesis by (simp add: count_weave count_notin)
  qed
  ultimately show ?thesis
    using run shown_everywhere [of ?msgs quoted boring debug order]
    by (simp add: solveJobSteps_def Let_def)
qed

text \<open>
  Without a collector, secrets and an observer (the session of an export) a nil status is passed on,
  and the plain display cannot process it; every other session drops it.
\<close>

lemma bypass_forwards_nil:
  assumes "cfg = \<lparr>scSort = srt, scSecrets = [], scCollector = None\<rparr>"
  shows "map_option snMsgs (newStatusSession cfg None name (JobAddedMsg name None []) [Recv None, SrcClosed] 1) =
      Some [JobAddedMsg name None [], JobStatusMsg name None, JobDoneMsg name] \<and>
    map_option snMsgs (newStatusSession cfg (Some walk) name (JobAddedMsg name None []) [Recv None, SrcClosed] 1) =
      Some [JobAddedMsg name None [], JobDoneMsg name] \<and>
    consume debug order [JobAddedMsg name None [], JobStatusMsg name None, JobDoneMsg name] = None"
  by (simp add: assms newStatusSession_def teeStage_def observeStatuses_def Let_def consume_def consumeMsg_def)

end
