(* ===== verification/Clone_Heap.thy ===== *)
theory Clone_Heap
  imports Pipeline_Model "HOL-Library.State_Monad"
begin

text \<open>
  \<^verbatim>\<open>pkg/pipeline/pipelinemodel/clone.go\<close>: deep copies, over an explicit heap. The other theories treat
  a pipeline as a value; that is sound because the code clones what it changes, and the clone
  shares no memory with the original. Here a slice is an address of a backing array and a length,
  a pointer or a map is an address, and \<^verbatim>\<open>slices.Clone\<close> allocates. A cel parse tree is never written to
  and stays a value.
\<close>

section \<open>Memory\<close>

type_synonym slice = "(nat \<times> nat) option"
type_synonym ptr = "nat option"

record stepR =
  hsName :: string
  hsRun :: slice
  hsEnv :: slice
  hsWorkdir :: string
  hsMounts :: slice
  hsCaches :: slice
  hsSecrets :: slice
  hsExports :: slice
  hsArtifacts :: slice
  hsWhen :: ptr
  hsNoCache :: bool
  hsTimeout :: int
  hsShell :: slice
  hsRetry :: ptr
  hsAllowFailure :: bool

record dimR =
  hdName :: string
  hdValues :: slice

record matrixR =
  hmDimensions :: slice

record jobR =
  hjName :: string
  hjImage :: string
  hjWorkdir :: string
  hjPlatform :: string
  hjDependsOn :: slice
  hjMounts :: slice
  hjCaches :: slice
  hjEnv :: slice
  hjExports :: slice
  hjArtifacts :: slice
  hjSecrets :: slice
  hjSteps :: slice
  hjWhen :: ptr
  hjMatrix :: ptr
  hjMatrixValues :: ptr
  hjNoCache :: bool
  hjPublish :: ptr
  hjTimeout :: int
  hjRetry :: ptr
  hjShell :: slice

record defaultsR =
  hfImage :: string
  hfWorkdir :: string
  hfMounts :: slice
  hfEnv :: slice
  hfShell :: slice

record pipelineR =
  hpName :: string
  hpJobs :: slice
  hpEnv :: slice
  hpSecrets :: slice
  hpMatrix :: ptr
  hpDefaults :: ptr
  hpTopoOrder :: slice

text \<open>What is stored at an address: a backing array, a struct behind a pointer, or a map.\<close>

datatype 'ast cell =
    StrCell (unStr: "string list") | NatCell (unNat: "nat list") | MountCell (unMount: "Mount list")
  | CacheCell (unCache: "Cache list") | EnvCell (unEnv: "EnvVar list") | ExportCell (unExport: "Export list")
  | ArtifactCell (unArtifact: "Artifact list") | RefCell (unRef: "SecretRef list") | DeclCell (unDecl: "SecretDecl list")
  | StepCell (unStep: "stepR list") | JobCell (unJob: "jobR list") | DimCell (unDim: "dimR list")
  | WhenCell (unWhen: "'ast When") | MatrixCell (unMatrix: matrixR) | PublishCell (unPublish: Publish)
  | RetryCell (unRetry: Retry) | MapCell (unMap: "(string, string) gomap") | DefaultsCell (unDefaults: defaultsR)

type_synonym 'ast heap = "'ast cell list"

section \<open>Allocation\<close>

definition allocCell :: "'ast cell \<Rightarrow> ('ast heap, nat) state" where
  "allocCell c = State (\<lambda>h. (length h, h @ [c]))"

definition readCell :: "('ast cell \<Rightarrow> 'v) \<Rightarrow> nat \<Rightarrow> ('ast heap, 'v) state" where
  "readCell un a = State (\<lambda>h. (un (h ! a), h))"

text \<open>\<^verbatim>\<open>slices.Clone\<close> keeps nil.\<close>

definition slicesClone :: "('e list \<Rightarrow> 'ast cell) \<Rightarrow> ('ast cell \<Rightarrow> 'e list) \<Rightarrow> slice \<Rightarrow> ('ast heap, slice) state" where
  "slicesClone mk un s =
     (case s of
        None \<Rightarrow> State_Monad.return None
      | Some (a, n) \<Rightarrow> do {
          xs \<leftarrow> readCell un a;
          b \<leftarrow> allocCell (mk (take n xs));
          State_Monad.return (Some (b, n)) })"

text \<open>\<^verbatim>\<open>w := *p; p = &w\<close>, and \<^verbatim>\<open>maps.Clone\<close>.\<close>

definition ptrClone :: "('v \<Rightarrow> 'ast cell) \<Rightarrow> ('ast cell \<Rightarrow> 'v) \<Rightarrow> ptr \<Rightarrow> ('ast heap, ptr) state" where
  "ptrClone mk un p =
     (case p of
        None \<Rightarrow> State_Monad.return None
      | Some a \<Rightarrow> do { x \<leftarrow> readCell un a; b \<leftarrow> allocCell (mk x); State_Monad.return (Some b) })"

fun cloneEach :: "('e \<Rightarrow> ('h, 'e) state) \<Rightarrow> 'e list \<Rightarrow> ('h, 'e list) state" where
  "cloneEach f [] = State_Monad.return []"
| "cloneEach f (x # xs) = do { y \<leftarrow> f x; ys \<leftarrow> cloneEach f xs; State_Monad.return (y # ys) }"

text \<open>
  A slice whose elements are cloned as well; the new array is written once, with its final
  elements. A pointer whose struct is.
\<close>

definition deepSlice ::
  "('e list \<Rightarrow> 'ast cell) \<Rightarrow> ('ast cell \<Rightarrow> 'e list) \<Rightarrow> ('e \<Rightarrow> ('ast heap, 'e) state) \<Rightarrow> slice \<Rightarrow> ('ast heap, slice) state" where
  "deepSlice mk un f s =
     (case s of
        None \<Rightarrow> State_Monad.return None
      | Some (a, n) \<Rightarrow> do {
          xs \<leftarrow> readCell un a;
          ys \<leftarrow> cloneEach f (take n xs);
          b \<leftarrow> allocCell (mk ys);
          State_Monad.return (Some (b, n)) })"

definition deepPtr ::
  "('v \<Rightarrow> 'ast cell) \<Rightarrow> ('ast cell \<Rightarrow> 'v) \<Rightarrow> ('v \<Rightarrow> ('ast heap, 'v) state) \<Rightarrow> ptr \<Rightarrow> ('ast heap, ptr) state" where
  "deepPtr mk un f p =
     (case p of
        None \<Rightarrow> State_Monad.return None
      | Some a \<Rightarrow> do { x \<leftarrow> readCell un a; y \<leftarrow> f x; b \<leftarrow> allocCell (mk y); State_Monad.return (Some b) })"

section \<open>Clones (clone.go)\<close>

definition cloneStep :: "stepR \<Rightarrow> ('ast heap, stepR) state" where
  "cloneStep s = do {
     run \<leftarrow> slicesClone StrCell unStr (hsRun s);
     env \<leftarrow> slicesClone EnvCell unEnv (hsEnv s);
     mounts \<leftarrow> slicesClone MountCell unMount (hsMounts s);
     caches \<leftarrow> slicesClone CacheCell unCache (hsCaches s);
     secrets \<leftarrow> slicesClone RefCell unRef (hsSecrets s);
     exports \<leftarrow> slicesClone ExportCell unExport (hsExports s);
     artifacts \<leftarrow> slicesClone ArtifactCell unArtifact (hsArtifacts s);
     when \<leftarrow> ptrClone WhenCell unWhen (hsWhen s);
     shell \<leftarrow> slicesClone StrCell unStr (hsShell s);
     retry \<leftarrow> ptrClone RetryCell unRetry (hsRetry s);
     State_Monad.return (s\<lparr>hsRun := run, hsEnv := env, hsMounts := mounts, hsCaches := caches, hsSecrets := secrets,
       hsExports := exports, hsArtifacts := artifacts, hsWhen := when, hsShell := shell, hsRetry := retry\<rparr>) }"

definition cloneDim :: "dimR \<Rightarrow> ('ast heap, dimR) state" where
  "cloneDim d = do { vs \<leftarrow> slicesClone StrCell unStr (hdValues d); State_Monad.return (d\<lparr>hdValues := vs\<rparr>) }"

definition cloneMatrix :: "matrixR \<Rightarrow> ('ast heap, matrixR) state" where
  "cloneMatrix m = do { ds \<leftarrow> deepSlice DimCell unDim cloneDim (hmDimensions m); State_Monad.return (m\<lparr>hmDimensions := ds\<rparr>) }"

definition cloneJob :: "jobR \<Rightarrow> ('ast heap, jobR) state" where
  "cloneJob j = do {
     dependsOn \<leftarrow> slicesClone StrCell unStr (hjDependsOn j);
     mounts \<leftarrow> slicesClone MountCell unMount (hjMounts j);
     caches \<leftarrow> slicesClone CacheCell unCache (hjCaches j);
     env \<leftarrow> slicesClone EnvCell unEnv (hjEnv j);
     exports \<leftarrow> slicesClone ExportCell unExport (hjExports j);
     artifacts \<leftarrow> slicesClone ArtifactCell unArtifact (hjArtifacts j);
     secrets \<leftarrow> slicesClone RefCell unRef (hjSecrets j);
     steps \<leftarrow> deepSlice StepCell unStep cloneStep (hjSteps j);
     when \<leftarrow> ptrClone WhenCell unWhen (hjWhen j);
     matrix \<leftarrow> deepPtr MatrixCell unMatrix cloneMatrix (hjMatrix j);
     values \<leftarrow> ptrClone MapCell unMap (hjMatrixValues j);
     publish \<leftarrow> ptrClone PublishCell unPublish (hjPublish j);
     retry \<leftarrow> ptrClone RetryCell unRetry (hjRetry j);
     shell \<leftarrow> slicesClone StrCell unStr (hjShell j);
     State_Monad.return (j\<lparr>hjDependsOn := dependsOn, hjMounts := mounts, hjCaches := caches, hjEnv := env,
       hjExports := exports, hjArtifacts := artifacts, hjSecrets := secrets, hjSteps := steps, hjWhen := when,
       hjMatrix := matrix, hjMatrixValues := values, hjPublish := publish, hjRetry := retry, hjShell := shell\<rparr>) }"

definition cloneDefaults :: "defaultsR \<Rightarrow> ('ast heap, defaultsR) state" where
  "cloneDefaults d = do {
     mounts \<leftarrow> slicesClone MountCell unMount (hfMounts d);
     env \<leftarrow> slicesClone EnvCell unEnv (hfEnv d);
     shell \<leftarrow> slicesClone StrCell unStr (hfShell d);
     State_Monad.return (d\<lparr>hfMounts := mounts, hfEnv := env, hfShell := shell\<rparr>) }"

definition clonePipeline :: "pipelineR \<Rightarrow> ('ast heap, pipelineR) state" where
  "clonePipeline p = do {
     jobs \<leftarrow> deepSlice JobCell unJob cloneJob (hpJobs p);
     env \<leftarrow> slicesClone EnvCell unEnv (hpEnv p);
     secrets \<leftarrow> slicesClone DeclCell unDecl (hpSecrets p);
     topo \<leftarrow> slicesClone NatCell unNat (hpTopoOrder p);
     matrix \<leftarrow> deepPtr MatrixCell unMatrix cloneMatrix (hpMatrix p);
     defaults \<leftarrow> deepPtr DefaultsCell unDefaults cloneDefaults (hpDefaults p);
     State_Monad.return (p\<lparr>hpJobs := jobs, hpEnv := env, hpSecrets := secrets, hpTopoOrder := topo,
       hpMatrix := matrix, hpDefaults := defaults\<rparr>) }"


section \<open>What memory holds\<close>

definition listOf :: "'e list option \<Rightarrow> 'e list" where
  "listOf xs = (case xs of None \<Rightarrow> [] | Some ys \<Rightarrow> ys)"

definition sliceOpt :: "('ast cell \<Rightarrow> 'e list) \<Rightarrow> 'ast heap \<Rightarrow> slice \<Rightarrow> 'e list option" where
  "sliceOpt un h s = map_option (\<lambda>(a, n). take n (un (h ! a))) s"

definition sliceAdrs :: "'ast heap \<Rightarrow> slice \<Rightarrow> nat set" where
  "sliceAdrs h s = fst ` set_option s"

definition ptrVal :: "('ast cell \<Rightarrow> 'v) \<Rightarrow> 'ast heap \<Rightarrow> ptr \<Rightarrow> 'v option" where
  "ptrVal un h p = map_option (\<lambda>a. un (h ! a)) p"

definition ptrAdrs :: "'ast heap \<Rightarrow> ptr \<Rightarrow> nat set" where
  "ptrAdrs h p = set_option p"

text \<open>The same with what the elements, or the struct, refer to.\<close>

definition deepOpt ::
  "('ast heap \<Rightarrow> 'e \<Rightarrow> 'v) \<Rightarrow> ('ast cell \<Rightarrow> 'e list) \<Rightarrow> 'ast heap \<Rightarrow> slice \<Rightarrow> 'v list option" where
  "deepOpt view un h s = map_option (map (view h)) (sliceOpt un h s)"

definition deepAdrs ::
  "('ast heap \<Rightarrow> 'e \<Rightarrow> nat set) \<Rightarrow> ('ast cell \<Rightarrow> 'e list) \<Rightarrow> 'ast heap \<Rightarrow> slice \<Rightarrow> nat set" where
  "deepAdrs adrs un h s = sliceAdrs h s \<union> (\<Union>x\<in>set (listOf (sliceOpt un h s)). adrs h x)"

definition deepPtrVal :: "('ast heap \<Rightarrow> 'x \<Rightarrow> 'v) \<Rightarrow> ('ast cell \<Rightarrow> 'x) \<Rightarrow> 'ast heap \<Rightarrow> ptr \<Rightarrow> 'v option" where
  "deepPtrVal view un h p = map_option (view h) (ptrVal un h p)"

definition deepPtrAdrs :: "('ast heap \<Rightarrow> 'x \<Rightarrow> nat set) \<Rightarrow> ('ast cell \<Rightarrow> 'x) \<Rightarrow> 'ast heap \<Rightarrow> ptr \<Rightarrow> nat set" where
  "deepPtrAdrs adrs un h p = ptrAdrs h p \<union> (\<Union>x\<in>set_option (ptrVal un h p). adrs h x)"

definition viewStep :: "'ast heap \<Rightarrow> stepR \<Rightarrow> 'ast Step" where
  "viewStep h s =
     \<lparr>sName = hsName s, sRun = listOf (sliceOpt unStr h (hsRun s)), sEnv = listOf (sliceOpt unEnv h (hsEnv s)),
      sWorkdir = hsWorkdir s, sMounts = listOf (sliceOpt unMount h (hsMounts s)),
      sCaches = listOf (sliceOpt unCache h (hsCaches s)), sSecrets = listOf (sliceOpt unRef h (hsSecrets s)),
      sExports = listOf (sliceOpt unExport h (hsExports s)), sArtifacts = listOf (sliceOpt unArtifact h (hsArtifacts s)),
      sWhen = ptrVal unWhen h (hsWhen s), sNoCache = hsNoCache s, sTimeout = hsTimeout s,
      sShell = sliceOpt unStr h (hsShell s), sRetry = ptrVal unRetry h (hsRetry s), sAllowFailure = hsAllowFailure s\<rparr>"

definition stepAdrs :: "'ast heap \<Rightarrow> stepR \<Rightarrow> nat set" where
  "stepAdrs h s = sliceAdrs h (hsRun s) \<union> sliceAdrs h (hsEnv s) \<union> sliceAdrs h (hsMounts s) \<union> sliceAdrs h (hsCaches s) \<union>
     sliceAdrs h (hsSecrets s) \<union> sliceAdrs h (hsExports s) \<union> sliceAdrs h (hsArtifacts s) \<union> ptrAdrs h (hsWhen s) \<union>
     sliceAdrs h (hsShell s) \<union> ptrAdrs h (hsRetry s)"

definition viewDim :: "'ast heap \<Rightarrow> dimR \<Rightarrow> Dimension" where
  "viewDim h d = \<lparr>dName = hdName d, dValues = listOf (sliceOpt unStr h (hdValues d))\<rparr>"

definition dimAdrs :: "'ast heap \<Rightarrow> dimR \<Rightarrow> nat set" where
  "dimAdrs h d = sliceAdrs h (hdValues d)"

definition viewMatrix :: "'ast heap \<Rightarrow> matrixR \<Rightarrow> Matrix" where
  "viewMatrix h m = \<lparr>mDimensions = listOf (deepOpt viewDim unDim h (hmDimensions m))\<rparr>"

definition matrixAdrs :: "'ast heap \<Rightarrow> matrixR \<Rightarrow> nat set" where
  "matrixAdrs h m = deepAdrs dimAdrs unDim h (hmDimensions m)"

definition viewJob :: "'ast heap \<Rightarrow> jobR \<Rightarrow> 'ast Job" where
  "viewJob h j =
     \<lparr>jName = hjName j, jImage = hjImage j, jWorkdir = hjWorkdir j, jPlatform = hjPlatform j,
      jDependsOn = listOf (sliceOpt unStr h (hjDependsOn j)), jMounts = listOf (sliceOpt unMount h (hjMounts j)),
      jCaches = listOf (sliceOpt unCache h (hjCaches j)), jEnv = listOf (sliceOpt unEnv h (hjEnv j)),
      jExports = listOf (sliceOpt unExport h (hjExports j)), jArtifacts = listOf (sliceOpt unArtifact h (hjArtifacts j)),
      jSecrets = listOf (sliceOpt unRef h (hjSecrets j)), jSteps = listOf (deepOpt viewStep unStep h (hjSteps j)),
      jWhen = ptrVal unWhen h (hjWhen j), jMatrix = deepPtrVal viewMatrix unMatrix h (hjMatrix j),
      jMatrixValues = ptrVal unMap h (hjMatrixValues j), jNoCache = hjNoCache j, jPublish = ptrVal unPublish h (hjPublish j),
      jTimeout = hjTimeout j, jRetry = ptrVal unRetry h (hjRetry j), jShell = sliceOpt unStr h (hjShell j)\<rparr>"

definition jobAdrs :: "'ast heap \<Rightarrow> jobR \<Rightarrow> nat set" where
  "jobAdrs h j = sliceAdrs h (hjDependsOn j) \<union> sliceAdrs h (hjMounts j) \<union> sliceAdrs h (hjCaches j) \<union> sliceAdrs h (hjEnv j) \<union>
     sliceAdrs h (hjExports j) \<union> sliceAdrs h (hjArtifacts j) \<union> sliceAdrs h (hjSecrets j) \<union>
     deepAdrs stepAdrs unStep h (hjSteps j) \<union> ptrAdrs h (hjWhen j) \<union> deepPtrAdrs matrixAdrs unMatrix h (hjMatrix j) \<union>
     ptrAdrs h (hjMatrixValues j) \<union> ptrAdrs h (hjPublish j) \<union> ptrAdrs h (hjRetry j) \<union> sliceAdrs h (hjShell j)"

definition viewDefaults :: "'ast heap \<Rightarrow> defaultsR \<Rightarrow> Defaults" where
  "viewDefaults h d =
     \<lparr>dfImage = hfImage d, dfWorkdir = hfWorkdir d, dfMounts = listOf (sliceOpt unMount h (hfMounts d)),
      dfEnv = listOf (sliceOpt unEnv h (hfEnv d)), dfShell = listOf (sliceOpt unStr h (hfShell d))\<rparr>"

definition defaultsAdrs :: "'ast heap \<Rightarrow> defaultsR \<Rightarrow> nat set" where
  "defaultsAdrs h d = sliceAdrs h (hfMounts d) \<union> sliceAdrs h (hfEnv d) \<union> sliceAdrs h (hfShell d)"

definition viewPipeline :: "'ast heap \<Rightarrow> pipelineR \<Rightarrow> 'ast Pipeline" where
  "viewPipeline h p =
     \<lparr>pName = hpName p, pJobs = listOf (deepOpt viewJob unJob h (hpJobs p)), pEnv = listOf (sliceOpt unEnv h (hpEnv p)),
      pSecrets = listOf (sliceOpt unDecl h (hpSecrets p)), pMatrix = deepPtrVal viewMatrix unMatrix h (hpMatrix p),
      pDefaults = deepPtrVal viewDefaults unDefaults h (hpDefaults p), pTopoOrder = sliceOpt unNat h (hpTopoOrder p)\<rparr>"

definition pipelineAdrs :: "'ast heap \<Rightarrow> pipelineR \<Rightarrow> nat set" where
  "pipelineAdrs h p = deepAdrs jobAdrs unJob h (hpJobs p) \<union> sliceAdrs h (hpEnv p) \<union> sliceAdrs h (hpSecrets p) \<union>
     deepPtrAdrs matrixAdrs unMatrix h (hpMatrix p) \<union> deepPtrAdrs defaultsAdrs unDefaults h (hpDefaults p) \<union>
     sliceAdrs h (hpTopoOrder p)"

section \<open>Frames\<close>

text \<open>\<open>x'\<close> is a copy of \<open>x\<close>, made after the heap was \<open>h0\<close>: it has the same value and only new addresses.\<close>

definition copyOf ::
  "('ast heap \<Rightarrow> 'x \<Rightarrow> 'v) \<Rightarrow> ('ast heap \<Rightarrow> 'x \<Rightarrow> nat set) \<Rightarrow> 'ast heap \<Rightarrow> 'x \<Rightarrow> 'x \<Rightarrow> 'ast heap \<Rightarrow> bool" where
  "copyOf view adrs h0 x x' h \<longleftrightarrow> view h x' = view h0 x \<and> adrs h x' \<subseteq> {length h0..<length h}"

definition allocated :: "('ast heap \<Rightarrow> 'x \<Rightarrow> nat set) \<Rightarrow> 'ast heap \<Rightarrow> 'x \<Rightarrow> bool" where
  "allocated adrs h x \<longleftrightarrow> adrs h x \<subseteq> {..<length h}"

definition stable :: "('ast heap \<Rightarrow> bool) \<Rightarrow> bool" where
  "stable P \<longleftrightarrow> (\<forall>h h'. P h \<and> prefix h h' \<longrightarrow> P h')"

text \<open>A view of memory that depends on the cells at its addresses alone.\<close>

locale heap_view =
  fixes view :: "'ast heap \<Rightarrow> 'x \<Rightarrow> 'v" and adrs :: "'ast heap \<Rightarrow> 'x \<Rightarrow> nat set"
  assumes frame: "(\<And>a. a \<in> adrs h x \<Longrightarrow> h' ! a = h ! a) \<Longrightarrow> view h' x = view h x \<and> adrs h' x = adrs h x"
begin

lemma frame_prefix:
  assumes "allocated adrs h x" "prefix h h'"
  shows "view h' x = view h x" "adrs h' x = adrs h x"
proof -
  have "h' ! a = h ! a" if "a \<in> adrs h x" for a
    using assms that by (auto simp: prefix_def nth_append allocated_def)
  then show "view h' x = view h x" "adrs h' x = adrs h x" using frame by blast+
qed

lemma stable_copyOf: "stable (copyOf view adrs h0 x x')"
  unfolding stable_def
proof (intro allI impI)
  fix h h' assume a: "copyOf view adrs h0 x x' h \<and> prefix h h'"
  then have "allocated adrs h x'" by (auto simp: copyOf_def allocated_def)
  with a frame_prefix [of h x' h'] have "view h' x' = view h x'" "adrs h' x' = adrs h x'" by auto
  moreover have "length h \<le> length h'" using a prefix_length_le by blast
  ultimately show "copyOf view adrs h0 x x' h'" using a by (auto simp: copyOf_def)
qed

text \<open>Writing to one of the two does not change the other.\<close>

lemma copy_separate:
  assumes "allocated adrs h0 x" "prefix h0 h" "copyOf view adrs h0 x x' h"
  shows "view h x = view h0 x \<and> adrs h x \<inter> adrs h x' = {} \<and>
    (\<forall>a\<in>adrs h x'. \<forall>c. view (h[a := c]) x = view h0 x) \<and> (\<forall>a\<in>adrs h x. \<forall>c. view (h[a := c]) x' = view h0 x)"
proof -
  note same = frame_prefix [OF assms(1,2)]
  have dis: "a \<noteq> b" if "a \<in> adrs h x" "b \<in> adrs h x'" for a b
  proof -
    have "a < length h0" "length h0 \<le> b"
      using that assms(1,3) unfolding same(2) allocated_def copyOf_def by auto
    then show ?thesis by simp
  qed
  have "view (h[b := c]) x = view h x" if "b \<in> adrs h x'" for b c
    using frame [of h x "h[b := c]"] dis that by (metis nth_list_update_neq)
  moreover have "view (h[a := c]) x' = view h x'" if "a \<in> adrs h x" for a c
    using frame [of h x' "h[a := c]"] dis that by (metis nth_list_update_neq)
  ultimately show ?thesis using same(1) assms(3) dis by (fastforce simp: copyOf_def)
qed

lemma deepSlice_view: "heap_view (deepOpt view un) (deepAdrs adrs un)"
proof
  fix h s h' assume eq: "\<And>a. a \<in> deepAdrs adrs un h s \<Longrightarrow> h' ! a = h ! a"
  then have sl: "sliceOpt un h' s = sliceOpt un h s"
    by (cases s) (auto simp: deepAdrs_def sliceAdrs_def sliceOpt_def)
  have "view h' x = view h x \<and> adrs h' x = adrs h x" if "x \<in> set (listOf (sliceOpt un h s))" for x
    using frame [of h x h'] eq that by (auto simp: deepAdrs_def)
  then show "deepOpt view un h' s = deepOpt view un h s \<and> deepAdrs adrs un h' s = deepAdrs adrs un h s"
    unfolding deepOpt_def deepAdrs_def sl
    by (cases "sliceOpt un h s") (auto simp: listOf_def sliceAdrs_def)
qed

lemma deepPtr_view: "heap_view (deepPtrVal view un) (deepPtrAdrs adrs un)"
proof
  fix h p h' assume eq: "\<And>a. a \<in> deepPtrAdrs adrs un h p \<Longrightarrow> h' ! a = h ! a"
  then have pv: "ptrVal un h' p = ptrVal un h p"
    by (cases p) (auto simp: deepPtrAdrs_def ptrAdrs_def ptrVal_def)
  have "view h' x = view h x \<and> adrs h' x = adrs h x" if "x \<in> set_option (ptrVal un h p)" for x
    using frame [of h x h'] eq that by (auto simp: deepPtrAdrs_def)
  then show "deepPtrVal view un h' p = deepPtrVal view un h p \<and> deepPtrAdrs adrs un h' p = deepPtrAdrs adrs un h p"
    unfolding deepPtrVal_def deepPtrAdrs_def pv by (cases "ptrVal un h p") (auto simp: ptrAdrs_def)
qed

end

interpretation sl: heap_view "sliceOpt un" sliceAdrs for un
proof
  fix h h' :: "'a heap" and s assume "\<And>a. a \<in> sliceAdrs h s \<Longrightarrow> h' ! a = h ! a"
  then show "sliceOpt un h' s = sliceOpt un h s \<and> sliceAdrs h' s = sliceAdrs h s"
    by (cases s) (auto simp: sliceOpt_def sliceAdrs_def)
qed

interpretation pt: heap_view "ptrVal un" ptrAdrs for un
proof
  fix h h' :: "'a heap" and p assume "\<And>a. a \<in> ptrAdrs h p \<Longrightarrow> h' ! a = h ! a"
  then show "ptrVal un h' p = ptrVal un h p \<and> ptrAdrs h' p = ptrAdrs h p"
    by (cases p) (auto simp: ptrVal_def ptrAdrs_def)
qed

text \<open>Parts of a structure are framed by the addresses of the structure.\<close>

lemma slice_part:
  "(\<And>a. a \<in> A \<Longrightarrow> h' ! a = h ! a) \<Longrightarrow> sliceAdrs h s \<subseteq> A \<Longrightarrow> sliceOpt un h' s = sliceOpt un h s"
  using sl.frame by blast

lemma ptr_part:
  "(\<And>a. a \<in> A \<Longrightarrow> h' ! a = h ! a) \<Longrightarrow> ptrAdrs h p \<subseteq> A \<Longrightarrow> ptrVal un h' p = ptrVal un h p"
  using pt.frame by blast

lemma flat_adrs: "sliceAdrs h' s = sliceAdrs h s" "ptrAdrs h' p = ptrAdrs h p"
  by (simp_all add: sliceAdrs_def ptrAdrs_def)

lemma step_parts:
  "sliceAdrs h (hsRun s) \<subseteq> stepAdrs h s" "sliceAdrs h (hsEnv s) \<subseteq> stepAdrs h s"
  "sliceAdrs h (hsMounts s) \<subseteq> stepAdrs h s" "sliceAdrs h (hsCaches s) \<subseteq> stepAdrs h s"
  "sliceAdrs h (hsSecrets s) \<subseteq> stepAdrs h s" "sliceAdrs h (hsExports s) \<subseteq> stepAdrs h s"
  "sliceAdrs h (hsArtifacts s) \<subseteq> stepAdrs h s" "ptrAdrs h (hsWhen s) \<subseteq> stepAdrs h s"
  "sliceAdrs h (hsShell s) \<subseteq> stepAdrs h s" "ptrAdrs h (hsRetry s) \<subseteq> stepAdrs h s"
  by (auto simp: stepAdrs_def)

interpretation stp: heap_view viewStep stepAdrs
proof
  fix h h' :: "'a heap" and s assume eq: "\<And>a. a \<in> stepAdrs h s \<Longrightarrow> h' ! a = h ! a"
  have "viewStep h' s = viewStep h s"
    by (simp add: viewStep_def slice_part [OF eq] ptr_part [OF eq] step_parts)
  moreover have "stepAdrs h' s = stepAdrs h s" by (simp add: stepAdrs_def sliceAdrs_def ptrAdrs_def)
  ultimately show "viewStep h' s = viewStep h s \<and> stepAdrs h' s = stepAdrs h s" ..
qed

interpretation dm: heap_view viewDim dimAdrs
proof
  fix h h' :: "'a heap" and d assume "\<And>a. a \<in> dimAdrs h d \<Longrightarrow> h' ! a = h ! a"
  from sl.frame [of h "hdValues d" h' unStr] this show "viewDim h' d = viewDim h d \<and> dimAdrs h' d = dimAdrs h d"
    by (simp add: viewDim_def dimAdrs_def)
qed

interpretation dms: heap_view "deepOpt viewDim unDim" "deepAdrs dimAdrs unDim"
  by (rule dm.deepSlice_view)

interpretation mx: heap_view viewMatrix matrixAdrs
proof
  fix h h' :: "'a heap" and m assume "\<And>a. a \<in> matrixAdrs h m \<Longrightarrow> h' ! a = h ! a"
  from dms.frame [of h "hmDimensions m" h'] this show "viewMatrix h' m = viewMatrix h m \<and> matrixAdrs h' m = matrixAdrs h m"
    by (simp add: viewMatrix_def matrixAdrs_def)
qed

interpretation mxp: heap_view "deepPtrVal viewMatrix unMatrix" "deepPtrAdrs matrixAdrs unMatrix"
  by (rule mx.deepPtr_view)

interpretation sts: heap_view "deepOpt viewStep unStep" "deepAdrs stepAdrs unStep"
  by (rule stp.deepSlice_view)

lemma job_parts:
  "sliceAdrs h (hjDependsOn j) \<subseteq> jobAdrs h j" "sliceAdrs h (hjMounts j) \<subseteq> jobAdrs h j"
  "sliceAdrs h (hjCaches j) \<subseteq> jobAdrs h j" "sliceAdrs h (hjEnv j) \<subseteq> jobAdrs h j"
  "sliceAdrs h (hjExports j) \<subseteq> jobAdrs h j" "sliceAdrs h (hjArtifacts j) \<subseteq> jobAdrs h j"
  "sliceAdrs h (hjSecrets j) \<subseteq> jobAdrs h j" "sliceAdrs h (hjShell j) \<subseteq> jobAdrs h j"
  "ptrAdrs h (hjWhen j) \<subseteq> jobAdrs h j" "ptrAdrs h (hjMatrixValues j) \<subseteq> jobAdrs h j"
  "ptrAdrs h (hjPublish j) \<subseteq> jobAdrs h j" "ptrAdrs h (hjRetry j) \<subseteq> jobAdrs h j"
  "deepAdrs stepAdrs unStep h (hjSteps j) \<subseteq> jobAdrs h j"
  "deepPtrAdrs matrixAdrs unMatrix h (hjMatrix j) \<subseteq> jobAdrs h j"
  by (auto simp: jobAdrs_def)

interpretation jb: heap_view viewJob jobAdrs
proof
  fix h h' :: "'a heap" and j assume eq: "\<And>a. a \<in> jobAdrs h j \<Longrightarrow> h' ! a = h ! a"
  then have steps: "deepOpt viewStep unStep h' (hjSteps j) = deepOpt viewStep unStep h (hjSteps j)"
    "deepAdrs stepAdrs unStep h' (hjSteps j) = deepAdrs stepAdrs unStep h (hjSteps j)"
    using sts.frame [of h "hjSteps j" h'] job_parts(13) by blast+
  have matrix: "deepPtrVal viewMatrix unMatrix h' (hjMatrix j) = deepPtrVal viewMatrix unMatrix h (hjMatrix j)"
    "deepPtrAdrs matrixAdrs unMatrix h' (hjMatrix j) = deepPtrAdrs matrixAdrs unMatrix h (hjMatrix j)"
    using mxp.frame [of h "hjMatrix j" h'] eq job_parts(14) by blast+
  have "viewJob h' j = viewJob h j"
    by (simp add: viewJob_def slice_part [OF eq] ptr_part [OF eq] job_parts steps matrix)
  moreover have "jobAdrs h' j = jobAdrs h j"
    by (simp add: jobAdrs_def steps matrix flat_adrs(1) [of h' _ h] flat_adrs(2) [of h' _ h])
  ultimately show "viewJob h' j = viewJob h j \<and> jobAdrs h' j = jobAdrs h j" ..
qed

interpretation jbs: heap_view "deepOpt viewJob unJob" "deepAdrs jobAdrs unJob"
  by (rule jb.deepSlice_view)

lemma defaults_parts:
  "sliceAdrs h (hfMounts d) \<subseteq> defaultsAdrs h d" "sliceAdrs h (hfEnv d) \<subseteq> defaultsAdrs h d"
  "sliceAdrs h (hfShell d) \<subseteq> defaultsAdrs h d"
  by (auto simp: defaultsAdrs_def)

interpretation df: heap_view viewDefaults defaultsAdrs
proof
  fix h h' :: "'a heap" and d assume eq: "\<And>a. a \<in> defaultsAdrs h d \<Longrightarrow> h' ! a = h ! a"
  have "viewDefaults h' d = viewDefaults h d" by (simp add: viewDefaults_def slice_part [OF eq] defaults_parts)
  moreover have "defaultsAdrs h' d = defaultsAdrs h d" by (simp add: defaultsAdrs_def sliceAdrs_def)
  ultimately show "viewDefaults h' d = viewDefaults h d \<and> defaultsAdrs h' d = defaultsAdrs h d" ..
qed

interpretation dfp: heap_view "deepPtrVal viewDefaults unDefaults" "deepPtrAdrs defaultsAdrs unDefaults"
  by (rule df.deepPtr_view)

lemma pipeline_parts:
  "sliceAdrs h (hpEnv p) \<subseteq> pipelineAdrs h p" "sliceAdrs h (hpSecrets p) \<subseteq> pipelineAdrs h p"
  "sliceAdrs h (hpTopoOrder p) \<subseteq> pipelineAdrs h p"
  "deepAdrs jobAdrs unJob h (hpJobs p) \<subseteq> pipelineAdrs h p"
  "deepPtrAdrs matrixAdrs unMatrix h (hpMatrix p) \<subseteq> pipelineAdrs h p"
  "deepPtrAdrs defaultsAdrs unDefaults h (hpDefaults p) \<subseteq> pipelineAdrs h p"
  by (auto simp: pipelineAdrs_def)

interpretation pl: heap_view viewPipeline pipelineAdrs
proof
  fix h h' :: "'a heap" and p assume eq: "\<And>a. a \<in> pipelineAdrs h p \<Longrightarrow> h' ! a = h ! a"
  then have jobs: "deepOpt viewJob unJob h' (hpJobs p) = deepOpt viewJob unJob h (hpJobs p)"
    "deepAdrs jobAdrs unJob h' (hpJobs p) = deepAdrs jobAdrs unJob h (hpJobs p)"
    using jbs.frame [of h "hpJobs p" h'] pipeline_parts(4) by blast+
  have matrix: "deepPtrVal viewMatrix unMatrix h' (hpMatrix p) = deepPtrVal viewMatrix unMatrix h (hpMatrix p)"
    "deepPtrAdrs matrixAdrs unMatrix h' (hpMatrix p) = deepPtrAdrs matrixAdrs unMatrix h (hpMatrix p)"
    using mxp.frame [of h "hpMatrix p" h'] eq pipeline_parts(5) by blast+
  have defaults: "deepPtrVal viewDefaults unDefaults h' (hpDefaults p) = deepPtrVal viewDefaults unDefaults h (hpDefaults p)"
    "deepPtrAdrs defaultsAdrs unDefaults h' (hpDefaults p) = deepPtrAdrs defaultsAdrs unDefaults h (hpDefaults p)"
    using dfp.frame [of h "hpDefaults p" h'] eq pipeline_parts(6) by blast+
  have "viewPipeline h' p = viewPipeline h p"
    by (simp add: viewPipeline_def slice_part [OF eq] pipeline_parts jobs matrix defaults)
  moreover have "pipelineAdrs h' p = pipelineAdrs h p"
    by (simp add: pipelineAdrs_def jobs matrix defaults flat_adrs(1) [of h' _ h])
  ultimately show "viewPipeline h' p = viewPipeline h p \<and> pipelineAdrs h' p = pipelineAdrs h p" ..
qed

section \<open>Clones are copies\<close>

text \<open>
  From a heap that extends \<open>h0\<close> and satisfies \<open>I\<close>, the computation only allocates and ends in \<open>Q\<close>.
\<close>

definition clones ::
  "'ast heap \<Rightarrow> ('ast heap \<Rightarrow> bool) \<Rightarrow> ('ast heap, 'x) state \<Rightarrow> ('x \<Rightarrow> 'ast heap \<Rightarrow> bool) \<Rightarrow> bool" where
  "clones h0 I m Q \<longleftrightarrow>
     (\<forall>h. prefix h0 h \<and> I h \<longrightarrow> prefix h (snd (run_state m h)) \<and> Q (fst (run_state m h)) (snd (run_state m h)))"

lemma clones_return: "(\<And>h. I h \<Longrightarrow> Q x h) \<Longrightarrow> clones h0 I (State_Monad.return x) Q"
  by (simp add: clones_def)

lemma clones_bind:
  assumes "stable I" "clones h0 (\<lambda>_. True) m P" "\<And>x. clones h0 (\<lambda>h. I h \<and> P x h) (f x) Q"
  shows "clones h0 I (State_Monad.bind m f) Q"
  unfolding clones_def
proof (intro allI impI)
  fix h assume h: "prefix h0 h \<and> I h"
  obtain x h1 where r: "run_state m h = (x, h1)" by fastforce
  with h assms(2) have h1: "prefix h h1" "P x h1" by (auto simp: clones_def dest!: spec [of _ h])
  with h assms(1) have "prefix h0 h1 \<and> I h1 \<and> P x h1" by (metis stable_def prefix_order.trans)
  with assms(3) [of x] have "prefix h1 (snd (run_state (f x) h1)) \<and>
      Q (fst (run_state (f x) h1)) (snd (run_state (f x) h1))" by (simp add: clones_def)
  with h1(1) r show "prefix h (snd (run_state (State_Monad.bind m f) h)) \<and>
      Q (fst (run_state (State_Monad.bind m f) h)) (snd (run_state (State_Monad.bind m f) h))"
    by (auto intro: prefix_order.trans)
qed

lemma stable_True: "stable (\<lambda>_. True)"
  by (simp add: stable_def)

lemma stable_conj: "stable P \<Longrightarrow> stable Q \<Longrightarrow> stable (\<lambda>h. P h \<and> Q h)"
  by (auto simp: stable_def)


lemma stable_const: "stable (\<lambda>_. b)"
  by (simp add: stable_def)

lemmas stables = stable_True stable_conj stable_const

lemma clones_read:
  assumes "a < length h0" "clones h0 I (f (un (h0 ! a))) Q"
  shows "clones h0 I (State_Monad.bind (readCell un a) f) Q"
  unfolding clones_def
proof (intro allI impI)
  fix h assume h: "prefix h0 h \<and> I h"
  then have "h ! a = h0 ! a" using assms(1) by (auto simp: prefix_def nth_append)
  then have "run_state (State_Monad.bind (readCell un a) f) h = run_state (f (un (h0 ! a))) h"
    by (simp add: readCell_def)
  with h assms(2) show "prefix h (snd (run_state (State_Monad.bind (readCell un a) f) h)) \<and>
      Q (fst (run_state (State_Monad.bind (readCell un a) f) h)) (snd (run_state (State_Monad.bind (readCell un a) f) h))"
    by (simp add: clones_def)
qed

definition holdsNew :: "'ast heap \<Rightarrow> 'ast cell \<Rightarrow> nat \<Rightarrow> 'ast heap \<Rightarrow> bool" where
  "holdsNew h0 c b h \<longleftrightarrow> length h0 \<le> b \<and> b < length h \<and> h ! b = c"

lemma clones_alloc: "clones h0 (\<lambda>_. True) (allocCell c) (holdsNew h0 c)"
  by (auto simp: clones_def allocCell_def holdsNew_def dest: prefix_length_le)

lemma slicesClone_copies:
  assumes "\<And>xs. un (mk xs) = xs" "allocated sliceAdrs h0 s"
  shows "clones h0 (\<lambda>_. True) (slicesClone mk un s) (copyOf (sliceOpt un) sliceAdrs h0 s)"
proof (cases s)
  case (Some an)
  obtain a n where an: "an = (a, n)" by (cases an)
  have a: "a < length h0" using assms(2) by (simp add: Some an allocated_def sliceAdrs_def)
  show ?thesis
    unfolding slicesClone_def Some an option.case prod.case
    by (rule clones_read [OF a], rule clones_bind [OF stable_True clones_alloc], intro clones_return)
       (auto simp: copyOf_def sliceOpt_def sliceAdrs_def holdsNew_def assms(1))
qed (simp add: slicesClone_def clones_return copyOf_def sliceOpt_def sliceAdrs_def)

lemma ptrClone_copies:
  assumes "\<And>x. un (mk x) = x" "allocated ptrAdrs h0 p"
  shows "clones h0 (\<lambda>_. True) (ptrClone mk un p) (copyOf (ptrVal un) ptrAdrs h0 p)"
proof (cases p)
  case (Some a)
  have a: "a < length h0" using assms(2) by (simp add: Some allocated_def ptrAdrs_def)
  show ?thesis
    unfolding ptrClone_def Some option.case
    by (rule clones_read [OF a], rule clones_bind [OF stable_True clones_alloc], intro clones_return)
       (auto simp: copyOf_def ptrVal_def ptrAdrs_def holdsNew_def assms(1))
qed (simp add: ptrClone_def clones_return copyOf_def ptrVal_def ptrAdrs_def)

lemma stable_all2:
  assumes "\<And>x y. stable (P x y)"
  shows "stable (\<lambda>h. list_all2 (\<lambda>x y. P x y h) xs ys)"
  using assms by (auto simp: stable_def elim!: list_all2_mono)

context heap_view
begin

lemma copies_view:
  "list_all2 (\<lambda>x y. copyOf view adrs h0 x y h) xs ys \<Longrightarrow>
     map (view h) ys = map (view h0) xs \<and> (\<forall>y\<in>set ys. adrs h y \<subseteq> {length h0..<length h})"
  by (induction rule: list_all2_induct) (auto simp: copyOf_def)

lemma cloneEach_copies:
  "(\<And>x. x \<in> set xs \<Longrightarrow> clones h0 (\<lambda>_. True) (f x) (copyOf view adrs h0 x)) \<Longrightarrow>
     clones h0 (\<lambda>_. True) (cloneEach f xs) (\<lambda>ys h. list_all2 (\<lambda>x y. copyOf view adrs h0 x y h) xs ys)"
proof (induction xs)
  case (Cons x xs)
  have IH: "clones h0 (\<lambda>_. True) (cloneEach f xs) (\<lambda>ys h. list_all2 (\<lambda>x y. copyOf view adrs h0 x y h) xs ys)"
    using Cons by simp
  show ?case
    unfolding cloneEach.simps
    by (rule clones_bind [OF stable_True Cons.prems], simp)
       (rule clones_bind [OF stable_conj [OF stable_True stable_copyOf] IH], rule clones_return, simp)
qed (simp add: clones_return)

lemma deepSlice_copies:
  assumes "\<And>xs. un (mk xs) = xs" "allocated (deepAdrs adrs un) h0 s"
    and "\<And>x. allocated adrs h0 x \<Longrightarrow> clones h0 (\<lambda>_. True) (f x) (copyOf view adrs h0 x)"
  shows "clones h0 (\<lambda>_. True) (deepSlice mk un f s) (copyOf (deepOpt view un) (deepAdrs adrs un) h0 s)"
proof (cases s)
  case (Some an)
  obtain a n where an: "an = (a, n)" by (cases an)
  let ?xs = "take n (un (h0 ! a))"
  have a: "a < length h0" and el: "\<And>x. x \<in> set ?xs \<Longrightarrow> allocated adrs h0 x"
    using assms(2) by (auto simp: Some an allocated_def deepAdrs_def sliceAdrs_def sliceOpt_def listOf_def)
  have ys: "clones h0 (\<lambda>_. True) (cloneEach f ?xs) (\<lambda>ys h. list_all2 (\<lambda>x y. copyOf view adrs h0 x y h) ?xs ys)"
    by (rule cloneEach_copies) (rule assms(3) [OF el])
  have fin: "copyOf (deepOpt view un) (deepAdrs adrs un) h0 s (Some (b, n)) h"
    if all: "list_all2 (\<lambda>x y. copyOf view adrs h0 x y h) ?xs ys" and b: "holdsNew h0 (mk ys) b h" for b ys h
  proof -
    have "length ys \<le> n" using list_all2_lengthD [OF all] by simp
    then have ev: "sliceOpt un h (Some (b, n)) = Some ys" using b by (simp add: sliceOpt_def holdsNew_def assms(1))
    have "sliceOpt un h0 s = Some ?xs" by (simp add: Some an sliceOpt_def)
    with copies_view [OF all] b ev show ?thesis
      by (auto simp: copyOf_def deepOpt_def deepAdrs_def sliceAdrs_def listOf_def holdsNew_def)
  qed
  show ?thesis
    unfolding deepSlice_def Some an option.case prod.case
    by (rule clones_read [OF a], rule clones_bind [OF stable_True ys],
        rule clones_bind [OF stable_conj [OF stable_True stable_all2 [OF stable_copyOf]] clones_alloc], rule clones_return)
       (elim conjE, rule fin [unfolded Some an])
qed (simp add: deepSlice_def clones_return copyOf_def deepOpt_def deepAdrs_def sliceOpt_def sliceAdrs_def listOf_def)

lemma deepPtr_copies:
  assumes "\<And>x. un (mk x) = x" "allocated (deepPtrAdrs adrs un) h0 p"
    and "\<And>x. allocated adrs h0 x \<Longrightarrow> clones h0 (\<lambda>_. True) (f x) (copyOf view adrs h0 x)"
  shows "clones h0 (\<lambda>_. True) (deepPtr mk un f p) (copyOf (deepPtrVal view un) (deepPtrAdrs adrs un) h0 p)"
proof (cases p)
  case (Some a)
  have a: "a < length h0" and x: "allocated adrs h0 (un (h0 ! a))"
    using assms(2) by (auto simp: Some allocated_def deepPtrAdrs_def ptrAdrs_def ptrVal_def)
  show ?thesis
    unfolding deepPtr_def Some option.case
    by (rule clones_read [OF a], rule clones_bind [OF stable_True assms(3) [OF x]],
        rule clones_bind [OF stable_conj [OF stable_True stable_copyOf] clones_alloc], rule clones_return)
       (auto simp: copyOf_def deepPtrVal_def deepPtrAdrs_def ptrVal_def ptrAdrs_def holdsNew_def assms(1))
qed (simp add: deepPtr_def clones_return copyOf_def deepPtrVal_def deepPtrAdrs_def ptrVal_def ptrAdrs_def)

end

lemma clone_slice:
  assumes "stable I" "\<And>xs. un (mk xs) = xs" "allocated sliceAdrs h0 s"
    and "\<And>s'. clones h0 (\<lambda>h. I h \<and> copyOf (sliceOpt un) sliceAdrs h0 s s' h) (f s') Q"
  shows "clones h0 I (State_Monad.bind (slicesClone mk un s) f) Q"
  using clones_bind [OF assms(1) slicesClone_copies [OF assms(2,3)] assms(4)] .

lemma clone_ptr:
  assumes "stable I" "\<And>x. un (mk x) = x" "allocated ptrAdrs h0 p"
    and "\<And>p'. clones h0 (\<lambda>h. I h \<and> copyOf (ptrVal un) ptrAdrs h0 p p' h) (f p') Q"
  shows "clones h0 I (State_Monad.bind (ptrClone mk un p) f) Q"
  using clones_bind [OF assms(1) ptrClone_copies [OF assms(2,3)] assms(4)] .

lemma part_allocated: "allocated A h x \<Longrightarrow> B h y \<subseteq> A h x \<Longrightarrow> allocated B h y"
  by (auto simp: allocated_def)

lemmas copy_stables = stables sl.stable_copyOf pt.stable_copyOf sts.stable_copyOf mxp.stable_copyOf jbs.stable_copyOf
  dfp.stable_copyOf dms.stable_copyOf

lemma cloneStep_copies:
  assumes "allocated stepAdrs h0 s"
  shows "clones h0 (\<lambda>_. True) (cloneStep s) (copyOf viewStep stepAdrs h0 s)"
  unfolding cloneStep_def
  by (intro clone_slice clone_ptr copy_stables clones_return part_allocated [OF assms] step_parts)
     (simp_all add: copyOf_def viewStep_def stepAdrs_def)

lemma cloneDim_copies:
  assumes "allocated dimAdrs h0 d"
  shows "clones h0 (\<lambda>_. True) (cloneDim d) (copyOf viewDim dimAdrs h0 d)"
proof -
  have "allocated sliceAdrs h0 (hdValues d)" using assms by (simp add: allocated_def dimAdrs_def)
  then show ?thesis
    unfolding cloneDim_def
    by (intro clone_slice copy_stables clones_return) (simp_all add: copyOf_def viewDim_def dimAdrs_def)
qed

lemma cloneMatrix_copies:
  assumes "allocated matrixAdrs h0 m"
  shows "clones h0 (\<lambda>_. True) (cloneMatrix m) (copyOf viewMatrix matrixAdrs h0 m)"
proof -
  have "allocated (deepAdrs dimAdrs unDim) h0 (hmDimensions m)"
    using assms by (simp add: allocated_def matrixAdrs_def)
  from dm.deepSlice_copies [OF _ this cloneDim_copies, of DimCell]
  have "clones h0 (\<lambda>_. True) (deepSlice DimCell unDim cloneDim (hmDimensions m))
      (copyOf (deepOpt viewDim unDim) (deepAdrs dimAdrs unDim) h0 (hmDimensions m))" by simp
  then show ?thesis
    unfolding cloneMatrix_def
    by (rule clones_bind [OF stable_True], intro clones_return) (simp add: copyOf_def viewMatrix_def matrixAdrs_def)
qed

lemma cloneJob_copies:
  assumes "allocated jobAdrs h0 j"
  shows "clones h0 (\<lambda>_. True) (cloneJob j) (copyOf viewJob jobAdrs h0 j)"
proof -
  have steps: "clones h0 (\<lambda>_. True) (deepSlice StepCell unStep cloneStep (hjSteps j))
      (copyOf (deepOpt viewStep unStep) (deepAdrs stepAdrs unStep) h0 (hjSteps j))"
    by (rule stp.deepSlice_copies [OF _ part_allocated [of _ _ _ "deepAdrs stepAdrs unStep", OF assms job_parts(13)] cloneStep_copies]) simp
  have matrix: "clones h0 (\<lambda>_. True) (deepPtr MatrixCell unMatrix cloneMatrix (hjMatrix j))
      (copyOf (deepPtrVal viewMatrix unMatrix) (deepPtrAdrs matrixAdrs unMatrix) h0 (hjMatrix j))"
    by (rule mx.deepPtr_copies [OF _ part_allocated [of _ _ _ "deepPtrAdrs matrixAdrs unMatrix", OF assms job_parts(14)] cloneMatrix_copies]) simp
  show ?thesis
    unfolding cloneJob_def
    by (intro clone_slice clone_ptr clones_bind [OF _ steps] clones_bind [OF _ matrix] copy_stables clones_return
          part_allocated [OF assms] job_parts)
       (simp_all add: copyOf_def viewJob_def jobAdrs_def)
qed

lemma cloneDefaults_copies:
  assumes "allocated defaultsAdrs h0 d"
  shows "clones h0 (\<lambda>_. True) (cloneDefaults d) (copyOf viewDefaults defaultsAdrs h0 d)"
  unfolding cloneDefaults_def
  by (intro clone_slice copy_stables clones_return part_allocated [OF assms] defaults_parts)
     (simp_all add: copyOf_def viewDefaults_def defaultsAdrs_def)

lemma clonePipeline_copies:
  assumes "allocated pipelineAdrs h0 p"
  shows "clones h0 (\<lambda>_. True) (clonePipeline p) (copyOf viewPipeline pipelineAdrs h0 p)"
proof -
  have jobs: "clones h0 (\<lambda>_. True) (deepSlice JobCell unJob cloneJob (hpJobs p))
      (copyOf (deepOpt viewJob unJob) (deepAdrs jobAdrs unJob) h0 (hpJobs p))"
    by (rule jb.deepSlice_copies [OF _ part_allocated [of _ _ _ "deepAdrs jobAdrs unJob", OF assms pipeline_parts(4)] cloneJob_copies]) simp
  have matrix: "clones h0 (\<lambda>_. True) (deepPtr MatrixCell unMatrix cloneMatrix (hpMatrix p))
      (copyOf (deepPtrVal viewMatrix unMatrix) (deepPtrAdrs matrixAdrs unMatrix) h0 (hpMatrix p))"
    by (rule mx.deepPtr_copies [OF _ part_allocated [of _ _ _ "deepPtrAdrs matrixAdrs unMatrix", OF assms pipeline_parts(5)] cloneMatrix_copies]) simp
  have defaults: "clones h0 (\<lambda>_. True) (deepPtr DefaultsCell unDefaults cloneDefaults (hpDefaults p))
      (copyOf (deepPtrVal viewDefaults unDefaults) (deepPtrAdrs defaultsAdrs unDefaults) h0 (hpDefaults p))"
    by (rule df.deepPtr_copies [OF _ part_allocated [of _ _ _ "deepPtrAdrs defaultsAdrs unDefaults", OF assms pipeline_parts(6)] cloneDefaults_copies]) simp
  show ?thesis
    unfolding clonePipeline_def
    by (intro clone_slice clones_bind [OF _ jobs] clones_bind [OF _ matrix] clones_bind [OF _ defaults] copy_stables
          clones_return part_allocated [OF assms] pipeline_parts)
       (simp_all add: copyOf_def viewPipeline_def pipelineAdrs_def)
qed



definition sampleStepR :: stepR where
  "sampleStepR =
     \<lparr>hsName = ''build'', hsRun = Some (0, 1), hsEnv = None, hsWorkdir = [], hsMounts = None, hsCaches = None,
      hsSecrets = None, hsExports = None, hsArtifacts = None, hsWhen = None, hsNoCache = False, hsTimeout = 0,
      hsShell = None, hsRetry = Some 3, hsAllowFailure = False\<rparr>"

definition sampleJobR :: jobR where
  "sampleJobR =
     \<lparr>hjName = ''j'', hjImage = ''alpine'', hjWorkdir = [], hjPlatform = [], hjDependsOn = None, hjMounts = None,
      hjCaches = None, hjEnv = None, hjExports = None, hjArtifacts = None, hjSecrets = None, hjSteps = Some (1, 1),
      hjWhen = None, hjMatrix = None, hjMatrixValues = None, hjNoCache = False, hjPublish = None, hjTimeout = 0,
      hjRetry = Some 3, hjShell = None\<rparr>"

definition samplePipelineR :: pipelineR where
  "samplePipelineR =
     \<lparr>hpName = ''p'', hpJobs = Some (2, 1), hpEnv = None, hpSecrets = None, hpMatrix = None, hpDefaults = None,
      hpTopoOrder = None\<rparr>"

text \<open>The array of commands is longer than the slice, and job and step share a retry policy.\<close>

definition sampleHeap :: "string heap" where
  "sampleHeap =
     [StrCell [''make'', ''test''], StepCell [sampleStepR], JobCell [sampleJobR],
      RetryCell \<lparr>rAttempts = 2, rDelay = 0, rBackoff = []\<rparr>]"

lemma sample_adrs: "pipelineAdrs sampleHeap samplePipelineR = {0, 1, 2, 3}"
  by (auto simp: samplePipelineR_def sampleHeap_def pipelineAdrs_def deepAdrs_def deepPtrAdrs_def sliceAdrs_def
        ptrAdrs_def ptrVal_def sliceOpt_def listOf_def jobAdrs_def sampleJobR_def stepAdrs_def sampleStepR_def)


end
