(* ===== verification/Display_Lifecycle.thy ===== *)
theory Display_Lifecycle
  imports Plain_Display
begin

text \<open>
  The life of a display (\<^verbatim>\<open>Start\<close>, \<^verbatim>\<open>Send\<close> and \<^verbatim>\<open>Shutdown\<close> of \<^verbatim>\<open>internal/progress/plain\<close>, \<^verbatim>\<open>quiet\<close> and
  \<^verbatim>\<open>tui\<close>, which share it): senders and one consumer around a channel of 64 messages, as a step
  relation. \<open>'s\<close> is what the consumer builds up, \<open>step\<close> how it processes a message, and \<open>atEnd\<close> what it
  does when it finds the channel closed (the terminal display quits, the others just return).
\<close>

section \<open>States and steps\<close>

definition chanSize :: nat where
  "chanSize = 64"

text \<open>\<open>dsSent\<close> records the messages that were sent, for the statements below.\<close>

record ('msg, 's) displayState =
  dsStarted :: bool
  dsClosed :: bool
  dsFinished :: bool
  dsQueue :: "'msg list"
  dsConsumer :: "'s"
  dsSent :: "'msg list"

definition newDisplay :: "'s \<Rightarrow> ('msg, 's) displayState" where
  "newDisplay s = \<lparr>dsStarted = False, dsClosed = False, dsFinished = False, dsQueue = [], dsConsumer = s, dsSent = []\<rparr>"

text \<open>\<^verbatim>\<open>once.Do\<close> makes the second start and the second close do nothing.\<close>

definition startDisplay :: "('msg, 's) displayState \<Rightarrow> ('msg, 's) displayState" where
  "startDisplay d = d\<lparr>dsStarted := True\<rparr>"

datatype 'd sendResult = Sent 'd | Blocks | SendPanics

definition Send :: "'msg \<Rightarrow> ('msg, 's) displayState \<Rightarrow> ('msg, 's) displayState sendResult" where
  "Send msg d =
     (if dsClosed d then SendPanics
      else if length (dsQueue d) < chanSize then Sent (d\<lparr>dsQueue := dsQueue d @ [msg], dsSent := dsSent d @ [msg]\<rparr>)
      else Blocks)"

definition closeDisplay :: "('msg, 's) displayState \<Rightarrow> ('msg, 's) displayState" where
  "closeDisplay d = d\<lparr>dsClosed := True\<rparr>"

text \<open>\<^verbatim>\<open>wg.Wait\<close> returns at once when nothing was started.\<close>

definition shutdownReturns :: "('msg, 's) displayState \<Rightarrow> bool" where
  "shutdownReturns d \<longleftrightarrow> dsClosed d \<and> (dsStarted d \<longrightarrow> dsFinished d)"

text \<open>One turn of the consumer's loop; a message that makes it panic leaves no successor.\<close>

definition consumerTurn ::
  "('msg \<Rightarrow> 's \<Rightarrow> 's option) \<Rightarrow> ('s \<Rightarrow> 's) \<Rightarrow> ('msg, 's) displayState \<Rightarrow> ('msg, 's) displayState option" where
  "consumerTurn step atEnd d =
     (if \<not> dsStarted d \<or> dsFinished d then None
      else (case dsQueue d of
              msg # q \<Rightarrow> map_option (\<lambda>s. d\<lparr>dsQueue := q, dsConsumer := s\<rparr>) (step msg (dsConsumer d))
            | [] \<Rightarrow> if dsClosed d then Some (d\<lparr>dsFinished := True, dsConsumer := atEnd (dsConsumer d)\<rparr>) else None))"

inductive displayStep ::
  "('msg \<Rightarrow> 's \<Rightarrow> 's option) \<Rightarrow> ('s \<Rightarrow> 's) \<Rightarrow> ('msg, 's) displayState \<Rightarrow> ('msg, 's) displayState \<Rightarrow> bool"
  for step atEnd where
  Starts: "displayStep step atEnd d (startDisplay d)"
| Sends: "Send msg d = Sent d' \<Longrightarrow> displayStep step atEnd d d'"
| Closes: "displayStep step atEnd d (closeDisplay d)"
| Consumes: "consumerTurn step atEnd d = Some d' \<Longrightarrow> displayStep step atEnd d d'"

inductive displayRun ::
  "('msg \<Rightarrow> 's \<Rightarrow> 's option) \<Rightarrow> ('s \<Rightarrow> 's) \<Rightarrow> 's \<Rightarrow> ('msg, 's) displayState \<Rightarrow> bool"
  for step atEnd s0 where
  run_new: "displayRun step atEnd s0 (newDisplay s0)"
| run_step: "displayRun step atEnd s0 d \<Longrightarrow> displayStep step atEnd d d' \<Longrightarrow> displayRun step atEnd s0 d'"

section \<open>Nothing is lost\<close>

text \<open>What was sent has been processed, in order, or waits in the channel.\<close>

definition displayInv :: "('msg \<Rightarrow> 's \<Rightarrow> 's option) \<Rightarrow> ('s \<Rightarrow> 's) \<Rightarrow> 's \<Rightarrow> ('msg, 's) displayState \<Rightarrow> bool" where
  "displayInv step atEnd s0 d \<longleftrightarrow>
     length (dsQueue d) \<le> chanSize \<and> (dsFinished d \<longrightarrow> dsStarted d \<and> dsClosed d \<and> dsQueue d = []) \<and>
     (\<exists>past s. dsSent d = past @ dsQueue d \<and> runMsgs step past s0 = Some s \<and>
        dsConsumer d = (if dsFinished d then atEnd s else s))"

lemma displayInv_step: "displayStep step atEnd d d' \<Longrightarrow> displayInv step atEnd s0 d \<Longrightarrow> displayInv step atEnd s0 d'"
proof (induction rule: displayStep.induct)
  case (Consumes d d')
  then obtain past s where inv: "dsSent d = past @ dsQueue d" "runMsgs step past s0 = Some s"
    "dsConsumer d = (if dsFinished d then atEnd s else s)" "length (dsQueue d) \<le> chanSize"
    by (auto simp: displayInv_def)
  have live: "dsStarted d" "\<not> dsFinished d" using Consumes(1) by (auto simp: consumerTurn_def split: if_splits)
  show ?case
  proof (cases "dsQueue d")
    case Nil
    then show ?thesis using Consumes(1) inv live by (auto simp: consumerTurn_def displayInv_def split: if_splits)
  next
    case (Cons msg q)
    with Consumes(1) live inv(3) obtain s' where s': "step msg s = Some s'" "d' = d\<lparr>dsQueue := q, dsConsumer := s'\<rparr>"
      by (auto simp: consumerTurn_def)
    then have "runMsgs step (past @ [msg]) s0 = Some s'" using inv(2) by (simp add: runMsgs_append)
    moreover have "dsSent d' = (past @ [msg]) @ dsQueue d'" using inv(1) Cons s' by simp
    ultimately show ?thesis using s' live inv(4) Cons unfolding displayInv_def by auto
  qed
qed (auto simp: displayInv_def startDisplay_def closeDisplay_def Send_def split: if_splits)

lemma displayInv_run: "displayRun step atEnd s0 d \<Longrightarrow> displayInv step atEnd s0 d"
proof (induction rule: displayRun.induct)
  case run_new
  then show ?case by (auto simp: displayInv_def newDisplay_def intro: exI [of _ "[]"])
qed (rule displayInv_step)


section \<open>The consumer never gets stuck\<close>

context message_consumer
begin

lemma turn_possible:
  assumes "displayRun step atEnd s0 d" "inv s0" "list_all accepted (dsSent d)"
    and "dsStarted d" "\<not> dsFinished d" "dsQueue d \<noteq> [] \<or> dsClosed d"
  shows "\<exists>d'. consumerTurn step atEnd d = Some d' \<and> (dsFinished d' \<or> length (dsQueue d') < length (dsQueue d))"
proof (cases "dsQueue d")
  case Nil
  with assms(4-6) show ?thesis by (simp add: consumerTurn_def)
next
  case (Cons msg q)
  from displayInv_run [OF assms(1)] assms(5) obtain past where
    sent: "dsSent d = past @ msg # q" "runMsgs step past s0 = Some (dsConsumer d)"
    by (auto simp: displayInv_def Cons)
  with assms(3) have "list_all accepted past" "accepted msg" by auto
  with consumed_state [OF assms(2) _ sent(2)] consumes obtain s' where "step msg (dsConsumer d) = Some s'" by blast
  with Cons assms(4,5) show ?thesis by (simp add: consumerTurn_def)
qed

lemma flushed_display:
  assumes "displayRun step atEnd s0 d" "shutdownReturns d" "dsStarted d"
  shows "map_option atEnd (runMsgs step (dsSent d) s0) = Some (dsConsumer d) \<and> dsQueue d = []"
  using displayInv_run [OF assms(1)] assms(2,3) by (auto simp: displayInv_def shutdownReturns_def)

end

interpretation tuiMsgs: message_consumer "\<lambda>msg. tuiStep quoted (Progress msg)" modelInv modelAdv plainMsgOk for quoted
  by unfold_locales (auto simp: plainMsgOk_def intro: tui.consumes modelAdv_trans)

lemma tui_turn_possible:
  assumes "displayRun (\<lambda>msg. tuiStep quoted (Progress msg)) atEnd (newMultiModel boring) d" "list_all plainMsgOk (dsSent d)"
    and "dsStarted d" "\<not> dsFinished d" "dsQueue d \<noteq> [] \<or> dsClosed d"
  shows "\<exists>d'. consumerTurn (\<lambda>msg. tuiStep quoted (Progress msg)) atEnd d = Some d' \<and>
    (dsFinished d' \<or> length (dsQueue d') < length (dsQueue d))"
  by (rule tuiMsgs.turn_possible [OF assms(1) modelInv_new assms(2-)])

definition emptyPlain :: plainState where
  "emptyPlain = \<lparr>psJobs = [], psOut = []\<rparr>"


text \<open>A display that starts, gets a message, is shut down and takes its two turns.\<close>

definition sampleLife :: "(Msg, plainState) displayState" where
  "sampleLife =
     (case Send (JobSkippedMsg ''j'') (startDisplay (newDisplay emptyPlain)) of
        Sent d \<Rightarrow> the (Option.bind (consumerTurn (consumeMsg False id) id d)
                         (\<lambda>d. consumerTurn (consumeMsg False id) id (closeDisplay d)))
      | _ \<Rightarrow> newDisplay emptyPlain)"

lemma sampleLife_runs: "displayRun (consumeMsg False id) id emptyPlain sampleLife"
proof -
  let ?step = "consumeMsg False id" and ?d1 = "startDisplay (newDisplay emptyPlain)"
  obtain d2 where d2: "Send (JobSkippedMsg ''j'') ?d1 = Sent d2" "dsQueue d2 = [JobSkippedMsg ''j'']" "dsStarted d2"
    "\<not> dsFinished d2" by (auto simp: Send_def startDisplay_def newDisplay_def chanSize_def)
  then obtain d3 where d3: "consumerTurn ?step id d2 = Some d3" "dsQueue d3 = []" "dsStarted d3" "\<not> dsFinished d3"
    by (auto simp: consumerTurn_def consumeMsg_def say_def)
  then obtain d4 where d4: "consumerTurn ?step id (closeDisplay d3) = Some d4"
    by (auto simp: consumerTurn_def closeDisplay_def)
  have "sampleLife = d4" by (simp add: sampleLife_def d2(1) d3(1) d4)
  moreover have "displayRun ?step id emptyPlain d4"
    using d2(1) d3(1) d4 by (meson displayRun.intros displayStep.intros)
  ultimately show ?thesis by simp
qed


end
