(* ===== verification/Cli_Setup.thy ===== *)
theory Cli_Setup
  imports Run_Command Plain_Display
begin

text \<open>
  The start-up of the program (\<^verbatim>\<open>cmd/cicada/main.go\<close>): the logger (\<^verbatim>\<open>internal/progress/handler.go\<close>,
  \<^verbatim>\<open>pkg/slogctx\<close>), the hooks that run before a command, the connection to BuildKit, the engine commands and
  the report of an error. The flag values are arguments: parsing the command line is the cli
  package's.
\<close>

section \<open>The pretty handler (handler.go)\<close>

record PrettyHandler =
  phLevel :: int
  phPrefix :: string

definition NewPrettyHandler :: "int \<Rightarrow> PrettyHandler" where
  "NewPrettyHandler level = \<lparr>phLevel = level, phPrefix = []\<rparr>"

datatype logStyle = LogError | LogWarn | LogDebug | LogCyan

definition Enabled :: "PrettyHandler \<Rightarrow> int \<Rightarrow> bool" where
  "Enabled h level \<longleftrightarrow> level \<ge> phLevel h"

text \<open>The text of an attribute's value.\<close>

fun attrText :: "attrVal \<Rightarrow> string" where
  "attrText (AStr s) = s"
| "attrText (AInt i) = Itoa i"
| "attrText (ADur d) = durationString d"

text \<open>The line that is written; the first duration of the record is appended in its own colour.\<close>

definition Handle :: "(logStyle \<Rightarrow> string \<Rightarrow> string) \<Rightarrow> PrettyHandler \<Rightarrow> logRec \<Rightarrow> string" where
  "Handle paint h r =
     (let msg = phPrefix h @ lrMsg r @
                (case find (\<lambda>(k, v). k = ''duration'') (lrAttrs r) of
                   None \<Rightarrow> []
                 | Some (k, v) \<Rightarrow> CHR '' '' # paint LogCyan (attrText v)) in
      (if lrLevel r \<ge> LevelError then paint LogError msg
       else if lrLevel r \<ge> LevelWarn then paint LogWarn msg
       else if lrLevel r < LevelInfo then paint LogDebug msg
       else msg))"

definition WithAttrs :: "(string \<times> attrVal) list \<Rightarrow> PrettyHandler \<Rightarrow> PrettyHandler" where
  "WithAttrs attrs h =
     (if attrs = [] then h
      else h\<lparr>phPrefix := phPrefix h @ concat (map (\<lambda>(k, v). k @ ''='' @ attrText v @ '' '') attrs)\<rparr>)"

definition WithGroup :: "string \<Rightarrow> PrettyHandler \<Rightarrow> PrettyHandler" where
  "WithGroup name h = (if name = [] then h else h\<lparr>phPrefix := phPrefix h @ name @ ''.''\<rparr>)"

datatype logHandler = JSONHandler int | TextHandler int | Pretty PrettyHandler

definition NewLogger :: "string \<Rightarrow> int \<Rightarrow> logHandler option" where
  "NewLogger format level =
     (if format = ''json'' then Some (JSONHandler level)
      else if format = ''text'' then Some (TextHandler level)
      else if format = ''pretty'' then Some (Pretty (NewPrettyHandler level))
      else None)"

text \<open>\<^verbatim>\<open>slogctx\<close>: a context is what it carries; a nil logger counts as none.\<close>

definition ContextWithLogger :: "'l option \<Rightarrow> 'l option option \<Rightarrow> 'l option option" where
  "ContextWithLogger logger ctx = Some logger"

definition FromContext :: "'l \<Rightarrow> 'l option option \<Rightarrow> 'l" where
  "FromContext dflt ctx = (case ctx of Some (Some l) \<Rightarrow> l | _ \<Rightarrow> dflt)"

section \<open>Hooks (main.go)\<close>

text \<open>
  \<^verbatim>\<open>slog.Level.UnmarshalText\<close>: a name in any case (of ASCII letters), and a signed offset; \<open>atoi\<close> is \<^verbatim>\<open>strconv.Atoi\<close>.
\<close>

definition levelName :: "string \<Rightarrow> int option" where
  "levelName name =
     (let n = ToLower name in
      if n = ''debug'' then Some (- 4)
      else if n = ''info'' then Some LevelInfo
      else if n = ''warn'' then Some LevelWarn
      else if n = ''error'' then Some LevelError
      else None)"

definition parseLevel :: "(string \<Rightarrow> int option) \<Rightarrow> string \<Rightarrow> int option" where
  "parseLevel atoi s =
     (let name = takeWhile (\<lambda>c. c \<noteq> CHR ''+'' \<and> c \<noteq> CHR ''-'') s; rest = drop (length name) s in
      if rest = [] then levelName name
      else (case atoi rest of
              None \<Rightarrow> None
            | Some off \<Rightarrow> map_option (\<lambda>l. wrap64 (l + off)) (levelName name)))"

datatype startErr = InvalidLogLevel string | ErrUnknownFormat string | ResolveRuntime string rtErr | CreateManager string engineErr

record startApp =
  saTTY :: bool
  saFormat :: string
  saLogger :: "logHandler option"

definition Before :: "(string \<Rightarrow> int option) \<Rightarrow> string \<Rightarrow> string \<Rightarrow> startApp \<Rightarrow> startErr option \<times> startApp" where
  "Before atoi format logLevel a =
     (let fmt = (if format = ''auto'' then (if saTTY a then ''pretty'' else ''text'') else format);
          a1 = a\<lparr>saFormat := fmt\<rparr> in
      case parseLevel atoi logLevel of
        None \<Rightarrow> (Some (InvalidLogLevel logLevel), a1)
      | Some level \<Rightarrow>
          (case NewLogger fmt level of
             None \<Rightarrow> (Some (ErrUnknownFormat fmt), a1)
           | Some l \<Rightarrow> (None, a1\<lparr>saLogger := Some l\<rparr>)))"

definition initEngine :: "'w RuntimeResolver \<Rightarrow> string \<Rightarrow> 'w \<Rightarrow> startErr + 'w Manager" where
  "initEngine resolver rtName w =
     (case ResolverGet resolver rtName w of
        Inl e \<Rightarrow> Inl (ResolveRuntime rtName e)
      | Inr rt \<Rightarrow> (case NewManager (Some rt) of Inl e \<Rightarrow> Inl (CreateManager rtName e) | Inr m \<Rightarrow> Inr m))"

text \<open>The factories of \<^verbatim>\<open>main\<close>: Docker before Podman.\<close>

definition mainResolver :: "'w Runtime \<Rightarrow> 'w Runtime \<Rightarrow> 'w RuntimeResolver" where
  "mainResolver docker podman =
     \<lparr>rsFactories = [Some docker, Some podman],
      rsNamed = Some [(''docker'', Some docker), (''podman'', Some podman)]\<rparr>"

text \<open>
  \<^verbatim>\<open>defaultConnect\<close>: the client, or why there is none, and whether a client was closed again. The
  answers of the two calls are arguments.
\<close>

datatype connectErr = Connecting string | Reaching string

record connection =
  cnResult :: "connectErr + string"
  cnClosed :: bool

definition defaultConnect :: "(string \<Rightarrow> bool) \<Rightarrow> (string \<Rightarrow> bool) \<Rightarrow> string \<Rightarrow> connection" where
  "defaultConnect new listWorkers addr =
     (if \<not> new addr then \<lparr>cnResult = Inl (Connecting addr), cnClosed = False\<rparr>
      else if \<not> listWorkers addr then \<lparr>cnResult = Inl (Reaching addr), cnClosed = True\<rparr>
      else \<lparr>cnResult = Inr addr, cnClosed = False\<rparr>)"

text \<open>
  \<^verbatim>\<open>defaultBkDial\<close>: no answer is the answer that nothing is there, never an error.
\<close>

definition defaultBkDial :: "(string \<Rightarrow> bool) \<Rightarrow> (string \<Rightarrow> bool) \<Rightarrow> string \<Rightarrow> bool option" where
  "defaultBkDial new listWorkers addr = (if \<not> new addr then Some False else Some (listWorkers addr))"

section \<open>Engine commands (run.go) and the error report\<close>

definition engineStartAction ::
  "nat \<Rightarrow> 'w Manager \<Rightarrow> (nat \<Rightarrow> probe) \<Rightarrow> 'w \<Rightarrow> ((engineErr + string) \<times> 'w) option" where
  "engineStartAction fuel m ev w =
     map_option (\<lambda>(r, w'). (case r of
                              Inl e \<Rightarrow> Inl e
                            | Inr addr \<Rightarrow> Inr (''BuildKit engine started at '' @ addr @ [CHR 0x0A]), w'))
       (Start fuel m ev w)"

text \<open>The values of the state type are what the command prints.\<close>

fun stateText :: "ContainerState \<Rightarrow> string" where
  "stateText StateRunning = ''running''"
| "stateText StateExited = ''exited''"
| "stateText StateCreated = ''created''"
| "stateText StatePaused = ''paused''"
| "stateText StateUnknown = []"

definition engineStatusAction :: "'w Manager \<Rightarrow> 'w \<Rightarrow> (engineErr + string) \<times> 'w" where
  "engineStatusAction m w =
     (case Status m w of (r, w') \<Rightarrow>
        (case r of
           Inl e \<Rightarrow> Inl e
         | Inr st \<Rightarrow>
             (let state = (case st of None \<Rightarrow> [] | Some s \<Rightarrow> stateText s) in
              if state = [] then Inr (''BuildKit engine: not running'' @ [CHR 0x0A])
              else Inr (''BuildKit engine: '' @ state @ [CHR 0x0A])), w'))"

text \<open>\<^verbatim>\<open>ExitErrHandler\<close> and the exit code: an error is its text, and the display error in its chain.\<close>

definition ExitErrHandler :: "(string \<times> DisplayError option) option \<Rightarrow> string \<times> int" where
  "ExitErrHandler err =
     (case err of
        None \<Rightarrow> ([], 0)
      | Some (msg, Some de) \<Rightarrow> (''error: '' @ deHuman de @ [CHR 0x0A], 1)
      | Some (msg, None) \<Rightarrow> (''error: '' @ msg @ [CHR 0x0A], 1))"

section \<open>Properties\<close>

lemma WithAttrs_append: "WithAttrs (as @ bs) h = WithAttrs bs (WithAttrs as h)"
  by (cases "as = []"; cases "bs = []") (simp_all add: WithAttrs_def)

text \<open>Attributes and groups never change which records are enabled, and only prepend to the message.\<close>

inductive derived :: "PrettyHandler \<Rightarrow> PrettyHandler \<Rightarrow> bool" where
  derived_refl: "derived h h"
| derived_attrs: "derived h h' \<Longrightarrow> derived h (WithAttrs attrs h')"
| derived_group: "derived h h' \<Longrightarrow> derived h (WithGroup name h')"

lemma derived_prefix:
  "derived h h' \<Longrightarrow> phLevel h' = phLevel h \<and> (\<exists>p. phPrefix h' = phPrefix h @ p)"
  by (induction rule: derived.induct) (auto simp: WithAttrs_def WithGroup_def)

text \<open>
  The choices at start-up fit together: with automatic format and progress the interactive display runs
  exactly on a terminal, and then the log is pretty; a broken log level or an unknown format stops every
  command.
\<close>

lemma start_choices:
  assumes "Before atoi ''auto'' level a = (None, a')"
  shows "selectDisplay (saTTY a' \<and> saFormat a' = ''pretty'') ''auto'' boring =
      Some (if saTTY a then TuiDisplay boring else PlainDisplay) \<and>
    (\<exists>l. parseLevel atoi level = Some l \<and>
       saLogger a' = Some (if saTTY a then Pretty (NewPrettyHandler l) else TextHandler l))"
proof -
  have "TrimSpace (ToLower ''auto'') = ''auto''" by code_simp
  with assms show ?thesis
    by (auto simp: Before_def NewLogger_def selectDisplay_def Let_def split: option.splits if_splits)
qed

lemma Before_error:
  "fst (Before atoi format level a) \<noteq> None \<longleftrightarrow>
     parseLevel atoi level = None \<or> format \<notin> {''auto'', ''json'', ''text'', ''pretty''}"
  by (auto simp: Before_def NewLogger_def Let_def split: option.split)

text \<open>Automatic choice takes Docker when it answers, else Podman when that does.\<close>

lemma initEngine_auto:
  "initEngine (mainResolver docker podman) ''auto'' w =
     (if rtAvailable docker w then Inr \<lparr>mRt = docker, mHealth = defaultHealthConfig\<rparr>
      else if rtAvailable podman w then Inr \<lparr>mRt = podman, mHealth = defaultHealthConfig\<rparr>
      else Inl (ResolveRuntime ''auto'' ErrNoRuntime))"
proof -
  have "ToLower (TrimSpace ''auto'') = ''auto''" by code_simp
  then show ?thesis by (simp add: initEngine_def mainResolver_def ResolverGet_def NewManager_def)
qed

text \<open>A client that cannot reach its daemon is closed, and a reachable one stays open.\<close>

lemma defaultConnect_closes:
  "cnClosed (defaultConnect new lw addr) \<longleftrightarrow> new addr \<and> cnResult (defaultConnect new lw addr) \<noteq> Inr addr"
  by (simp add: defaultConnect_def)

lemma dial_agrees: "defaultBkDial new lw addr = Some (cnResult (defaultConnect new lw addr) = Inr addr)"
  by (simp add: defaultBkDial_def defaultConnect_def)


text \<open>
  The state of a container that the runtime reports by another name (a restarting one, say) is the empty
  string, so the status command says of it what it says of a missing container.
\<close>

lemma status_hides_unknown:
  assumes "rtInspect (mRt m) containerName w = (Inr (ParseState ''restarting''), w)"
    and "rtInspect (mRt m') containerName w = (Inl ErrContainerNotFound, w)"
  shows "engineStatusAction m w = engineStatusAction m' w \<and>
    fst (engineStatusAction m w) = Inr (''BuildKit engine: not running'' @ [CHR 0x0A])"
proof -
  have "ParseState ''restarting'' = StateUnknown" by code_simp
  with assms show ?thesis by (simp add: engineStatusAction_def Status_def)
qed

end
